(* ===== verification/Prelude.thy ===== *)
theory Prelude
  imports Main "HOL-Library.Word"
begin

text \<open>
  Shared vocabulary of the development: the machine types of the 32-bit kernel, the
  faults an operation can end in, bounded array access, and the generic lemmas on
  words and lists that the component theories use.
\<close>

unbundle bit_operations_syntax

section \<open>Machine types and faults\<close>

type_synonym u8 = "8 word"
type_synonym u16 = "16 word"
type_synonym u32 = "32 word"
type_synonym u64 = "64 word"

text \<open>
  The ways a kernel operation fails to return: \<open>GO_PANIC\<close> and \<open>ASSERT\<close> spin for
  ever, the others are accesses whose effect the C++ source leaves undefined. They are
  values of the model, so that every such branch of the source is visible.
\<close>

datatype fault =
    Kernel_Panic
  | Assertion_Failed
  | Null_Pointer
  | Out_Of_Bounds
  | Uninitialised
  | No_Return

type_synonym 'a outcome = "fault + 'a"

definition and_then :: "'a outcome \<Rightarrow> ('a \<Rightarrow> 'b outcome) \<Rightarrow> 'b outcome" where
  "and_then r f = (case r of Inl e \<Rightarrow> Inl e | Inr a \<Rightarrow> f a)"

lemma and_then_simps [simp]:
  "and_then (Inl e) f = Inl e"
  "and_then (Inr a) f = f a"
  by (simp_all add: and_then_def)

lemma and_then_Inr_iff:
  "and_then r f = Inr b \<longleftrightarrow> (\<exists>a. r = Inr a \<and> f a = Inr b)"
  by (cases r) auto

lemma and_then_assoc: "and_then (and_then r f) g = and_then r (\<lambda>a. and_then (f a) g)"
  by (cases r) auto

text \<open>Array access with the bound the source does not check.\<close>

definition load_at :: "'a list \<Rightarrow> nat \<Rightarrow> 'a outcome" where
  "load_at xs i = (if i < length xs then Inr (xs ! i) else Inl Out_Of_Bounds)"

definition store_at :: "'a list \<Rightarrow> nat \<Rightarrow> 'a \<Rightarrow> 'a list outcome" where
  "store_at xs i v = (if i < length xs then Inr (xs[i := v]) else Inl Out_Of_Bounds)"

lemma load_at_in [simp]: "i < length xs \<Longrightarrow> load_at xs i = Inr (xs ! i)"
  and load_at_out [simp]: "length xs \<le> i \<Longrightarrow> load_at xs i = Inl Out_Of_Bounds"
  by (simp_all add: load_at_def)

lemma store_at_in [simp]: "i < length xs \<Longrightarrow> store_at xs i v = Inr (xs[i := v])"
  and store_at_out [simp]: "length xs \<le> i \<Longrightarrow> store_at xs i v = Inl Out_Of_Bounds"
  by (simp_all add: store_at_def)

lemma load_at_Inr_iff: "load_at xs i = Inr v \<longleftrightarrow> i < length xs \<and> xs ! i = v"
  by (auto simp: load_at_def)

lemma store_at_Inr_iff: "store_at xs i v = Inr ys \<longleftrightarrow> i < length xs \<and> ys = xs[i := v]"
  by (auto simp: store_at_def)

section \<open>Rewrite collections\<close>

named_theorems no_wrap "unsigned arithmetic that stays below the word size"
named_theorems layout "sizes and addresses of the kernel's memory layout"

section \<open>Words\<close>

lemma unat_plus_no_wrap [no_wrap]:
  fixes a b :: "'a::len word"
  assumes "unat a + unat b < 2 ^ LENGTH('a)"
  shows "unat (a + b) = unat a + unat b"
  using assms by (simp add: unat_add_lem)

lemma unat_minus_no_wrap [no_wrap]:
  fixes a b :: "'a::len word"
  assumes "unat b \<le> unat a"
  shows "unat (a - b) = unat a - unat b"
  using assms by (simp add: unat_sub word_le_nat_alt)

lemma unat_of_nat_no_wrap [no_wrap]:
  assumes "n < 2 ^ LENGTH('a)"
  shows "unat (of_nat n :: 'a::len word) = n"
  using assms by (simp add: unsigned_of_nat take_bit_eq_mod)

lemma unat_of_nat_below [no_wrap]:
  assumes "k < unat (w :: 'a::len word)"
  shows "unat (of_nat k :: 'a word) = k"
  using assms unsigned_less [of w, where ?'a = nat] by (intro unat_of_nat_no_wrap) linarith

lemma of_nat_unat_id [simp]: "of_nat (unat w) = (w :: 'a::len word)"
  by simp

lemma unat_u32_less: "unat (w :: u32) < 4294967296"
  using unsigned_less [of w, where ?'a = nat] by simp

text \<open>Clearing the low bits rounds down to a multiple.\<close>

lemma unat_and_not_mask:
  "unat ((x::'a::len word) AND NOT (mask n)) = unat x div 2 ^ n * 2 ^ n"
proof -
  have push: "x AND NOT (mask n) = push_bit n (drop_bit n x)"
    by (rule bit_word_eqI) (auto simp: bit_simps)
  have bound: "unat x div 2 ^ n * 2 ^ n < 2 ^ LENGTH('a)"
    using div_times_less_eq_dividend unsigned_less order.strict_trans1 by metis
  have "unat (push_bit n (drop_bit n x)) = take_bit LENGTH('a) (push_bit n (drop_bit n (unat x)))"
    by (simp only: unsigned_push_bit_eq unsigned_drop_bit_eq take_bit_push_bit)
      (simp add: take_bit_eq_mod push_bit_eq_mult drop_bit_eq_div)
  also have "\<dots> = unat x div 2 ^ n * 2 ^ n"
    using bound by (simp only: push_bit_eq_mult drop_bit_eq_div take_bit_eq_mod mod_less)
  finally show ?thesis
    by (simp only: push)
qed

lemma unat_and_mask: "unat ((x::'a::len word) AND mask n) = unat x mod 2 ^ n"
  by (metis take_bit_eq_mask take_bit_eq_mod unsigned_take_bit_eq)

lemma low_and_high_mask:
  "((x::'a::len word) AND NOT (mask n)) + (x AND mask n) = x"
  by (metis (no_types, lifting) and.idem and_eq_not_not_or bit.conj_disj_distrib
      bit.de_Morgan_conj disjunctive_add_eq_or word_and_not word_ao_absorbs(2))

section \<open>Lists\<close>

lemma take_list_update_other: "n \<le> i \<Longrightarrow> take n (xs[i := v]) = take n xs"
  by (simp add: take_update_swap list_update_beyond)

lemma take_Suc_update: "n < length xs \<Longrightarrow> take (Suc n) (xs[n := v]) = take n xs @ [v]"
  by (simp add: take_Suc_conv_app_nth)

lemma nth_mem_take: "i < n \<Longrightarrow> i < length xs \<Longrightarrow> xs ! i \<in> set (take n xs)"
  by (metis in_set_conv_nth length_take min_less_iff_conj nth_take)

end
