(* ===== verification/Kuseful.thy ===== *)
theory Kuseful
  imports Prelude
begin

text \<open>
  The kernel's address and bit helpers: \<^verbatim>\<open>kuseful.h\<close> (pointer arithmetic, alignment,
  bit macros) and \<^verbatim>\<open>kbitset.h\<close> (the \<^verbatim>\<open>bitset\<close> namespace). Addresses are
  32-bit words, so pointer arithmetic wraps as it does on the machine. A shift of the
  \<^verbatim>\<open>int\<close> literal 1 by 32 or more is undefined in C++ and is a fault here.
\<close>

section \<open>Pointer arithmetic\<close>

definition PTR_ADVANCE :: "u32 \<Rightarrow> u32 \<Rightarrow> u32" where
  "PTR_ADVANCE ptr n = ptr + n"

definition PTR_ADD :: "u32 \<Rightarrow> u32 \<Rightarrow> u32" where
  "PTR_ADD a b = a + b"

definition PTR_SUB :: "u32 \<Rightarrow> u32 \<Rightarrow> u32" where
  "PTR_SUB a b = a - b"

section \<open>Alignment\<close>

text \<open>\<^verbatim>\<open>ALIGN_VAL\<close> works on 64-bit values; \<^verbatim>\<open>-value\<close> is two's complement.\<close>

definition ALIGN_VAL :: "u64 \<Rightarrow> u64 \<Rightarrow> u64" where
  "ALIGN_VAL value alignment = value + ((- value) AND (alignment - 1))"

text \<open>The reference: round up to the next multiple.\<close>

definition round_up :: "nat \<Rightarrow> nat \<Rightarrow> nat" where
  "round_up v a = (v + a - 1) div a * a"

lemma neg_plus_mod: "(unat (- x :: 'a::len word) + unat x) mod 2 ^ n = 0"
  if "n \<le> LENGTH('a)"
proof -
  have "(2::nat) ^ LENGTH('a) = 2 ^ n * 2 ^ (LENGTH('a) - n)"
    using that by (simp flip: power_add)
  then have dvd: "(2::nat) ^ n dvd 2 ^ LENGTH('a)" by simp
  have "(unat (- x) + unat x) mod 2 ^ LENGTH('a) = 0"
    by (metis add.left_inverse unat_0 unat_word_ariths(1))
  then show ?thesis
    using dvd mod_mod_cancel by (metis mod_0)
qed

lemma round_up_unique:
  assumes "(v + r) mod m = 0" and "r < m"
  shows "round_up v m = v + r"
proof -
  from assms(1) obtain q where q: "v + r = m * q"
    by (auto elim: dvdE dest: mod_0_imp_dvd)
  have "v + m - 1 = (m - 1 - r) + q * m"
    using q assms(2) by (simp add: mult.commute)
  also have "\<dots> div m = q + (m - 1 - r) div m"
    using assms(2) by (intro div_mult_self1) simp
  also have "(m - 1 - r) div m = 0"
    using assms(2) by (intro div_less) simp
  finally show ?thesis
    using q by (simp add: round_up_def mult.commute)
qed

lemma round_up_alt: "round_up v a = (v + a - 1) - (v + a - 1) mod a"
  by (simp add: round_up_def minus_mod_eq_div_mult)

lemma round_up_ge:
  assumes "0 < a"
  shows "v \<le> round_up v a"
proof -
  have "(v + a - 1) mod a \<le> a - 1"
    using assms mod_less_divisor [of a "v + a - 1"] by linarith
  then show ?thesis
    unfolding round_up_alt using assms by linarith
qed

lemma round_up_less: "0 < a \<Longrightarrow> round_up v a < v + a"
  unfolding round_up_alt by linarith

lemma round_up_multiple: "v mod a = 0 \<Longrightarrow> 0 < a \<Longrightarrow> round_up v a = v"
  using round_up_unique [of v 0 a] by simp

lemma round_up_between:
  assumes "v mod a \<noteq> 0" and "0 < a"
  shows "round_up v a = v div a * a + a"
proof -
  have le: "v mod a \<le> a"
    using assms(2) by (simp add: less_imp_le)
  have "v + (a - v mod a) = v div a * a + a"
    using le div_mult_mod_eq [of v a] by linarith
  moreover have "round_up v a = v + (a - v mod a)"
    using assms calculation by (intro round_up_unique) simp_all
  ultimately show ?thesis by simp
qed

lemma round_up_dvd: "a dvd round_up v a"
  by (simp add: round_up_def)

lemma unat_ALIGN_VAL:
  assumes "unat v + 2 ^ n \<le> 2 ^ 64" and "n < 64"
  shows "unat (ALIGN_VAL v (2 ^ n)) = round_up (unat v) (2 ^ n)"
proof -
  let ?r = "unat (- v) mod 2 ^ n"
  have mask: "(2::u64) ^ n - 1 = mask n"
    by (simp add: mask_eq_exp_minus_1)
  have r: "unat ((- v) AND (2 ^ n - 1)) = ?r"
    unfolding mask by (rule unat_and_mask)
  have lt: "?r < 2 ^ n" by simp
  then have "unat v + ?r < 2 ^ 64"
    using assms(1) by linarith
  then have "unat (ALIGN_VAL v (2 ^ n)) = unat v + ?r"
    using r unat_plus_no_wrap [of v "(- v) AND (2 ^ n - 1)"] by (simp add: ALIGN_VAL_def)
  moreover have "(unat v + ?r) mod 2 ^ n = 0"
    using neg_plus_mod [where x = v and n = n] assms(2)
    by (simp add: add.commute mod_add_right_eq)
  ultimately show ?thesis
    using round_up_unique [OF _ lt] by simp
qed

section \<open>Bits\<close>

definition shl_one :: "nat \<Rightarrow> u32 outcome" where
  "shl_one s = (if s < 32 then Inr (push_bit s 1) else Inl Out_Of_Bounds)"

definition BIT_IS_CLEAR :: "u64 \<Rightarrow> u64 \<Rightarrow> bool outcome" where
  "BIT_IS_CLEAR n k = and_then (shl_one (unat (k - 1))) (\<lambda>b. Inr (n AND scast b \<noteq> 0))"

definition BIT_IS_SET :: "u64 \<Rightarrow> u64 \<Rightarrow> bool outcome" where
  "BIT_IS_SET n k = and_then (BIT_IS_CLEAR n k) (\<lambda>c. Inr (\<not> c))"

definition IN_RANGE_X :: "u32 \<Rightarrow> u32 \<Rightarrow> u32 \<Rightarrow> bool" where
  "IN_RANGE_X n lo hi \<longleftrightarrow> n > lo \<and> n < hi"

definition IN_RANGE_C :: "u32 \<Rightarrow> u32 \<Rightarrow> u32 \<Rightarrow> bool" where
  "IN_RANGE_C n lo hi \<longleftrightarrow> n \<ge> lo \<and> n \<le> hi"

definition bitset_set :: "u32 \<Rightarrow> u32 \<Rightarrow> u32 outcome" where
  "bitset_set val idx = and_then (shl_one (unat (idx - 1))) (\<lambda>b. Inr (val OR b))"

definition bitset_test :: "u32 \<Rightarrow> u32 \<Rightarrow> bool outcome" where
  "bitset_test val idx = and_then (shl_one (unat (idx - 1))) (\<lambda>b. Inr (val AND b \<noteq> 0))"

lemma and_push_bit_one: "(w::'a::len word) AND push_bit s 1 \<noteq> 0 \<longleftrightarrow> bit w s"
proof -
  have "w AND push_bit s 1 = (if bit w s then push_bit s 1 else 0)"
    by (rule bit_word_eqI) (auto simp: bit_simps)
  moreover have "bit w s \<Longrightarrow> push_bit s (1::'a word) \<noteq> 0"
    by (metis bit_imp_le_length exp_eq_zero_iff linorder_not_less push_bit_of_1)
  ultimately show ?thesis by auto
qed

lemma and_exp_iff: "(w::'a::len word) AND 2 ^ s \<noteq> 0 \<longleftrightarrow> bit w s"
  using and_push_bit_one [of w s] by (simp only: push_bit_of_1)

lemma bitset_test_eq:
  assumes "1 \<le> idx" and "idx \<le> 32"
  shows "bitset_test val idx = Inr (bit val (unat idx - 1))"
proof -
  have "unat (idx - 1) = unat idx - 1" and "unat idx - 1 < 32"
    using assms by (auto simp: unat_minus_no_wrap word_le_nat_alt)
  then show ?thesis
    by (simp add: bitset_test_def shl_one_def and_exp_iff push_bit_of_1 del: not_gr_zero)
qed

lemma bitset_set_eq:
  assumes "1 \<le> idx" and "idx \<le> 32"
  shows "bitset_set val idx = Inr (set_bit (unat idx - 1) val)"
proof -
  have "unat (idx - 1) = unat idx - 1" and "unat idx - 1 < 32"
    using assms by (auto simp: unat_minus_no_wrap word_le_nat_alt)
  then show ?thesis
    by (simp add: bitset_set_def shl_one_def set_bit_eq_or)
qed

end
