(* ===== verification/Kheap.thy ===== *)
theory Kheap
  imports Kuseful
begin

text \<open>
  The primitive heap of \<^verbatim>\<open>kheap.cpp\<close> and \<^verbatim>\<open>kheap.h\<close>: a bump allocator over the
  global \<^verbatim>\<open>__primitive_heap\<close>, which nothing frees and nothing bounds. The state is the
  32-bit global itself; its start value (the linker symbol \<^verbatim>\<open>end\<close>) is a parameter.
\<close>

section \<open>Code\<close>

definition HEAP_ALIGNMENT :: u32 where "HEAP_ALIGNMENT = 0xFFFFF000"
definition PAGE_SIZE :: u32 where "PAGE_SIZE = 0x1000"
definition K_HEAP_START :: u32 where "K_HEAP_START = 0xC0000000"
definition K_HEAP_INITIAL_SIZE :: u32 where "K_HEAP_INITIAL_SIZE = 0x1000000"

definition IS_ALIGNED :: "u32 \<Rightarrow> bool" where
  "IS_ALIGNED addr \<longleftrightarrow> addr AND NOT HEAP_ALIGNMENT = 0"

text \<open>
  The result is the address, what is stored through \<^verbatim>\<open>phys\<close> when the caller passes a
  pointer, and the new heap top.
\<close>

definition Allocate_WPointer :: "u32 \<Rightarrow> bool \<Rightarrow> bool \<Rightarrow> u32 \<Rightarrow> u32 \<times> u32 option \<times> u32" where
  "Allocate_WPointer n phys alligned heap =
     (let heap1 = (if alligned
                   then (if \<not> IS_ALIGNED heap
                         then (heap AND HEAP_ALIGNMENT) + PAGE_SIZE
                         else heap)
                   else heap);
          out = (if phys then Some heap1 else None);
          tmp = heap1
      in (tmp, out, heap1 + n))"

definition Allocate :: "u32 \<Rightarrow> bool \<Rightarrow> u32 \<Rightarrow> u32 \<times> u32" where
  "Allocate n alligned heap =
     (case Allocate_WPointer n False alligned heap of (p, _, heap') \<Rightarrow> (p, heap'))"

section \<open>Alignment of the heap top\<close>

lemma HEAP_ALIGNMENT_mask: "HEAP_ALIGNMENT = NOT (mask 12)"
  by (simp add: HEAP_ALIGNMENT_def mask_eq_exp_minus_1)

lemma IS_ALIGNED_mod: "IS_ALIGNED a \<longleftrightarrow> unat a mod 4096 = 0"
proof -
  have "a AND NOT HEAP_ALIGNMENT = a AND mask 12"
    by (simp add: HEAP_ALIGNMENT_mask)
  moreover have "unat (a AND mask 12) = unat a mod 4096"
    using unat_and_mask [of a 12] by simp
  ultimately show ?thesis
    by (metis IS_ALIGNED_def unat_eq_zero unsigned_0)
qed

lemma unat_and_HEAP_ALIGNMENT: "unat (a AND HEAP_ALIGNMENT) = unat a div 4096 * 4096"
  using unat_and_not_mask [of a 12] by (simp add: HEAP_ALIGNMENT_mask)

text \<open>The address the next aligned allocation returns.\<close>

definition aligned_top :: "u32 \<Rightarrow> u32" where
  "aligned_top heap = fst (Allocate 0 True heap)"

lemma Allocate_aligned: "Allocate n True heap = (aligned_top heap, aligned_top heap + n)"
  by (simp add: aligned_top_def Allocate_def Allocate_WPointer_def Let_def)

lemma Allocate_unaligned: "Allocate n False heap = (heap, heap + n)"
  by (simp add: Allocate_def Allocate_WPointer_def)

lemma Allocate_WPointer_aligned:
  "Allocate_WPointer n phys True heap =
     (aligned_top heap, (if phys then Some (aligned_top heap) else None), aligned_top heap + n)"
  by (simp add: aligned_top_def Allocate_def Allocate_WPointer_def Let_def)

lemma unat_aligned_top:
  assumes "unat heap + 0x1000 \<le> 2 ^ 32"
  shows "unat (aligned_top heap) = round_up (unat heap) 4096"
proof (cases "unat heap mod 4096 = 0")
  case True
  then show ?thesis
    by (simp add: aligned_top_def Allocate_def Allocate_WPointer_def IS_ALIGNED_mod round_up_multiple)
next
  case False
  let ?d = "unat heap div 4096 * 4096"
  have "?d + 4096 < 2 ^ 32"
  proof -
    have "?d < unat heap"
      using False div_mult_mod_eq [of "unat heap" 4096] by linarith
    then show ?thesis using assms by linarith
  qed
  then have "unat ((heap AND HEAP_ALIGNMENT) + PAGE_SIZE) = ?d + 4096"
    using unat_plus_no_wrap [of "heap AND HEAP_ALIGNMENT" PAGE_SIZE]
    by (simp add: unat_and_HEAP_ALIGNMENT PAGE_SIZE_def)
  with False show ?thesis
    by (simp add: aligned_top_def Allocate_def Allocate_WPointer_def IS_ALIGNED_mod Let_def
        round_up_between)
qed

text \<open>Every aligned allocation starts on a page, even one that wraps.\<close>

lemma aligned_top_is_aligned: "IS_ALIGNED (aligned_top heap)"
proof (cases "IS_ALIGNED heap")
  case True
  then show ?thesis
    by (simp add: aligned_top_def Allocate_def Allocate_WPointer_def)
next
  case False
  have "unat ((heap AND HEAP_ALIGNMENT) + PAGE_SIZE) mod 4096 = 0"
    by (simp add: unat_word_ariths unat_and_HEAP_ALIGNMENT PAGE_SIZE_def mod_mod_cancel
        mod_mult_self1 flip: mult_Suc)
  with False show ?thesis
    by (simp add: aligned_top_def Allocate_def Allocate_WPointer_def IS_ALIGNED_mod Let_def)
qed

section \<open>A sequence of requests\<close>

text \<open>
  \<open>Allocate_all\<close> runs a list of \<open>(size, alligned)\<close> requests and collects the regions
  \<open>[start, start + size)\<close>, as the boot code does with the heap top as the only state.
\<close>

fun Allocate_all :: "(u32 \<times> bool) list \<Rightarrow> u32 \<Rightarrow> (u32 \<times> u32) list \<times> u32" where
  "Allocate_all [] heap = ([], heap)"
| "Allocate_all ((n, al) # rs) heap =
     (let (p, heap1) = Allocate n al heap; (ps, heap2) = Allocate_all rs heap1
      in ((p, n) # ps, heap2))"

definition region :: "u32 \<times> u32 \<Rightarrow> nat set" where
  "region r = {unat (fst r) ..< unat (fst r) + unat (snd r)}"

definition demand :: "(u32 \<times> bool) list \<Rightarrow> nat" where
  "demand rs = (\<Sum>r\<leftarrow>rs. unat (fst r) + 0x1000)"

lemma demand_simps [simp]:
  "demand [] = 0"
  "demand ((n, al) # rs) = unat n + 0x1000 + demand rs"
  by (simp_all add: demand_def)

lemma Allocate_bounds:
  assumes "unat heap + unat n + 0x1000 \<le> 2 ^ 32 - 1" and "Allocate n al heap = (p, heap1)"
  shows "unat heap \<le> unat p" and "unat heap1 = unat p + unat n" and "unat p < unat heap + 0x1000"
proof -
  have top: "unat (aligned_top heap) = round_up (unat heap) 4096"
    using assms(1) by (intro unat_aligned_top) simp
  have ge: "unat heap \<le> round_up (unat heap) 4096" and
    lt: "round_up (unat heap) 4096 < unat heap + 4096"
    by (simp_all add: round_up_ge round_up_less)
  have p: "unat heap \<le> unat p \<and> unat p < unat heap + 0x1000" and h: "heap1 = p + n"
    using assms(2) top ge lt by (cases al; auto simp: Allocate_aligned Allocate_unaligned)+
  then show "unat heap \<le> unat p" and "unat p < unat heap + 0x1000" by simp_all
  show "unat heap1 = unat p + unat n"
    using p assms(1) unfolding h by (intro unat_plus_no_wrap) simp
qed

text \<open>Whatever sequence of page-aligned and unaligned requests the kernel makes of its
  primitive heap, the regions it gets are pairwise disjoint and lie between the old and the new
  top, as long as the total stays inside the address space.\<close>

theorem Allocate_all_disjoint:
  assumes "Allocate_all rs heap = (ps, heap')" and "unat heap + demand rs \<le> 2 ^ 32 - 1"
  shows "unat heap \<le> unat heap' \<and> (\<forall>r \<in> set ps. region r \<subseteq> {unat heap ..< unat heap'})
      \<and> (\<forall>i < length ps. \<forall>j < i. region (ps ! i) \<inter> region (ps ! j) = {})"
  using assms
proof (induction rs arbitrary: heap ps)
  case Nil
  then show ?case by simp
next
  case (Cons r rs)
  obtain n al where r: "r = (n, al)" by force
  obtain p heap1 where a: "Allocate n al heap = (p, heap1)" by force
  obtain qs where qs: "Allocate_all rs heap1 = (qs, heap')" and ps: "ps = (p, n) # qs"
    using Cons.prems(1) a by (auto simp: r split: prod.splits)
  have bound: "unat heap + unat n + 0x1000 \<le> 2 ^ 32 - 1"
    using Cons.prems(2) by (simp add: r)
  note b = Allocate_bounds [OF bound a]
  have "unat heap1 + demand rs \<le> 2 ^ 32 - 1"
    using Cons.prems(2) b by (simp add: r)
  note IH = Cons.IH [OF qs this]
  have first: "region (p, n) = {unat p ..< unat heap1}"
    using b(2) by (simp add: region_def)
  have rest: "region (qs ! j) \<subseteq> {unat heap1 ..< unat heap'}" if "j < length qs" for j
    using IH that by simp
  have "region (ps ! i) \<inter> region (ps ! j) = {}" if "i < length ps" "j < i" for i j
  proof (cases j)
    case 0
    then show ?thesis
      using that first rest [of "i - 1"] by (force simp: ps nth_Cons')
  next
    case (Suc k)
    then show ?thesis
      using that IH by (simp add: ps nth_Cons')
  qed
  moreover have "\<forall>r \<in> set ps. region r \<subseteq> {unat heap ..< unat heap'}"
    using first IH b by (force simp: ps)
  ultimately show ?case
    using IH b by auto
qed

theorem Allocate_all_disjoint_witness:
  "Allocate_all [(20, True), (6800, True), (26, False)] 0x200010
     = ([(0x201000, 20), (0x202000, 6800), (0x203A90, 26)], 0x203AAA)
   \<and> region (0x203A90, 26) \<inter> region (0x202000, 6800) = {}"
proof -
  have run: "Allocate_all [(20, True), (6800, True), (26, False)] 0x200010
     = ([(0x201000, 20), (0x202000, 6800), (0x203A90, 26)], 0x203AAA)"
    by (simp add: Allocate_def Allocate_WPointer_def IS_ALIGNED_def HEAP_ALIGNMENT_def PAGE_SIZE_def)
  show ?thesis
    using Allocate_all_disjoint [OF run] run by (auto simp: nth_Cons' split: if_splits)
qed

end
