(* ===== verification/Kmm.thy ===== *)
theory Kmm
  imports Kheap
begin

text \<open>
  The kernel's memory manager, \<^verbatim>\<open>kmm.cpp\<close> / \<^verbatim>\<open>kmm.h\<close> and the operators of
  \<^verbatim>\<open>mem_operators.hpp\<close>: a bin of 100 slots of 64 bytes for small requests and a doubly
  linked list of variable-size chunks above it. Chunk headers live in a typed store from
  addresses to headers; the bytes of the blocks handed out are not part of the state.

  One value is a parameter of the model: C++ defines the difference of two
  \<^verbatim>\<open>big_chunk_t\<close> pointers only inside one array, and the allocator takes it between
  chunks that are not a multiple of 13 bytes apart. \<open>pdiff\<close> stands for what the
  implementation yields; no statement below depends on it.
\<close>

section \<open>Data\<close>

definition FASTBIN_THRESHOLD :: u32 where "FASTBIN_THRESHOLD = 0x40"
definition FASTBIN_MAX_SIZE :: u32 where "FASTBIN_MAX_SIZE = 0x64"
definition CHUNK_SIZE_ALIGN :: u64 where "CHUNK_SIZE_ALIGN = 8"
definition SIZEOF_FAST_CHUNK :: u32 where "SIZEOF_FAST_CHUNK = 4"
definition SIZEOF_FAST_BIN :: u32 where "SIZEOF_FAST_BIN = 20"
definition SIZEOF_BIG_CHUNK :: u32 where "SIZEOF_BIG_CHUNK = 13"
definition SIZEOF_HEAP :: u32 where "SIZEOF_HEAP = 26"

text \<open>Of a fast chunk only its \<^verbatim>\<open>ptr_to_heap\<close> exists; null is 0.\<close>

record FastBin =
  fb_chunks :: "u32 list"
  fb_chunk_size :: u32
  fb_bin_size :: u32
  fb_start_addr :: u32
  fb_end_addr :: u32

record BigChunk =
  bc_prev :: u32
  bc_next :: u32
  bc_size :: u32
  bc_used :: bool

record Heap =
  hp_fast_bins :: u32
  hp_big_chunks :: u32
  hp_allocated_chunks :: u32
  hp_start_address :: u32
  hp_end_address :: u32
  hp_max_address :: u32
  hp_is_kernel :: bool
  hp_rw :: bool

record mm_state =
  fast_bin :: FastBin
  mapped_heap :: Heap
  chunk_at :: "u32 \<Rightarrow> BigChunk"

definition zero_chunk :: BigChunk where
  "zero_chunk = \<lparr>bc_prev = 0, bc_next = 0, bc_size = 0, bc_used = False\<rparr>"

definition set_chunk :: "u32 \<Rightarrow> (BigChunk \<Rightarrow> BigChunk) \<Rightarrow> mm_state \<Rightarrow> mm_state" where
  "set_chunk a f st = st\<lparr>chunk_at := (chunk_at st)(a := f (chunk_at st a))\<rparr>"

definition BIGCHUNK_MIN_SPACE :: u32 where
  "BIGCHUNK_MIN_SPACE = SIZEOF_BIG_CHUNK + FASTBIN_THRESHOLD + 1"

definition BIGCHUNK_DATA_BEGIN :: "u32 \<Rightarrow> u32" where
  "BIGCHUNK_DATA_BEGIN chunk = chunk + SIZEOF_BIG_CHUNK"

section \<open>Initialisation\<close>

text \<open>
  \<^verbatim>\<open>MemoryManager::Initialize\<close> up to the call of \<^verbatim>\<open>paging::Initialize\<close>: three allocations
  on the primitive heap, whose new top is returned, and the alignment assertion. The table
  of slots is as long as the block reserved for it; \<open>bin_mem\<close> is what the block holds, of
  which the code clears the first 100 entries.
\<close>

definition mm_Initialize ::
    "u32 \<Rightarrow> u32 \<Rightarrow> u32 \<Rightarrow> bool \<Rightarrow> bool \<Rightarrow> u32 list \<Rightarrow> (u32 \<Rightarrow> BigChunk) \<Rightarrow> u32 \<Rightarrow> (mm_state \<times> u32) outcome" where
  "mm_Initialize start end max_addr is_kernel rw bin_mem chunks0 heap =
     (let (_, heap1) = Allocate SIZEOF_FAST_BIN True heap;
          end_addr = start + (SIZEOF_FAST_CHUNK + FASTBIN_THRESHOLD) * FASTBIN_MAX_SIZE;
          reserve = end_addr - start;
          fastbin_area_end = start + reserve;
          (_, heap2) = Allocate reserve True heap1;
          fb = \<lparr>fb_chunks = replicate (unat FASTBIN_MAX_SIZE) 0 @ drop (unat FASTBIN_MAX_SIZE) bin_mem,
                fb_chunk_size = FASTBIN_THRESHOLD,
                fb_bin_size = FASTBIN_MAX_SIZE, fb_start_addr = start, fb_end_addr = end_addr\<rparr>;
          (_, heap3) = Allocate SIZEOF_HEAP True heap2
      in if \<not> (IS_ALIGNED start \<and> IS_ALIGNED end) then Inl Kernel_Panic
         else Inr (\<lparr>fast_bin = fb,
                mapped_heap = \<lparr>hp_fast_bins = start, hp_big_chunks = fastbin_area_end,
                  hp_allocated_chunks = 0, hp_start_address = start, hp_end_address = end,
                  hp_max_address = max_addr, hp_is_kernel = is_kernel, hp_rw = rw\<rparr>,
                chunk_at = chunks0(fastbin_area_end := zero_chunk)\<rparr>, heap3))"

section \<open>Fast bins\<close>

function malloc_fastbin_from :: "nat \<Rightarrow> mm_state \<Rightarrow> (u32 \<times> mm_state) outcome" where
  "malloc_fastbin_from i st =
     (if i < unat (fb_bin_size (fast_bin st))
      then (case load_at (fb_chunks (fast_bin st)) i of
              Inl e \<Rightarrow> Inl e
            | Inr p \<Rightarrow>
                if p = 0
                then (let heap_addr = hp_fast_bins (mapped_heap st)
                            + 4 * (of_nat i * fb_chunk_size (fast_bin st) div 4)
                      in Inr (heap_addr, st\<lparr>fast_bin := (fast_bin st)
                                \<lparr>fb_chunks := (fb_chunks (fast_bin st))[i := heap_addr]\<rparr>\<rparr>))
                else malloc_fastbin_from (Suc i) st)
      else Inr (0, st))"
  by pat_completeness auto
termination
  by (relation "measure (\<lambda>(i, st). unat (fb_bin_size (fast_bin st)) - i)") auto

declare malloc_fastbin_from.simps [simp del]

definition malloc_fastbin :: "mm_state \<Rightarrow> (u32 \<times> mm_state) outcome" where
  "malloc_fastbin st = malloc_fastbin_from 0 st"

definition free_fastbin :: "u32 \<Rightarrow> mm_state \<Rightarrow> mm_state outcome" where
  "free_fastbin ptr st =
     (let chunk_idx = PTR_SUB ptr (hp_fast_bins (mapped_heap st)) div FASTBIN_THRESHOLD
      in and_then (store_at (fb_chunks (fast_bin st)) (unat chunk_idx) 0)
           (\<lambda>cs. Inr (st\<lparr>fast_bin := (fast_bin st)\<lparr>fb_chunks := cs\<rparr>\<rparr>)))"

section \<open>Big chunks\<close>

text \<open>
  The search: walk the links while there is a next chunk; stop at the first unused chunk
  whose distance to the next one suffices. The chunk where the walk stopped comes with
  whether it is a hole. On a cyclic list the walk never ends, which is \<open>None\<close>.
\<close>

partial_function (option) find_hole :: "(u32 \<Rightarrow> BigChunk) \<Rightarrow> u32 \<Rightarrow> u32 \<Rightarrow> (u32 \<times> bool) option" where
  "find_hole chunks req_size cur =
     (if bc_next (chunks cur) \<noteq> 0
      then (if \<not> bc_used (chunks cur)
               \<and> PTR_SUB (bc_next (chunks cur)) cur < 0xFFFFFFFF
               \<and> PTR_SUB (bc_next (chunks cur)) cur \<ge> req_size
            then Some (cur, True)
            else find_hole chunks req_size (bc_next (chunks cur)))
      else Some (cur, False))"

text \<open>
  Reusing a hole. The code overwrites \<^verbatim>\<open>smallest_hole_value\<close> with the requested size
  before it asks whether the hole is worth splitting.
\<close>

definition use_hole :: "(u32 \<Rightarrow> u32 \<Rightarrow> u32) \<Rightarrow> u32 \<Rightarrow> u32 \<Rightarrow> mm_state \<Rightarrow> mm_state" where
  "use_hole pdiff req_size ret st =
     (let smallest_hole_value = req_size;
          st1 = set_chunk ret (\<lambda>c. c\<lparr>bc_used := True\<rparr>) st;
          nxt = bc_next (chunk_at st1 ret)
      in if smallest_hole_value - BIGCHUNK_MIN_SPACE > req_size
         then (let unused = PTR_ADVANCE ret req_size;
                   st2 = set_chunk unused (\<lambda>_. zero_chunk\<lparr>bc_size := PTR_SUB nxt ret - req_size\<rparr>) st1;
                   tmp = bc_next (chunk_at st2 ret);
                   st3 = set_chunk ret (\<lambda>c. c\<lparr>bc_next := unused\<rparr>) st2;
                   st4 = set_chunk tmp (\<lambda>c. c\<lparr>bc_prev := unused\<rparr>) st3
               in set_chunk unused (\<lambda>c. c\<lparr>bc_prev := ret, bc_next := tmp\<rparr>) st4)
         else set_chunk ret (\<lambda>c. c\<lparr>bc_size := pdiff nxt ret - 1\<rparr>) st1)"

definition append_chunk :: "u32 \<Rightarrow> u32 \<Rightarrow> mm_state \<Rightarrow> u32 \<times> mm_state" where
  "append_chunk req_size cur st =
     (let new_chunk = PTR_ADVANCE cur (bc_size (chunk_at st cur));
          st1 = set_chunk new_chunk (\<lambda>_. zero_chunk) st;
          st2 = set_chunk cur (\<lambda>c. c\<lparr>bc_next := new_chunk\<rparr>) st1;
          st3 = set_chunk new_chunk (\<lambda>c. c\<lparr>bc_prev := cur, bc_used := True, bc_size := req_size\<rparr>) st2
      in (new_chunk, st3))"

definition count_allocated :: "(u32 \<Rightarrow> u32) \<Rightarrow> mm_state \<Rightarrow> mm_state" where
  "count_allocated f st = st\<lparr>mapped_heap := (mapped_heap st)
     \<lparr>hp_allocated_chunks := f (hp_allocated_chunks (mapped_heap st))\<rparr>\<rparr>"

definition malloc_big :: "(u32 \<Rightarrow> u32 \<Rightarrow> u32) \<Rightarrow> u32 \<Rightarrow> mm_state \<Rightarrow> (u32 \<times> mm_state) outcome" where
  "malloc_big pdiff req_size st =
     (let curr_chunk = hp_big_chunks (mapped_heap st);
          picked =
            (if hp_allocated_chunks (mapped_heap st) = 0
             then Inr (curr_chunk, set_chunk curr_chunk (\<lambda>c. c\<lparr>bc_size := req_size, bc_used := True\<rparr>) st)
             else (case find_hole (chunk_at st) req_size curr_chunk of
                     None \<Rightarrow> Inl No_Return
                   | Some (c, True) \<Rightarrow> Inr (c, use_hole pdiff req_size c st)
                   | Some (c, False) \<Rightarrow> Inr (append_chunk req_size c st)))
      in and_then picked (\<lambda>(ret, st1).
           Inr (BIGCHUNK_DATA_BEGIN ret, count_allocated (\<lambda>n. if ret \<noteq> 0 then n + 1 else n) st1)))"

text \<open>The two consolidations of \<^verbatim>\<open>__free_big\<close>, each unlinking the neighbour it swallows.\<close>

definition consolidate_forwards :: "u32 \<Rightarrow> mm_state \<Rightarrow> mm_state" where
  "consolidate_forwards chunk st =
     (let tmp = bc_next (chunk_at st chunk)
      in if tmp \<noteq> 0 \<and> \<not> bc_used (chunk_at st tmp)
         then (let st1 = set_chunk chunk (\<lambda>c. c\<lparr>bc_next := bc_next (chunk_at st tmp)\<rparr>) st;
                   nn = bc_next (chunk_at st1 tmp);
                   st2 = (if nn \<noteq> 0 then set_chunk nn (\<lambda>c. c\<lparr>bc_prev := chunk\<rparr>) st1 else st1)
               in set_chunk chunk (\<lambda>c. c\<lparr>bc_size := bc_size c + (bc_size (chunk_at st2 tmp) + SIZEOF_BIG_CHUNK)\<rparr>) st2)
         else st)"

definition consolidate_backwards :: "u32 \<Rightarrow> mm_state \<Rightarrow> mm_state" where
  "consolidate_backwards chunk st =
     (let tmp = bc_prev (chunk_at st chunk)
      in if tmp \<noteq> 0 \<and> \<not> bc_used (chunk_at st tmp)
         then (let st1 = set_chunk chunk (\<lambda>c. c\<lparr>bc_prev := bc_prev (chunk_at st tmp)\<rparr>) st;
                   pp = bc_prev (chunk_at st1 tmp);
                   st2 = (if pp \<noteq> 0 then set_chunk pp (\<lambda>c. c\<lparr>bc_next := chunk\<rparr>) st1 else st1)
               in set_chunk chunk (\<lambda>c. c\<lparr>bc_size := bc_size c + (bc_size (chunk_at st2 tmp) + SIZEOF_BIG_CHUNK)\<rparr>) st2)
         else st)"

definition free_big :: "u32 \<Rightarrow> mm_state \<Rightarrow> mm_state" where
  "free_big ptr st =
     (let chunk = PTR_ADVANCE ptr (- SIZEOF_BIG_CHUNK);
          st1 = set_chunk chunk (\<lambda>c. c\<lparr>bc_used := False\<rparr>) st;
          st2 = consolidate_forwards chunk st1;
          st3 = consolidate_backwards chunk st2
      in count_allocated (\<lambda>n. n - 1) st3)"

section \<open>malloc, free, and the operators\<close>

definition big_request :: "u32 \<Rightarrow> u32" where
  "big_request sz = ucast (ALIGN_VAL (ucast (sz + SIZEOF_BIG_CHUNK)) CHUNK_SIZE_ALIGN)"

definition malloc :: "(u32 \<Rightarrow> u32 \<Rightarrow> u32) \<Rightarrow> u32 \<Rightarrow> mm_state \<Rightarrow> (u32 \<times> mm_state) outcome" where
  "malloc pdiff sz st =
     (if sz = 0 then Inr (0, st)
      else if sz \<le> FASTBIN_THRESHOLD then malloc_fastbin st
      else malloc_big pdiff (big_request sz) st)"

definition free :: "u32 \<Rightarrow> mm_state \<Rightarrow> mm_state outcome" where
  "free ptr st =
     (if ptr \<ge> hp_fast_bins (mapped_heap st) \<and> ptr \<le> hp_big_chunks (mapped_heap st)
      then free_fastbin ptr st
      else Inr (free_big ptr st))"

definition operator_new :: "(u32 \<Rightarrow> u32 \<Rightarrow> u32) \<Rightarrow> u32 \<Rightarrow> mm_state \<Rightarrow> (u32 \<times> mm_state) outcome" where
  "operator_new pdiff sz st = malloc pdiff sz st"

definition operator_delete :: "u32 \<Rightarrow> mm_state \<Rightarrow> mm_state outcome" where
  "operator_delete ptr st = free ptr st"

end
