(* ===== verification/Kmm_Small.thy ===== *)
theory Kmm_Small
  imports Kmm
begin

text \<open>
  The fast bins. \<open>small_source\<close> is what a client of the operators may rely on for
  requests of at most 64 bytes: a fresh non-null block while there is room, null with
  nothing changed when there is none, and a release that gives the block back. Clients
  reason inside the locale; its interpretation discharges the laws for
  \<^verbatim>\<open>__malloc_fastbin\<close> and \<^verbatim>\<open>__free_fastbin\<close>.
\<close>

section \<open>The interface\<close>

text \<open>Any number of requests in a row, stopping at a null answer.\<close>

fun take_blocks :: "('s \<Rightarrow> (u32 \<times> 's) outcome) \<Rightarrow> nat \<Rightarrow> 's \<Rightarrow> (u32 list \<times> 's) outcome" where
  "take_blocks get 0 s = Inr ([], s)"
| "take_blocks get (Suc n) s =
     and_then (get s) (\<lambda>(p, s').
       if p = 0 then Inl Null_Pointer
       else and_then (take_blocks get n s') (\<lambda>(ps, s''). Inr (p # ps, s'')))"

locale small_source =
  fixes get :: "'s \<Rightarrow> (u32 \<times> 's) outcome"
    and put :: "u32 \<Rightarrow> 's \<Rightarrow> 's outcome"
    and held :: "'s \<Rightarrow> u32 set"
    and room :: nat
    and invar :: "'s \<Rightarrow> bool"
  assumes get_fresh: "invar s \<Longrightarrow> card (held s) < room \<Longrightarrow>
      \<exists>p s'. get s = Inr (p, s') \<and> p \<noteq> 0 \<and> p \<notin> held s \<and> held s' = insert p (held s) \<and> invar s'"
    and get_full: "invar s \<Longrightarrow> room \<le> card (held s) \<Longrightarrow> get s = Inr (0, s)"
    and put_held: "invar s \<Longrightarrow> p \<in> held s \<Longrightarrow>
      \<exists>s'. put p s = Inr s' \<and> held s' = held s - {p} \<and> invar s'"
    and held_finite: "invar s \<Longrightarrow> finite (held s)"
begin

lemma get_total: "invar s \<Longrightarrow> \<exists>p s'. get s = Inr (p, s') \<and> invar s'"
  using get_fresh get_full by (meson not_le_imp_less)

lemma get_null_iff: "invar s \<Longrightarrow> get s = Inr (p, s') \<Longrightarrow> p = 0 \<longleftrightarrow> room \<le> card (held s)"
  using get_fresh get_full
  by (metis Inr_inject Pair_inject not_le_imp_less)

lemma put_get:
  assumes "invar s" and "get s = Inr (p, s')" and "p \<noteq> 0"
  shows "\<exists>s''. put p s' = Inr s'' \<and> held s'' = held s \<and> invar s''"
proof -
  from assms have "card (held s) < room"
    using get_null_iff by (meson not_le_imp_less)
  then have *: "p \<notin> held s" "held s' = insert p (held s)" "invar s'"
    using get_fresh [OF assms(1)] assms(2) by auto
  then show ?thesis
    using put_held [OF *(3), of p] by auto
qed

lemma take_blocks_fresh:
  assumes "invar s" and "n + card (held s) \<le> room"
  shows "\<exists>ps s'. take_blocks get n s = Inr (ps, s') \<and> length ps = n \<and> distinct ps \<and> 0 \<notin> set ps
    \<and> set ps \<inter> held s = {} \<and> held s' = held s \<union> set ps \<and> invar s'"
  using assms
proof (induction n arbitrary: s)
  case 0
  then show ?case by simp
next
  case (Suc n)
  then obtain p s1 where p: "get s = Inr (p, s1)" "p \<noteq> 0" "p \<notin> held s"
      "held s1 = insert p (held s)" "invar s1"
    using get_fresh [of s] by auto
  have "n + card (held s1) \<le> room"
    using Suc.prems p held_finite [OF Suc.prems(1)] by simp
  from Suc.IH [OF p(5) this] obtain ps s' where
    "take_blocks get n s1 = Inr (ps, s')" "length ps = n" "distinct ps" "0 \<notin> set ps"
    "set ps \<inter> held s1 = {}" "held s' = held s1 \<union> set ps" "invar s'" by auto
  then show ?case
    using p by (intro exI [of _ "p # ps"] exI [of _ s']) auto
qed

end

section \<open>Slots\<close>

definition slot_addr :: "mm_state \<Rightarrow> nat \<Rightarrow> u32" where
  "slot_addr st i = hp_fast_bins (mapped_heap st) + 64 * of_nat i"

text \<open>
  The bin as \<^verbatim>\<open>Initialize\<close> leaves it and every operation keeps it: 100 slots of 64 bytes
  from the start of the heap, the big chunks after the reserved area, no wrap-around, and a
  slot's entry is null or the slot's address.
\<close>

definition bin_wf :: "mm_state \<Rightarrow> bool" where
  "bin_wf st \<longleftrightarrow>
     fb_bin_size (fast_bin st) = FASTBIN_MAX_SIZE \<and> fb_chunk_size (fast_bin st) = FASTBIN_THRESHOLD
     \<and> 100 \<le> length (fb_chunks (fast_bin st))
     \<and> 0 < hp_fast_bins (mapped_heap st)
     \<and> unat (hp_fast_bins (mapped_heap st)) + 6800 < 2 ^ 32
     \<and> hp_big_chunks (mapped_heap st) = hp_fast_bins (mapped_heap st) + 6800
     \<and> (\<forall>i < 100. fb_chunks (fast_bin st) ! i = 0 \<or> fb_chunks (fast_bin st) ! i = slot_addr st i)"

definition used_slots :: "mm_state \<Rightarrow> nat set" where
  "used_slots st = {i. i < 100 \<and> fb_chunks (fast_bin st) ! i \<noteq> 0}"

definition small_blocks :: "mm_state \<Rightarrow> u32 set" where
  "small_blocks st = slot_addr st ` used_slots st"

lemma bin_wfD:
  assumes "bin_wf st"
  shows "fb_bin_size (fast_bin st) = 100" and "fb_chunk_size (fast_bin st) = 64"
    and "100 \<le> length (fb_chunks (fast_bin st))"
    and "unat (hp_fast_bins (mapped_heap st)) + 6800 < 2 ^ 32"
    and "0 < unat (hp_fast_bins (mapped_heap st))"
    and "i < 100 \<Longrightarrow> fb_chunks (fast_bin st) ! i \<noteq> 0 \<Longrightarrow> fb_chunks (fast_bin st) ! i = slot_addr st i"
  using assms unfolding bin_wf_def FASTBIN_MAX_SIZE_def FASTBIN_THRESHOLD_def
  by (auto simp: unat_gt_0)

lemma unat_slot_addr:
  assumes "bin_wf st" and "i < 100"
  shows "unat (slot_addr st i) = unat (hp_fast_bins (mapped_heap st)) + 64 * i"
proof -
  have off: "unat (64 * of_nat i :: u32) = 64 * i"
    using assms(2) by (simp add: unat_word_ariths unsigned_of_nat take_bit_eq_mod)
  have "unat (hp_fast_bins (mapped_heap st)) + unat (64 * of_nat i :: u32) < 2 ^ LENGTH(32)"
    using assms(2) bin_wfD(4) [OF assms(1)] by (simp add: off)
  from unat_plus_no_wrap [OF this] show ?thesis
    by (simp only: slot_addr_def off)
qed

lemma slot_addr_nonzero: "bin_wf st \<Longrightarrow> i < 100 \<Longrightarrow> slot_addr st i \<noteq> 0"
  using unat_slot_addr [of st i] bin_wfD(5) [of st] by fastforce

lemma slot_addr_inject:
  "bin_wf st \<Longrightarrow> i < 100 \<Longrightarrow> j < 100 \<Longrightarrow> slot_addr st i = slot_addr st j \<longleftrightarrow> i = j"
  using unat_slot_addr [of st i] unat_slot_addr [of st j]
  by (metis add_left_cancel mult_left_cancel zero_neq_numeral)

lemma slot_in_region:
  assumes "bin_wf st" and "i < 100"
  shows "hp_fast_bins (mapped_heap st) \<le> slot_addr st i" and "slot_addr st i \<le> hp_big_chunks (mapped_heap st)"
proof -
  have "unat (hp_big_chunks (mapped_heap st)) = unat (hp_fast_bins (mapped_heap st)) + 6800"
    using bin_wfD(4) [OF assms(1)] assms(1) unat_plus_no_wrap [of "hp_fast_bins (mapped_heap st)" 6800]
    by (simp add: bin_wf_def)
  then show "hp_fast_bins (mapped_heap st) \<le> slot_addr st i" and "slot_addr st i \<le> hp_big_chunks (mapped_heap st)"
    using assms unat_slot_addr [OF assms] by (simp_all add: word_le_nat_alt)
qed

lemma used_slots_props:
  "finite (used_slots st)" "used_slots st \<subseteq> {..< 100}" "card (used_slots st) \<le> 100"
proof -
  show sub: "used_slots st \<subseteq> {..< 100}" by (auto simp: used_slots_def)
  then show "finite (used_slots st)" by (rule finite_subset) simp
  show "card (used_slots st) \<le> 100" using card_mono [OF _ sub] by simp
qed

lemma card_small_blocks: "bin_wf st \<Longrightarrow> card (small_blocks st) = card (used_slots st)"
  unfolding small_blocks_def
  by (intro card_image inj_onI) (auto simp: used_slots_def slot_addr_inject)

text \<open>The state with entry \<open>i\<close> of the bin overwritten.\<close>

definition put_slot :: "nat \<Rightarrow> u32 \<Rightarrow> mm_state \<Rightarrow> mm_state" where
  "put_slot i v st = st\<lparr>fast_bin := (fast_bin st)\<lparr>fb_chunks := (fb_chunks (fast_bin st))[i := v]\<rparr>\<rparr>"

lemma put_slot_simps [simp]:
  "mapped_heap (put_slot i v st) = mapped_heap st" "chunk_at (put_slot i v st) = chunk_at st"
  "fb_chunks (fast_bin (put_slot i v st)) = (fb_chunks (fast_bin st))[i := v]"
  "fb_bin_size (fast_bin (put_slot i v st)) = fb_bin_size (fast_bin st)"
  "fb_chunk_size (fast_bin (put_slot i v st)) = fb_chunk_size (fast_bin st)"
  "slot_addr (put_slot i v st) = slot_addr st"
  by (simp_all add: put_slot_def slot_addr_def fun_eq_iff)

lemma put_slot_wf:
  assumes "bin_wf st" and "i < 100" and "v = 0 \<or> v = slot_addr st i"
  shows "bin_wf (put_slot i v st)"
  using assms by (auto simp: bin_wf_def nth_list_update)

lemma put_slot_used:
  assumes "bin_wf st" and "i < 100"
  shows "used_slots (put_slot i v st) = (if v = 0 then used_slots st - {i} else insert i (used_slots st))"
proof -
  have "i < length (fb_chunks (fast_bin st))" using assms bin_wfD(3) by fastforce
  then show ?thesis
    using assms(2) by (auto simp: used_slots_def nth_list_update)
qed

section \<open>The scan\<close>

text \<open>The source divides the byte offset by four and lets pointer arithmetic multiply it back.\<close>

lemma slot_offset:
  assumes "i < 100"
  shows "4 * (of_nat i * 64 div 4) = (64 * of_nat i :: u32)"
proof -
  have "unat (of_nat i * 64 :: u32) = i * 64"
    using assms by (simp add: unat_word_ariths unsigned_of_nat take_bit_eq_mod)
  then have "unat (of_nat i * 64 div 4 :: u32) = 16 * i"
    by (simp add: unat_div)
  then have "(of_nat i * 64 div 4 :: u32) = of_nat (16 * i)"
    by (metis of_nat_unat_id)
  then show ?thesis by simp
qed

lemma atLeastLessThan_eq_insert: "i < n \<Longrightarrow> {i ..< n} = insert i {Suc i ..< n}"
  by (rule set_eqI) (simp add: Suc_le_eq, linarith)

lemma malloc_fastbin_from_spec:
  assumes "bin_wf st" and "i \<le> 100"
  shows "malloc_fastbin_from i st =
    (if {i ..< 100} \<subseteq> used_slots st then Inr (0, st)
     else (let k = LEAST k. i \<le> k \<and> k \<notin> used_slots st
           in Inr (slot_addr st k, put_slot k (slot_addr st k) st)))"
  using assms(2)
proof (induction "100 - i" arbitrary: i)
  case 0
  then show ?case
    using bin_wfD(1) [OF assms(1)] by (subst malloc_fastbin_from.simps) simp
next
  case (Suc n)
  have i: "i < 100" "i < length (fb_chunks (fast_bin st))"
    using Suc bin_wfD(3) [OF assms(1)] by auto
  have bins: "unat (fb_bin_size (fast_bin st)) = 100" "fb_chunk_size (fast_bin st) = 64"
    using bin_wfD(1,2) [OF assms(1)] by simp_all
  show ?case
  proof (cases "fb_chunks (fast_bin st) ! i = 0")
    case True
    have addr: "hp_fast_bins (mapped_heap st) + 4 * (of_nat i * fb_chunk_size (fast_bin st) div 4) = slot_addr st i"
      by (simp only: bins slot_addr_def slot_offset [OF i(1)])
    have "i \<notin> used_slots st" using True by (simp add: used_slots_def)
    then have least: "(LEAST k. i \<le> k \<and> k \<notin> used_slots st) = i"
      by (intro Least_equality) auto
    have "\<not> {i ..< 100} \<subseteq> used_slots st" using \<open>i \<notin> used_slots st\<close> i(1) by (auto simp: subset_iff)
    moreover have "malloc_fastbin_from i st = Inr (slot_addr st i, put_slot i (slot_addr st i) st)"
      by (subst malloc_fastbin_from.simps, unfold addr) (simp add: True i bins(1) put_slot_def Let_def)
    ultimately show ?thesis
      by (simp only: least if_False Let_def)
  next
    case False
    then have used: "i \<in> used_slots st" using i by (simp add: used_slots_def)
    have sub: "{i ..< 100} \<subseteq> used_slots st \<longleftrightarrow> {Suc i ..< 100} \<subseteq> used_slots st"
      using used i(1) by (simp add: atLeastLessThan_eq_insert)
    have least: "(LEAST k. i \<le> k \<and> k \<notin> used_slots st) = (LEAST k. Suc i \<le> k \<and> k \<notin> used_slots st)"
      using used by (intro arg_cong [where f = Least] ext) (metis Suc_leD Suc_leI le_neq_implies_less)
    have "malloc_fastbin_from i st = malloc_fastbin_from (Suc i) st"
      using False i bins by (subst malloc_fastbin_from.simps) simp
    then show ?thesis
      using Suc.hyps(1) [of "Suc i"] Suc.hyps(2) i(1) by (simp only: sub least)
  qed
qed

lemma malloc_fastbin_full:
  "bin_wf st \<Longrightarrow> card (used_slots st) = 100 \<Longrightarrow> malloc_fastbin st = Inr (0, st)"
  using malloc_fastbin_from_spec [of st 0] used_slots_props(2) [of st]
    card_subset_eq [of "{..<100}" "used_slots st"]
  by (simp add: malloc_fastbin_def lessThan_atLeast0)

lemma malloc_fastbin_free_slot:
  assumes "bin_wf st" and "card (used_slots st) < 100"
  obtains k where "k < 100" and "k \<notin> used_slots st" and "{..< k} \<subseteq> used_slots st"
    and "malloc_fastbin st = Inr (slot_addr st k, put_slot k (slot_addr st k) st)"
proof -
  define k where "k = (LEAST k. 0 \<le> k \<and> k \<notin> used_slots st)"
  have "\<not> {0 ..< 100} \<subseteq> used_slots st"
    using assms(2) card_mono [OF used_slots_props(1), of "{0 ..< 100}" st] by auto
  then obtain j where j: "j < 100" "j \<notin> used_slots st" by (meson atLeastLessThan_iff subsetI)
  have "k \<notin> used_slots st" "k \<le> j"
    using j LeastI [of "\<lambda>k. 0 \<le> k \<and> k \<notin> used_slots st" j]
      Least_le [of "\<lambda>k. 0 \<le> k \<and> k \<notin> used_slots st" j] by (simp_all add: k_def)
  moreover have "{..< k} \<subseteq> used_slots st"
    using not_less_Least by (fastforce simp: k_def)
  moreover have "malloc_fastbin st = Inr (slot_addr st k, put_slot k (slot_addr st k) st)"
    using malloc_fastbin_from_spec [OF assms(1), of 0] \<open>\<not> {0 ..< 100} \<subseteq> used_slots st\<close>
    by (simp add: malloc_fastbin_def k_def Let_def)
  ultimately show thesis
    using that j(1) by (meson le_less_trans)
qed

lemma free_fastbin_slot:
  assumes "bin_wf st" and "i < 100"
  shows "free_fastbin (slot_addr st i) st = Inr (put_slot i 0 st)"
proof -
  have "PTR_SUB (slot_addr st i) (hp_fast_bins (mapped_heap st)) = 64 * of_nat i"
    by (simp add: PTR_SUB_def slot_addr_def)
  moreover have "unat (64 * of_nat i div 64 :: u32) = i"
    using assms(2) by (simp add: unat_div unat_word_ariths unsigned_of_nat take_bit_eq_mod)
  moreover have "i < length (fb_chunks (fast_bin st))"
    using assms bin_wfD(3) by fastforce
  ultimately show ?thesis
    by (simp add: free_fastbin_def FASTBIN_THRESHOLD_def put_slot_def)
qed

interpretation sb: small_source malloc_fastbin free_fastbin small_blocks 100 bin_wf
proof (unfold_locales, goal_cases)
  case (1 s)
  then obtain k where k: "k < 100" "k \<notin> used_slots s"
      "malloc_fastbin s = Inr (slot_addr s k, put_slot k (slot_addr s k) s)"
    using malloc_fastbin_free_slot [of s] by (auto simp: card_small_blocks)
  have "slot_addr s k \<notin> small_blocks s"
    using k 1(1) by (auto simp: small_blocks_def used_slots_def slot_addr_inject)
  moreover have "small_blocks (put_slot k (slot_addr s k) s) = insert (slot_addr s k) (small_blocks s)"
    using k 1(1) by (simp add: small_blocks_def put_slot_used slot_addr_nonzero)
  ultimately show ?case
    using k 1(1) by (auto simp: slot_addr_nonzero put_slot_wf)
next
  case (2 s)
  then show ?case
    using malloc_fastbin_full used_slots_props(3) [of s] by (simp add: card_small_blocks)
next
  case (3 s p)
  then obtain i where i: "i < 100" "i \<in> used_slots s" "p = slot_addr s i"
    by (auto simp: small_blocks_def used_slots_def)
  have inj: "inj_on (slot_addr s) (used_slots s)"
    using 3(1) by (intro inj_onI) (auto simp: used_slots_def slot_addr_inject)
  have "small_blocks (put_slot i 0 s) = slot_addr s ` (used_slots s - {i})"
    using i 3(1) by (simp add: small_blocks_def put_slot_used)
  also have "\<dots> = small_blocks s - {p}"
    using inj_on_image_set_diff [OF inj, of "used_slots s" "{i}"] i by (simp add: small_blocks_def)
  finally have "small_blocks (put_slot i 0 s) = small_blocks s - {p}" .
  then show ?case
    using i 3(1) by (simp add: free_fastbin_slot put_slot_wf)
next
  case (4 s)
  then show ?case by (simp add: small_blocks_def used_slots_props(1))
qed

section \<open>Through the operators\<close>

lemma free_small:
  assumes "bin_wf st" and "i < 100"
  shows "free (slot_addr st i) st = Inr (put_slot i 0 st)"
  using slot_in_region [OF assms] free_fastbin_slot [OF assms] by (simp add: free_def)

lemma operator_delete_small:
  assumes "bin_wf st" and "p \<in> small_blocks st"
  shows "operator_delete p st = free_fastbin p st"
proof -
  obtain i where "i < 100" "p = slot_addr st i"
    using assms(2) by (auto simp: small_blocks_def used_slots_def)
  then show ?thesis
    using free_small [OF assms(1)] free_fastbin_slot [OF assms(1)] by (simp add: operator_delete_def)
qed

lemma operator_new_small:
  "0 < sz \<Longrightarrow> sz \<le> 64 \<Longrightarrow> operator_new pdiff sz st = malloc_fastbin st"
  by (simp add: operator_new_def malloc_def FASTBIN_THRESHOLD_def word_gt_0)

end
