(* ===== verification/Kmm_Big.thy ===== *)
theory Kmm_Big
  imports Kmm
begin

text \<open>
  The big chunks. The abstract view of the list is the map \<open>live\<close> from the address of a
  chunk in use to the number of bytes it was asked for; \<open>big_wf\<close> ties it to the links, the
  sizes and the count that \<^verbatim>\<open>__malloc_big\<close> and \<^verbatim>\<open>__free_big\<close> maintain.
\<close>

section \<open>Well-formed lists of chunks\<close>

text \<open>
  What one chunk with successor \<open>d\<close> satisfies after predecessor \<open>p\<close>: the link is ascending,
  the back link is the predecessor or missing, the mark agrees with \<open>live\<close>, and a block in
  use ends before the successor begins.
\<close>

definition link_ok :: "(u32 \<Rightarrow> BigChunk) \<Rightarrow> (u32 \<rightharpoonup> nat) \<Rightarrow> u32 \<Rightarrow> u32 \<Rightarrow> u32 \<Rightarrow> bool" where
  "link_ok h live p c d \<longleftrightarrow>
     bc_next (h c) = d \<and> c < d \<and> (bc_prev (h c) = 0 \<or> bc_prev (h c) = p)
     \<and> (bc_used (h c) \<longleftrightarrow> live c \<noteq> None)
     \<and> (\<forall>q. live c = Some q \<longrightarrow> 13 < q \<and> unat c + q \<le> unat d)"

definition last_ok :: "(u32 \<Rightarrow> BigChunk) \<Rightarrow> (u32 \<rightharpoonup> nat) \<Rightarrow> u32 \<Rightarrow> u32 \<Rightarrow> bool" where
  "last_ok h live p c \<longleftrightarrow>
     bc_next (h c) = 0 \<and> (bc_prev (h c) = 0 \<or> bc_prev (h c) = p)
     \<and> (bc_used (h c) \<longleftrightarrow> live c \<noteq> None)
     \<and> (\<forall>q. live c = Some q \<longrightarrow> 13 < q \<and> unat c + q \<le> 2 ^ 32 \<and> q \<le> unat (bc_size (h c)))"

text \<open>A stretch of the list up to its last chunk, and the whole list.\<close>

fun stretch :: "(u32 \<Rightarrow> BigChunk) \<Rightarrow> (u32 \<rightharpoonup> nat) \<Rightarrow> u32 \<Rightarrow> u32 list \<Rightarrow> u32 \<Rightarrow> bool" where
  "stretch h live p [] c = True"
| "stretch h live p (x # xs) c = (link_ok h live p x (hd (xs @ [c])) \<and> stretch h live x xs c)"

definition big_wf :: "mm_state \<Rightarrow> u32 list \<Rightarrow> (u32 \<rightharpoonup> nat) \<Rightarrow> bool" where
  "big_wf st cs live \<longleftrightarrow>
     cs \<noteq> [] \<and> hd cs = hp_big_chunks (mapped_heap st) \<and> hd cs \<noteq> 0
     \<and> stretch (chunk_at st) live 0 (butlast cs) (last cs)
     \<and> last_ok (chunk_at st) live (last (0 # butlast cs)) (last cs)
     \<and> dom live \<subseteq> set cs
     \<and> unat (hp_allocated_chunks (mapped_heap st)) = card (dom live)"

lemma stretch_append:
  "stretch h live p (xs @ y # ys) c \<longleftrightarrow> stretch h live p xs y \<and> stretch h live (last (p # xs)) (y # ys) c"
  by (induction xs arbitrary: p) (auto simp: hd_append)

lemma stretch_cong:
  assumes "\<And>x. x \<in> set xs \<Longrightarrow> h x = h' x \<and> live x = live' x"
  shows "stretch h live p xs c = stretch h' live' p xs c"
  using assms by (induction xs arbitrary: p) (auto simp: link_ok_def)

lemma stretch_less: "stretch h live p xs c \<Longrightarrow> x \<in> set xs \<Longrightarrow> x < c"
proof (induction xs arbitrary: p x)
  case (Cons y ys)
  have step: "y < hd (ys @ [c])" using Cons.prems(1) by (simp add: link_ok_def)
  have "hd (ys @ [c]) \<le> c" using Cons by (cases ys) (auto intro: less_imp_le)
  then show ?case using Cons step by auto
qed simp

lemma stretch_sorted: "stretch h live p xs c \<Longrightarrow> sorted_wrt (<) (xs @ [c])"
proof (induction xs arbitrary: p)
  case (Cons y ys)
  have "y < hd (ys @ [c])" using Cons.prems by (simp add: link_ok_def)
  moreover have "sorted_wrt (<) (ys @ [c])" using Cons.prems Cons.IH [of y] by simp
  ultimately show ?case
    by (cases ys) auto
qed simp

text \<open>The same invariant with the place of one chunk in the list made explicit.\<close>

fun tail_ok :: "(u32 \<Rightarrow> BigChunk) \<Rightarrow> (u32 \<rightharpoonup> nat) \<Rightarrow> u32 \<Rightarrow> u32 list \<Rightarrow> bool" where
  "tail_ok h live p [] = False"
| "tail_ok h live p [c] = last_ok h live p c"
| "tail_ok h live p (c # d # r) = (link_ok h live p c d \<and> tail_ok h live c (d # r))"

lemma tail_ok_butlast:
  "cs \<noteq> [] \<Longrightarrow> tail_ok h live p cs \<longleftrightarrow>
     stretch h live p (butlast cs) (last cs) \<and> last_ok h live (last (p # butlast cs)) (last cs)"
proof (induction cs arbitrary: p)
  case (Cons x xs)
  then show ?case
  proof (cases xs)
    case (Cons y ys)
    have "hd (butlast (y # ys) @ [last (y # ys)]) = y"
      by (simp only: append_butlast_last_id list.simps not_False_eq_True list.sel)
    then show ?thesis using Cons Cons.IH [of x] by simp
  qed simp
qed simp

lemma tail_ok_split:
  "tail_ok h live p (xs @ c # ys) \<longleftrightarrow> stretch h live p xs c \<and> tail_ok h live (last (p # xs)) (c # ys)"
proof (induction xs arbitrary: p)
  case (Cons x xs)
  then show ?case by (cases xs) auto
qed simp

lemma tail_ok_cong:
  "(\<And>x. x \<in> set xs \<Longrightarrow> h x = h' x \<and> live x = live' x) \<Longrightarrow> tail_ok h live p xs = tail_ok h' live' p xs"
  by (induction xs arbitrary: p rule: induct_list012) (auto simp: link_ok_def last_ok_def)

lemma tail_ok_sorted: "tail_ok h live p cs \<Longrightarrow> sorted_wrt (<) cs"
  using stretch_sorted [of h live p "butlast cs" "last cs"]
  by (cases "cs = []") (auto simp: tail_ok_butlast)

lemma big_wf_alt:
  "big_wf st cs live \<longleftrightarrow>
     hd cs = hp_big_chunks (mapped_heap st) \<and> hd cs \<noteq> 0 \<and> tail_ok (chunk_at st) live 0 cs
     \<and> dom live \<subseteq> set cs \<and> unat (hp_allocated_chunks (mapped_heap st)) = card (dom live)"
  by (cases "cs = []") (auto simp: big_wf_def tail_ok_butlast)

lemma big_wf_sorted: "big_wf st cs live \<Longrightarrow> sorted_wrt (<) cs"
  by (auto simp: big_wf_alt intro: tail_ok_sorted)

text \<open>Blocks in use never overlap.\<close>

lemma stretch_end:
  assumes "stretch h live p xs c" and "x \<in> set xs" and "live x = Some q"
  shows "unat x + q \<le> unat c"
  using assms
proof (induction xs arbitrary: p)
  case (Cons y ys)
  show ?case
  proof (cases "x = y")
    case True
    have "hd (ys @ [c]) \<le> c"
      using Cons.prems(1) stretch_less [of h live y ys c] by (cases ys) (auto intro: less_imp_le)
    then show ?thesis
      using True Cons.prems by (fastforce simp: link_ok_def word_le_nat_alt)
  next
    case False
    then show ?thesis using Cons by auto
  qed
qed simp

lemma tail_ok_ordered:
  assumes "tail_ok h live p cs" and "a \<in> set cs" and "b \<in> set cs" and "a < b" and "live a = Some q"
  shows "unat a + q \<le> unat b"
proof -
  obtain xs ys where cs: "cs = xs @ b # ys"
    using assms(3) by (meson split_list)
  have "sorted_wrt (<) cs" using assms(1) by (rule tail_ok_sorted)
  then have "a \<in> set xs"
    using assms(2,4) by (auto simp: cs sorted_wrt_append)
  moreover have "stretch h live p xs b"
    using assms(1) by (simp add: cs tail_ok_split)
  ultimately show ?thesis
    using assms(5) by (intro stretch_end)
qed

lemma big_wf_disjoint:
  assumes "big_wf st cs live" and "live a = Some q" and "live b = Some r" and "a \<noteq> b"
  shows "unat a + q \<le> unat b \<or> unat b + r \<le> unat a"
proof -
  have mem: "a \<in> set cs" "b \<in> set cs"
    using assms(1-3) by (auto simp: big_wf_alt)
  have ok: "tail_ok (chunk_at st) live 0 cs"
    using assms(1) by (simp add: big_wf_alt)
  show ?thesis
    using assms(4) tail_ok_ordered [OF ok mem(1,2) _ assms(2)] tail_ok_ordered [OF ok mem(2,1) _ assms(3)]
    by (meson linorder_neqE)
qed

lemma tail_ok_live:
  assumes "tail_ok h live p cs" and "c \<in> set cs" and "live c = Some q"
  shows "13 < q \<and> unat c + q \<le> 2 ^ 32 \<and> bc_used (h c)"
  using assms
proof (induction cs arbitrary: p rule: induct_list012)
  case (3 x y zs)
  have "unat y < 2 ^ 32" using unat_u32_less [of y] by simp
  then show ?case using 3 by (auto simp: link_ok_def)
qed (auto simp: last_ok_def)

lemma tail_ok_used_iff: "tail_ok h live p cs \<Longrightarrow> c \<in> set cs \<Longrightarrow> bc_used (h c) \<longleftrightarrow> live c \<noteq> None"
  by (induction cs arbitrary: p rule: induct_list012) (auto simp: link_ok_def last_ok_def)

section \<open>The search\<close>

lemma find_hole_ends:
  assumes "tail_ok h live p (c # ys)"
  shows "\<exists>d hole. find_hole h req c = Some (d, hole) \<and> d \<in> set (c # ys)
    \<and> (hole \<longrightarrow> \<not> bc_used (h d) \<and> bc_next (h d) \<noteq> 0 \<and> unat req \<le> unat (bc_next (h d)) - unat d)
    \<and> (\<not> hole \<longrightarrow> d = last (c # ys))"
  using assms
proof (induction ys arbitrary: p c)
  case Nil
  then show ?case by (subst find_hole.simps) (auto simp: last_ok_def)
next
  case (Cons d ds)
  have nxt: "bc_next (h c) = d" "c < d"
    using Cons.prems by (simp_all add: link_ok_def)
  then have "d \<noteq> 0" by auto
  have sub: "unat (PTR_SUB d c) = unat d - unat c"
    using nxt(2) by (simp add: PTR_SUB_def unat_sub less_imp_le)
  show ?case
  proof (cases "\<not> bc_used (h c) \<and> PTR_SUB d c < 0xFFFFFFFF \<and> req \<le> PTR_SUB d c")
    case True
    then have "find_hole h req c = Some (c, True)"
      using nxt \<open>d \<noteq> 0\<close> by (subst find_hole.simps) simp
    then show ?thesis
      using True nxt \<open>d \<noteq> 0\<close> sub by (auto simp: word_le_nat_alt)
  next
    case False
    then have "find_hole h req c = find_hole h req d"
      using nxt \<open>d \<noteq> 0\<close> by (subst find_hole.simps) auto
    then show ?thesis
      using Cons.IH [of c d] Cons.prems by auto
  qed
qed

section \<open>Allocation\<close>

text \<open>
  When a request is served safely. With no chunk in use the code resets the first chunk, so
  nothing may follow it; otherwise a chunk may be appended, whose address must not wrap.
\<close>

definition can_serve :: "mm_state \<Rightarrow> u32 list \<Rightarrow> u32 \<Rightarrow> bool" where
  "can_serve st cs req \<longleftrightarrow> 13 < req \<and>
     (if hp_allocated_chunks (mapped_heap st) = 0
      then tl cs = [] \<and> unat (hd cs) + unat req \<le> 2 ^ 32
      else bc_size (chunk_at st (last cs)) \<noteq> 0
           \<and> unat (last cs) + unat (bc_size (chunk_at st (last cs))) + unat req < 2 ^ 32)"

text \<open>
  \<open>big_room L\<close>: a chunk can be served without a hole, and the list ends at or below \<open>L\<close>. Each
  request raises the bound by its size.
\<close>

definition big_room :: "nat \<Rightarrow> mm_state \<Rightarrow> u32 list \<Rightarrow> bool" where
  "big_room L st cs \<longleftrightarrow>
     (if hp_allocated_chunks (mapped_heap st) = 0 then tl cs = [] \<and> unat (hd cs) \<le> L
      else bc_size (chunk_at st (last cs)) \<noteq> 0
           \<and> unat (last cs) + unat (bc_size (chunk_at st (last cs))) \<le> L)"

lemma big_room_serves: "big_room L st cs \<Longrightarrow> 13 < req \<Longrightarrow> L + unat req < 2 ^ 32 \<Longrightarrow> can_serve st cs req"
  by (auto simp: big_room_def can_serve_def)

lemma use_hole_state:
  assumes "\<not> (req - BIGCHUNK_MIN_SPACE > req)"
  shows "use_hole pdiff req c st =
    set_chunk c (\<lambda>k. k\<lparr>bc_used := True, bc_size := pdiff (bc_next (chunk_at st c)) c - 1\<rparr>) st"
  using assms by (simp add: use_hole_def set_chunk_def)

text \<open>Splitting a hole never happens: the size it compares has just been overwritten.\<close>

lemma no_split:
  assumes "78 \<le> unat (req :: u32)"
  shows "\<not> (req - BIGCHUNK_MIN_SPACE > req)"
proof -
  have "unat (req - 78) = unat req - 78"
    using assms unat_minus_no_wrap [of "78 :: u32" req] by simp
  then show ?thesis
    by (simp add: BIGCHUNK_MIN_SPACE_def SIZEOF_BIG_CHUNK_def FASTBIN_THRESHOLD_def
        word_less_nat_alt)
qed

lemma set_chunk_simps [simp]:
  "chunk_at (set_chunk a f st) = (chunk_at st)(a := f (chunk_at st a))"
  "mapped_heap (set_chunk a f st) = mapped_heap st" "fast_bin (set_chunk a f st) = fast_bin st"
  "chunk_at (count_allocated g st) = chunk_at st"
  "mapped_heap (count_allocated g st) = (mapped_heap st)
     \<lparr>hp_allocated_chunks := g (hp_allocated_chunks (mapped_heap st))\<rparr>"
  "fast_bin (count_allocated g st) = fast_bin st"
  by (simp_all add: set_chunk_def count_allocated_def)

lemma tail_ok_take_hole:
  assumes "tail_ok h live p cs" and "c \<in> set cs" and "bc_next (h c) \<noteq> 0" and "live c = None"
    and "13 < q" and "q \<le> unat (bc_next (h c)) - unat c"
  shows "tail_ok (h(c := (h c)\<lparr>bc_used := True, bc_size := n\<rparr>)) (live(c \<mapsto> q)) p cs"
proof -
  obtain xs ys where cs: "cs = xs @ c # ys"
    using assms(2) by (meson split_list)
  have fresh: "c \<notin> set xs" "c \<notin> set ys"
    using tail_ok_sorted [OF assms(1)] by (auto simp: cs sorted_wrt_append)
  have "tail_ok h live (last (p # xs)) (c # ys)"
    using assms(1) by (simp add: cs tail_ok_split)
  then obtain d ds where ys: "ys = d # ds" and c: "link_ok h live (last (p # xs)) c d"
      and rest: "tail_ok h live c (d # ds)"
    using assms(3) by (cases ys) (auto simp: last_ok_def)
  define h' l' where "h' = h(c := (h c)\<lparr>bc_used := True, bc_size := n\<rparr>)" and "l' = live(c \<mapsto> q)"
  have same: "h x = h' x \<and> live x = l' x" if "x \<noteq> c" for x
    using that by (simp add: h'_def l'_def)
  have "unat c < unat d"
    using c by (simp add: link_ok_def word_less_nat_alt)
  moreover have "bc_next (h c) = d"
    using c by (simp add: link_ok_def)
  ultimately have "unat c + q \<le> unat d"
    using assms(6) by simp
  then have "link_ok h' l' (last (p # xs)) c d"
    using c assms(5) by (simp add: link_ok_def h'_def l'_def)
  moreover have "tail_ok h' l' c (d # ds)"
    by (rule tail_ok_cong [THEN iffD1, OF _ rest]) (use fresh(2) same ys in metis)
  ultimately have "tail_ok h' l' (last (p # xs)) (c # ys)"
    by (simp add: ys)
  moreover have "stretch h' l' p xs c"
    using assms(1) stretch_cong [of xs h h' live l' p c] same fresh(1) by (metis cs tail_ok_split)
  ultimately show ?thesis
    unfolding h'_def [symmetric] l'_def [symmetric] by (simp add: cs tail_ok_split)
qed

lemma tail_ok_append:
  assumes "tail_ok h live p (xs @ [c])" and "c < d" and "13 < q" and "unat d + q \<le> 2 ^ 32"
    and "\<And>r. live c = Some r \<Longrightarrow> unat c + r \<le> unat d" and "d \<notin> dom live"
    and "h' = h(c := (h c)\<lparr>bc_next := d\<rparr>, d := \<lparr>bc_prev = c, bc_next = 0, bc_size = n, bc_used = True\<rparr>)"
    and "q \<le> unat n"
  shows "tail_ok h' (live(d \<mapsto> q)) p (xs @ [c, d])"
proof -
  have sorted: "sorted_wrt (<) (xs @ [c])"
    using assms(1) by (rule tail_ok_sorted)
  have c: "last_ok h live (last (p # xs)) c"
    using assms(1) by (simp add: tail_ok_split)
  have "link_ok h' (live(d \<mapsto> q)) (last (p # xs)) c d"
    using c assms(2,5) by (auto simp: assms(7) link_ok_def last_ok_def)
  moreover have "last_ok h' (live(d \<mapsto> q)) c d"
    using assms(3,4,8) by (auto simp: assms(7) last_ok_def)
  moreover have "stretch h' (live(d \<mapsto> q)) p xs c = stretch h live p xs c"
    using sorted assms(2) by (intro stretch_cong) (auto simp: assms(7) sorted_wrt_append)
  ultimately show ?thesis
    using assms(1) by (simp add: tail_ok_split)
qed

lemma card_live_bound:
  assumes "0 \<notin> dom (live :: u32 \<rightharpoonup> nat)"
  shows "card (dom live) < 2 ^ 32"
proof -
  have "card (dom live) \<le> card (UNIV - {0 :: u32})"
    using assms by (intro card_mono) auto
  also have "card (UNIV - {0 :: u32}) = 2 ^ 32 - 1"
    by (simp add: card_Diff_singleton card_word)
  finally show ?thesis by simp
qed

lemma big_wf_nonzero:
  assumes "big_wf st cs live" and "c \<in> set cs"
  shows "c \<noteq> 0"
proof -
  have "sorted_wrt (<) cs" "hd cs \<noteq> 0" "cs \<noteq> []"
    using assms big_wf_sorted by (auto simp: big_wf_def)
  then show ?thesis
    using assms(2) by (cases cs) auto
qed

lemma big_wf_count:
  assumes "big_wf st cs live" and "ret \<notin> dom live" and "ret \<noteq> 0"
  shows "unat (hp_allocated_chunks (mapped_heap st) + 1) = card (dom (live(ret \<mapsto> q)))"
proof -
  have "0 \<notin> set cs" using big_wf_nonzero [OF assms(1)] by auto
  then have "0 \<notin> dom (live(ret \<mapsto> q))"
    using assms(1,3) by (auto simp: big_wf_alt)
  moreover have "card (dom (live(ret \<mapsto> q))) = Suc (card (dom live))"
    using assms(1,2) finite_subset [of "dom live" "set cs"] by (simp add: big_wf_alt)
  ultimately show ?thesis
    using card_live_bound [of "live(ret \<mapsto> q)"] assms(1)
      unat_plus_no_wrap [of "hp_allocated_chunks (mapped_heap st)" 1]
    by (simp add: big_wf_alt)
qed

lemma big_wf_some_chunk:
  assumes "big_wf st cs (live(c \<mapsto> q))"
  shows "hp_allocated_chunks (mapped_heap st) \<noteq> 0"
proof -
  have "finite (dom (live(c \<mapsto> q)))" using assms finite_subset [of _ "set cs"] by (auto simp: big_wf_alt)
  then have "0 < card (dom (live(c \<mapsto> q)))" by (simp add: card_gt_0_iff)
  then show ?thesis using assms by (auto simp: big_wf_alt)
qed

lemma malloc_big_first:
  assumes "big_wf st cs live" and "can_serve st cs req" and "hp_allocated_chunks (mapped_heap st) = 0"
  shows "\<exists>ret st'. malloc_big pdiff req st = Inr (ret + 13, st') \<and> ret \<notin> dom live
    \<and> big_wf st' cs (live(ret \<mapsto> unat req)) \<and> fast_bin st' = fast_bin st
    \<and> (\<forall>L. big_room L st cs \<longrightarrow> big_room (L + unat req) st' cs)"
proof -
  obtain c where cs: "cs = [c]" and c: "c = hp_big_chunks (mapped_heap st)" "c \<noteq> 0"
    using assms by (cases cs) (auto simp: big_wf_def can_serve_def)
  have "finite (dom live)" using assms(1) finite_subset [of "dom live" "set cs"] by (simp add: big_wf_alt)
  then have live: "live = Map.empty" using assms(1,3) by (simp add: big_wf_alt)
  define st' where "st' = count_allocated (\<lambda>n. n + 1)
    (set_chunk c (\<lambda>k. k\<lparr>bc_size := req, bc_used := True\<rparr>) st)"
  have "malloc_big pdiff req st = Inr (c + 13, st')"
    using assms(3) c by (simp add: malloc_big_def Let_def st'_def BIGCHUNK_DATA_BEGIN_def SIZEOF_BIG_CHUNK_def)
  moreover have "big_wf st' cs [c \<mapsto> unat req]"
    using assms big_wf_count [of st cs live c] unfolding st'_def
    by (auto simp: big_wf_alt cs live last_ok_def can_serve_def word_less_nat_alt)
  moreover have "big_room (L + unat req) st' cs" if "big_room L st cs" for L
    using that assms(2,3) by (auto simp: big_room_def cs st'_def can_serve_def)
  ultimately show ?thesis
    by (intro exI [of _ c] exI [of _ st']) (simp add: live st'_def)
qed

lemma malloc_big_reuse:
  assumes wf: "big_wf st cs live" and "can_serve st cs req" and big: "78 \<le> unat req"
    and "hp_allocated_chunks (mapped_heap st) \<noteq> 0"
    and hole: "find_hole (chunk_at st) req (hp_big_chunks (mapped_heap st)) = Some (c, True)"
    and c: "c \<in> set cs" "\<not> bc_used (chunk_at st c)" "bc_next (chunk_at st c) \<noteq> 0"
      "unat req \<le> unat (bc_next (chunk_at st c)) - unat c"
  shows "\<exists>ret st'. malloc_big pdiff req st = Inr (ret + 13, st') \<and> ret \<notin> dom live
    \<and> big_wf st' cs (live(ret \<mapsto> unat req)) \<and> fast_bin st' = fast_bin st
    \<and> (\<forall>L. big_room L st cs \<longrightarrow> big_room (L + unat req) st' cs)"
proof -
  have live: "live c = None" and "c \<noteq> 0"
    using wf c tail_ok_used_iff big_wf_nonzero by (fastforce simp: big_wf_alt)+
  define n where "n = pdiff (bc_next (chunk_at st c)) c - 1"
  define st' where "st' = count_allocated (\<lambda>n. n + 1)
    (set_chunk c (\<lambda>k. k\<lparr>bc_used := True, bc_size := n\<rparr>) st)"
  have "malloc_big pdiff req st = Inr (c + 13, st')"
    using assms(4) hole \<open>c \<noteq> 0\<close> use_hole_state [OF no_split [OF big]]
    by (simp add: malloc_big_def st'_def n_def BIGCHUNK_DATA_BEGIN_def SIZEOF_BIG_CHUNK_def)
  moreover have "tail_ok ((chunk_at st)(c := (chunk_at st c)\<lparr>bc_used := True, bc_size := n\<rparr>))
      (live(c \<mapsto> unat req)) 0 cs"
    using wf c live big by (intro tail_ok_take_hole) (auto simp: big_wf_alt)
  then have "big_wf st' cs (live(c \<mapsto> unat req))"
    using wf c(1) big_wf_count [OF wf _ \<open>c \<noteq> 0\<close>, of "unat req"] live
    by (auto simp: big_wf_alt st'_def domIff)
  moreover have "c \<noteq> last cs" using wf c(3) by (auto simp: big_wf_def last_ok_def)
  then have "big_room (L + unat req) st' cs" if "big_room L st cs" for L
    using that assms(4) big_wf_some_chunk [OF \<open>big_wf st' cs (live(c \<mapsto> unat req))\<close>]
    by (auto simp: big_room_def st'_def)
  ultimately show ?thesis
    using live by (intro exI [of _ c] exI [of _ st']) (simp add: domIff st'_def)
qed

lemma malloc_big_extend:
  assumes wf: "big_wf st cs live" and serve: "can_serve st cs req" and big: "78 \<le> unat req"
    and some: "hp_allocated_chunks (mapped_heap st) \<noteq> 0"
    and hole: "find_hole (chunk_at st) req (hp_big_chunks (mapped_heap st)) = Some (last cs, False)"
  shows "\<exists>ret st' cs'. malloc_big pdiff req st = Inr (ret + 13, st') \<and> ret \<notin> dom live
    \<and> big_wf st' cs' (live(ret \<mapsto> unat req)) \<and> fast_bin st' = fast_bin st
    \<and> (\<forall>L. big_room L st cs \<longrightarrow> big_room (L + unat req) st' cs')"
proof -
  obtain xs c where cs: "cs = xs @ [c]"
    using wf by (cases cs rule: rev_cases) (auto simp: big_wf_def)
  define d where "d = c + bc_size (chunk_at st c)"
  have room: "0 < unat (bc_size (chunk_at st c))"
      "unat c + unat (bc_size (chunk_at st c)) + unat req < 2 ^ 32"
    using serve some by (simp_all add: can_serve_def cs unat_gt_0)
  then have d: "unat d = unat c + unat (bc_size (chunk_at st c))"
    unfolding d_def by (intro unat_plus_no_wrap) simp
  then have "c < d" using room by (simp add: word_less_nat_alt)
  then have "d \<noteq> 0" by auto
  have ok: "tail_ok (chunk_at st) live 0 (xs @ [c])" and "dom live \<subseteq> set cs"
    using wf by (simp_all add: big_wf_alt cs)
  have "d \<notin> set cs"
    using tail_ok_sorted [OF ok] \<open>c < d\<close> by (auto simp: cs sorted_wrt_append)
  then have fresh: "d \<notin> dom live" using \<open>dom live \<subseteq> set cs\<close> by auto
  define st' where "st' = count_allocated (\<lambda>n. n + 1) (snd (append_chunk req c st))"
  have "bc_size (chunk_at st c) \<noteq> 0" using room(1) by auto
  then have chunks: "chunk_at st' = (chunk_at st)(c := (chunk_at st c)\<lparr>bc_next := d\<rparr>,
      d := \<lparr>bc_prev = c, bc_next = 0, bc_size = req, bc_used = True\<rparr>)"
    by (simp add: st'_def append_chunk_def d_def PTR_ADVANCE_def zero_chunk_def Let_def)
  have heap: "mapped_heap st' = (mapped_heap st)\<lparr>hp_allocated_chunks := hp_allocated_chunks (mapped_heap st) + 1\<rparr>"
      "fast_bin st' = fast_bin st"
    by (simp_all add: st'_def append_chunk_def Let_def)
  have "malloc_big pdiff req st = Inr (d + 13, st')"
    using some hole \<open>d \<noteq> 0\<close>
    by (simp add: malloc_big_def st'_def cs append_chunk_def d_def PTR_ADVANCE_def Let_def
        BIGCHUNK_DATA_BEGIN_def SIZEOF_BIG_CHUNK_def)
  moreover have "unat c + r \<le> unat d" if "live c = Some r" for r
    using ok that d by (auto simp: tail_ok_split last_ok_def)
  then have "tail_ok (chunk_at st') (live(d \<mapsto> unat req)) 0 (xs @ [c, d])"
    using ok \<open>c < d\<close> big room(2) d fresh by (intro tail_ok_append [OF _ _ _ _ _ _ chunks]) auto
  then have "big_wf st' (xs @ [c, d]) (live(d \<mapsto> unat req))"
    using wf big_wf_count [OF wf fresh \<open>d \<noteq> 0\<close>, of "unat req"] heap
    by (auto simp: big_wf_alt cs hd_append)
  moreover have "bc_size (chunk_at st' d) = req" by (simp add: chunks)
  then have "big_room (L + unat req) st' (xs @ [c, d])" if "big_room L st cs" for L
    using that some d big big_wf_some_chunk [OF \<open>big_wf st' (xs @ [c, d]) (live(d \<mapsto> unat req))\<close>]
    by (auto simp: big_room_def cs unat_gt_0 simp flip: unat_gt_0)
  ultimately show ?thesis
    using fresh by (intro exI [of _ d] exI [of _ st'] exI [of _ "xs @ [c, d]"])
      (simp add: heap)
qed

lemma malloc_big_wf_room:
  assumes "big_wf st cs live" and "can_serve st cs req" and "78 \<le> unat req"
  shows "\<exists>ret st' cs'. malloc_big pdiff req st = Inr (ret + 13, st') \<and> ret \<notin> dom live
    \<and> big_wf st' cs' (live(ret \<mapsto> unat req)) \<and> fast_bin st' = fast_bin st
    \<and> (\<forall>L. big_room L st cs \<longrightarrow> big_room (L + unat req) st' cs')"
proof (cases "hp_allocated_chunks (mapped_heap st) = 0")
  case True
  then show ?thesis using malloc_big_first [OF assms(1,2)] by blast
next
  case False
  obtain c ys where cs: "cs = c # ys" "c = hp_big_chunks (mapped_heap st)"
    using assms(1) by (cases cs) (auto simp: big_wf_def)
  then have "tail_ok (chunk_at st) live 0 (c # ys)"
    using assms(1) by (simp add: big_wf_alt)
  from find_hole_ends [OF this] obtain d hole where
    d: "find_hole (chunk_at st) req c = Some (d, hole)" "d \<in> set cs"
      "hole \<longrightarrow> \<not> bc_used (chunk_at st d) \<and> bc_next (chunk_at st d) \<noteq> 0
         \<and> unat req \<le> unat (bc_next (chunk_at st d)) - unat d"
      "\<not> hole \<longrightarrow> d = last cs"
    unfolding cs(1) by blast
  show ?thesis
  proof (cases hole)
    case True
    then have "find_hole (chunk_at st) req (hp_big_chunks (mapped_heap st)) = Some (d, True)"
      using d(1) cs(2) by simp
    from malloc_big_reuse [OF assms False this, of pdiff] show ?thesis
      using d(2,3) True by blast
  next
    case False2: False
    then show ?thesis
      using malloc_big_extend [OF assms False] d cs(2) by simp
  qed
qed

lemma malloc_big_wf:
  assumes "big_wf st cs live" and "can_serve st cs req" and "78 \<le> unat req"
  shows "\<exists>ret st' cs'. malloc_big pdiff req st = Inr (ret + 13, st') \<and> ret \<notin> dom live
    \<and> big_wf st' cs' (live(ret \<mapsto> unat req)) \<and> fast_bin st' = fast_bin st"
  using malloc_big_wf_room [OF assms, of pdiff] by metis

section \<open>Release\<close>

lemma tail_ok_unuse:
  "tail_ok h live p cs \<Longrightarrow> tail_ok (h(c := (h c)\<lparr>bc_used := False\<rparr>)) (live(c := None)) p cs"
  by (induction cs arbitrary: p rule: induct_list012) (auto simp: link_ok_def last_ok_def)

lemma tail_ok_size:
  "live c = None \<Longrightarrow> tail_ok h live p cs \<Longrightarrow> tail_ok (h(c := (h c)\<lparr>bc_size := n\<rparr>)) live p cs"
  by (induction cs arbitrary: p rule: induct_list012) (auto simp: link_ok_def last_ok_def)

lemma tail_ok_set_prev:
  assumes "tail_ok h live p (d # r)"
  shows "tail_ok (h(d := (h d)\<lparr>bc_prev := q\<rparr>)) live q (d # r)"
proof (cases r)
  case Nil
  then show ?thesis using assms by (simp add: last_ok_def)
next
  case (Cons e es)
  have "d \<notin> set r"
    using tail_ok_sorted [OF assms] by auto
  then have "tail_ok (h(d := (h d)\<lparr>bc_prev := q\<rparr>)) live d r = tail_ok h live d r"
    by (intro tail_ok_cong) auto
  then show ?thesis
    using assms Cons by (auto simp: link_ok_def)
qed

text \<open>Unlinking the chunk after \<open>c\<close>, and the chunk before it.\<close>

lemma tail_ok_skip_next:
  assumes ok: "tail_ok h live p (c # t # zs)" and free: "live c = None"
    and h': "h' = (let h1 = h(c := (h c)\<lparr>bc_next := bc_next (h t)\<rparr>)
                   in if bc_next (h t) \<noteq> 0 then h1(bc_next (h t) := (h1 (bc_next (h t)))\<lparr>bc_prev := c\<rparr>) else h1)"
  shows "tail_ok h' live p (c # zs)"
proof (cases zs)
  case Nil
  then show ?thesis
    using ok free by (simp add: h' Let_def last_ok_def link_ok_def)
next
  case (Cons d r)
  have links: "link_ok h live p c t" "link_ok h live c t d" and okd: "tail_ok h live t (d # r)"
    using ok by (simp_all add: Cons)
  have sorted: "sorted_wrt (<) (c # t # d # r)" using tail_ok_sorted [OF ok] by (simp add: Cons)
  have d: "bc_next (h t) = d" "c < d" "d \<noteq> 0" using links sorted by (auto simp: link_ok_def)
  have h'_eq: "h' = (h(c := (h c)\<lparr>bc_next := d\<rparr>))(d := (h d)\<lparr>bc_prev := c\<rparr>)"
    using d less_imp_neq [OF d(2)] by (simp add: h' Let_def)
  have "tail_ok (h(d := (h d)\<lparr>bc_prev := c\<rparr>)) live c (d # r)"
    using okd by (rule tail_ok_set_prev)
  then have "tail_ok h' live c (d # r)"
    using sorted by (elim tail_ok_cong [THEN iffD1, rotated]) (auto simp: h'_eq)
  moreover have "link_ok h' live p c d"
    using links(1) d free less_imp_neq [OF d(2)] by (simp add: h'_eq link_ok_def)
  ultimately show ?thesis by (simp add: Cons)
qed

lemma forwards_wf:
  assumes ok: "tail_ok (chunk_at st) live 0 (xs @ c # ys)" and free: "live c = None"
  shows "\<exists>ys'. tail_ok (chunk_at (consolidate_forwards c st)) live 0 (xs @ c # ys')
    \<and> dom live \<inter> set ys \<subseteq> set ys'"
proof (cases "bc_next (chunk_at st c) \<noteq> 0 \<and> \<not> bc_used (chunk_at st (bc_next (chunk_at st c)))")
  case False
  then have "consolidate_forwards c st = st" by (auto simp: consolidate_forwards_def Let_def)
  then show ?thesis using ok by (intro exI [of _ ys]) auto
next
  case True
  define h where "h = chunk_at st"
  have okc: "tail_ok h live (last (0 # xs)) (c # ys)" and pre: "stretch h live 0 xs c"
    using ok by (simp_all add: tail_ok_split h_def)
  obtain t zs where ys: "ys = t # zs" and lc: "link_ok h live (last (0 # xs)) c t"
      and okt: "tail_ok h live c (t # zs)"
    using okc True by (cases ys) (auto simp: last_ok_def h_def)
  have t: "bc_next (h c) = t" "c < t" "t \<noteq> 0" using lc by (auto simp: link_ok_def)
  have unused: "\<not> bc_used (h t)" using True t(1) by (simp add: h_def)
  then have "live t = None" using tail_ok_used_iff [OF okt] by simp
  define h' where "h' = (let h1 = h(c := (h c)\<lparr>bc_next := bc_next (h t)\<rparr>)
      in if bc_next (h t) \<noteq> 0 then h1(bc_next (h t) := (h1 (bc_next (h t)))\<lparr>bc_prev := c\<rparr>) else h1)"
  have tail: "tail_ok h' live (last (0 # xs)) (c # zs)"
    using okc free unfolding ys by (rule tail_ok_skip_next) (rule h'_def)
  have "bc_next (h t) = 0 \<or> c < bc_next (h t)"
    using okt t(2) by (cases zs) (auto simp: last_ok_def link_ok_def)
  then have "h x = h' x" if "x < c" for x
    using that by (auto simp: h'_def Let_def)
  then have "stretch h' live 0 xs c"
    using pre stretch_less [OF pre] by (subst stretch_cong [of xs h' h]) auto
  then have "tail_ok h' live 0 (xs @ c # zs)"
    using tail by (simp add: tail_ok_split)
  moreover have "chunk_at (consolidate_forwards c st)
      = h'(c := (h' c)\<lparr>bc_size := bc_size (h' c) + (bc_size (h' t) + SIZEOF_BIG_CHUNK)\<rparr>)"
    using t unused by (auto simp: consolidate_forwards_def Let_def h'_def h_def)
  ultimately have "tail_ok (chunk_at (consolidate_forwards c st)) live 0 (xs @ c # zs)"
    using free by (simp only: tail_ok_size)
  then show ?thesis
    using \<open>live t = None\<close> by (intro exI [of _ zs]) (auto simp: ys)
qed

lemma tail_ok_no_prev:
  "tail_ok h live q (c # ys) \<Longrightarrow> bc_prev (h c) = 0 \<Longrightarrow> tail_ok h live p (c # ys)"
  by (cases ys) (auto simp: link_ok_def last_ok_def)

lemma backwards_wf:
  assumes ok: "tail_ok (chunk_at st) live 0 (xs @ c # ys)" and free: "live c = None"
  shows "\<exists>xs'. tail_ok (chunk_at (consolidate_backwards c st)) live 0 (xs' @ c # ys)
    \<and> dom live \<inter> set xs \<subseteq> set xs' \<and> hd (xs' @ [c]) = hd (xs @ [c])"
proof (cases "bc_prev (chunk_at st c) \<noteq> 0 \<and> \<not> bc_used (chunk_at st (bc_prev (chunk_at st c)))")
  case False
  then have "consolidate_backwards c st = st" by (auto simp: consolidate_backwards_def Let_def)
  then show ?thesis using ok by (intro exI [of _ xs]) auto
next
  case True
  define h where "h = chunk_at st"
  define t where "t = bc_prev (h c)"
  have okc: "tail_ok h live (last (0 # xs)) (c # ys)" and pre: "stretch h live 0 xs c"
    using ok by (simp_all add: tail_ok_split h_def)
  have "t = last (0 # xs)"
    using okc True by (cases ys) (auto simp: last_ok_def link_ok_def t_def h_def)
  then obtain zs where xs: "xs = zs @ [t]"
    using True by (cases xs rule: rev_cases) (auto simp: t_def h_def)
  have lt: "link_ok h live (last (0 # zs)) t c" and prez: "stretch h live 0 zs t"
    using pre by (simp_all add: xs stretch_append)
  have unused: "\<not> bc_used (h t)" "t \<noteq> 0" using True by (simp_all add: t_def h_def)
  then have "live t = None" using lt by (simp add: link_ok_def)
  define pp where "pp = bc_prev (h t)"
  define h1 where "h1 = h(c := (h c)\<lparr>bc_prev := pp\<rparr>)"
  define h' where "h' = (if pp \<noteq> 0 then h1(pp := (h1 pp)\<lparr>bc_next := c\<rparr>) else h1)"
  have "t < c" using lt by (simp add: link_ok_def)
  have res: "chunk_at (consolidate_backwards c st)
      = h'(c := (h' c)\<lparr>bc_size := bc_size (h' c) + (bc_size (h' t) + SIZEOF_BIG_CHUNK)\<rparr>)"
    using unused \<open>t < c\<close>
    by (auto simp: consolidate_backwards_def Let_def h'_def h1_def pp_def t_def h_def)
  have "\<exists>xs'. tail_ok h' live 0 (xs' @ c # ys) \<and> dom live \<inter> set xs \<subseteq> set xs' \<and> hd (xs' @ [c]) = hd (xs @ [c])"
  proof (cases "pp = 0")
    case True
    have "tail_ok h1 live 0 (c # ys)"
      using tail_ok_set_prev [OF okc, of 0] by (simp add: h1_def True)
    then have "tail_ok h1 live (last (0 # xs)) (c # ys)"
      by (rule tail_ok_no_prev) (simp add: h1_def True)
    moreover have "stretch h1 live 0 xs c"
      using pre stretch_less [OF pre] by (subst stretch_cong [of xs h1 h]) (auto simp: h1_def)
    ultimately show ?thesis
      by (intro exI [of _ xs]) (simp add: tail_ok_split h'_def True)
  next
    case False
    have "pp = last (0 # zs)" using lt False by (simp add: link_ok_def pp_def)
    then obtain ws where zs: "zs = ws @ [pp]"
      using False by (cases zs rule: rev_cases) auto
    have lpp: "link_ok h live (last (0 # ws)) pp t" and prew: "stretch h live 0 ws pp"
      using prez by (simp_all add: zs stretch_append)
    have "pp < t" using lpp by (simp add: link_ok_def)
    then have "pp < c" using \<open>t < c\<close> by simp
    have "tail_ok h1 live pp (c # ys)"
      using tail_ok_set_prev [OF okc, of pp] by (simp add: h1_def)
    moreover have "pp \<notin> set (c # ys)"
      using tail_ok_sorted [OF okc] \<open>pp < c\<close> by auto
    ultimately have "tail_ok h' live pp (c # ys)"
      by (elim tail_ok_cong [THEN iffD1, rotated]) (auto simp: h'_def False)
    moreover have "link_ok h' live (last (0 # ws)) pp c"
      using lpp \<open>t < c\<close> \<open>pp < c\<close> less_imp_neq [OF \<open>pp < c\<close>]
      by (fastforce simp: link_ok_def h'_def h1_def False word_less_nat_alt)
    moreover have "h' x = h x" if "x < pp" for x
      using that \<open>pp < c\<close> by (auto simp: h'_def h1_def)
    then have "stretch h' live 0 ws pp"
      using prew stretch_less [OF prew] by (subst stretch_cong [of ws h' h]) auto
    ultimately have "tail_ok h' live 0 (zs @ c # ys)"
      by (simp add: zs tail_ok_split stretch_append)
    then show ?thesis
      using \<open>live t = None\<close> by (intro exI [of _ zs]) (auto simp: xs zs hd_append)
  qed
  then show ?thesis
    using free unfolding res by (metis tail_ok_size)
qed

lemma consolidate_keeps [simp]:
  "mapped_heap (consolidate_forwards c st) = mapped_heap st"
  "mapped_heap (consolidate_backwards c st) = mapped_heap st"
  "fast_bin (consolidate_forwards c st) = fast_bin st"
  "fast_bin (consolidate_backwards c st) = fast_bin st"
  by (simp_all add: consolidate_forwards_def consolidate_backwards_def Let_def)

lemma free_big_wf:
  assumes wf: "big_wf st cs live" and live: "live c = Some q"
  shows "\<exists>cs'. big_wf (free_big (c + 13) st) cs' (live(c := None))"
    and "fast_bin (free_big (c + 13) st) = fast_bin st"
proof -
  define st1 where "st1 = set_chunk c (\<lambda>k. k\<lparr>bc_used := False\<rparr>) st"
  define live' where "live' = live(c := None)"
  have mem: "c \<in> set cs" and dom: "dom live \<subseteq> set cs" and hd: "hd cs = hp_big_chunks (mapped_heap st)"
    using wf live by (auto simp: big_wf_alt)
  then obtain xs ys where cs: "cs = xs @ c # ys" by (meson split_list)
  have "tail_ok (chunk_at st1) live' 0 (xs @ c # ys)"
    using wf by (simp add: big_wf_alt st1_def live'_def cs tail_ok_unuse)
  then obtain ys' where ys': "tail_ok (chunk_at (consolidate_forwards c st1)) live' 0 (xs @ c # ys')"
      "dom live' \<inter> set ys \<subseteq> set ys'"
    using forwards_wf [of st1 live' xs c ys] by (auto simp: live'_def)
  define st2 where "st2 = consolidate_backwards c (consolidate_forwards c st1)"
  from backwards_wf [OF ys'(1)] obtain xs' where
    xs': "tail_ok (chunk_at st2) live' 0 (xs' @ c # ys')"
      "dom live' \<inter> set xs \<subseteq> set xs'" "hd (xs' @ [c]) = hd (xs @ [c])"
    by (auto simp: live'_def st2_def)
  have free: "free_big (c + 13) st = count_allocated (\<lambda>n. n - 1) st2"
    by (simp add: free_big_def PTR_ADVANCE_def SIZEOF_BIG_CHUNK_def st2_def st1_def Let_def)
  have heads: "hd (xs' @ c # ys') = hd cs"
    using xs'(3) by (simp add: cs hd_append split: if_splits)
  have "finite (dom live)" using dom finite_subset by blast
  then have card: "card (dom live') = card (dom live) - 1" "0 < card (dom live)"
    using live by (auto simp: live'_def card_gt_0_iff domIff)
  have "unat (hp_allocated_chunks (mapped_heap st) - 1) = card (dom live) - 1"
    using card(2) wf unat_minus_no_wrap [of 1 "hp_allocated_chunks (mapped_heap st)"]
    by (simp add: big_wf_alt)
  moreover have "dom live' \<subseteq> set (xs' @ c # ys')"
    using dom ys'(2) xs'(2) by (auto simp: cs live'_def split: if_splits)
  ultimately have "big_wf (free_big (c + 13) st) (xs' @ c # ys') live'"
    using xs'(1) heads hd wf card(1) unfolding free
    by (simp add: big_wf_alt st2_def st1_def)
  then show "\<exists>cs'. big_wf (free_big (c + 13) st) cs' (live(c := None))"
    unfolding live'_def by blast
  show "fast_bin (free_big (c + 13) st) = fast_bin st"
    by (simp add: free st2_def st1_def)
qed

end
