(* ===== verification/Kmm_Props.thy ===== *)
theory Kmm_Props
  imports Kmm_Small Kmm_Big
begin

text \<open>
  The properties of the memory manager: what \<^verbatim>\<open>Initialize\<close>, \<^verbatim>\<open>malloc\<close> and \<^verbatim>\<open>free\<close>
  promise for small and for big requests, the invariant of any run of them, and the run that
  leaves it.
\<close>

section \<open>The kernel's own heap\<close>

text \<open>The heap as \<^verbatim>\<open>kernel_main\<close> sets it up, in memory that held zeros.\<close>

definition boot_heap :: mm_state where
  "boot_heap = (case mm_Initialize K_HEAP_START (K_HEAP_START + K_HEAP_INITIAL_SIZE)
       0xCFFFF000 False True (replicate 1700 0) (\<lambda>_. zero_chunk) 0x200000 of
     Inl e \<Rightarrow> undefined | Inr (st, heap) \<Rightarrow> st)"

lemma mm_Initialize_result:
  assumes "IS_ALIGNED start" and "IS_ALIGNED end"
  shows "\<exists>heap'. mm_Initialize start end max_addr is_kernel rw bin_mem chunks0 heap =
    Inr (\<lparr>fast_bin = \<lparr>fb_chunks = replicate 100 0 @ drop 100 bin_mem, fb_chunk_size = 64,
             fb_bin_size = 100, fb_start_addr = start, fb_end_addr = start + 6800\<rparr>,
          mapped_heap = \<lparr>hp_fast_bins = start, hp_big_chunks = start + 6800,
             hp_allocated_chunks = 0, hp_start_address = start, hp_end_address = end,
             hp_max_address = max_addr, hp_is_kernel = is_kernel, hp_rw = rw\<rparr>,
          chunk_at = chunks0(start + 6800 := zero_chunk)\<rparr>, heap')"
  using assms
  by (simp add: mm_Initialize_def Let_def FASTBIN_THRESHOLD_def FASTBIN_MAX_SIZE_def SIZEOF_FAST_CHUNK_def
      split: prod.split)

lemma mm_Initialize_heap:
  assumes "mm_Initialize start end max_addr is_kernel rw bin_mem chunks0 heap = Inr (st, heap')"
    and "unat heap + 0x10000 < 2 ^ 32"
  shows "unat heap \<le> unat heap' \<and> unat heap' \<le> unat heap + 0x6000"
proof -
  define h1 where "h1 = aligned_top heap + 20"
  define h2 where "h2 = aligned_top h1 + 6800"
  have h': "heap' = aligned_top h2 + 26"
    using assms(1) by (simp add: mm_Initialize_def Let_def Allocate_aligned SIZEOF_FAST_BIN_def SIZEOF_HEAP_def
        SIZEOF_FAST_CHUNK_def FASTBIN_THRESHOLD_def FASTBIN_MAX_SIZE_def h1_def h2_def split: if_splits)
  have 1: "unat heap \<le> unat h1" "unat h1 \<le> unat heap + 0x1014"
    using Allocate_bounds [OF _ Allocate_aligned, of heap 20] assms(2) by (simp_all add: h1_def)
  have 2: "unat h1 \<le> unat h2" "unat h2 \<le> unat h1 + 0x2A90"
    using Allocate_bounds [OF _ Allocate_aligned, of h1 6800] assms(2) 1 by (simp_all add: h2_def)
  have 3: "unat h2 \<le> unat heap'" "unat heap' \<le> unat h2 + 0x101A"
    using Allocate_bounds [OF _ Allocate_aligned, of h2 26] assms(2) 1 2 by (simp_all add: h')
  show ?thesis using 1 2 3 by linarith
qed

lemma fresh_heap_bins:
  fixes start :: u32
  assumes "length bin_mem = 1700" and "0 < start" and "unat start + 6800 < 2 ^ 32"
    and "fast_bin st = \<lparr>fb_chunks = replicate 100 0 @ drop 100 bin_mem, fb_chunk_size = 64,
             fb_bin_size = 100, fb_start_addr = start, fb_end_addr = start + 6800\<rparr>"
    and "hp_fast_bins (mapped_heap st) = start" and "hp_big_chunks (mapped_heap st) = start + 6800"
  shows "bin_wf st" and "used_slots st = {}"
  using assms by (auto simp: bin_wf_def used_slots_def FASTBIN_MAX_SIZE_def FASTBIN_THRESHOLD_def nth_append)

lemma fresh_heap_chunks:
  fixes start :: u32
  assumes "unat start + 6800 < 2 ^ 32"
    and "hp_big_chunks (mapped_heap st) = start + 6800" and "hp_allocated_chunks (mapped_heap st) = 0"
    and "chunk_at st (start + 6800) = zero_chunk"
  shows "big_wf st [start + 6800] Map.empty"
proof -
  have "unat (start + 6800) = unat start + 6800"
    using assms(1) unat_plus_no_wrap [of start 6800] by simp
  then have "start + 6800 \<noteq> 0" by (metis unat_0 add_is_0 zero_neq_numeral)
  then show ?thesis
    using assms by (simp add: big_wf_def last_ok_def zero_chunk_def)
qed

lemma big_request_bounds:
  assumes "unat sz + 20 < 2 ^ 32"
  shows "unat (big_request sz) = round_up (unat sz + 13) 8"
    and "unat sz + 13 \<le> unat (big_request sz)" and "unat (big_request sz) \<le> unat sz + 20"
proof -
  have sum: "unat (sz + 13) = unat sz + 13"
    using assms unat_plus_no_wrap [of sz 13] by simp
  have wide: "unat (ucast (sz + 13) :: u64) = unat sz + 13"
    using assms by (simp add: unsigned_ucast_eq sum take_bit_eq_mod)
  have "unat (ALIGN_VAL (ucast (sz + 13)) (2 ^ 3)) = round_up (unat sz + 13) (2 ^ 3)"
    using assms unat_ALIGN_VAL [of "ucast (sz + 13)" 3] by (simp add: wide)
  then have al: "unat (ALIGN_VAL (ucast (sz + 13)) 8) = round_up (unat sz + 13) 8"
    by simp
  have up: "unat sz + 13 \<le> round_up (unat sz + 13) 8" "round_up (unat sz + 13) 8 \<le> unat sz + 20"
    using round_up_ge [of 8 "unat sz + 13"] round_up_less [of 8 "unat sz + 13"] by simp_all
  then have "unat (ucast (ALIGN_VAL (ucast (sz + 13)) 8) :: u32) = round_up (unat sz + 13) 8"
    using assms by (simp add: unsigned_ucast_eq al take_bit_eq_mod)
  then show *: "unat (big_request sz) = round_up (unat sz + 13) 8"
    by (simp add: big_request_def CHUNK_SIZE_ALIGN_def SIZEOF_BIG_CHUNK_def)
  show "unat sz + 13 \<le> unat (big_request sz)" and "unat (big_request sz) \<le> unat sz + 20"
    using up by (simp_all only: *)
qed

lemma boot_heap_eq:
  "boot_heap = \<lparr>fast_bin = \<lparr>fb_chunks = replicate 1700 0, fb_chunk_size = 64,
             fb_bin_size = 100, fb_start_addr = 0xC0000000, fb_end_addr = 0xC0001A90\<rparr>,
          mapped_heap = \<lparr>hp_fast_bins = 0xC0000000, hp_big_chunks = 0xC0001A90,
             hp_allocated_chunks = 0, hp_start_address = 0xC0000000, hp_end_address = 0xC1000000,
             hp_max_address = 0xCFFFF000, hp_is_kernel = False, hp_rw = True\<rparr>,
          chunk_at = (\<lambda>_. zero_chunk)\<rparr>"
proof -
  have al: "IS_ALIGNED 0xC0000000" "IS_ALIGNED 0xC1000000"
    by (simp_all add: IS_ALIGNED_def HEAP_ALIGNMENT_def)
  have rep: "replicate 100 (0::u32) @ replicate 1600 0 = replicate 1700 0"
    by (simp flip: replicate_add)
  show ?thesis
    using mm_Initialize_result [OF al, of "0xCFFFF000" False True "replicate 1700 0" "\<lambda>_. zero_chunk" "0x200000"]
    by (auto simp: boot_heap_def K_HEAP_START_def K_HEAP_INITIAL_SIZE_def rep)
qed

lemma boot_heap_initialized:
  obtains heap' where "mm_Initialize 0xC0000000 0xC1000000 0xCFFFF000 False True (replicate 1700 0)
      (\<lambda>_. zero_chunk) 0x200000 = Inr (boot_heap, heap')"
  using mm_Initialize_result [of "0xC0000000" "0xC1000000" "0xCFFFF000" False True "replicate 1700 0" "\<lambda>_. zero_chunk" "0x200000"]
  by (auto simp: boot_heap_def K_HEAP_START_def K_HEAP_INITIAL_SIZE_def IS_ALIGNED_def HEAP_ALIGNMENT_def)

lemma boot_heap_wf:
  "bin_wf boot_heap" "used_slots boot_heap = {}" "small_blocks boot_heap = {}"
  "big_wf boot_heap [0xC0001A90] Map.empty"
proof -
  have rep: "replicate 1700 0 = replicate 100 (0::u32) @ drop 100 (replicate 1700 0)"
    by (simp flip: replicate_add)
  have boot: "fast_bin boot_heap = \<lparr>fb_chunks = replicate 100 0 @ drop 100 (replicate 1700 0), fb_chunk_size = 64,
             fb_bin_size = 100, fb_start_addr = 0xC0000000, fb_end_addr = 0xC0000000 + 6800\<rparr>"
    using rep by (simp add: boot_heap_eq)
  have lim: "length (replicate 1700 (0::u32)) = 1700" "0 < (0xC0000000::u32)" "unat (0xC0000000::u32) + 6800 < 2 ^ 32"
    by simp_all
  show "bin_wf boot_heap" "used_slots boot_heap = {}"
    using fresh_heap_bins [OF lim boot] by (simp_all add: boot_heap_eq)
  then show "small_blocks boot_heap = {}" by (simp add: small_blocks_def)
  show "big_wf boot_heap [0xC0001A90] Map.empty"
    using fresh_heap_chunks [OF lim(3), of boot_heap] by (simp add: boot_heap_eq)
qed

section \<open>Requests that the heap serves\<close>

lemma malloc_big_sized:
  assumes "64 < sz" and "unat sz + 20 < 2 ^ 32"
  shows "malloc pdiff sz st = malloc_big pdiff (big_request sz) st" and "78 \<le> unat (big_request sz)"
proof -
  have "64 < unat sz" using assms(1) by (simp add: word_less_nat_alt)
  then show "78 \<le> unat (big_request sz)"
    using big_request_bounds(2) [OF assms(2)] by linarith
  show "malloc pdiff sz st = malloc_big pdiff (big_request sz) st"
    using assms(1) by (auto simp: malloc_def FASTBIN_THRESHOLD_def)
qed

lemma malloc_small_sized:
  "0 < sz \<Longrightarrow> sz \<le> 64 \<Longrightarrow> malloc pdiff sz st = malloc_fastbin st"
  by (simp add: malloc_def FASTBIN_THRESHOLD_def word_gt_0)

lemma free_big_routed:
  assumes "big_wf st cs live" and "live c = Some q"
  shows "free (c + 13) st = Inr (free_big (c + 13) st)"
proof -
  have c: "c \<in> set cs" and ok: "tail_ok (chunk_at st) live 0 cs" and hd: "hd cs = hp_big_chunks (mapped_heap st)"
    using assms by (auto simp: big_wf_alt)
  have fits: "13 < q" "unat c + q \<le> 2 ^ 32"
    using tail_ok_live [OF ok c assms(2)] by simp_all
  have "hd cs \<le> c"
    using c tail_ok_sorted [OF ok] by (cases cs) (auto intro: less_imp_le)
  moreover have "unat (c + 13) = unat c + 13"
    using fits unat_plus_no_wrap [of c 13] by simp
  ultimately have "\<not> c + 13 \<le> hp_big_chunks (mapped_heap st)"
    using hd by (simp add: word_le_nat_alt)
  then show ?thesis by (simp add: free_def)
qed

lemma small_blocks_cong:
  "fast_bin st' = fast_bin st \<Longrightarrow> hp_fast_bins (mapped_heap st') = hp_fast_bins (mapped_heap st)
    \<Longrightarrow> small_blocks st' = small_blocks st"
  by (simp add: small_blocks_def used_slots_def slot_addr_def)

lemma small_block_bounds:
  assumes "bin_wf st" and "k < 100"
  shows "unat (hp_fast_bins (mapped_heap st)) \<le> unat (slot_addr st k)"
    and "unat (slot_addr st k) + 64 \<le> unat (hp_big_chunks (mapped_heap st))"
proof -
  have "unat (hp_big_chunks (mapped_heap st)) = unat (hp_fast_bins (mapped_heap st)) + 6800"
    using assms(1) bin_wfD(4) [OF assms(1)] unat_plus_no_wrap [of "hp_fast_bins (mapped_heap st)" 6800]
    by (simp add: bin_wf_def)
  then show "unat (hp_fast_bins (mapped_heap st)) \<le> unat (slot_addr st k)"
    and "unat (slot_addr st k) + 64 \<le> unat (hp_big_chunks (mapped_heap st))"
    using assms(2) by (simp_all add: unat_slot_addr [OF assms])
qed

lemma small_blocks_apart:
  assumes "bin_wf st" and "k < 100" and "k \<notin> used_slots st" and "b \<in> small_blocks st"
  shows "unat b + 64 \<le> unat (slot_addr st k) \<or> unat (slot_addr st k) + 64 \<le> unat b"
proof -
  obtain i where i: "i < 100" "b = slot_addr st i" "i \<noteq> k"
    using assms(3,4) by (auto simp: small_blocks_def used_slots_def)
  then have "i + 1 \<le> k \<or> k + 1 \<le> i" by linarith
  then show ?thesis
    using unat_slot_addr [OF assms(1)] assms(2) i(1) by (auto simp: i(2))
qed

lemma malloc_big_keeps:
  "malloc_big pdiff req st = Inr (p, st') \<Longrightarrow>
     hp_fast_bins (mapped_heap st') = hp_fast_bins (mapped_heap st)
     \<and> hp_big_chunks (mapped_heap st') = hp_big_chunks (mapped_heap st)"
  by (auto simp: malloc_big_def Let_def and_then_Inr_iff use_hole_def append_chunk_def
      split: if_splits option.splits bool.splits)

text \<open>
  A request of 1 to 64 bytes is served while one of the 100 slots is free: the block is not
  null, was not handed out before, is 64 bytes inside the reserved area that overlap no other
  block handed out, and the chunks are untouched. When all slots are taken the answer is null
  and nothing changes, although the chunk list could serve it.
\<close>

theorem malloc_small_correct:
  assumes "bin_wf st" and "0 < sz" and "sz \<le> 64"
  shows "\<exists>p st'. malloc pdiff sz st = Inr (p, st') \<and> bin_wf st' \<and> chunk_at st' = chunk_at st
    \<and> mapped_heap st' = mapped_heap st
    \<and> (if card (small_blocks st) < 100
       then p \<noteq> 0 \<and> small_blocks st' = insert p (small_blocks st)
         \<and> unat (hp_fast_bins (mapped_heap st)) \<le> unat p
         \<and> unat p + 64 \<le> unat (hp_big_chunks (mapped_heap st))
         \<and> (\<forall>b \<in> small_blocks st. unat b + 64 \<le> unat p \<or> unat p + 64 \<le> unat b)
       else p = 0 \<and> st' = st)"
proof (cases "card (small_blocks st) < 100")
  case True
  then obtain k where k: "k < 100" "k \<notin> used_slots st"
      "malloc_fastbin st = Inr (slot_addr st k, put_slot k (slot_addr st k) st)"
    using malloc_fastbin_free_slot [OF assms(1)] card_small_blocks [OF assms(1)] by metis
  have "small_blocks (put_slot k (slot_addr st k) st) = insert (slot_addr st k) (small_blocks st)"
    using assms(1) k by (simp add: small_blocks_def put_slot_used slot_addr_nonzero)
  then show ?thesis
    using True k malloc_small_sized [OF assms(2,3)] small_block_bounds [OF assms(1) k(1)]
      small_blocks_apart [OF assms(1) k(1,2)] slot_addr_nonzero [OF assms(1) k(1)]
      put_slot_wf [OF assms(1) k(1)]
    by (intro exI [of _ "slot_addr st k"] exI [of _ "put_slot k (slot_addr st k) st"]) simp
next
  case False
  then show ?thesis
    using sb.get_full [OF assms(1)] malloc_small_sized [OF assms(2,3)] assms(1) by simp
qed

lemma malloc_small_correct_witness:
  "bin_wf boot_heap \<and> (\<exists>p st'. malloc (\<lambda>_ _. 0) 16 boot_heap = Inr (p, st') \<and> p \<noteq> 0
    \<and> small_blocks st' = {p})"
  using malloc_small_correct [OF boot_heap_wf(1), of 16 "\<lambda>_ _. 0"] boot_heap_wf by auto

text \<open>
  Freeing the block a small request just got restores the state exactly, whatever its size.
\<close>

theorem free_malloc_small:
  assumes "bin_wf st" and "0 < sz" and "sz \<le> 64"
    and "operator_new pdiff sz st = Inr (p, st')" and "p \<noteq> 0"
  shows "operator_delete p st' = Inr st"
proof -
  have get: "malloc_fastbin st = Inr (p, st')"
    using assms(4) malloc_small_sized [OF assms(2,3)] by (simp add: operator_new_def)
  then have "card (used_slots st) < 100"
    using sb.get_null_iff [OF assms(1) get] assms(5) card_small_blocks [OF assms(1)] by simp
  then obtain k where k: "k < 100" "k \<notin> used_slots st" "p = slot_addr st k" "st' = put_slot k p st"
    using malloc_fastbin_free_slot [OF assms(1)] get by (metis Inr_inject Pair_inject)
  have "free p st' = Inr (put_slot k 0 st')"
    using free_small [of st' k] put_slot_wf [OF assms(1) k(1)] k by simp
  moreover have "put_slot k 0 st' = st"
  proof -
    have "fb_chunks (fast_bin st) ! k = 0" using k(1,2) by (simp add: used_slots_def)
    then have "(fb_chunks (fast_bin st))[k := 0] = fb_chunks (fast_bin st)"
      by (metis list_update_id)
    then show ?thesis by (simp add: k(4) put_slot_def)
  qed
  ultimately show ?thesis by (simp add: operator_delete_def)
qed

lemma free_malloc_small_witness:
  "\<exists>p st'. operator_new (\<lambda>_ _. 0) 16 boot_heap = Inr (p, st') \<and> p \<noteq> 0 \<and> operator_delete p st' = Inr boot_heap"
proof -
  obtain p st' where p: "malloc_fastbin boot_heap = Inr (p, st')" "p \<noteq> 0"
    using sb.get_fresh [OF boot_heap_wf(1)] boot_heap_wf(3) by auto
  then have "operator_new (\<lambda>_ _. 0) 16 boot_heap = Inr (p, st')"
    by (simp add: operator_new_def malloc_def FASTBIN_THRESHOLD_def)
  then show ?thesis
    using free_malloc_small [OF boot_heap_wf(1) _ _ _ p(2), of 16 "\<lambda>_ _. 0" st'] p(2) by auto
qed

text \<open>
  C16: A request above 64 bytes that meets \<open>can_serve\<close> - no other chunk follows the first when
  none is in use, and a chunk put at the end does not wrap - is served from a hole or at the end of the list.
  The new block was not in use, holds the bytes asked for after its header, overlaps no block in use, and the
  bin is untouched. The end of the heap is never compared with.
\<close>

theorem malloc_big_correct:
  assumes "big_wf st cs live" and "64 < sz" and "unat sz + 20 < 2 ^ 32"
    and "can_serve st cs (big_request sz)"
  shows "\<exists>c st' cs'. malloc pdiff sz st = Inr (BIGCHUNK_DATA_BEGIN c, st')
    \<and> live c = None \<and> big_wf st' cs' (live(c \<mapsto> unat (big_request sz)))
    \<and> unat (BIGCHUNK_DATA_BEGIN c) + unat sz \<le> unat c + unat (big_request sz)
    \<and> (\<forall>b q. live b = Some q \<longrightarrow> unat b + q \<le> unat c \<or> unat c + unat (big_request sz) \<le> unat b)
    \<and> small_blocks st' = small_blocks st"
proof -
  obtain c st' cs' where c: "malloc pdiff sz st = Inr (c + 13, st')" "c \<notin> dom live"
      "big_wf st' cs' (live(c \<mapsto> unat (big_request sz)))" "fast_bin st' = fast_bin st"
    using malloc_big_wf [OF assms(1,4)] malloc_big_sized [OF assms(2,3)] by metis
  then have "hp_fast_bins (mapped_heap st') = hp_fast_bins (mapped_heap st)"
    using malloc_big_keeps malloc_big_sized(1) [OF assms(2,3)] by metis
  then have "small_blocks st' = small_blocks st"
    using small_blocks_cong c(4) by blast
  moreover have "unat b + q \<le> unat c \<or> unat c + unat (big_request sz) \<le> unat b" if "live b = Some q" for b q
  proof -
    have "b \<noteq> c" using that c(2) by auto
    then show ?thesis using big_wf_disjoint [OF c(3), of b q c] that by simp
  qed
  moreover have "unat (c + 13) + unat sz \<le> unat c + unat (big_request sz)"
    using big_request_bounds(2) [OF assms(3)] unat_word_ariths(1) [of c 13]
      mod_less_eq_dividend [of "unat c + 13" "2 ^ 32"] by simp
  ultimately show ?thesis
    using c by (intro exI [of _ c] exI [of _ st'] exI [of _ cs'])
      (simp add: BIGCHUNK_DATA_BEGIN_def SIZEOF_BIG_CHUNK_def domIff)
qed

lemma malloc_big_correct_witness:
  "can_serve boot_heap [0xC0001A90] (big_request 100)
   \<and> (\<exists>c st'. malloc (\<lambda>_ _. 0) 100 boot_heap = Inr (BIGCHUNK_DATA_BEGIN c, st'))"
proof -
  have req: "big_request 100 = 120"
    by (simp add: big_request_def ALIGN_VAL_def CHUNK_SIZE_ALIGN_def SIZEOF_BIG_CHUNK_def)
  have serve: "can_serve boot_heap [0xC0001A90] (big_request 100)"
    by (simp add: can_serve_def req boot_heap_eq)
  moreover have "(64::u32) < 100" "unat (100::u32) + 20 < 2 ^ 32" by simp_all
  ultimately show ?thesis
    using malloc_big_correct [OF boot_heap_wf(4), of 100 "\<lambda>_ _. 0"] by metis
qed

text \<open>
  C17: Freeing a big block in use reaches the chunk allocator (never the bin), removes exactly
  that block, and the consolidation with its neighbours keeps the list well formed.
\<close>

theorem free_big_correct:
  assumes "big_wf st cs live" and "live c = Some q"
  shows "\<exists>st' cs'. free (BIGCHUNK_DATA_BEGIN c) st = Inr st' \<and> big_wf st' cs' (live(c := None))
    \<and> fast_bin st' = fast_bin st"
  using free_big_routed [OF assms] free_big_wf [OF assms]
  by (auto simp: BIGCHUNK_DATA_BEGIN_def SIZEOF_BIG_CHUNK_def)

lemma free_big_correct_witness:
  "\<exists>c st st'. malloc (\<lambda>_ _. 0) 100 boot_heap = Inr (BIGCHUNK_DATA_BEGIN c, st)
    \<and> free (BIGCHUNK_DATA_BEGIN c) st = Inr st'"
proof -
  have "can_serve boot_heap [0xC0001A90] 120" "78 \<le> unat (120::u32)"
    by (simp_all add: can_serve_def boot_heap_eq)
  from malloc_big_wf [OF boot_heap_wf(4) this, of "\<lambda>_ _. 0"] obtain c st cs where
    c: "malloc_big (\<lambda>_ _. 0) 120 boot_heap = Inr (c + 13, st)" "big_wf st cs [c \<mapsto> 120]"
    by auto
  have "malloc (\<lambda>_ _. 0) 100 boot_heap = Inr (BIGCHUNK_DATA_BEGIN c, st)"
    using c(1) by (simp add: malloc_def FASTBIN_THRESHOLD_def big_request_def ALIGN_VAL_def
        CHUNK_SIZE_ALIGN_def SIZEOF_BIG_CHUNK_def BIGCHUNK_DATA_BEGIN_def)
  then show ?thesis
    using free_big_correct [OF c(2), of c 120] by auto
qed

text \<open>
  C23: \<^verbatim>\<open>Initialize\<close> on an aligned heap establishes both invariants: every slot of the bin
  is free and the chunk list is one unused chunk right after the reserved area. On a heap whose
  bounds are not aligned it panics.
\<close>

theorem mm_Initialize_correct:
  assumes "length bin_mem = 1700" and "0 < start" and "unat start + 6800 < 2 ^ 32"
  shows "if IS_ALIGNED start \<and> IS_ALIGNED end
    then \<exists>st heap'. mm_Initialize start end max_addr is_kernel rw bin_mem chunks0 heap = Inr (st, heap')
      \<and> bin_wf st \<and> small_blocks st = {} \<and> big_wf st [start + 6800] Map.empty
      \<and> hp_end_address (mapped_heap st) = end
    else mm_Initialize start end max_addr is_kernel rw bin_mem chunks0 heap = Inl Kernel_Panic"
proof (cases "IS_ALIGNED start \<and> IS_ALIGNED end")
  case True
  then obtain st heap' where st: "mm_Initialize start end max_addr is_kernel rw bin_mem chunks0 heap = Inr (st, heap')"
      "fast_bin st = \<lparr>fb_chunks = replicate 100 0 @ drop 100 bin_mem, fb_chunk_size = 64,
             fb_bin_size = 100, fb_start_addr = start, fb_end_addr = start + 6800\<rparr>"
      "hp_fast_bins (mapped_heap st) = start" "hp_big_chunks (mapped_heap st) = start + 6800"
      "hp_allocated_chunks (mapped_heap st) = 0" "hp_end_address (mapped_heap st) = end"
      "chunk_at st (start + 6800) = zero_chunk"
    using mm_Initialize_result [of start "end" max_addr is_kernel rw bin_mem chunks0 heap] by force
  show ?thesis
    using True st(1,6) fresh_heap_bins [OF assms st(2-4)] fresh_heap_chunks [OF assms(3) st(4,5,7)]
    by (auto simp: small_blocks_def)
next
  case False
  then show ?thesis
    by (auto simp: mm_Initialize_def Let_def split: prod.split)
qed

lemma mm_Initialize_correct_witness:
  "\<exists>st heap'. mm_Initialize 0xC0000000 0xC1000000 0xCFFFF000 False True (replicate 1700 0) (\<lambda>_. zero_chunk) 0x200000
     = Inr (st, heap') \<and> bin_wf st \<and> big_wf st [0xC0001A90] Map.empty"
proof -
  have al: "IS_ALIGNED 0xC0000000 \<and> IS_ALIGNED 0xC1000000"
    by (simp add: IS_ALIGNED_def HEAP_ALIGNMENT_def)
  show ?thesis
    using mm_Initialize_correct [of "replicate 1700 0" "0xC0000000" "0xC1000000" "0xCFFFF000" False True "\<lambda>_. zero_chunk" "0x200000"]
      al by auto
qed

section \<open>Runs\<close>

text \<open>The chunks as the links reach them from the head.\<close>

fun linked :: "(u32 \<Rightarrow> BigChunk) \<Rightarrow> u32 list \<Rightarrow> bool" where
  "linked h [] = False"
| "linked h [c] = (bc_next (h c) = 0)"
| "linked h (c # d # r) = (bc_next (h c) = d \<and> d \<noteq> 0 \<and> linked h (d # r))"

lemma linked_unique:
  "linked h cs \<Longrightarrow> linked h ds \<Longrightarrow> hd cs = hd ds \<Longrightarrow> cs = ds"
proof (induction cs arbitrary: ds rule: induct_list012)
  case (2 x)
  then obtain r where "ds = x # r" by (cases ds) auto
  then show ?case using 2 by (cases r) auto
next
  case (3 x y zs)
  then obtain r where r: "ds = x # r" by (cases ds) auto
  with 3 obtain s where s: "r = y # s" by (cases r) auto
  show ?case using 3 "3.IH"(2) [of "y # s"] by (simp add: r s)
qed simp

lemma tail_ok_linked: "tail_ok h live p cs \<Longrightarrow> linked h cs"
proof (induction cs arbitrary: p rule: induct_list012)
  case (3 x y zs)
  then show ?case by (auto simp: link_ok_def)
qed (auto simp: last_ok_def)

text \<open>
  A run of the kernel's heap: requests and releases of live blocks in any order, each big
  request made while \<open>can_serve\<close> holds of the chunks the links reach.
\<close>

inductive heap_run :: "(u32 \<Rightarrow> u32 \<Rightarrow> u32) \<Rightarrow> mm_state \<Rightarrow> mm_state \<Rightarrow> (u32 \<rightharpoonup> nat) \<Rightarrow> bool"
  for pdiff :: "u32 \<Rightarrow> u32 \<Rightarrow> u32" and st0 :: mm_state where
  run_start: "heap_run pdiff st0 st0 Map.empty"
| run_small: "heap_run pdiff st0 st live \<Longrightarrow> sz \<le> 64 \<Longrightarrow> malloc pdiff sz st = Inr (p, st')
    \<Longrightarrow> heap_run pdiff st0 st' live"
| run_big: "heap_run pdiff st0 st live \<Longrightarrow> 64 < sz \<Longrightarrow> unat sz + 20 < 2 ^ 32
    \<Longrightarrow> linked (chunk_at st) cs \<Longrightarrow> hd cs = hp_big_chunks (mapped_heap st)
    \<Longrightarrow> can_serve st cs (big_request sz) \<Longrightarrow> malloc pdiff sz st = Inr (BIGCHUNK_DATA_BEGIN c, st')
    \<Longrightarrow> heap_run pdiff st0 st' (live(c \<mapsto> unat (big_request sz)))"
| run_free_small: "heap_run pdiff st0 st live \<Longrightarrow> p \<in> small_blocks st \<Longrightarrow> free p st = Inr st'
    \<Longrightarrow> heap_run pdiff st0 st' live"
| run_free_big: "heap_run pdiff st0 st live \<Longrightarrow> c \<in> dom live \<Longrightarrow> free (BIGCHUNK_DATA_BEGIN c) st = Inr st'
    \<Longrightarrow> heap_run pdiff st0 st' (live(c := None))"

lemma big_wf_other_bin:
  "big_wf (put_slot i v st) cs live = big_wf st cs live"
  by (simp add: big_wf_def)

text \<open>What the operations on small blocks leave alone.\<close>

definition same_big :: "mm_state \<Rightarrow> mm_state \<Rightarrow> bool" where
  "same_big st st' \<longleftrightarrow> chunk_at st' = chunk_at st \<and> mapped_heap st' = mapped_heap st"

lemma same_bigD:
  assumes "same_big st st'"
  shows "big_wf st' cs live = big_wf st cs live" and "can_serve st' cs req = can_serve st cs req"
    and "big_room L st' cs = big_room L st cs"
  using assms by (simp_all add: same_big_def big_wf_def can_serve_def big_room_def)

lemma same_big_refl [simp]: "same_big st st"
  by (simp add: same_big_def)

lemma same_big_trans: "same_big st st1 \<Longrightarrow> same_big st1 st2 \<Longrightarrow> same_big st st2"
  by (simp add: same_big_def)

lemma malloc_fastbin_same_big:
  assumes "bin_wf st" and "malloc_fastbin st = Inr (p, st')"
  shows "same_big st st'"
proof (cases "card (used_slots st) < 100")
  case True
  then obtain k where "st' = put_slot k (slot_addr st k) st"
    using malloc_fastbin_free_slot [OF assms(1)] assms(2) by (metis Inr_inject Pair_inject)
  then show ?thesis by (simp add: same_big_def)
next
  case False
  then have "malloc_fastbin st = Inr (0, st)"
    using sb.get_full [OF assms(1)] card_small_blocks [OF assms(1)] by simp
  then show ?thesis using assms(2) by simp
qed

lemma free_small_same_big:
  assumes "bin_wf st" and "p \<in> small_blocks st" and "free p st = Inr st'"
  shows "same_big st st'"
proof -
  obtain k where "k < 100" "p = slot_addr st k"
    using assms(2) by (auto simp: small_blocks_def used_slots_def)
  then have "st' = put_slot k 0 st" using free_small [OF assms(1)] assms(3) by simp
  then show ?thesis by (simp add: same_big_def)
qed

definition heap_inv :: "mm_state \<Rightarrow> (u32 \<rightharpoonup> nat) \<Rightarrow> bool" where
  "heap_inv st live \<longleftrightarrow> bin_wf st \<and> (\<exists>cs. big_wf st cs live)"

lemma heap_invI: "bin_wf st \<Longrightarrow> big_wf st cs live \<Longrightarrow> heap_inv st live"
  by (auto simp: heap_inv_def)

lemma bin_wf_cong:
  "fast_bin st' = fast_bin st \<Longrightarrow> hp_fast_bins (mapped_heap st') = hp_fast_bins (mapped_heap st)
    \<Longrightarrow> hp_big_chunks (mapped_heap st') = hp_big_chunks (mapped_heap st) \<Longrightarrow> bin_wf st' = bin_wf st"
  by (simp add: bin_wf_def slot_addr_def)

lemma heap_inv_small:
  assumes "heap_inv st live" and "sz \<le> 64" and "malloc pdiff sz st = Inr (p, st')"
  shows "heap_inv st' live"
proof -
  obtain cs where wf: "bin_wf st" "big_wf st cs live" using assms(1) by (auto simp: heap_inv_def)
  consider "st' = st" | k where "k < 100" "st' = put_slot k (slot_addr st k) st"
  proof (cases "sz = 0 \<or> \<not> card (used_slots st) < 100")
    case True
    then have "st' = st"
      using assms(2,3) sb.get_full [OF wf(1)] malloc_small_sized [of sz pdiff st] card_small_blocks [OF wf(1)]
      by (auto simp: malloc_def FASTBIN_THRESHOLD_def split: if_splits)
    then show thesis by (rule that(1))
  next
    case False
    then have "malloc_fastbin st = Inr (p, st')"
      using assms(2,3) malloc_small_sized [of sz pdiff st] by (simp add: word_gt_0)
    then show thesis
      using malloc_fastbin_free_slot [OF wf(1)] False that(2) by (metis Inr_inject Pair_inject)
  qed
  then show ?thesis
    using wf by cases (auto intro!: heap_invI put_slot_wf simp: big_wf_other_bin)
qed

lemma heap_inv_free_small:
  assumes "heap_inv st live" and "p \<in> small_blocks st" and "free p st = Inr st'"
  shows "heap_inv st' live"
proof -
  obtain cs where wf: "bin_wf st" "big_wf st cs live" using assms(1) by (auto simp: heap_inv_def)
  obtain k where "k < 100" "p = slot_addr st k"
    using assms(2) by (auto simp: small_blocks_def used_slots_def)
  then have "st' = put_slot k 0 st"
    using free_small [OF wf(1)] assms(3) by simp
  then show ?thesis
    using wf \<open>k < 100\<close> by (auto intro!: heap_invI put_slot_wf simp: big_wf_other_bin)
qed

lemma heap_inv_big:
  assumes "heap_inv st live" and "64 < sz" and "unat sz + 20 < 2 ^ 32"
    and "linked (chunk_at st) cs" and "hd cs = hp_big_chunks (mapped_heap st)"
    and "can_serve st cs (big_request sz)" and "malloc pdiff sz st = Inr (BIGCHUNK_DATA_BEGIN c, st')"
  shows "heap_inv st' (live(c \<mapsto> unat (big_request sz)))"
proof -
  obtain ds where wf: "bin_wf st" "big_wf st ds live" using assms(1) by (auto simp: heap_inv_def)
  have "linked (chunk_at st) ds" "hd ds = hp_big_chunks (mapped_heap st)"
    using wf(2) tail_ok_linked by (auto simp: big_wf_alt)
  then have "cs = ds"
    using linked_unique [OF assms(4)] assms(5) by metis
  then have serve: "can_serve st ds (big_request sz)" using assms(6) by simp
  have big: "malloc_big pdiff (big_request sz) st = Inr (c + 13, st')" "78 \<le> unat (big_request sz)"
    using malloc_big_sized [OF assms(2,3)] assms(7) by (simp_all add: BIGCHUNK_DATA_BEGIN_def SIZEOF_BIG_CHUNK_def)
  obtain c' st2 cs' where *: "malloc_big pdiff (big_request sz) st = Inr (c' + 13, st2)"
      "big_wf st2 cs' (live(c' \<mapsto> unat (big_request sz)))" "fast_bin st2 = fast_bin st"
    using malloc_big_wf [OF wf(2) serve big(2), of pdiff] by metis
  then have "c' = c" "st2 = st'" using big(1) by simp_all
  moreover have "bin_wf st' = bin_wf st"
    using malloc_big_keeps [OF big(1)] *(3) \<open>st2 = st'\<close> by (intro bin_wf_cong) simp_all
  ultimately show ?thesis
    using wf(1) *(2) by (intro heap_invI [where cs = cs']) simp_all
qed

lemma heap_inv_free_big:
  assumes "heap_inv st live" and "c \<in> dom live" and "free (BIGCHUNK_DATA_BEGIN c) st = Inr st'"
  shows "heap_inv st' (live(c := None))"
proof -
  obtain cs q where wf: "bin_wf st" "big_wf st cs live" and q: "live c = Some q"
    using assms(1,2) by (auto simp: heap_inv_def)
  have st': "st' = free_big (c + 13) st"
    using free_big_routed [OF wf(2) q] assms(3) by (simp add: BIGCHUNK_DATA_BEGIN_def SIZEOF_BIG_CHUNK_def)
  obtain cs' where "big_wf st' cs' (live(c := None))"
    using free_big_wf(1) [OF wf(2) q] by (auto simp: st')
  moreover have "fast_bin st' = fast_bin st"
    using free_big_wf(2) [OF wf(2) q] by (simp add: st')
  moreover have "mapped_heap st' = (mapped_heap st)\<lparr>hp_allocated_chunks := hp_allocated_chunks (mapped_heap st) - 1\<rparr>"
    by (simp add: st' free_big_def Let_def)
  ultimately show ?thesis
    using bin_wf_cong [of st' st] wf(1) by (intro heap_invI) auto
qed

lemma heap_run_inv:
  assumes "heap_run pdiff st0 st live" and "heap_inv st0 Map.empty"
  shows "heap_inv st live"
  using assms
proof (induction rule: heap_run.induct)
  case run_start
  then show ?case .
next
  case (run_small st live sz p st')
  then show ?case by (metis heap_inv_small)
next
  case (run_big st live sz cs c st')
  then show ?case by (metis heap_inv_big)
next
  case (run_free_small st live p st')
  then show ?case by (metis heap_inv_free_small)
next
  case (run_free_big st live c st')
  then show ?case by (metis heap_inv_free_big)
qed

text \<open>
  C5: After any run of releases of live blocks, small requests, and big requests that are
  made while \<open>can_serve\<close> holds, from an initialised heap: any two big blocks in use are disjoint, every
  small block lies below every big one, and any two small blocks are disjoint. What
  \<open>can_serve\<close> asks is that the addresses do not wrap and that, when no big block is in use, nothing follows the
  first chunk; what happens otherwise is the last property of this theory.
\<close>

theorem heap_run_disjoint:
  assumes "mm_Initialize start end max_addr is_kernel rw bin_mem chunks0 heap = Inr (st0, heap')"
    and "length bin_mem = 1700" and "0 < start" and "unat start + 6800 < 2 ^ 32"
    and "heap_run pdiff st0 st live"
  shows "(\<forall>a q b r. live a = Some q \<longrightarrow> live b = Some r \<longrightarrow> b \<noteq> a \<longrightarrow> unat a + q \<le> unat b \<or> unat b + r \<le> unat a)
    \<and> (\<forall>a q. live a = Some q \<longrightarrow> unat a + q \<le> 2 ^ 32 \<and> (\<forall>b \<in> small_blocks st. unat b + 64 \<le> unat a))
    \<and> (\<forall>a \<in> small_blocks st. \<forall>b \<in> small_blocks st. b \<noteq> a \<longrightarrow> unat a + 64 \<le> unat b \<or> unat b + 64 \<le> unat a)"
proof -
  have "IS_ALIGNED start \<and> IS_ALIGNED end"
    using assms(1) by (auto simp: mm_Initialize_def Let_def split: prod.splits if_splits)
  then have st0: "fast_bin st0 = \<lparr>fb_chunks = replicate 100 0 @ drop 100 bin_mem, fb_chunk_size = 64,
             fb_bin_size = 100, fb_start_addr = start, fb_end_addr = start + 6800\<rparr>"
      "hp_fast_bins (mapped_heap st0) = start" "hp_big_chunks (mapped_heap st0) = start + 6800"
      "hp_allocated_chunks (mapped_heap st0) = 0" "chunk_at st0 (start + 6800) = zero_chunk"
    using mm_Initialize_result [of start "end" max_addr is_kernel rw bin_mem chunks0 heap] assms(1) by auto
  have "heap_inv st0 Map.empty"
    using fresh_heap_bins(1) [OF assms(2-4) st0(1-3)] fresh_heap_chunks [OF assms(4) st0(3-5)]
    by (rule heap_invI)
  then have "heap_inv st live" using assms(5) by (rule heap_run_inv [rotated])
  then obtain cs where wf: "bin_wf st" "big_wf st cs live" by (auto simp: heap_inv_def)
  have ok: "tail_ok (chunk_at st) live 0 cs" and hd: "hd cs = hp_big_chunks (mapped_heap st)"
    and dom: "dom live \<subseteq> set cs"
    using wf(2) by (auto simp: big_wf_alt)
  have big: "unat a + q \<le> 2 ^ 32 \<and> (\<forall>b \<in> small_blocks st. unat b + 64 \<le> unat a)" if "live a = Some q" for a q
  proof -
    have a: "a \<in> set cs" using dom that by blast
    then have "hd cs \<le> a" using tail_ok_sorted [OF ok] by (cases cs) (auto intro: less_imp_le)
    then show ?thesis
      using tail_ok_live [OF ok a that] small_block_bounds(2) [OF wf(1)] hd
      by (fastforce simp: small_blocks_def used_slots_def word_le_nat_alt)
  qed
  have small: "unat a + 64 \<le> unat b \<or> unat b + 64 \<le> unat a"
    if ab: "a \<in> small_blocks st" "b \<in> small_blocks st" and ne: "b \<noteq> a" for a b
  proof -
    obtain i k where ik: "i < 100" "a = slot_addr st i" "k < 100" "b = slot_addr st k"
      using ab by (auto simp: small_blocks_def used_slots_def)
    then have "i + 1 \<le> k \<or> k + 1 \<le> i" using ne by (cases i k rule: linorder_cases) auto
    then show ?thesis using unat_slot_addr [OF wf(1)] ik by auto
  qed
  show ?thesis
    using big_wf_disjoint [OF wf(2)] big small by blast
qed

lemma heap_run_disjoint_witness:
  "\<exists>st c. heap_run (\<lambda>_ _. 0) boot_heap st [c \<mapsto> 120] \<and> unat c + 120 \<le> 2 ^ 32"
proof -
  have "can_serve boot_heap [0xC0001A90] (big_request 100)" "78 \<le> unat (big_request 100)"
    and req: "unat (big_request 100) = 120"
    by (simp_all add: can_serve_def boot_heap_eq big_request_def ALIGN_VAL_def
        CHUNK_SIZE_ALIGN_def SIZEOF_BIG_CHUNK_def)
  moreover from malloc_big_wf [OF boot_heap_wf(4) this(1,2), of "\<lambda>_ _. 0"] obtain c st where
    "malloc (\<lambda>_ _. 0) 100 boot_heap = Inr (BIGCHUNK_DATA_BEGIN c, st)"
    using malloc_big_sized(1) [of 100] by (auto simp: BIGCHUNK_DATA_BEGIN_def SIZEOF_BIG_CHUNK_def)
  moreover have "linked (chunk_at boot_heap) [0xC0001A90]" "hd [0xC0001A90] = hp_big_chunks (mapped_heap boot_heap)"
    by (simp_all add: boot_heap_eq zero_chunk_def)
  ultimately have run: "heap_run (\<lambda>_ _. 0) boot_heap st [c \<mapsto> 120]"
    using heap_run.run_big [OF heap_run.run_start, of 100 boot_heap "[0xC0001A90]" "\<lambda>_ _. 0" c st] by simp
  obtain heap' where init: "mm_Initialize 0xC0000000 0xC1000000 0xCFFFF000 False True (replicate 1700 0)
      (\<lambda>_. zero_chunk) 0x200000 = Inr (boot_heap, heap')"
    by (rule boot_heap_initialized)
  show ?thesis
    using heap_run_disjoint [OF init _ _ _ run] run by (intro exI [of _ st] exI [of _ c]) auto
qed

section \<open>The run that leaves the invariant\<close>

datatype mm_op = Malloc u32 | Free nat

text \<open>A script of requests; \<open>Free i\<close> releases the answer of request number \<open>i\<close>.\<close>

fun run_ops :: "(u32 \<Rightarrow> u32 \<Rightarrow> u32) \<Rightarrow> mm_op list \<Rightarrow> u32 list \<Rightarrow> mm_state \<Rightarrow> (u32 list \<times> mm_state) outcome" where
  "run_ops pdiff [] ps st = Inr (ps, st)"
| "run_ops pdiff (Malloc sz # ops) ps st =
     and_then (malloc pdiff sz st) (\<lambda>(p, st'). run_ops pdiff ops (ps @ [p]) st')"
| "run_ops pdiff (Free i # ops) ps st =
     and_then (load_at ps i) (\<lambda>p. and_then (free p st) (\<lambda>st'. run_ops pdiff ops ps st'))"

text \<open>The requests and releases of that script, one by one, on a list of one or two chunks.\<close>

lemma first_request:
  assumes "hp_allocated_chunks (mapped_heap st) = 0" and "hp_big_chunks (mapped_heap st) \<noteq> 0"
  shows "malloc_big pdiff req st = Inr (hp_big_chunks (mapped_heap st) + 13,
    count_allocated (\<lambda>n. n + 1) (set_chunk (hp_big_chunks (mapped_heap st)) (\<lambda>c. c\<lparr>bc_size := req, bc_used := True\<rparr>) st))"
  using assms by (simp add: malloc_big_def Let_def BIGCHUNK_DATA_BEGIN_def SIZEOF_BIG_CHUNK_def)

lemma appended_request:
  assumes "hp_allocated_chunks (mapped_heap st) \<noteq> 0" and "l + bc_size (chunk_at st l) \<noteq> 0"
    and "find_hole (chunk_at st) req (hp_big_chunks (mapped_heap st)) = Some (l, False)"
  shows "malloc_big pdiff req st = Inr (l + bc_size (chunk_at st l) + 13,
    count_allocated (\<lambda>n. n + 1) (snd (append_chunk req l st)))"
  using assms
  by (simp add: malloc_big_def BIGCHUNK_DATA_BEGIN_def SIZEOF_BIG_CHUNK_def append_chunk_def Let_def PTR_ADVANCE_def)

lemmas chunk_simps = set_chunk_def count_allocated_def append_chunk_def free_big_def consolidate_forwards_def
  consolidate_backwards_def zero_chunk_def PTR_ADVANCE_def SIZEOF_BIG_CHUNK_def Let_def

lemma emptying_run:
  fixes x a b c d :: u32
  assumes st: "hp_big_chunks (mapped_heap st) = x" "hp_allocated_chunks (mapped_heap st) = 0" "chunk_at st x = zero_chunk"
    and sized: "64 < a" "64 < b" "64 < c" "64 < d"
    and apart: "x \<noteq> 0" "y \<noteq> 0" "y \<noteq> x" "z \<noteq> 0"
    and at: "y = x + big_request a" "z = y + (big_request b + (big_request a + 13))"
    and route: "\<not> x + 13 \<le> x" "\<not> y + 13 \<le> x"
  shows "\<exists>st'. run_ops pdiff [Malloc a, Malloc b, Free 0, Free 1, Malloc c, Malloc d] [] st
    = Inr ([x + 13, y + 13, x + 13, z + 13], st')"
proof -
  have big: "malloc pdiff sz s = malloc_big pdiff (big_request sz) s" if "64 < sz" for sz s
    using that by (auto simp: malloc_def FASTBIN_THRESHOLD_def)
  have free: "free p s = Inr (free_big p s)" if "hp_big_chunks (mapped_heap s) = x" "\<not> p \<le> x" for p s
    using that by (simp add: free_def)
  define st1 where "st1 = count_allocated (\<lambda>n. n + 1) (set_chunk x (\<lambda>h. h\<lparr>bc_size := big_request a, bc_used := True\<rparr>) st)"
  have 1: "malloc pdiff a st = Inr (x + 13, st1)"
    using first_request [of st pdiff "big_request a"] st apart big [OF sized(1)] by (simp add: st1_def)
  have s1: "hp_big_chunks (mapped_heap st1) = x" "hp_allocated_chunks (mapped_heap st1) = 1"
    "chunk_at st1 x = \<lparr>bc_prev = 0, bc_next = 0, bc_size = big_request a, bc_used = True\<rparr>"
    using st by (simp_all add: st1_def chunk_simps)
  define st2 where "st2 = count_allocated (\<lambda>n. n + 1) (snd (append_chunk (big_request b) x st1))"
  have "find_hole (chunk_at st1) (big_request b) x = Some (x, False)" by (subst find_hole.simps) (simp add: s1)
  then have 2: "malloc pdiff b st1 = Inr (y + 13, st2)"
    using appended_request [of st1 x "big_request b" pdiff] s1 apart at big [OF sized(2)] by (simp add: st2_def)
  have s2: "hp_big_chunks (mapped_heap st2) = x" "hp_allocated_chunks (mapped_heap st2) = 2"
    "chunk_at st2 x = \<lparr>bc_prev = 0, bc_next = y, bc_size = big_request a, bc_used = True\<rparr>"
    "chunk_at st2 y = \<lparr>bc_prev = x, bc_next = 0, bc_size = big_request b, bc_used = True\<rparr>"
    using s1 apart at(1) by (simp_all add: st2_def chunk_simps)
  define st3 where "st3 = free_big (x + 13) st2"
  have 3: "free (x + 13) st2 = Inr st3" using free [OF s2(1) route(1)] by (simp add: st3_def)
  have s3: "hp_big_chunks (mapped_heap st3) = x" "hp_allocated_chunks (mapped_heap st3) = 1"
    "chunk_at st3 x = \<lparr>bc_prev = 0, bc_next = y, bc_size = big_request a, bc_used = False\<rparr>"
    "chunk_at st3 y = \<lparr>bc_prev = x, bc_next = 0, bc_size = big_request b, bc_used = True\<rparr>"
    using s2 apart(1-3) by (simp_all add: st3_def chunk_simps)
  define st4 where "st4 = free_big (y + 13) st3"
  have 4: "free (y + 13) st3 = Inr st4" using free [OF s3(1) route(2)] by (simp add: st4_def)
  have s4: "hp_big_chunks (mapped_heap st4) = x" "hp_allocated_chunks (mapped_heap st4) = 0"
    "chunk_at st4 x = \<lparr>bc_prev = 0, bc_next = y, bc_size = big_request a, bc_used = False\<rparr>"
    "chunk_at st4 y = \<lparr>bc_prev = 0, bc_next = 0, bc_size = big_request b + (big_request a + 13), bc_used = False\<rparr>"
    using s3 apart(1-3) by (simp_all add: st4_def chunk_simps)
  define st5 where "st5 = count_allocated (\<lambda>n. n + 1) (set_chunk x (\<lambda>h. h\<lparr>bc_size := big_request c, bc_used := True\<rparr>) st4)"
  have 5: "malloc pdiff c st4 = Inr (x + 13, st5)"
    using first_request [of st4 pdiff "big_request c"] s4 apart big [OF sized(3)] by (simp add: st5_def)
  have s5: "hp_big_chunks (mapped_heap st5) = x" "hp_allocated_chunks (mapped_heap st5) = 1"
    "chunk_at st5 x = \<lparr>bc_prev = 0, bc_next = y, bc_size = big_request c, bc_used = True\<rparr>"
    "chunk_at st5 y = \<lparr>bc_prev = 0, bc_next = 0, bc_size = big_request b + (big_request a + 13), bc_used = False\<rparr>"
    using s4 apart(3) by (simp_all add: st5_def chunk_simps)
  have "find_hole (chunk_at st5) (big_request d) y = Some (y, False)" by (subst find_hole.simps) (simp add: s5)
  then have "find_hole (chunk_at st5) (big_request d) x = Some (y, False)"
    using apart(2) by (subst find_hole.simps) (simp add: s5)
  then have 6: "\<exists>st6. malloc pdiff d st5 = Inr (z + 13, st6)"
    using appended_request [of st5 y "big_request d" pdiff] s5 apart at(2) big [OF sized(4)] by (simp add: add.assoc)
  show ?thesis using 1 2 3 4 5 6 by (auto simp: load_at_def)
qed

text \<open>
  C24: The memory manager hands out memory twice. On every initialised heap, two requests
  of any sizes above 64 bytes, both released again, bring the count of chunks to zero with a link left in the first
  chunk; a request that is larger than the chunks the links span then takes the first chunk as it stands, and the next
  request, of any size above 64 bytes, is answered with an address inside it.
\<close>

theorem blocks_overlap_after_emptying:
  assumes "mm_Initialize start end max_addr is_kernel rw bin_mem chunks0 heap = Inr (st, heap')"
    and "unat start + 6800 + unat c + 20 < 2 ^ 32" and "64 < a" and "64 < b" and "64 < c" and "64 < d"
    and "2 * unat (big_request a) + unat (big_request b) + 13 < unat c"
    and "unat a + 20 < 2 ^ 32" and "unat b + 20 < 2 ^ 32"
  shows "\<exists>p q r s st'. run_ops pdiff [Malloc a, Malloc b, Free 0, Free 1, Malloc c, Malloc d] [] st = Inr ([p, q, r, s], st')
    \<and> r < s \<and> unat s < unat r + unat c"
proof -
  have "IS_ALIGNED start \<and> IS_ALIGNED end"
    using assms(1) by (auto simp: mm_Initialize_def Let_def split: prod.splits if_splits)
  then have st: "hp_big_chunks (mapped_heap st) = start + 6800" "hp_allocated_chunks (mapped_heap st) = 0"
      "chunk_at st (start + 6800) = zero_chunk"
    using mm_Initialize_result [of start "end" max_addr is_kernel rw bin_mem chunks0 heap] assms(1) by auto
  let ?x = "start + 6800" and ?ra = "big_request a" and ?rb = "big_request b"
  let ?y = "?x + ?ra" and ?z = "?x + ?ra + (?rb + (?ra + 13))"
  have x: "unat ?x = unat start + 6800" using assms(2) unat_plus_no_wrap [of start 6800] by simp
  have lim: "unat ?x + 2 * unat ?ra + unat ?rb + 13 + 20 < 2 ^ 32" using assms(2,7) x by linarith
  have y: "unat ?y = unat ?x + unat ?ra" using lim by (intro unat_plus_no_wrap [THEN trans]) simp_all
  have tail: "unat (?rb + (?ra + 13)) = unat ?rb + unat ?ra + 13"
    using lim unat_plus_no_wrap [of ?ra 13] unat_plus_no_wrap [of ?rb "?ra + 13"] by simp
  have z: "unat ?z = unat ?x + 2 * unat ?ra + unat ?rb + 13"
    using lim y tail unat_plus_no_wrap [of ?y "?rb + (?ra + 13)"] by simp
  have data: "unat (?x + 13) = unat ?x + 13" "unat (?y + 13) = unat ?y + 13" "unat (?z + 13) = unat ?z + 13"
    using lim y z unat_plus_no_wrap [of ?x 13] unat_plus_no_wrap [of ?y 13] unat_plus_no_wrap [of ?z 13] by simp_all
  have ra: "13 < unat ?ra" using big_request_bounds(2) [OF assms(8)] assms(3) by (simp add: word_less_nat_alt)
  have nz: "?x \<noteq> 0" "?y \<noteq> 0" "?y \<noteq> ?x" "?z \<noteq> 0"
    using x y z ra by (metis unat_0 add_is_0 zero_neq_numeral, metis unat_0 add_is_0 zero_neq_numeral,
      metis add_cancel_left_right not_less_zero, metis unat_0 add_is_0 zero_neq_numeral)
  have route: "\<not> ?x + 13 \<le> ?x" "\<not> ?y + 13 \<le> ?x" using data y by (simp_all add: word_le_nat_alt)
  obtain st' where "run_ops pdiff [Malloc a, Malloc b, Free 0, Free 1, Malloc c, Malloc d] [] st
      = Inr ([?x + 13, ?y + 13, ?x + 13, ?z + 13], st')"
    using emptying_run [OF st assms(3-6) nz refl refl route] by blast
  moreover have "?x + 13 < ?z + 13" using data z by (simp add: word_less_nat_alt)
  moreover have "unat (?z + 13) < unat (?x + 13) + unat c" using data z assms(7) by simp
  ultimately show ?thesis by blast
qed

theorem blocks_overlap_after_emptying_witness:
  "\<exists>p q r s st. run_ops (\<lambda>_ _. 0) [Malloc 100, Malloc 100, Free 0, Free 1, Malloc 1000, Malloc 100] [] boot_heap
      = Inr ([p, q, r, s], st) \<and> r < s \<and> unat s < unat r + 1000"
proof -
  have req: "big_request 100 = 120"
    by (simp add: big_request_def ALIGN_VAL_def CHUNK_SIZE_ALIGN_def SIZEOF_BIG_CHUNK_def)
  obtain heap' where "mm_Initialize 0xC0000000 0xC1000000 0xCFFFF000 False True (replicate 1700 0)
      (\<lambda>_. zero_chunk) 0x200000 = Inr (boot_heap, heap')"
    by (rule boot_heap_initialized)
  from blocks_overlap_after_emptying [OF this, of 1000 100 100 100 "\<lambda>_ _. 0"]
  show ?thesis by (simp add: req)
qed
end
