(* ===== verification/Queue.thy ===== *)
theory Queue
  imports Kmm_Props
begin

text \<open>
  The linked queue of \<^verbatim>\<open>data_structures/queue.hpp\<close>. Nodes live in a store from addresses to
  nodes; each comes from \<^verbatim>\<open>operator new\<close> and goes back through \<^verbatim>\<open>operator delete\<close>, so the
  memory manager's state is part of the state. Reading a node that was deleted is a fault.
  \<open>fifo\<close> is what the kernel's clients rely on: first in, first out, with other queues in the
  same memory left alone.
\<close>

section \<open>Code\<close>

record 'e qnode =
  q_element :: 'e
  q_next :: u32

record 'e qmem =
  q_mm :: mm_state
  q_nodes :: "u32 \<Rightarrow> 'e qnode option"

record queue =
  q_first :: u32
  q_last :: u32

definition Queue_new :: queue where "Queue_new = \<lparr>q_first = 0, q_last = 0\<rparr>"

definition isempty :: "queue \<Rightarrow> bool" where "isempty q \<longleftrightarrow> q_first q = 0"

definition node_at :: "u32 \<Rightarrow> 'e qmem \<Rightarrow> 'e qnode outcome" where
  "node_at p m = (case q_nodes m p of None \<Rightarrow> Inl Null_Pointer | Some n \<Rightarrow> Inr n)"

text \<open>\<^verbatim>\<open>new qnode(x)\<close>: the constructor stores through whatever \<^verbatim>\<open>operator new\<close> returned.\<close>

definition new_qnode :: "(u32 \<Rightarrow> u32 \<Rightarrow> u32) \<Rightarrow> u32 \<Rightarrow> 'e \<Rightarrow> 'e qmem \<Rightarrow> (u32 \<times> 'e qmem) outcome" where
  "new_qnode pdiff node_size x m =
     and_then (operator_new pdiff node_size (q_mm m)) (\<lambda>(p, mm).
       if p = 0 then Inl Null_Pointer
       else Inr (p, m\<lparr>q_mm := mm, q_nodes := (q_nodes m)(p \<mapsto> \<lparr>q_element = x, q_next = 0\<rparr>)\<rparr>))"

definition enqueue :: "(u32 \<Rightarrow> u32 \<Rightarrow> u32) \<Rightarrow> u32 \<Rightarrow> 'e \<Rightarrow> queue \<Rightarrow> 'e qmem \<Rightarrow> (queue \<times> 'e qmem) outcome" where
  "enqueue pdiff node_size x q m =
     (if isempty q
      then and_then (new_qnode pdiff node_size x m) (\<lambda>(p, m1). Inr (\<lparr>q_first = p, q_last = p\<rparr>, m1))
      else and_then (new_qnode pdiff node_size x m) (\<lambda>(p, m1).
           and_then (node_at (q_last q) m1) (\<lambda>l.
             let m2 = m1\<lparr>q_nodes := (q_nodes m1)(q_last q \<mapsto> l\<lparr>q_next := p\<rparr>)\<rparr>
             in and_then (node_at (q_last q) m2) (\<lambda>l'. Inr (q\<lparr>q_last := q_next l'\<rparr>, m2)))))"

text \<open>\<open>none\<close> is the element that \<^verbatim>\<open>return nullptr\<close> makes.\<close>

definition dequeue :: "'e \<Rightarrow> queue \<Rightarrow> 'e qmem \<Rightarrow> ('e \<times> queue \<times> 'e qmem) outcome" where
  "dequeue none q m =
     (if \<not> isempty q
      then and_then (node_at (q_first q) m) (\<lambda>n.
           and_then (operator_delete (q_first q) (q_mm m)) (\<lambda>mm.
             Inr (q_element n, q\<lparr>q_first := q_next n\<rparr>,
                  m\<lparr>q_mm := mm, q_nodes := (q_nodes m)(q_first q := None)\<rparr>)))
      else Inr (none, q, m))"

definition qtop :: "queue \<Rightarrow> 'e qmem \<Rightarrow> 'e outcome" where
  "qtop q m = and_then (node_at (q_first q) m) (\<lambda>n. Inr (q_element n))"

partial_function (option) makeempty :: "'e \<Rightarrow> queue \<Rightarrow> 'e qmem \<Rightarrow> (queue \<times> 'e qmem) outcome option" where
  "makeempty none q m =
     (if \<not> isempty q
      then (case dequeue none q m of
              Inl e \<Rightarrow> Some (Inl e)
            | Inr r \<Rightarrow> makeempty none (fst (snd r)) (snd (snd r)))
      else Some (Inr (q, m)))"

section \<open>The interface\<close>

text \<open>
  \<open>rep m q P xs\<close>: in memory \<open>m\<close> queue \<open>q\<close> holds \<open>xs\<close> in the nodes \<open>P\<close>. Every operation keeps what
  other queues with other nodes hold.
\<close>

definition keeps_others ::
    "('m \<Rightarrow> 'q \<Rightarrow> u32 set \<Rightarrow> 'e list \<Rightarrow> bool) \<Rightarrow> 'm \<Rightarrow> u32 set \<Rightarrow> 'm \<Rightarrow> u32 set \<Rightarrow> bool" where
  "keeps_others rep m P m' P' \<longleftrightarrow>
     (\<forall>r R ys. rep m r R ys \<longrightarrow> R \<inter> P = {} \<longrightarrow> rep m' r R ys \<and> R \<inter> P' = {})"

fun put_all :: "('e \<Rightarrow> 'q \<Rightarrow> 'm \<Rightarrow> ('q \<times> 'm) outcome) \<Rightarrow> 'e list \<Rightarrow> 'q \<Rightarrow> 'm \<Rightarrow> ('q \<times> 'm) outcome" where
  "put_all f [] q m = Inr (q, m)"
| "put_all f (x # xs) q m = and_then (f x q m) (\<lambda>(q', m'). put_all f xs q' m')"

fun take_all :: "('q \<Rightarrow> 'm \<Rightarrow> ('e \<times> 'q \<times> 'm) outcome) \<Rightarrow> nat \<Rightarrow> 'q \<Rightarrow> 'm \<Rightarrow> ('e list \<times> 'q \<times> 'm) outcome" where
  "take_all f 0 q m = Inr ([], q, m)"
| "take_all f (Suc n) q m =
     and_then (f q m) (\<lambda>(x, q', m'). and_then (take_all f n q' m') (\<lambda>(xs, r). Inr (x # xs, r)))"

locale fifo =
  fixes put :: "'e \<Rightarrow> 'q \<Rightarrow> 'm \<Rightarrow> ('q \<times> 'm) outcome"
    and take_first :: "'q \<Rightarrow> 'm \<Rightarrow> ('e \<times> 'q \<times> 'm) outcome"
    and front :: "'q \<Rightarrow> 'm \<Rightarrow> 'e outcome"
    and empty :: "'q \<Rightarrow> bool"
    and rep :: "'m \<Rightarrow> 'q \<Rightarrow> u32 set \<Rightarrow> 'e list \<Rightarrow> bool"
    and room :: "'m \<Rightarrow> nat"
  assumes empty_iff: "rep m q P xs \<Longrightarrow> empty q \<longleftrightarrow> xs = []"
    and front_first: "rep m q P (x # xs) \<Longrightarrow> front q m = Inr x"
    and put_last: "rep m q P xs \<Longrightarrow> 0 < room m \<Longrightarrow>
      \<exists>q' m' P'. put x q m = Inr (q', m') \<and> rep m' q' P' (xs @ [x]) \<and> room m = Suc (room m')
        \<and> keeps_others rep m P m' P'"
    and take_front: "rep m q P (x # xs) \<Longrightarrow>
      \<exists>q' m' P'. take_first q m = Inr (x, q', m') \<and> rep m' q' P' xs \<and> room m' = Suc (room m)
        \<and> keeps_others rep m P m' P'"
begin

lemma keeps_others_trans:
  "keeps_others rep m P m1 P1 \<Longrightarrow> keeps_others rep m1 P1 m2 P2 \<Longrightarrow> keeps_others rep m P m2 P2"
  unfolding keeps_others_def by (intro allI impI) metis

text \<open>Taking the first element and putting it back last always succeeds, even with no room.\<close>

lemma rotate_front:
  assumes "rep m q P (x # xs)"
  shows "\<exists>q1 m1 q' m' P'. take_first q m = Inr (x, q1, m1) \<and> put x q1 m1 = Inr (q', m')
    \<and> rep m' q' P' (xs @ [x]) \<and> room m' = room m \<and> keeps_others rep m P m' P'"
proof -
  obtain q1 m1 P1 where 1: "take_first q m = Inr (x, q1, m1)" "rep m1 q1 P1 xs" "room m1 = Suc (room m)"
      "keeps_others rep m P m1 P1"
    using take_front [OF assms] by blast
  then obtain q' m' P' where 2: "put x q1 m1 = Inr (q', m')" "rep m' q' P' (xs @ [x])"
      "room m1 = Suc (room m')" "keeps_others rep m1 P1 m' P'"
    using put_last [OF 1(2), of x] by auto
  have "room m' = room m" using 1(3) 2(3) by simp
  with 1(1) 2 keeps_others_trans [OF 1(4) 2(4)] show ?thesis by blast
qed

text \<open>Elements put into a queue come out in the order they went in, after what it held.\<close>

lemma put_all_rep:
  assumes "rep m q P xs" and "length ys \<le> room m"
  shows "\<exists>q' m' P'. put_all put ys q m = Inr (q', m') \<and> rep m' q' P' (xs @ ys)
    \<and> room m = room m' + length ys \<and> keeps_others rep m P m' P'"
  using assms
proof (induction ys arbitrary: m q P xs)
  case Nil
  then show ?case by (auto simp: keeps_others_def)
next
  case (Cons y ys)
  obtain q1 m1 P1 where 1: "put y q m = Inr (q1, m1)" "rep m1 q1 P1 (xs @ [y])" "room m = Suc (room m1)"
      "keeps_others rep m P m1 P1"
    using put_last [OF Cons.prems(1), of y] Cons.prems(2) by auto
  obtain q' m' P' where 2: "put_all put ys q1 m1 = Inr (q', m')" "rep m' q' P' (xs @ y # ys)"
      "room m1 = room m' + length ys" "keeps_others rep m1 P1 m' P'"
    using Cons.IH [OF 1(2)] 1(3) Cons.prems(2) by auto
  then show ?case
    using 1 keeps_others_trans [OF 1(4) 2(4)] by auto
qed

lemma take_all_rep:
  assumes "rep m q P (xs @ ys)"
  shows "\<exists>q' m' P'. take_all take_first (length xs) q m = Inr (xs, q', m') \<and> rep m' q' P' ys
    \<and> room m' = room m + length xs \<and> keeps_others rep m P m' P'"
  using assms
proof (induction xs arbitrary: m q P)
  case Nil
  then show ?case by (auto simp: keeps_others_def)
next
  case (Cons x xs)
  obtain q1 m1 P1 where 1: "take_first q m = Inr (x, q1, m1)" "rep m1 q1 P1 (xs @ ys)" "room m1 = Suc (room m)"
      "keeps_others rep m P m1 P1"
    using take_front [of m q P x "xs @ ys"] Cons.prems by auto
  obtain q' m' P' where 2: "take_all take_first (length xs) q1 m1 = Inr (xs, q', m')" "rep m' q' P' ys"
      "room m' = room m1 + length xs" "keeps_others rep m1 P1 m' P'"
    using Cons.IH [OF 1(2)] by blast
  then show ?case
    using 1 keeps_others_trans [OF 1(4) 2(4)] by auto
qed

end

section \<open>The pointer queue\<close>

text \<open>The nodes from \<open>p\<close> on, with their elements.\<close>

fun qpath :: "(u32 \<Rightarrow> 'e qnode option) \<Rightarrow> u32 \<Rightarrow> u32 list \<Rightarrow> 'e list \<Rightarrow> bool" where
  "qpath N p [] [] = (p = 0)"
| "qpath N p (a # as) (x # xs) =
     (p = a \<and> a \<noteq> 0 \<and> (\<exists>n. N a = Some n \<and> q_element n = x \<and> qpath N (q_next n) as xs))"
| "qpath N p _ _ = False"

definition qmem_wf :: "'e qmem \<Rightarrow> bool" where
  "qmem_wf m \<longleftrightarrow> bin_wf (q_mm m) \<and> dom (q_nodes m) \<subseteq> small_blocks (q_mm m)"

definition queue_nodes :: "'e qmem \<Rightarrow> queue \<Rightarrow> u32 list \<Rightarrow> 'e list \<Rightarrow> bool" where
  "queue_nodes m q ps xs \<longleftrightarrow>
     qpath (q_nodes m) (q_first q) ps xs \<and> distinct ps \<and> (ps \<noteq> [] \<longrightarrow> q_last q = last ps)"

definition queue_rep :: "'e qmem \<Rightarrow> queue \<Rightarrow> u32 set \<Rightarrow> 'e list \<Rightarrow> bool" where
  "queue_rep m q P xs \<longleftrightarrow> qmem_wf m \<and> (\<exists>ps. set ps = P \<and> queue_nodes m q ps xs)"

definition bin_room :: "'e qmem \<Rightarrow> nat" where
  "bin_room m = 100 - card (small_blocks (q_mm m))"

lemma qpath_length: "qpath N p ps xs \<Longrightarrow> length ps = length xs"
  by (induction N p ps xs rule: qpath.induct) auto

lemma qpath_dom: "qpath N p ps xs \<Longrightarrow> a \<in> set ps \<Longrightarrow> a \<in> dom N \<and> a \<noteq> 0"
  by (induction N p ps xs rule: qpath.induct) auto

lemma qpath_cong: "(\<And>a. a \<in> set ps \<Longrightarrow> N a = N' a) \<Longrightarrow> qpath N p ps xs = qpath N' p ps xs"
  by (induction N p ps xs rule: qpath.induct) auto

lemma qpath_empty_iff: "qpath N p ps xs \<Longrightarrow> p = 0 \<longleftrightarrow> xs = []"
  by (induction N p ps xs rule: qpath.induct) auto

text \<open>Linking a fresh node after the last one.\<close>

lemma qpath_snoc:
  assumes "qpath N p ps xs" and "ps \<noteq> []" and "distinct ps" and "b \<notin> set ps" and "b \<noteq> 0"
    and "N (last ps) = Some l" and "N' = N(b \<mapsto> \<lparr>q_element = y, q_next = 0\<rparr>, last ps \<mapsto> l\<lparr>q_next := b\<rparr>)"
  shows "qpath N' p (ps @ [b]) (xs @ [y])"
  using assms
proof (induction ps arbitrary: p xs)
  case (Cons a as)
  obtain x ys n where xs: "xs = x # ys" "p = a" "a \<noteq> 0" "N a = Some n" "q_element n = x" "qpath N (q_next n) as ys"
    using Cons.prems(1) by (cases xs) auto
  show ?case
  proof (cases "as = []")
    case True
    then have "ys = []" "l = n" using xs Cons.prems by (auto dest: qpath_length)
    then show ?thesis
      using True xs Cons.prems(4,5,7) by simp
  next
    case False
    then have "last as \<in> set as" "a \<notin> set as" "a \<noteq> b" using Cons.prems(3,4) by auto
    then have "N' a = N a" using False Cons.prems(7) by auto
    moreover have "qpath N' (q_next n) (as @ [b]) (ys @ [y])"
      using False Cons.prems xs(6) by (intro Cons.IH) auto
    ultimately show ?thesis using xs by simp
  qed
qed simp

lemma qmem_keep:
  assumes "queue_nodes m r rs ys" and "\<And>a. a \<in> set rs \<Longrightarrow> q_nodes m' a = q_nodes m a"
  shows "queue_nodes m' r rs ys"
  using assms qpath_cong [of rs "q_nodes m" "q_nodes m'"] by (auto simp: queue_nodes_def)

lemma queue_nodes_live:
  "qmem_wf m \<Longrightarrow> queue_nodes m r rs ys \<Longrightarrow> set rs \<subseteq> small_blocks (q_mm m)"
  using qpath_dom by (fastforce simp: queue_nodes_def qmem_wf_def)

lemma small_blocks_card:
  "bin_wf st \<Longrightarrow> card (small_blocks st) \<le> 100 \<and> finite (small_blocks st)"
  using used_slots_props card_small_blocks by (auto simp: small_blocks_def)

lemma new_qnode_fresh:
  assumes "qmem_wf m" and "0 < bin_room m" and "0 < node_size" and "node_size \<le> 64"
  shows "\<exists>p m'. new_qnode pdiff node_size x m = Inr (p, m') \<and> p \<noteq> 0 \<and> p \<notin> small_blocks (q_mm m)
    \<and> small_blocks (q_mm m') = insert p (small_blocks (q_mm m)) \<and> qmem_wf m'
    \<and> q_nodes m' = (q_nodes m)(p \<mapsto> \<lparr>q_element = x, q_next = 0\<rparr>) \<and> bin_room m = Suc (bin_room m')"
proof -
  have wf: "bin_wf (q_mm m)" and room: "card (small_blocks (q_mm m)) < 100"
    using assms(1,2) by (simp_all add: qmem_wf_def bin_room_def)
  obtain p mm where p: "malloc_fastbin (q_mm m) = Inr (p, mm)" "p \<noteq> 0" "p \<notin> small_blocks (q_mm m)"
      "small_blocks mm = insert p (small_blocks (q_mm m))" "bin_wf mm"
    using sb.get_fresh [OF wf room] by blast
  have "operator_new pdiff node_size (q_mm m) = Inr (p, mm)"
    using operator_new_small [OF assms(3,4)] p(1) by simp
  then show ?thesis
    using p assms(1) small_blocks_card [OF wf] room
    by (intro exI [of _ p] exI [of _ "m\<lparr>q_mm := mm, q_nodes := (q_nodes m)(p \<mapsto> \<lparr>q_element = x, q_next = 0\<rparr>)\<rparr>"])
      (auto simp: new_qnode_def qmem_wf_def bin_room_def)
qed

lemma put_keeps_others:
  assumes "qmem_wf m" and "qmem_wf m'" and "p \<notin> small_blocks (q_mm m)"
    and "\<And>a. a \<notin> P \<Longrightarrow> a \<noteq> p \<Longrightarrow> q_nodes m' a = q_nodes m a"
  shows "keeps_others queue_rep m P m' (insert p P)"
proof -
  have "queue_rep m' r R ys \<and> R \<inter> insert p P = {}" if "queue_rep m r R ys" "R \<inter> P = {}" for r R ys
  proof -
    obtain rs where rs: "set rs = R" "queue_nodes m r rs ys"
      using \<open>queue_rep m r R ys\<close> by (auto simp: queue_rep_def)
    have "p \<notin> R" using queue_nodes_live [OF assms(1) rs(2)] rs(1) assms(3) by auto
    then have "queue_nodes m' r rs ys"
      using that(2) rs(1) by (intro qmem_keep [OF rs(2)] assms(4)) auto
    then show ?thesis
      using \<open>p \<notin> R\<close> that(2) rs(1) assms(2) by (auto simp: queue_rep_def)
  qed
  then show ?thesis unfolding keeps_others_def by blast
qed

lemma enqueue_last:
  assumes rep: "queue_rep m q P xs" and room: "0 < bin_room m" and size: "0 < node_size" "node_size \<le> 64"
  shows "\<exists>q' m' P'. enqueue pdiff node_size x q m = Inr (q', m') \<and> queue_rep m' q' P' (xs @ [x])
    \<and> bin_room m = Suc (bin_room m') \<and> keeps_others queue_rep m P m' P'"
proof -
  obtain ps where wf: "qmem_wf m" and ps: "set ps = P" "qpath (q_nodes m) (q_first q) ps xs" "distinct ps"
      "ps \<noteq> [] \<longrightarrow> q_last q = last ps"
    using rep by (auto simp: queue_rep_def queue_nodes_def)
  obtain p m1 where p: "new_qnode pdiff node_size x m = Inr (p, m1)" "p \<noteq> 0" "p \<notin> small_blocks (q_mm m)"
      "small_blocks (q_mm m1) = insert p (small_blocks (q_mm m))" "qmem_wf m1"
      "q_nodes m1 = (q_nodes m)(p \<mapsto> \<lparr>q_element = x, q_next = 0\<rparr>)" "bin_room m = Suc (bin_room m1)"
    using new_qnode_fresh [OF wf room size] by blast
  have "queue_nodes m q ps xs" using ps by (simp add: queue_nodes_def)
  then have fresh: "p \<notin> set ps"
    using queue_nodes_live [OF wf] p(3) by blast
  show ?thesis
  proof (cases "ps = []")
    case True
    then have "xs = []" using qpath_length [OF ps(2)] by simp
    then have "isempty q" using ps(2) True by (simp add: isempty_def)
    then have "enqueue pdiff node_size x q m = Inr (\<lparr>q_first = p, q_last = p\<rparr>, m1)"
      by (simp add: enqueue_def p(1))
    moreover have "queue_rep m1 \<lparr>q_first = p, q_last = p\<rparr> {p} (xs @ [x])"
      using p \<open>xs = []\<close> by (auto simp: queue_rep_def queue_nodes_def intro!: exI [of _ "[p]"])
    moreover have "keeps_others queue_rep m P m1 {p}"
      using put_keeps_others [OF wf p(5,3), of P] True ps(1) p(6) by simp
    ultimately show ?thesis using p(7) by blast
  next
    case False
    have lastq: "q_last q = last ps" "last ps \<in> set ps" using ps(4) False by auto
    obtain l where l: "q_nodes m (last ps) = Some l"
      using qpath_dom [OF ps(2)] lastq(2) by blast
    have "last ps \<noteq> p" using fresh lastq(2) by auto
    define m2 where "m2 = m1\<lparr>q_nodes := (q_nodes m1)(last ps \<mapsto> l\<lparr>q_next := p\<rparr>)\<rparr>"
    have ne: "\<not> isempty q"
      using qpath_empty_iff [OF ps(2)] False qpath_length [OF ps(2)] by (auto simp: isempty_def)
    have "enqueue pdiff node_size x q m = Inr (q\<lparr>q_last := p\<rparr>, m2)"
      using ne p(1) l \<open>last ps \<noteq> p\<close>
      by (simp add: enqueue_def lastq(1) node_at_def p(6) m2_def Let_def)
    moreover have "qpath (q_nodes m2) (q_first q) (ps @ [p]) (xs @ [x])"
      using ps(2) False ps(3) fresh p(2) l
      by (rule qpath_snoc) (simp add: m2_def p(6))
    moreover have "last ps \<in> dom (q_nodes m)" using l by auto
    then have wf2: "qmem_wf m2"
      using p(4,5) wf by (auto simp: qmem_wf_def m2_def)
    ultimately have "queue_rep m2 (q\<lparr>q_last := p\<rparr>) (insert p P) (xs @ [x])"
      using ps(1,3) fresh by (auto simp: queue_rep_def queue_nodes_def intro!: exI [of _ "ps @ [p]"])
    moreover have "keeps_others queue_rep m P m2 (insert p P)"
      using ps(1) lastq(2) by (intro put_keeps_others [OF wf wf2 p(3)]) (auto simp: m2_def p(6))
    moreover have "bin_room m = Suc (bin_room m2)" using p(7) by (simp add: m2_def bin_room_def)
    ultimately show ?thesis using \<open>enqueue pdiff node_size x q m = Inr (q\<lparr>q_last := p\<rparr>, m2)\<close> by blast
  qed
qed

lemma dequeue_first:
  assumes rep: "queue_rep m q P (x # xs)"
  shows "\<exists>q' m' P'. dequeue none q m = Inr (x, q', m') \<and> queue_rep m' q' P' xs
    \<and> bin_room m' = Suc (bin_room m) \<and> keeps_others queue_rep m P m' P'"
proof -
  obtain ps where wf: "qmem_wf m" and ps: "set ps = P" "queue_nodes m q ps (x # xs)"
    using rep by (auto simp: queue_rep_def)
  obtain p qs where p: "ps = p # qs"
    using ps(2) by (cases ps) (auto simp: queue_nodes_def)
  then obtain n where n: "q_first q = p" "p \<noteq> 0" "q_nodes m p = Some n" "q_element n = x"
      "qpath (q_nodes m) (q_next n) qs xs" "distinct (p # qs)"
    using ps(2) by (auto simp: queue_nodes_def)
  have bin: "bin_wf (q_mm m)" "p \<in> small_blocks (q_mm m)"
    using wf n(3) by (auto simp: qmem_wf_def)
  obtain mm where mm: "operator_delete p (q_mm m) = Inr mm" "small_blocks mm = small_blocks (q_mm m) - {p}" "bin_wf mm"
    using sb.put_held [OF bin] operator_delete_small [OF bin] by auto
  define m' where "m' = m\<lparr>q_mm := mm, q_nodes := (q_nodes m)(p := None)\<rparr>"
  have "dequeue none q m = Inr (x, q\<lparr>q_first := q_next n\<rparr>, m')"
    using n mm(1) by (simp add: dequeue_def isempty_def node_at_def m'_def)
  moreover have wf': "qmem_wf m'" using wf mm by (auto simp: qmem_wf_def m'_def)
  moreover have "qpath (q_nodes m') (q_next n) qs xs"
    using n(5,6) by (subst qpath_cong [where N' = "q_nodes m"]) (auto simp: m'_def)
  then have "queue_rep m' (q\<lparr>q_first := q_next n\<rparr>) (set qs) xs"
    using wf' n(6) ps(2) p by (auto simp: queue_rep_def queue_nodes_def intro!: exI [of _ qs])
  moreover have "bin_room m' = Suc (bin_room m)"
  proof -
    have fin: "finite (small_blocks (q_mm m))" "card (small_blocks (q_mm m)) \<le> 100"
      using small_blocks_card [OF bin(1)] by simp_all
    then have "card (small_blocks mm) = card (small_blocks (q_mm m)) - 1" "0 < card (small_blocks (q_mm m))"
      using bin(2) mm(2) by (auto simp: card_Diff_singleton card_gt_0_iff)
    then show ?thesis using fin(2) by (simp add: bin_room_def m'_def)
  qed
  moreover have "keeps_others queue_rep m P m' (set qs)"
  proof -
    have "queue_rep m' r R ys \<and> R \<inter> set qs = {}" if "queue_rep m r R ys" "R \<inter> P = {}" for r R ys
    proof -
      obtain rs where rs: "set rs = R" "queue_nodes m r rs ys"
        using \<open>queue_rep m r R ys\<close> by (auto simp: queue_rep_def)
      have "p \<notin> R" using that(2) ps(1) p by auto
      then have "queue_nodes m' r rs ys"
        using rs(1) by (intro qmem_keep [OF rs(2)]) (auto simp: m'_def)
      then show ?thesis
        using that(2) rs(1) ps(1) p wf' by (auto simp: queue_rep_def)
    qed
    then show ?thesis unfolding keeps_others_def by metis
  qed
  ultimately show ?thesis by blast
qed

text \<open>
  The two queues of the kernel: of process pointers, whose nodes have 8 bytes, and of keys,
  whose nodes have 12.
\<close>

definition SIZEOF_PROCESS_NODE :: u32 where "SIZEOF_PROCESS_NODE = 8"
definition SIZEOF_KEY_NODE :: u32 where "SIZEOF_KEY_NODE = 12"

text \<open>Queues only use small blocks.\<close>

lemma enqueue_same_big:
  assumes "queue_rep m q P xs" and "0 < node_size" and "node_size \<le> 64" and "enqueue pdiff node_size x q m = Inr (q', m')"
  shows "same_big (q_mm m) (q_mm m')"
proof -
  have "bin_wf (q_mm m)" using assms(1) by (simp add: queue_rep_def qmem_wf_def)
  then show ?thesis
    using assms(4) malloc_fastbin_same_big operator_new_small [OF assms(2,3)]
    by (auto simp: enqueue_def new_qnode_def and_then_Inr_iff Let_def split: if_splits)
qed

lemma dequeue_same_big:
  assumes "queue_rep m q P xs" and "dequeue none q m = Inr (x, q', m')"
  shows "same_big (q_mm m) (q_mm m')"
proof (cases "isempty q")
  case True
  then show ?thesis using assms(2) by (simp add: dequeue_def)
next
  case False
  then obtain n mm where n: "q_nodes m (q_first q) = Some n" "operator_delete (q_first q) (q_mm m) = Inr mm" "q_mm m' = mm"
    using assms(2) by (auto simp: dequeue_def node_at_def and_then_Inr_iff split: option.splits)
  have "bin_wf (q_mm m)" "q_first q \<in> small_blocks (q_mm m)"
    using assms(1) n(1) by (auto simp: queue_rep_def qmem_wf_def)
  then show ?thesis using free_small_same_big n(2,3) by (simp add: operator_delete_def)
qed

text \<open>
  The small blocks that are no node of this memory: other nodes and objects. Every operation of a
  queue leaves them, and the big blocks, as they are.
\<close>

definition foreign :: "'e qmem \<Rightarrow> u32 set" where
  "foreign m = small_blocks (q_mm m) - dom (q_nodes m)"

definition mem_frame :: "'e qmem \<Rightarrow> 'e qmem \<Rightarrow> bool" where
  "mem_frame m m' \<longleftrightarrow> same_big (q_mm m) (q_mm m') \<and> foreign m' = foreign m"

lemma mem_frame_refl [simp]: "mem_frame m m"
  by (simp add: mem_frame_def)

lemma mem_frame_trans: "mem_frame m m1 \<Longrightarrow> mem_frame m1 m2 \<Longrightarrow> mem_frame m m2"
  using same_big_trans by (auto simp: mem_frame_def)

lemma mem_frameD: "mem_frame m m' \<Longrightarrow> same_big (q_mm m) (q_mm m')" "mem_frame m m' \<Longrightarrow> foreign m' = foreign m"
  by (simp_all add: mem_frame_def)

lemma new_qnode_foreign:
  assumes "qmem_wf m" and "0 < node_size" and "node_size \<le> 64" and "new_qnode pdiff node_size x m = Inr (p, m')"
  shows "foreign m' = foreign m" and "dom (q_nodes m') = insert p (dom (q_nodes m))"
proof -
  have wf: "bin_wf (q_mm m)" using assms(1) by (simp add: qmem_wf_def)
  obtain mm where mm: "malloc_fastbin (q_mm m) = Inr (p, mm)" "p \<noteq> 0"
      "m' = m\<lparr>q_mm := mm, q_nodes := (q_nodes m)(p \<mapsto> \<lparr>q_element = x, q_next = 0\<rparr>)\<rparr>"
    using assms(4) operator_new_small [OF assms(2,3)] by (auto simp: new_qnode_def and_then_Inr_iff split: if_splits)
  have "card (small_blocks (q_mm m)) < 100"
    using mm(1,2) sb.get_full [OF wf] small_blocks_card [OF wf] by (cases "card (small_blocks (q_mm m)) = 100") auto
  then have "p \<notin> small_blocks (q_mm m)" "small_blocks mm = insert p (small_blocks (q_mm m))"
    using sb.get_fresh [OF wf] mm(1) by force+
  then show "foreign m' = foreign m" and "dom (q_nodes m') = insert p (dom (q_nodes m))"
    using assms(1) mm(3) by (auto simp: foreign_def qmem_wf_def)
qed

lemma enqueue_frame:
  assumes "queue_rep m q P xs" and "0 < node_size" and "node_size \<le> 64" and "enqueue pdiff node_size x q m = Inr (q', m')"
  shows "mem_frame m m'"
proof -
  have wf: "qmem_wf m" using assms(1) by (simp add: queue_rep_def)
  obtain p m1 where p: "new_qnode pdiff node_size x m = Inr (p, m1)" "q_mm m' = q_mm m1" "dom (q_nodes m') = dom (q_nodes m1)"
    using assms(4) by (auto simp: enqueue_def and_then_Inr_iff Let_def node_at_def insert_absorb domI split: if_splits option.splits)
  have "foreign m' = foreign m1" by (simp only: foreign_def p(2,3))
  then show ?thesis
    using new_qnode_foreign(1) [OF wf assms(2,3) p(1)] enqueue_same_big [OF assms] unfolding mem_frame_def by simp
qed

lemma enqueue_grows:
  assumes "queue_rep m q P xs" and "0 < node_size" and "node_size \<le> 64" and "enqueue pdiff node_size x q m = Inr (q', m')"
  shows "dom (q_nodes m) \<subseteq> dom (q_nodes m')"
  using assms(4) by (auto simp: enqueue_def new_qnode_def and_then_Inr_iff Let_def node_at_def split: if_splits option.splits)

lemma dequeue_frame:
  assumes "queue_rep m q P xs" and "dequeue none q m = Inr (x, q', m')"
  shows "mem_frame m m'"
proof (cases "isempty q")
  case True
  then show ?thesis using assms(2) by (simp add: dequeue_def)
next
  case False
  then obtain n mm where n: "q_nodes m (q_first q) = Some n" "operator_delete (q_first q) (q_mm m) = Inr mm"
      "q_mm m' = mm" "q_nodes m' = (q_nodes m)(q_first q := None)"
    using assms(2) by (auto simp: dequeue_def node_at_def and_then_Inr_iff split: option.splits)
  have bin: "bin_wf (q_mm m)" "q_first q \<in> small_blocks (q_mm m)"
    using assms(1) n(1) by (auto simp: queue_rep_def qmem_wf_def)
  obtain st' where st': "free_fastbin (q_first q) (q_mm m) = Inr st'" "small_blocks st' = small_blocks (q_mm m) - {q_first q}"
    using sb.put_held [OF bin] by blast
  have "small_blocks mm = small_blocks (q_mm m) - {q_first q}"
    using st' operator_delete_small [OF bin] n(2) by simp
  then have "foreign m' = foreign m" using n(1) unfolding foreign_def n(3,4) by auto
  then show ?thesis using dequeue_same_big [OF assms] by (simp add: mem_frame_def)
qed

lemma queue_rep_front: "queue_rep m q P (x # xs) \<Longrightarrow> qtop q m = Inr x"
proof -
  assume "queue_rep m q P (x # xs)"
  then obtain ps where ps: "qpath (q_nodes m) (q_first q) ps (x # xs)"
    by (auto simp: queue_rep_def queue_nodes_def)
  then show ?thesis
    by (cases ps) (auto simp: qtop_def node_at_def)
qed

lemma queue_rep_empty: "queue_rep m q P xs \<Longrightarrow> isempty q \<longleftrightarrow> xs = []"
  using qpath_empty_iff by (auto simp: queue_rep_def queue_nodes_def isempty_def)

interpretation pq: fifo "enqueue pdiff SIZEOF_PROCESS_NODE" "dequeue none" qtop isempty queue_rep bin_room
  for pdiff and none :: u32
proof (unfold_locales, goal_cases)
  case 1
  then show ?case by (rule queue_rep_empty)
next
  case 2
  then show ?case by (rule queue_rep_front)
next
  case 3
  then show ?case by (rule enqueue_last) (simp_all add: SIZEOF_PROCESS_NODE_def)
next
  case 4
  then show ?case by (rule dequeue_first)
qed

interpretation kq: fifo "enqueue pdiff SIZEOF_KEY_NODE" "dequeue none" qtop isempty queue_rep bin_room
  for pdiff none
proof (unfold_locales, goal_cases)
  case 1
  then show ?case by (rule queue_rep_empty)
next
  case 2
  then show ?case by (rule queue_rep_front)
next
  case 3
  then show ?case by (rule enqueue_last) (simp_all add: SIZEOF_KEY_NODE_def)
next
  case 4
  then show ?case by (rule dequeue_first)
qed

section \<open>Properties\<close>

definition boot_qmem :: "'e qmem" where "boot_qmem = \<lparr>q_mm = boot_heap, q_nodes = Map.empty\<rparr>"

lemma boot_qmem_rep: "queue_rep boot_qmem Queue_new {} []" and boot_qmem_room: "bin_room boot_qmem = 100"
  by (simp_all add: queue_rep_def qmem_wf_def queue_nodes_def boot_qmem_def Queue_new_def boot_heap_wf bin_room_def)

lemma makeempty_empties:
  assumes "queue_rep m q P xs"
  shows "\<exists>q' m' P'. makeempty none q m = Some (Inr (q', m')) \<and> queue_rep m' q' P' []
    \<and> bin_room m' = bin_room m + length xs"
  using assms
proof (induction xs arbitrary: m q P)
  case Nil
  then show ?case
    using queue_rep_empty [OF Nil] by (subst makeempty.simps) auto
next
  case (Cons x xs)
  obtain q1 m1 P1 where 1: "dequeue none q m = Inr (x, q1, m1)" "queue_rep m1 q1 P1 xs" "bin_room m1 = Suc (bin_room m)"
    using dequeue_first [OF Cons.prems, of none] by blast
  have "makeempty none q m = makeempty none q1 m1"
    using 1(1) queue_rep_empty [OF Cons.prems] by (subst makeempty.simps) simp
  then show ?case using Cons.IH [OF 1(2)] 1(3) by auto
qed

text \<open>
  C31: A queue of keys is first in, first out: elements enqueued while the bin has room come out
  after those already there and in their order, every node taken for them is given back, the
  queue ends empty, and any other queue in the same memory still holds what it held.
\<close>

theorem queue_first_in_first_out:
  assumes "queue_rep m q P xs" and "length ys \<le> bin_room m"
  shows "\<exists>q1 m1 q2 m2 P2. put_all (enqueue pdiff SIZEOF_KEY_NODE) ys q m = Inr (q1, m1)
    \<and> take_all (dequeue none) (length (xs @ ys)) q1 m1 = Inr (xs @ ys, q2, m2)
    \<and> isempty q2 \<and> bin_room m2 = bin_room m + length xs \<and> keeps_others queue_rep m P m2 P2"
proof -
  obtain q1 m1 P1 where 1: "put_all (enqueue pdiff SIZEOF_KEY_NODE) ys q m = Inr (q1, m1)"
      "queue_rep m1 q1 P1 (xs @ ys)" "bin_room m = bin_room m1 + length ys" "keeps_others queue_rep m P m1 P1"
    using kq.put_all_rep [OF assms] by blast
  have "queue_rep m1 q1 P1 ((xs @ ys) @ [])" using 1(2) by simp
  from kq.take_all_rep [OF this, of none] obtain q2 m2 P2 where
    2: "take_all (dequeue none) (length (xs @ ys)) q1 m1 = Inr (xs @ ys, q2, m2)" "queue_rep m2 q2 P2 []"
      "bin_room m2 = bin_room m1 + length (xs @ ys)" "keeps_others queue_rep m1 P1 m2 P2"
    by blast
  have "isempty q2" using queue_rep_empty [OF 2(2)] by simp
  moreover have "bin_room m2 = bin_room m + length xs" using 1(3) 2(3) by simp
  ultimately show ?thesis
    using 1(1) 2(1) kq.keeps_others_trans [OF 1(4) 2(4)] by blast
qed

theorem queue_first_in_first_out_witness:
  "\<exists>q1 m1 q2 m2. put_all (enqueue (\<lambda>_ _. 0) SIZEOF_KEY_NODE) [7, 9] Queue_new boot_qmem = Inr (q1, m1)
    \<and> take_all (dequeue (0::nat)) 2 q1 m1 = Inr ([7, 9], q2, m2)"
  using queue_first_in_first_out [OF boot_qmem_rep, of "[7, 9]" "\<lambda>_ _. 0" "0::nat"]
  by (simp add: boot_qmem_room eval_nat_numeral del: take_all.simps put_all.simps) blast

text \<open>
  C32: Emptying a queue returns, leaves an empty queue that can be used again and gives every node back
  to the memory manager. An enqueue puts its element at the end while a small block is left; when none is left
  it ends in a store through the null pointer that \<^verbatim>\<open>new\<close> returned, which is a fault and not an error
  the caller could handle.
\<close>

theorem makeempty_and_exhaustion:
  assumes "queue_rep m q P xs" and "0 < node_size" and "node_size \<le> 64"
  shows "(\<exists>q' m' P'. makeempty none q m = Some (Inr (q', m')) \<and> isempty q' \<and> queue_rep m' q' P' []
      \<and> bin_room m' = bin_room m + length xs)
    \<and> (if bin_room m = 0 then enqueue pdiff node_size x q m = Inl Null_Pointer
       else \<exists>q' m' P'. enqueue pdiff node_size x q m = Inr (q', m') \<and> queue_rep m' q' P' (xs @ [x])
         \<and> bin_room m = Suc (bin_room m'))"
proof -
  have wf: "bin_wf (q_mm m)" using assms(1) by (simp add: queue_rep_def qmem_wf_def)
  have "enqueue pdiff node_size x q m = Inl Null_Pointer" if "bin_room m = 0"
  proof -
    have "malloc_fastbin (q_mm m) = Inr (0, q_mm m)"
      using sb.get_full [OF wf] that by (simp add: bin_room_def)
    then have "operator_new pdiff node_size (q_mm m) = Inr (0, q_mm m)"
      by (simp add: operator_new_small [OF assms(2,3)])
    then show ?thesis by (simp add: enqueue_def new_qnode_def)
  qed
  moreover have "\<exists>q' m' P'. enqueue pdiff node_size x q m = Inr (q', m') \<and> queue_rep m' q' P' (xs @ [x])
         \<and> bin_room m = Suc (bin_room m')" if "bin_room m \<noteq> 0"
    using enqueue_last [OF assms(1) _ assms(2,3), of pdiff x] that by blast
  moreover obtain q' m' P' where "makeempty none q m = Some (Inr (q', m'))" "queue_rep m' q' P' []"
      "bin_room m' = bin_room m + length xs"
    using makeempty_empties [OF assms(1)] by blast
  ultimately show ?thesis using queue_rep_empty by auto
qed

theorem makeempty_and_exhaustion_witness:
  "(\<exists>q' m'. makeempty (0::nat) Queue_new boot_qmem = Some (Inr (q', m')) \<and> isempty q')
   \<and> (\<exists>q' m'. enqueue (\<lambda>_ _. 0) SIZEOF_KEY_NODE (7::nat) Queue_new boot_qmem = Inr (q', m'))"
  using makeempty_and_exhaustion [OF boot_qmem_rep, of SIZEOF_KEY_NODE "0::nat" "\<lambda>_ _. 0" 7]
  by (simp add: boot_qmem_room SIZEOF_KEY_NODE_def) blast

end
