(* ===== verification/Vector.thy ===== *)
theory Vector
  imports Kuseful
begin

text \<open>
  The growing array of \<^verbatim>\<open>data_structures/vector.hpp\<close>. The buffer is an object of its own:
  the list of the elements \<^verbatim>\<open>new T[n]\<close> made, the null pointer being the empty list, so an
  access past it is a fault. \<open>dflt\<close> is the element \<^verbatim>\<open>new T[n]\<close> leaves in each place.
  \<^verbatim>\<open>log\<close> and \<^verbatim>\<open>ceil\<close> are declared and not defined in the sources: they are parameters.
  \<open>growable\<close> is what the clients rely on: appending and reading in order.
\<close>

section \<open>Code\<close>

record 'a vector =
  v_size :: u32
  v_capacity :: u32
  v_Log :: u32
  v_buffer :: "'a list"

definition Vector_new :: "'a vector" where
  "Vector_new = \<lparr>v_size = 0, v_capacity = 0, v_Log = 0, v_buffer = []\<rparr>"

text \<open>\<^verbatim>\<open>ceil(log((double) size) / log(2.0))\<close>, with \<^verbatim>\<open>log\<close> on unsigned integers.\<close>

definition log_size :: "(u32 \<Rightarrow> u32) \<Rightarrow> (u32 \<Rightarrow> u32) \<Rightarrow> u32 \<Rightarrow> u32 outcome" where
  "log_size lg cl sz = (if lg 2 = 0 then Inl Out_Of_Bounds else Inr (cl (lg sz div lg 2)))"

text \<open>The loop that copies the first \<open>n\<close> elements of one buffer to another.\<close>

fun copy_elements :: "nat \<Rightarrow> 'a list \<Rightarrow> 'a list \<Rightarrow> 'a list outcome" where
  "copy_elements 0 src dst = Inr dst"
| "copy_elements (Suc n) src dst =
     and_then (copy_elements n src dst) (\<lambda>d.
     and_then (load_at src n) (\<lambda>x. store_at d n x))"

definition Vector_copy :: "'a \<Rightarrow> 'a vector \<Rightarrow> 'a vector outcome" where
  "Vector_copy dflt v =
     and_then (copy_elements (unat (v_size v)) (v_buffer v) (replicate (unat (v_size v)) dflt)) (\<lambda>b.
       Inr \<lparr>v_size = v_size v, v_capacity = v_capacity v, v_Log = v_Log v, v_buffer = b\<rparr>)"

definition Vector_sized :: "(u32 \<Rightarrow> u32) \<Rightarrow> (u32 \<Rightarrow> u32) \<Rightarrow> 'a \<Rightarrow> u32 \<Rightarrow> 'a vector outcome" where
  "Vector_sized lg cl dflt sz =
     and_then (log_size lg cl sz) (\<lambda>k.
     and_then (shl_one (unat k)) (\<lambda>c.
       Inr \<lparr>v_size = sz, v_capacity = c, v_Log = k, v_buffer = replicate (unat c) dflt\<rparr>))"

fun fill_elements :: "nat \<Rightarrow> 'a \<Rightarrow> 'a list \<Rightarrow> 'a list outcome" where
  "fill_elements 0 x dst = Inr dst"
| "fill_elements (Suc n) x dst = and_then (fill_elements n x dst) (\<lambda>d. store_at d n x)"

definition Vector_filled :: "(u32 \<Rightarrow> u32) \<Rightarrow> (u32 \<Rightarrow> u32) \<Rightarrow> 'a \<Rightarrow> u32 \<Rightarrow> 'a \<Rightarrow> 'a vector outcome" where
  "Vector_filled lg cl dflt sz initial =
     and_then (Vector_sized lg cl dflt sz) (\<lambda>v.
     and_then (fill_elements (unat sz) initial (v_buffer v)) (\<lambda>b. Inr (v\<lparr>v_buffer := b\<rparr>)))"

definition vempty :: "'a vector \<Rightarrow> bool" where "vempty v \<longleftrightarrow> v_size v = 0"

text \<open>\<^verbatim>\<open>operator=\<close> from another vector; assigned to itself it reads the buffer it deleted.\<close>

definition Vector_assign :: "'a \<Rightarrow> bool \<Rightarrow> 'a vector \<Rightarrow> 'a vector \<Rightarrow> 'a vector outcome" where
  "Vector_assign dflt same this v =
     (let source = (if same then [] else v_buffer v)
      in and_then (copy_elements (unat (v_size v)) source (replicate (unat (v_capacity v)) dflt)) (\<lambda>b.
           Inr (this\<lparr>v_size := v_size v, v_Log := v_Log v, v_capacity := v_capacity v, v_buffer := b\<rparr>)))"

definition vfront :: "'a vector \<Rightarrow> 'a outcome" where "vfront v = load_at (v_buffer v) 0"

definition vback :: "'a vector \<Rightarrow> 'a outcome" where
  "vback v = load_at (v_buffer v) (unat (v_size v - 1))"

definition vreserve :: "'a \<Rightarrow> u32 \<Rightarrow> 'a vector \<Rightarrow> 'a vector outcome" where
  "vreserve dflt cap v =
     and_then (copy_elements (unat (v_size v)) (v_buffer v) (replicate (unat cap) dflt)) (\<lambda>b.
       Inr (v\<lparr>v_capacity := cap, v_buffer := b\<rparr>))"

definition push_back :: "'a \<Rightarrow> 'a \<Rightarrow> 'a vector \<Rightarrow> 'a vector outcome" where
  "push_back dflt x v =
     and_then (if v_size v \<ge> v_capacity v
               then and_then (shl_one (unat (v_Log v))) (\<lambda>c.
                    and_then (vreserve dflt c v) (\<lambda>v'. Inr (v'\<lparr>v_Log := v_Log v' + 1\<rparr>)))
               else Inr v) (\<lambda>v1.
     and_then (store_at (v_buffer v1) (unat (v_size v1)) x) (\<lambda>b.
       Inr (v1\<lparr>v_buffer := b, v_size := v_size v1 + 1\<rparr>)))"

definition pop_back :: "'a vector \<Rightarrow> 'a vector" where
  "pop_back v = v\<lparr>v_size := v_size v - 1\<rparr>"

definition vresize :: "(u32 \<Rightarrow> u32) \<Rightarrow> (u32 \<Rightarrow> u32) \<Rightarrow> 'a \<Rightarrow> u32 \<Rightarrow> 'a vector \<Rightarrow> 'a vector outcome" where
  "vresize lg cl dflt sz v =
     and_then (log_size lg cl sz) (\<lambda>k.
     and_then (shl_one (unat k)) (\<lambda>c.
     and_then (vreserve dflt c (v\<lparr>v_Log := k\<rparr>)) (\<lambda>v'. Inr (v'\<lparr>v_size := sz\<rparr>))))"

definition vindex :: "'a vector \<Rightarrow> u32 \<Rightarrow> 'a outcome" where
  "vindex v i = load_at (v_buffer v) (unat i)"

definition vclear :: "'a vector \<Rightarrow> 'a vector" where
  "vclear v = v\<lparr>v_capacity := 0, v_size := 0, v_buffer := [], v_Log := 0\<rparr>"

text \<open>The elements a loop from \<^verbatim>\<open>begin()\<close> to \<^verbatim>\<open>end()\<close> visits.\<close>

definition elements :: "'a vector \<Rightarrow> 'a list outcome" where
  "elements v = (if unat (v_size v) \<le> length (v_buffer v) then Inr (take (unat (v_size v)) (v_buffer v))
                 else Inl Out_Of_Bounds)"

text \<open>\<^verbatim>\<open>std::find_if\<close> on iterators: the index where it stops.\<close>

fun find_if :: "('a \<Rightarrow> bool) \<Rightarrow> 'a list \<Rightarrow> nat" where
  "find_if q [] = 0"
| "find_if q (x # xs) = (if q x then 0 else Suc (find_if q xs))"

section \<open>The interface\<close>

fun push_all :: "('a \<Rightarrow> 'v \<Rightarrow> 'v outcome) \<Rightarrow> 'a list \<Rightarrow> 'v \<Rightarrow> 'v outcome" where
  "push_all f [] v = Inr v"
| "push_all f (x # xs) v = and_then (f x v) (push_all f xs)"

locale growable =
  fixes push :: "'a \<Rightarrow> 'v \<Rightarrow> 'v outcome"
    and visit :: "'v \<Rightarrow> 'a list outcome"
    and invar :: "'v \<Rightarrow> bool"
    and limit :: nat
  assumes visit_total: "invar v \<Longrightarrow> \<exists>xs. visit v = Inr xs"
    and push_appends: "invar v \<Longrightarrow> visit v = Inr xs \<Longrightarrow> length xs < limit \<Longrightarrow>
      \<exists>v'. push x v = Inr v' \<and> invar v' \<and> visit v' = Inr (xs @ [x])"
begin

lemma push_all_appends:
  assumes "invar v" and "visit v = Inr xs" and "length xs + length ys \<le> limit"
  shows "\<exists>v'. push_all push ys v = Inr v' \<and> invar v' \<and> visit v' = Inr (xs @ ys)"
  using assms
proof (induction ys arbitrary: v xs)
  case (Cons y ys)
  then obtain v1 where v1: "push y v = Inr v1" "invar v1" "visit v1 = Inr (xs @ [y])"
    using push_appends [of v xs y] by auto
  then show ?case
    using Cons.IH [OF v1(2,3)] Cons.prems(3) by auto
qed simp

end

section \<open>Facts\<close>

lemma copy_elements_eq:
  "copy_elements n src dst =
     (if n \<le> length src \<and> n \<le> length dst \<or> n = 0 then Inr (take n src @ drop n dst) else Inl Out_Of_Bounds)"
proof (induction n)
  case (Suc n)
  show ?case
  proof (cases "Suc n \<le> length src \<and> Suc n \<le> length dst")
    case True
    then have "(take n src @ drop n dst)[n := src ! n] = take (Suc n) src @ drop (Suc n) dst"
      by (simp add: list_update_append take_Suc_conv_app_nth flip: Cons_nth_drop_Suc)
    then show ?thesis using True Suc by (simp add: min_def)
  next
    case False
    then show ?thesis using Suc by (cases "n = 0") (auto simp: min_def load_at_def store_at_def Suc_le_eq)
  qed
qed simp

text \<open>
  A vector that grew by \<^verbatim>\<open>push_back\<close> alone: the capacity is the power of two before \<open>Log\<close>.
\<close>

definition vector_wf :: "'a vector \<Rightarrow> bool" where
  "vector_wf v \<longleftrightarrow> unat (v_Log v) \<le> 31
     \<and> unat (v_capacity v) = (if v_Log v = 0 then 0 else 2 ^ (unat (v_Log v) - 1))
     \<and> length (v_buffer v) = unat (v_capacity v) \<and> v_size v \<le> v_capacity v"

lemma vector_wf_new [simp]: "vector_wf Vector_new" "vector_wf (vclear v)"
  by (simp_all add: vector_wf_def Vector_new_def vclear_def)

lemma elements_wf:
  "vector_wf v \<Longrightarrow> elements v = Inr (take (unat (v_size v)) (v_buffer v)) \<and> unat (v_size v) \<le> length (v_buffer v)"
  by (simp add: elements_def vector_wf_def word_le_nat_alt)

lemma elements_new [simp]: "elements Vector_new = Inr []" "elements (vclear v) = Inr []"
  by (simp_all add: elements_def Vector_new_def vclear_def)

lemma unat_shl_one: "k < 32 \<Longrightarrow> \<exists>c. shl_one k = Inr c \<and> unat c = 2 ^ k"
proof -
  assume k: "k < 32"
  then have "unat (of_nat (2 ^ k) :: u32) = 2 ^ k"
    using power_strict_increasing [OF k, of "2::nat"] by (intro unat_of_nat_no_wrap) simp
  then have "unat (push_bit k 1 :: u32) = 2 ^ k"
    by (simp add: push_bit_of_1)
  then show ?thesis using k by (simp add: shl_one_def)
qed

lemma push_back_room:
  assumes "vector_wf v" and "v_size v < v_capacity v"
  shows "\<exists>v'. push_back dflt x v = Inr v' \<and> vector_wf v'
    \<and> elements v' = Inr (take (unat (v_size v)) (v_buffer v) @ [x])"
proof -
  have lt: "unat (v_size v) < length (v_buffer v)" "unat (v_size v) < unat (v_capacity v)"
    using assms by (simp_all add: vector_wf_def word_less_nat_alt)
  have sz: "unat (v_size v + 1) = unat (v_size v) + 1"
    using lt unat_u32_less [of "v_capacity v"] unat_plus_no_wrap [of "v_size v" 1] by simp
  define v' where "v' = v\<lparr>v_buffer := (v_buffer v)[unat (v_size v) := x], v_size := v_size v + 1\<rparr>"
  have "push_back dflt x v = Inr v'"
    using assms(2) lt not_le [THEN iffD2, OF assms(2)] by (simp add: push_back_def v'_def)
  moreover have "vector_wf v'"
    using assms(1) lt sz by (simp add: vector_wf_def v'_def word_le_nat_alt)
  moreover have "elements v' = Inr (take (unat (v_size v)) (v_buffer v) @ [x])"
    using lt sz by (simp add: elements_def v'_def take_Suc_update)
  ultimately show ?thesis by blast
qed

text \<open>The vector right after it was regrown.\<close>

lemma regrow:
  assumes "vector_wf v" and "v_size v \<ge> v_capacity v" and "unat (v_Log v) < 31"
  shows "\<exists>v1. and_then (shl_one (unat (v_Log v))) (\<lambda>c.
      and_then (vreserve dflt c v) (\<lambda>v'. Inr (v'\<lparr>v_Log := v_Log v' + 1\<rparr>))) = Inr v1
    \<and> vector_wf v1 \<and> v_size v1 = v_size v \<and> v_size v1 < v_capacity v1
    \<and> take (unat (v_size v)) (v_buffer v1) = take (unat (v_size v)) (v_buffer v)"
proof -
  obtain c where c: "shl_one (unat (v_Log v)) = Inr c" "unat c = 2 ^ unat (v_Log v)"
    using unat_shl_one [of "unat (v_Log v)"] assms(3) by auto
  have len: "unat (v_size v) = length (v_buffer v)" "length (v_buffer v) = unat (v_capacity v)"
    using assms(1,2) by (simp_all add: vector_wf_def word_le_nat_alt)
  have small: "length (v_buffer v) < 2 ^ unat (v_Log v)"
  proof (cases "v_Log v = 0")
    case True
    then show ?thesis using assms(1) by (simp add: vector_wf_def)
  next
    case False
    then have "0 < unat (v_Log v)" by (simp add: unat_gt_0)
    then show ?thesis using assms(1) False by (simp add: vector_wf_def)
  qed
  have lg: "unat (v_Log v + 1) = unat (v_Log v) + 1"
    using assms(3) unat_plus_no_wrap [of "v_Log v" 1] by simp
  then have "v_Log v + 1 \<noteq> 0" by auto
  define v1 where "v1 = v\<lparr>v_capacity := c, v_Log := v_Log v + 1,
      v_buffer := v_buffer v @ replicate (2 ^ unat (v_Log v) - length (v_buffer v)) dflt\<rparr>"
  have "and_then (shl_one (unat (v_Log v))) (\<lambda>c.
      and_then (vreserve dflt c v) (\<lambda>v'. Inr (v'\<lparr>v_Log := v_Log v' + 1\<rparr>))) = Inr v1"
    using c small len(1) by (simp add: vreserve_def copy_elements_eq v1_def)
  moreover have "vector_wf v1"
    using small c len lg \<open>v_Log v + 1 \<noteq> 0\<close> assms(3) by (simp add: vector_wf_def v1_def word_le_nat_alt)
  moreover have "v_size v1 < v_capacity v1"
    using small c len by (simp add: v1_def word_less_nat_alt)
  ultimately show ?thesis
    using len by (intro exI [of _ v1]) (simp add: v1_def)
qed

lemma push_back_appends:
  assumes "vector_wf v" and "elements v = Inr xs" and "length xs < 2 ^ 30"
  shows "\<exists>v'. push_back dflt x v = Inr v' \<and> vector_wf v' \<and> elements v' = Inr (xs @ [x])"
proof -
  have xs: "xs = take (unat (v_size v)) (v_buffer v)" "length xs = unat (v_size v)"
    using elements_wf [OF assms(1)] assms(2) by auto
  show ?thesis
  proof (cases "v_size v < v_capacity v")
    case True
    then show ?thesis using push_back_room [OF assms(1)] xs(1) by blast
  next
    case False
    then have full: "v_size v \<ge> v_capacity v" by (simp add: not_less)
    have "unat (v_Log v) < 31"
    proof (rule ccontr)
      assume "\<not> unat (v_Log v) < 31"
      then have lg: "unat (v_Log v) = 31" using assms(1) by (simp add: vector_wf_def)
      then have "v_Log v \<noteq> 0" by auto
      then have "unat (v_capacity v) = 2 ^ 30" using assms(1) lg by (simp add: vector_wf_def)
      then show False using False assms(3) xs(2) by (simp add: word_less_nat_alt)
    qed
    then obtain v1 where v1: "and_then (shl_one (unat (v_Log v))) (\<lambda>c.
          and_then (vreserve dflt c v) (\<lambda>v'. Inr (v'\<lparr>v_Log := v_Log v' + 1\<rparr>))) = Inr v1"
        "vector_wf v1" "v_size v1 = v_size v" "v_size v1 < v_capacity v1"
        "take (unat (v_size v)) (v_buffer v1) = take (unat (v_size v)) (v_buffer v)"
      using regrow [OF assms(1) full, of dflt] by metis
    have "push_back dflt x v = push_back dflt x v1"
      using full v1(1) not_le [THEN iffD2, OF v1(4)] unfolding push_back_def [of dflt x v] push_back_def [of dflt x v1]
      by simp
    then show ?thesis
      using push_back_room [OF v1(2,4), of dflt x] v1(3,5) xs(1) by simp
  qed
qed

interpretation vec: growable "push_back dflt" elements vector_wf "2 ^ 30" for dflt
proof (unfold_locales, goal_cases)
  case 1
  then show ?case using elements_wf by blast
next
  case 2
  then show ?case by (rule push_back_appends)
qed

section \<open>Properties\<close>

text \<open>
  C34: A vector that starts empty and grows by \<^verbatim>\<open>push_back\<close> holds exactly the elements
  pushed, in order, through every reallocation, up to 2^30 of them; indexing returns each of
  them.
\<close>

theorem vector_pushes_append:
  assumes "length xs \<le> 2 ^ 30"
  shows "\<exists>v. push_all (push_back dflt) xs Vector_new = Inr v \<and> elements v = Inr xs \<and> vector_wf v
    \<and> unat (v_size v) = length xs \<and> (\<forall>i < length xs. vindex v (of_nat i) = Inr (xs ! i))"
proof -
  obtain v where v: "push_all (push_back dflt) xs Vector_new = Inr v" "vector_wf v" "elements v = Inr xs"
    using vec.push_all_appends [OF vector_wf_new(1) elements_new(1), of xs dflt] assms by auto
  have els: "xs = take (unat (v_size v)) (v_buffer v)" "unat (v_size v) \<le> length (v_buffer v)"
    using elements_wf [OF v(2)] v(3) by auto
  have "vindex v (of_nat i) = Inr (xs ! i)" if "i < length xs" for i
  proof -
    have "unat (of_nat i :: u32) = i" using that assms by (intro unat_of_nat_no_wrap) simp
    moreover have "i < unat (v_size v)" using that els by (metis length_take min.absorb2)
    then have "i < length (v_buffer v)" "xs ! i = v_buffer v ! i"
      using els(2) by (simp, subst els(1), simp)
    ultimately show ?thesis by (simp add: vindex_def)
  qed
  then show ?thesis using v els by (metis length_take min.absorb2)
qed

theorem vector_pushes_append_witness:
  "\<exists>v. push_all (push_back 0) [5, 6, 7] Vector_new = Inr v \<and> elements v = Inr [5, 6, 7::nat]"
  using vector_pushes_append [of "[5, 6, 7::nat]" 0] by auto

text \<open>
  Where the capacity and \<^verbatim>\<open>Log\<close> of a vector were not set by growing it, \<^verbatim>\<open>push_back\<close>
  stores past the buffer: on a copy of a vector that has spare capacity, because the copy gets a
  buffer of \<^verbatim>\<open>_size\<close> elements, and on a vector made with a size that is a power of two, because
  the first regrowth gives it the capacity it already has.
\<close>

theorem push_back_overruns:
  "(vector_wf v \<and> v_size v < v_capacity v \<longrightarrow>
      (\<exists>w. Vector_copy dflt v = Inr w \<and> elements w = elements v \<and> push_back dflt x w = Inl Out_Of_Bounds))
   \<and> (lg 2 \<noteq> 0 \<and> unat (cl (lg sz div lg 2)) < 32 \<and> unat sz = 2 ^ unat (cl (lg sz div lg 2)) \<longrightarrow>
      (\<exists>w. Vector_sized lg cl dflt sz = Inr w \<and> push_back dflt x w = Inl Out_Of_Bounds))"
proof (intro conjI impI)
  assume v: "vector_wf v \<and> v_size v < v_capacity v"
  then have fits: "unat (v_size v) \<le> length (v_buffer v)" and els: "elements v = Inr (take (unat (v_size v)) (v_buffer v))"
    using elements_wf by blast+
  define w where "w = \<lparr>v_size = v_size v, v_capacity = v_capacity v, v_Log = v_Log v,
      v_buffer = take (unat (v_size v)) (v_buffer v)\<rparr>"
  have len: "length (v_buffer w) = unat (v_size v)" using fits by (simp add: w_def)
  have "Vector_copy dflt v = Inr w"
    using fits by (simp add: Vector_copy_def copy_elements_eq w_def)
  moreover have "elements w = elements v"
    using fits by (simp add: els) (simp add: elements_def w_def)
  moreover have "push_back dflt x w = Inl Out_Of_Bounds"
    using v len not_le [of "v_capacity v" "v_size v"] by (simp add: push_back_def w_def)
  ultimately show "\<exists>w. Vector_copy dflt v = Inr w \<and> elements w = elements v \<and> push_back dflt x w = Inl Out_Of_Bounds"
    by blast
next
  assume sz: "lg 2 \<noteq> 0 \<and> unat (cl (lg sz div lg 2)) < 32 \<and> unat sz = 2 ^ unat (cl (lg sz div lg 2))"
  define k where "k = cl (lg sz div lg 2)"
  obtain c where c: "shl_one (unat k) = Inr c" "unat c = 2 ^ unat k"
    using unat_shl_one sz by (auto simp: k_def)
  then have "c = sz" using sz by (simp add: k_def word_unat_eq_iff)
  define w where "w = \<lparr>v_size = sz, v_capacity = sz, v_Log = k, v_buffer = replicate (unat sz) dflt\<rparr>"
  have "Vector_sized lg cl dflt sz = Inr w"
    using sz c \<open>c = sz\<close> by (simp add: Vector_sized_def log_size_def w_def flip: k_def)
  moreover have "push_back dflt x w = Inl Out_Of_Bounds"
    using c(1) \<open>c = sz\<close> by (simp add: push_back_def w_def vreserve_def copy_elements_eq)
  ultimately show "\<exists>w. Vector_sized lg cl dflt sz = Inr w \<and> push_back dflt x w = Inl Out_Of_Bounds"
    by blast
qed

theorem push_back_overruns_witness:
  "\<exists>v w. push_all (push_back 0) [5, 6, 7] Vector_new = Inr v \<and> Vector_copy 0 v = Inr w
    \<and> push_back 0 (8::nat) w = Inl Out_Of_Bounds"
proof -
  define v where "v = \<lparr>v_size = 3, v_capacity = 4, v_Log = 3, v_buffer = [5, 6, 7, 0::nat]\<rparr>"
  have rep: "replicate 2 (0::nat) = [0, 0]" by (simp add: numeral_2_eq_2)
  have "push_all (push_back 0) [5, 6, 7] Vector_new = Inr v"
    by (simp add: push_back_def Vector_new_def shl_one_def vreserve_def copy_elements_eq v_def rep)
  moreover have "vector_wf v \<and> v_size v < v_capacity v" by (simp add: v_def vector_wf_def)
  ultimately show ?thesis
    using push_back_overruns [of v 0 8] by blast
qed

end
