(* ===== verification/Scheduler.thy ===== *)
theory Scheduler
  imports Queue Vector
begin

text \<open>
  Processes and the scheduler: \<^verbatim>\<open>KernelProcess\<close> of \<^verbatim>\<open>processing.h\<close> and \<^verbatim>\<open>schedualer.cpp\<close>
  / \<^verbatim>\<open>schedualer.h\<close>. Process objects live in a store from addresses; the two ready queues hold
  their addresses in nodes of the memory manager; a terminated process is only remembered in the
  vector of cancelled ids. The reference is the pair of lists of processes that are not
  cancelled.
\<close>

section \<open>Data\<close>

record RegistersStruct_x86_32 =
  r_ds :: u32
  r_edi :: u32  r_esi :: u32  r_ebp :: u32  r_esp :: u32
  r_ebx :: u32  r_edx :: u32  r_ecx :: u32  r_eax :: u32
  r_int_no :: u32  r_err_code :: u32
  r_eip :: u32  r_cs :: u32  r_eflags :: u32  r_useresp :: u32  r_ss :: u32

datatype Priority = Low | Regular | High | Critical | System

fun priority_value :: "Priority \<Rightarrow> nat" where
  "priority_value Low = 0"
| "priority_value Regular = 1"
| "priority_value High = 2"
| "priority_value Critical = 3"
| "priority_value System = 4"

instantiation Priority :: linorder
begin

definition less_eq_Priority :: "Priority \<Rightarrow> Priority \<Rightarrow> bool" where
  "p \<le> q \<longleftrightarrow> priority_value p \<le> priority_value q"

definition less_Priority :: "Priority \<Rightarrow> Priority \<Rightarrow> bool" where
  "p < q \<longleftrightarrow> priority_value p < priority_value q"

instance
proof
  fix p q :: Priority
  show "p \<le> q \<Longrightarrow> q \<le> p \<Longrightarrow> p = q"
    by (cases p; cases q) (simp_all add: less_eq_Priority_def)
qed (auto simp: less_eq_Priority_def less_Priority_def)

end

text \<open>
  \<^verbatim>\<open>self_mappings\<close> is the null pointer or a vector: its address and its elements. The only
  resolver the code stores in \<^verbatim>\<open>on_end\<close> is \<^verbatim>\<open>_SignalProcEnd\<close>.
\<close>

datatype ProcessResolver = No_Resolver | SignalProcEnd

record KernelProcess =
  kp_pid :: u32
  kp_start_time :: u64
  kp_slice_size :: u64
  kp_priority :: Priority
  kp_directory :: u32
  kp_stack_begin :: u32
  kp_heap_begin :: u32
  kp_data_begin :: u32
  kp_times_ran :: u64
  kp_registers :: RegistersStruct_x86_32
  kp_registers_set :: bool
  kp_self_mappings :: "(u32 \<times> (u32 \<times> u32) list) option"
  kp_on_end :: ProcessResolver
  kp_input_buffer :: u32
  kp_input_buffer_lock :: u32
  kp_is_finished :: bool

record sched =
  s_mem :: "u32 qmem"
  s_system :: queue
  s_regular :: queue
  s_canceled :: "u32 vector"
  s_keep_running :: bool
  s_procs :: "u32 \<Rightarrow> KernelProcess option"
  s_current :: u32

definition proc_at :: "u32 \<Rightarrow> (u32 \<Rightarrow> KernelProcess option) \<Rightarrow> KernelProcess outcome" where
  "proc_at p procs = (case procs p of None \<Rightarrow> Inl Null_Pointer | Some k \<Rightarrow> Inr k)"

section \<open>Code\<close>

definition ProcessScheduler_new :: "u32 qmem \<Rightarrow> (u32 \<Rightarrow> KernelProcess option) \<Rightarrow> sched" where
  "ProcessScheduler_new mem procs =
     \<lparr>s_mem = mem, s_system = Queue_new, s_regular = Queue_new, s_canceled = Vector_new,
      s_keep_running = True, s_procs = procs, s_current = 0\<rparr>"

definition GetCurrentProcess :: "sched \<Rightarrow> u32" where "GetCurrentProcess s = s_current s"

definition GetNext :: "sched \<Rightarrow> u32" where "GetNext s = s_current s"

definition AddItem :: "(u32 \<Rightarrow> u32 \<Rightarrow> u32) \<Rightarrow> u32 \<Rightarrow> sched \<Rightarrow> sched outcome" where
  "AddItem pdiff p s =
     and_then (proc_at p (s_procs s)) (\<lambda>k.
       if kp_priority k = System
       then and_then (enqueue pdiff SIZEOF_PROCESS_NODE p (s_system s) (s_mem s)) (\<lambda>(q, m).
              Inr (s\<lparr>s_system := q, s_mem := m\<rparr>))
       else and_then (enqueue pdiff SIZEOF_PROCESS_NODE p (s_regular s) (s_mem s)) (\<lambda>(q, m).
              Inr (s\<lparr>s_regular := q, s_mem := m\<rparr>)))"

fun canceled_loop :: "u32 \<Rightarrow> u32 list \<Rightarrow> bool" where
  "canceled_loop proc_id [] = False"
| "canceled_loop proc_id (c # cs) = (if proc_id = c then True else canceled_loop proc_id cs)"

definition IsCanceled :: "u32 vector \<Rightarrow> u32 \<Rightarrow> bool outcome" where
  "IsCanceled canceled proc_id = and_then (elements canceled) (\<lambda>cs. Inr (canceled_loop proc_id cs))"

text \<open>The loop of \<^verbatim>\<open>_FindProcess\<close>; the answer 0 is the null pointer.\<close>

partial_function (option) FindProcess ::
    "(u32 \<Rightarrow> u32 \<Rightarrow> u32) \<Rightarrow> u32 vector \<Rightarrow> (u32 \<Rightarrow> KernelProcess option) \<Rightarrow> queue \<Rightarrow> u32 qmem
     \<Rightarrow> (u32 \<times> (u32 \<Rightarrow> KernelProcess option) \<times> queue \<times> u32 qmem) outcome option" where
  "FindProcess pdiff canceled procs q m =
     (if isempty q then Some (Inr (0, procs, q, m))
      else (case and_then (qtop q m) (\<lambda>p. and_then (proc_at p procs) (\<lambda>k. IsCanceled canceled (kp_pid k))) of
              Inl e \<Rightarrow> Some (Inl e)
            | Inr is_canceled \<Rightarrow>
                (if is_canceled
                 then (case dequeue 0 q m of
                         Inl e \<Rightarrow> Some (Inl e)
                       | Inr r \<Rightarrow> FindProcess pdiff canceled procs (fst (snd r)) (snd (snd r)))
                 else Some (and_then (dequeue 0 q m) (\<lambda>(next_process, q1, m1).
                        and_then (proc_at next_process procs) (\<lambda>k.
                        and_then (enqueue pdiff SIZEOF_PROCESS_NODE next_process q1 m1) (\<lambda>(q2, m2).
                          Inr (next_process, procs(next_process \<mapsto> k\<lparr>kp_times_ran := kp_times_ran k + 1\<rparr>),
                               q2, m2))))))))"

definition run_find ::
    "(u32 \<times> (u32 \<Rightarrow> KernelProcess option) \<times> queue \<times> u32 qmem) outcome option
     \<Rightarrow> (u32 \<times> (u32 \<Rightarrow> KernelProcess option) \<times> queue \<times> u32 qmem) outcome" where
  "run_find r = (case r of None \<Rightarrow> Inl No_Return | Some x \<Rightarrow> x)"

definition CalculateNext :: "(u32 \<Rightarrow> u32 \<Rightarrow> u32) \<Rightarrow> sched \<Rightarrow> sched outcome" where
  "CalculateNext pdiff s =
     and_then (run_find (FindProcess pdiff (s_canceled s) (s_procs s) (s_system s) (s_mem s)))
       (\<lambda>(next_process, procs, q, m).
     let s1 = s\<lparr>s_procs := procs, s_system := q, s_mem := m\<rparr>
     in if next_process = 0
        then and_then (run_find (FindProcess pdiff (s_canceled s1) (s_procs s1) (s_regular s1) (s_mem s1)))
               (\<lambda>(next_process, procs, q, m).
                  Inr (s1\<lparr>s_procs := procs, s_regular := q, s_mem := m, s_current := next_process\<rparr>))
        else Inr (s1\<lparr>s_current := next_process\<rparr>))"

definition SignalEnd :: "u32 \<Rightarrow> sched \<Rightarrow> sched outcome" where
  "SignalEnd pid s = and_then (push_back 0 pid (s_canceled s)) (\<lambda>v. Inr (s\<lparr>s_canceled := v\<rparr>))"

definition run_process_scheduler :: "(u32 \<Rightarrow> u32 \<Rightarrow> u32) \<Rightarrow> sched \<Rightarrow> sched outcome" where
  "run_process_scheduler pdiff s = CalculateNext pdiff s"

section \<open>The reference\<close>

lemma canceled_loop_iff [simp]: "canceled_loop i cs \<longleftrightarrow> i \<in> set cs"
  by (induction cs) auto

definition pid_of :: "(u32 \<Rightarrow> KernelProcess option) \<Rightarrow> u32 \<Rightarrow> u32" where
  "pid_of procs p = (case procs p of None \<Rightarrow> 0 | Some k \<Rightarrow> kp_pid k)"

text \<open>The processes of a queue that are not cancelled, in queue order.\<close>

definition alive :: "(u32 \<Rightarrow> KernelProcess option) \<Rightarrow> u32 list \<Rightarrow> u32 list \<Rightarrow> u32 list" where
  "alive procs cs ps = filter (\<lambda>p. pid_of procs p \<notin> set cs) ps"

definition known :: "(u32 \<Rightarrow> KernelProcess option) \<Rightarrow> u32 list \<Rightarrow> bool" where
  "known procs ps \<longleftrightarrow> (\<forall>p \<in> set ps. p \<noteq> 0 \<and> procs p \<noteq> None)"

text \<open>
  \<open>sched_rep s cs sys reg\<close>: the cancelled ids are \<open>cs\<close>, the queues hold the processes \<open>sys\<close> and
  \<open>reg\<close> in disjoint nodes.
\<close>

definition sched_rep :: "sched \<Rightarrow> u32 list \<Rightarrow> u32 list \<Rightarrow> u32 list \<Rightarrow> bool" where
  "sched_rep s cs sys reg \<longleftrightarrow>
     vector_wf (s_canceled s) \<and> elements (s_canceled s) = Inr cs
     \<and> s_procs s 0 = None \<and> known (s_procs s) sys \<and> known (s_procs s) reg
     \<and> (\<exists>P Q. queue_rep (s_mem s) (s_system s) P sys \<and> queue_rep (s_mem s) (s_regular s) Q reg \<and> P \<inter> Q = {})"

lemma bump_pid [simp]:
  "procs p = Some k \<Longrightarrow> pid_of (procs(p \<mapsto> k\<lparr>kp_times_ran := n\<rparr>)) = pid_of procs"
  by (auto simp: pid_of_def fun_eq_iff)

lemma alive_cong: "pid_of procs = pid_of procs' \<Longrightarrow> alive procs cs ps = alive procs' cs ps"
  by (simp add: alive_def)

lemma alive_simps [simp]:
  "alive procs cs [] = []"
  "alive procs cs (p # ps) = (if pid_of procs p \<in> set cs then alive procs cs ps else p # alive procs cs ps)"
  "alive procs cs (ps @ qs) = alive procs cs ps @ alive procs cs qs"
  by (simp_all add: alive_def)

text \<open>What \<^verbatim>\<open>_FindProcess\<close> does to the list of a queue.\<close>

definition found ::
    "(u32 \<Rightarrow> KernelProcess option) \<Rightarrow> u32 list \<Rightarrow> u32 list \<Rightarrow> u32 \<Rightarrow> (u32 \<Rightarrow> KernelProcess option) \<Rightarrow> u32 list \<Rightarrow> bool" where
  "found procs cs ps n procs' ps' \<longleftrightarrow>
     set ps' \<subseteq> set ps \<and> pid_of procs' = pid_of procs \<and> dom procs' = dom procs
     \<and> alive procs cs ps' = rotate1 (alive procs cs ps)
     \<and> (if alive procs cs ps = [] then n = 0 \<and> ps' = [] \<and> procs' = procs
        else n = hd (alive procs cs ps)
          \<and> procs' = procs(n := map_option (\<lambda>k. k\<lparr>kp_times_ran := kp_times_ran k + 1\<rparr>) (procs n)))"

text \<open>The counter a selection increments.\<close>

definition bump :: "u32 \<Rightarrow> (u32 \<Rightarrow> KernelProcess option) \<Rightarrow> (u32 \<Rightarrow> KernelProcess option)" where
  "bump n procs = procs(n := map_option (\<lambda>k. k\<lparr>kp_times_ran := kp_times_ran k + 1\<rparr>) (procs n))"

lemma found_bump: "found procs cs ps n procs' ps' \<Longrightarrow> procs 0 = None \<Longrightarrow> procs' = bump n procs"
  by (auto simp: found_def bump_def fun_eq_iff split: if_splits)

lemma bump_none [simp]: "procs 0 = None \<Longrightarrow> bump 0 procs = procs"
  by (auto simp: bump_def fun_eq_iff)

lemma SIZEOF_PROCESS_NODE_sizes: "0 < SIZEOF_PROCESS_NODE" "SIZEOF_PROCESS_NODE \<le> 64"
  by (simp_all add: SIZEOF_PROCESS_NODE_def)

lemma FindProcess_found:
  assumes "queue_rep m q P ps" and "known procs ps" and "elements canceled = Inr cs"
  shows "\<exists>n procs' q' m' P' ps'. FindProcess pdiff canceled procs q m = Some (Inr (n, procs', q', m'))
    \<and> queue_rep m' q' P' ps' \<and> found procs cs ps n procs' ps' \<and> keeps_others queue_rep m P m' P'
    \<and> mem_frame m m' \<and> bin_room m \<le> bin_room m'"
  using assms(1,2)
proof (induction ps arbitrary: q m P)
  case Nil
  have "FindProcess pdiff canceled procs q m = Some (Inr (0, procs, q, m))"
    using queue_rep_empty [OF Nil(1)] by (subst FindProcess.simps) simp
  moreover have "found procs cs [] 0 procs []" by (simp add: found_def)
  moreover have "keeps_others queue_rep m P m P" by (simp add: keeps_others_def)
  ultimately show ?case using Nil(1) mem_frame_refl by blast
next
  case (Cons p ps)
  obtain k where k: "procs p = Some k" "p \<noteq> 0"
    using Cons.prems(2) by (auto simp: known_def)
  have ask: "and_then (qtop q m) (\<lambda>p. and_then (proc_at p procs) (\<lambda>k. IsCanceled canceled (kp_pid k)))
      = Inr (pid_of procs p \<in> set cs)"
    using queue_rep_front [OF Cons.prems(1)] k assms(3)
    by (simp add: proc_at_def IsCanceled_def pid_of_def)
  have ne: "\<not> isempty q" using queue_rep_empty [OF Cons.prems(1)] by simp
  show ?case
  proof (cases "pid_of procs p \<in> set cs")
    case True
    obtain q1 m1 P1 where 1: "dequeue 0 q m = Inr (p, q1, m1)" "queue_rep m1 q1 P1 ps"
        "keeps_others queue_rep m P m1 P1" "bin_room m1 = Suc (bin_room m)"
      using pq.take_front [OF Cons.prems(1), of 0] by blast
    have step: "FindProcess pdiff canceled procs q m = FindProcess pdiff canceled procs q1 m1"
      using ne ask True 1(1) by (subst FindProcess.simps) simp
    have "known procs ps" using Cons.prems(2) by (simp add: known_def)
    from Cons.IH [OF 1(2) this] obtain n procs' q' m' P' ps' where
      2: "FindProcess pdiff canceled procs q1 m1 = Some (Inr (n, procs', q', m'))" "queue_rep m' q' P' ps'"
        "found procs cs ps n procs' ps'" "keeps_others queue_rep m1 P1 m' P'"
        "mem_frame m1 m'" "bin_room m1 \<le> bin_room m'"
      by blast
    have "found procs cs (p # ps) n procs' ps'"
      using 2(3) True by (auto simp: found_def)
    moreover have "mem_frame m m'" "bin_room m \<le> bin_room m'"
      using mem_frame_trans [OF dequeue_frame [OF Cons.prems(1) 1(1)] 2(5)] 2(6) 1(4) by simp_all
    ultimately show ?thesis
      using 2(1,2) step pq.keeps_others_trans [OF 1(3) 2(4)] by metis
  next
    case False
    obtain q1 m1 q' m' P' where 1: "dequeue 0 q m = Inr (p, q1, m1)"
        "enqueue pdiff SIZEOF_PROCESS_NODE p q1 m1 = Inr (q', m')" "queue_rep m' q' P' (ps @ [p])"
        "keeps_others queue_rep m P m' P'" "bin_room m' = bin_room m"
      using pq.rotate_front [OF Cons.prems(1), of 0 pdiff] by blast
    obtain P1 where "queue_rep m1 q1 P1 ps"
      using pq.take_front [OF Cons.prems(1), of 0] 1(1) by force
    then have big: "mem_frame m m'"
      using mem_frame_trans [OF dequeue_frame [OF Cons.prems(1) 1(1)]] enqueue_frame 1(2)
      by (metis SIZEOF_PROCESS_NODE_sizes)
    define procs' where "procs' = procs(p \<mapsto> k\<lparr>kp_times_ran := kp_times_ran k + 1\<rparr>)"
    have "FindProcess pdiff canceled procs q m = Some (Inr (p, procs', q', m'))"
      using ne ask False 1 k by (subst FindProcess.simps) (simp add: proc_at_def procs'_def)
    moreover have "found procs cs (p # ps) p procs' (ps @ [p])"
      using False k by (auto simp: found_def procs'_def)
    ultimately show ?thesis using 1(3-5) big by (metis order_refl)
  qed
qed


text \<open>
  The ready lists: the processes of each queue that are not cancelled. \<open>selected\<close> is the one the
  next tick picks and \<open>after_tick\<close> the lists it leaves.
\<close>

definition ready :: "sched \<Rightarrow> u32 list \<Rightarrow> u32 list \<Rightarrow> u32 list \<Rightarrow> bool" where
  "ready s cs A B \<longleftrightarrow> (\<exists>sys reg. sched_rep s cs sys reg
     \<and> A = alive (s_procs s) cs sys \<and> B = alive (s_procs s) cs reg)"

fun selected :: "u32 list \<Rightarrow> u32 list \<Rightarrow> u32" where
  "selected (p # A) B = p"
| "selected [] (p # B) = p"
| "selected [] [] = 0"

fun after_tick :: "u32 list \<times> u32 list \<Rightarrow> u32 list \<times> u32 list" where
  "after_tick (A, B) = (if A = [] then ([], rotate1 B) else (rotate1 A, B))"

lemma readyI:
  "sched_rep s cs sys reg \<Longrightarrow> alive (s_procs s) cs sys = A \<Longrightarrow> alive (s_procs s) cs reg = B \<Longrightarrow> ready s cs A B"
  by (auto simp: ready_def)

lemma known_mono: "known procs ps \<Longrightarrow> set qs \<subseteq> set ps \<Longrightarrow> dom procs' = dom procs \<Longrightarrow> known procs' qs"
  unfolding known_def by (metis domIff subsetD)

lemma alive_set: "p \<in> set (alive procs cs ps) \<longleftrightarrow> p \<in> set ps \<and> pid_of procs p \<notin> set cs"
  by (simp add: alive_def)

lemma selected_empty: "known procs ps \<Longrightarrow> selected (alive procs cs ps) B = 0 \<Longrightarrow> alive procs cs ps = []"
  using alive_set [of _ procs cs ps] by (cases "alive procs cs ps") (auto simp: known_def)

lemma found_selected: "found procs cs ps n procs' ps' \<Longrightarrow> n = selected (alive procs cs ps) []"
  by (cases "alive procs cs ps") (auto simp: found_def)

lemma CalculateNext_ready:
  assumes "ready s cs A B"
  shows "\<exists>s'. CalculateNext pdiff s = Inr s' \<and> s_current s' = selected A B
    \<and> pid_of (s_procs s') = pid_of (s_procs s) \<and> s_procs s' = bump (selected A B) (s_procs s)
    \<and> ready s' cs (fst (after_tick (A, B))) (snd (after_tick (A, B)))
    \<and> mem_frame (s_mem s) (s_mem s') \<and> bin_room (s_mem s) \<le> bin_room (s_mem s')"
proof -
  obtain sys reg P Q where rep: "vector_wf (s_canceled s)" "elements (s_canceled s) = Inr cs" "s_procs s 0 = None"
      "known (s_procs s) sys" "known (s_procs s) reg" "queue_rep (s_mem s) (s_system s) P sys"
      "queue_rep (s_mem s) (s_regular s) Q reg" "P \<inter> Q = {}"
    and AB: "A = alive (s_procs s) cs sys" "B = alive (s_procs s) cs reg"
    using assms by (auto simp: ready_def sched_rep_def)
  obtain n procs q m P1 sys1 where 1: "FindProcess pdiff (s_canceled s) (s_procs s) (s_system s) (s_mem s) = Some (Inr (n, procs, q, m))"
      "queue_rep m q P1 sys1" "found (s_procs s) cs sys n procs sys1" "keeps_others queue_rep (s_mem s) P m P1"
      "mem_frame (s_mem s) m" "bin_room (s_mem s) \<le> bin_room m"
    using FindProcess_found [OF rep(6,4,2)] by blast
  have f1: "set sys1 \<subseteq> set sys" "pid_of procs = pid_of (s_procs s)" "dom procs = dom (s_procs s)"
      "alive procs cs sys1 = rotate1 A" "n = selected A []"
    using 1(3) found_selected [OF 1(3)] AB(1) by (auto simp: found_def alive_def)
  have reg1: "queue_rep m (s_regular s) Q reg" "Q \<inter> P1 = {}"
    using 1(4) rep(7,8) by (auto simp: keeps_others_def)
  have known1: "known procs sys1" "known procs reg" "procs 0 = None"
    using known_mono [OF rep(4) f1(1,3)] known_mono [OF rep(5) subset_refl f1(3)] rep(3) f1(3) by auto
  define s1 where "s1 = s\<lparr>s_procs := procs, s_system := q, s_mem := m\<rparr>"
  have B1: "B = alive procs cs reg" using AB(2) f1(2) by (simp add: alive_def)
  show ?thesis
  proof (cases "A = []")
    case False
    have "n \<noteq> 0" using selected_empty [OF rep(4), of cs "[]"] f1(5) AB(1) False by auto
    define s2 where "s2 = s1\<lparr>s_current := n\<rparr>"
    have n: "n = selected A B" using f1(5) False by (cases A) auto
    have calc: "CalculateNext pdiff s = Inr s2"
      using 1(1) \<open>n \<noteq> 0\<close> by (simp add: CalculateNext_def run_find_def s1_def s2_def)
    have rep2: "sched_rep s2 cs sys1 reg"
      using rep(1,2) known1 1(2) reg1 by (auto simp: sched_rep_def s1_def s2_def)
    have procs2: "s_procs s2 = procs" "s_current s2 = n" by (simp_all add: s1_def s2_def)
    have "ready s2 cs (fst (after_tick (A, B))) (snd (after_tick (A, B)))"
      using False f1(4) B1 procs2 by (intro readyI [OF rep2]) simp_all
    moreover have "s_mem s2 = m" by (simp add: s1_def s2_def)
    ultimately show ?thesis
      using calc n procs2 f1(2) found_bump [OF 1(3) rep(3)] 1(5,6) by metis
  next
    case True
    then have "n = 0" using f1(5) by simp
    obtain n' procs' q' m' P2 reg2 where 2: "FindProcess pdiff (s_canceled s) procs (s_regular s) m = Some (Inr (n', procs', q', m'))"
        "queue_rep m' q' P2 reg2" "found procs cs reg n' procs' reg2" "keeps_others queue_rep m Q m' P2"
        "mem_frame m m'" "bin_room m \<le> bin_room m'"
      using FindProcess_found [OF reg1(1) known1(2) rep(2)] by blast
    have f2: "set reg2 \<subseteq> set reg" "pid_of procs' = pid_of procs" "dom procs' = dom procs"
        "alive procs' cs reg2 = rotate1 B" "n' = selected B []"
      using 2(3) found_selected [OF 2(3)] B1 by (auto simp: found_def alive_def)
    have sys2: "queue_rep m' q P1 sys1" "P1 \<inter> P2 = {}"
      using 2(4) 1(2) reg1(2) by (auto simp: keeps_others_def)
    have known2: "known procs' sys1" "known procs' reg2" "procs' 0 = None"
      using known_mono [OF known1(1) subset_refl f2(3)] known_mono [OF known1(2) f2(1,3)] known1(3) f2(3) by auto
    define s2 where "s2 = s1\<lparr>s_procs := procs', s_regular := q', s_mem := m', s_current := n'\<rparr>"
    have calc: "CalculateNext pdiff s = Inr s2"
      using 1(1) 2(1) \<open>n = 0\<close> by (simp add: CalculateNext_def run_find_def s1_def s2_def)
    have rep2: "sched_rep s2 cs sys1 reg2"
      using rep(1,2) known2 2(2) sys2 by (auto simp: sched_rep_def s1_def s2_def)
    have n: "n' = selected A B" using f2(5) True by (cases B) auto
    have procs2: "s_procs s2 = procs'" "s_current s2 = n'" by (simp_all add: s2_def)
    have "alive procs' cs sys1 = []" using f1(4) f2(2) True by (simp add: alive_def)
    then have "ready s2 cs (fst (after_tick (A, B))) (snd (after_tick (A, B)))"
      using True f2(4) procs2 by (intro readyI [OF rep2]) simp_all
    moreover have "procs = s_procs s" using found_bump [OF 1(3) rep(3)] \<open>n = 0\<close> rep(3) by simp
    moreover have "mem_frame (s_mem s) (s_mem s2)" "bin_room (s_mem s) \<le> bin_room (s_mem s2)"
      using mem_frame_trans [OF 1(5) 2(5)] order_trans [OF 1(6) 2(6)] by (simp_all add: s2_def)
    ultimately show ?thesis
      using calc n procs2 f1(2) f2(2) found_bump [OF 2(3) known1(3)] by metis
  qed
qed


text \<open>Adding a process and ending one.\<close>

lemma enqueue_no_room:
  assumes "queue_rep m q P xs" and "bin_room m = 0"
  shows "enqueue pdiff SIZEOF_PROCESS_NODE x q m = Inl Null_Pointer"
proof -
  have "bin_wf (q_mm m)" using assms(1) by (simp add: queue_rep_def qmem_wf_def)
  then have "malloc_fastbin (q_mm m) = Inr (0, q_mm m)"
    using sb.get_full assms(2) by (simp add: bin_room_def)
  then show ?thesis
    by (simp add: operator_new_small SIZEOF_PROCESS_NODE_def enqueue_def new_qnode_def)
qed

lemma proc_at_simps [simp]:
  "procs p = Some k \<Longrightarrow> proc_at p procs = Inr k"
  "procs p = None \<Longrightarrow> proc_at p procs = Inl Null_Pointer"
  by (simp_all add: proc_at_def)

lemma AddItem_ready:
  assumes "ready s cs A B" and k: "s_procs s p = Some k" and "0 < bin_room (s_mem s)"
  shows "\<exists>s'. AddItem pdiff p s = Inr s' \<and> s_procs s' = s_procs s \<and> s_canceled s' = s_canceled s
    \<and> ready s' cs (if kp_priority k = System then A @ alive (s_procs s) cs [p] else A)
        (if kp_priority k = System then B else B @ alive (s_procs s) cs [p])
    \<and> mem_frame (s_mem s) (s_mem s') \<and> bin_room (s_mem s) = Suc (bin_room (s_mem s'))"
proof -
  obtain sys reg P Q where rep: "vector_wf (s_canceled s)" "elements (s_canceled s) = Inr cs" "s_procs s 0 = None"
      "known (s_procs s) sys" "known (s_procs s) reg" "queue_rep (s_mem s) (s_system s) P sys"
      "queue_rep (s_mem s) (s_regular s) Q reg" "P \<inter> Q = {}"
    and AB: "A = alive (s_procs s) cs sys" "B = alive (s_procs s) cs reg"
    using assms(1) by (auto simp: ready_def sched_rep_def)
  have p: "p \<noteq> 0" using k rep(3) by auto
  have known: "known (s_procs s) (sys @ [p])" "known (s_procs s) (reg @ [p])"
    using rep(4,5) k p by (auto simp: known_def)
  show ?thesis
  proof (cases "kp_priority k = System")
    case True
    obtain q m P1 where 1: "enqueue pdiff SIZEOF_PROCESS_NODE p (s_system s) (s_mem s) = Inr (q, m)"
        "queue_rep m q P1 (sys @ [p])" "keeps_others queue_rep (s_mem s) P m P1"
        "bin_room (s_mem s) = Suc (bin_room m)"
      using pq.put_last [OF rep(6) assms(3)] by blast
    have "queue_rep m (s_regular s) Q reg" "P1 \<inter> Q = {}"
      using 1(3) rep(7,8) by (auto simp: keeps_others_def)
    then have "sched_rep (s\<lparr>s_system := q, s_mem := m\<rparr>) cs (sys @ [p]) reg"
      using rep 1(2) known by (auto simp: sched_rep_def)
    then show ?thesis
      using readyI [of "s\<lparr>s_system := q, s_mem := m\<rparr>" cs "sys @ [p]" reg] True k 1(1,4) AB
        enqueue_frame [OF rep(6) SIZEOF_PROCESS_NODE_sizes 1(1)]
      by (simp add: AddItem_def)
  next
    case False
    obtain q m Q1 where 1: "enqueue pdiff SIZEOF_PROCESS_NODE p (s_regular s) (s_mem s) = Inr (q, m)"
        "queue_rep m q Q1 (reg @ [p])" "keeps_others queue_rep (s_mem s) Q m Q1"
        "bin_room (s_mem s) = Suc (bin_room m)"
      using pq.put_last [OF rep(7) assms(3)] by blast
    have "queue_rep m (s_system s) P sys" "P \<inter> Q1 = {}"
      using 1(3) rep(6,8) by (auto simp: keeps_others_def)
    then have "sched_rep (s\<lparr>s_regular := q, s_mem := m\<rparr>) cs sys (reg @ [p])"
      using rep 1(2) known by (auto simp: sched_rep_def)
    then show ?thesis
      using readyI [of "s\<lparr>s_regular := q, s_mem := m\<rparr>" cs sys "reg @ [p]"] False k 1(1,4) AB
        enqueue_frame [OF rep(7) SIZEOF_PROCESS_NODE_sizes 1(1)]
      by (simp add: AddItem_def)
  qed
qed

lemma SignalEnd_ready:
  assumes "ready s cs A B" and "length cs < 2 ^ 30"
  shows "\<exists>s'. SignalEnd pid s = Inr s' \<and> s_procs s' = s_procs s \<and> s_mem s' = s_mem s
    \<and> ready s' (cs @ [pid]) (filter (\<lambda>p. pid_of (s_procs s) p \<noteq> pid) A) (filter (\<lambda>p. pid_of (s_procs s) p \<noteq> pid) B)"
proof -
  obtain sys reg where rep: "sched_rep s cs sys reg" "A = alive (s_procs s) cs sys" "B = alive (s_procs s) cs reg"
    using assms(1) by (auto simp: ready_def)
  obtain v where v: "push_back 0 pid (s_canceled s) = Inr v" "vector_wf v" "elements v = Inr (cs @ [pid])"
    using vec.push_appends [of "s_canceled s" cs 0 pid] rep(1) assms(2) by (auto simp: sched_rep_def)
  define s' where "s' = s\<lparr>s_canceled := v\<rparr>"
  have "sched_rep s' (cs @ [pid]) sys reg" using rep(1) v by (auto simp: sched_rep_def s'_def)
  moreover have filt: "alive (s_procs s) (cs @ [pid]) ps = filter (\<lambda>p. pid_of (s_procs s) p \<noteq> pid) (alive (s_procs s) cs ps)" for ps
    by (auto simp: alive_def intro: filter_cong)
  ultimately have "ready s' (cs @ [pid]) (filter (\<lambda>p. pid_of (s_procs s) p \<noteq> pid) A) (filter (\<lambda>p. pid_of (s_procs s) p \<noteq> pid) B)"
    unfolding ready_def rep(2,3) filt [symmetric] by (auto simp: s'_def)
  then show ?thesis using v(1) by (auto simp: SignalEnd_def s'_def)
qed

section \<open>Properties\<close>

text \<open>What a number of ticks selects.\<close>

fun run_ticks :: "(u32 \<Rightarrow> u32 \<Rightarrow> u32) \<Rightarrow> nat \<Rightarrow> sched \<Rightarrow> (u32 list \<times> sched) outcome" where
  "run_ticks pdiff 0 s = Inr ([], s)"
| "run_ticks pdiff (Suc n) s =
     and_then (run_process_scheduler pdiff s) (\<lambda>s1.
     and_then (run_ticks pdiff n s1) (\<lambda>(ps, s2). Inr (GetCurrentProcess s1 # ps, s2)))"

definition turn :: "u32 list \<Rightarrow> u32 list \<Rightarrow> nat \<Rightarrow> u32" where
  "turn A B i = (if A \<noteq> [] then A ! (i mod length A) else if B \<noteq> [] then B ! (i mod length B) else 0)"

lemma turn_selected: "turn A B 0 = selected A B"
  by (cases "(A, B)" rule: selected.cases) (auto simp: turn_def)

lemma nth_rotate1_mod: "xs \<noteq> [] \<Longrightarrow> rotate1 xs ! (i mod length xs) = xs ! (Suc i mod length xs)"
  using nth_rotate1 [of "i mod length xs" xs] by (simp add: mod_Suc_eq)

text \<open>Counting on from any number comes by every position of a list within its length.\<close>

lemma nth_in_window:
  assumes "p \<in> set xs"
  obtains i where "k \<le> i" and "i < k + length xs" and "xs ! (i mod length xs) = p"
proof -
  obtain j where j: "j < length xs" "xs ! j = p" using assms by (auto simp: in_set_conv_nth)
  let ?l = "length xs"
  define i where "i = (if k mod ?l \<le> j then k + (j - k mod ?l) else k + (?l + j - k mod ?l))"
  have r: "k mod ?l < ?l" using j(1) by (metis mod_less_divisor not_less_zero gr0I)
  have k: "k = ?l * (k div ?l) + k mod ?l" by simp
  have "i = ?l * (if k mod ?l \<le> j then k div ?l else Suc (k div ?l)) + j"
  proof (cases "k mod ?l \<le> j")
    case True
    then have "i = k + (j - k mod ?l)" by (simp add: i_def)
    also have "\<dots> = ?l * (k div ?l) + j" using k True by linarith
    finally show ?thesis using True by simp
  next
    case False
    then have "i = k + (?l + j - k mod ?l)" by (simp add: i_def)
    also have "\<dots> = ?l * (k div ?l) + ?l + j" using k r by linarith
    finally show ?thesis using False by simp
  qed
  then have "i mod ?l = j" using j(1) by simp
  moreover have "k \<le> i" "i < k + ?l" using r j(1) by (auto simp: i_def)
  ultimately show thesis using that j(2) by blast
qed

lemma turn_after_tick: "turn (fst (after_tick (A, B))) (snd (after_tick (A, B))) i = turn A B (Suc i)"
  using nth_rotate1_mod [of A i] nth_rotate1_mod [of B i] by (auto simp: turn_def)

lemma run_ticks_turns:
  assumes "ready s cs A B"
  shows "\<exists>s' A' B'. run_ticks pdiff n s = Inr (map (turn A B) [0..<n], s') \<and> ready s' cs A' B'
    \<and> set A' = set A \<and> set B' = set B"
  using assms
proof (induction n arbitrary: s A B)
  case (Suc n)
  obtain s1 where 1: "CalculateNext pdiff s = Inr s1" "s_current s1 = selected A B"
      "ready s1 cs (fst (after_tick (A, B))) (snd (after_tick (A, B)))"
    using CalculateNext_ready [OF Suc.prems] by blast
  obtain s' A' B' where 2: "run_ticks pdiff n s1
        = Inr (map (turn (fst (after_tick (A, B))) (snd (after_tick (A, B)))) [0..<n], s')"
      "ready s' cs A' B'" "set A' = set (fst (after_tick (A, B)))" "set B' = set (snd (after_tick (A, B)))"
    using Suc.IH [OF 1(3)] by blast
  have "map (turn A B) [0..<Suc n] = selected A B # map (\<lambda>i. turn A B (Suc i)) [0..<n]"
    by (simp add: upt_conv_Cons turn_selected map_Suc_upt [symmetric] del: upt_Suc)
  moreover have "set A' = set A" "set B' = set B" using 2(3,4) by (auto split: if_splits)
  moreover have "run_ticks pdiff (Suc n) s = Inr (selected A B # map (\<lambda>i. turn A B (Suc i)) [0..<n], s')"
    using 1(1,2) 2(1) unfolding turn_after_tick by (simp add: run_process_scheduler_def GetCurrentProcess_def)
  ultimately show ?case using 2(2) by metis
qed auto

text \<open>
  C8: The scheduler is round robin over one of its two lists. From a state whose queues hold the live system
  processes \<open>A\<close> and the live regular ones \<open>B\<close>, any number of ticks succeeds; tick \<open>i\<close> selects the
  system process number \<open>i\<close> modulo their number, and only when there is no system process the
  regular one number \<open>i\<close> modulo theirs; with neither it selects the null pointer. So every process
  of the list in use is selected in every stretch of as many ticks as the list is long, and while there is a system
  process no other one is ever selected: the regular ones starve.
\<close>

theorem ticks_round_robin:
  assumes "ready s cs A B"
  shows "\<exists>ps s'. run_ticks pdiff n s = Inr (ps, s') \<and> length ps = n
    \<and> (\<forall>i < n. ps ! i = (if A \<noteq> [] then A ! (i mod length A) else if B \<noteq> [] then B ! (i mod length B) else 0))
    \<and> (let used = (if A \<noteq> [] then A else B)
       in \<forall>p \<in> set used. \<forall>k. k + length used \<le> n \<longrightarrow> (\<exists>i. k \<le> i \<and> i < k + length used \<and> ps ! i = p))
    \<and> (A \<noteq> [] \<longrightarrow> set ps \<subseteq> set A)"
proof -
  obtain s' where run: "run_ticks pdiff n s = Inr (map (turn A B) [0..<n], s')"
    using run_ticks_turns [OF assms, of pdiff n] by blast
  let ?used = "if A \<noteq> [] then A else B"
  have "\<exists>i. k \<le> i \<and> i < k + length ?used \<and> map (turn A B) [0..<n] ! i = p"
    if p: "p \<in> set ?used" and k: "k + length ?used \<le> n" for p k
  proof -
    obtain i where i: "k \<le> i" "i < k + length ?used" "?used ! (i mod length ?used) = p"
      using nth_in_window [OF p] by blast
    moreover have "turn A B i = ?used ! (i mod length ?used)" using p by (auto simp: turn_def)
    ultimately show ?thesis using k by auto
  qed
  moreover have "turn A B i \<in> set A" if "A \<noteq> []" for i using that by (simp add: turn_def)
  ultimately show ?thesis
    using run by (intro exI [of _ "map (turn A B) [0..<n]"] exI [of _ s']) (auto simp: turn_def Let_def)
qed


text \<open>A machine with two processes, for the witnesses.\<close>

definition example_process :: "u32 \<Rightarrow> KernelProcess" where
  "example_process p =
     \<lparr>kp_pid = p, kp_start_time = 0, kp_slice_size = 10, kp_priority = Regular, kp_directory = 0,
      kp_stack_begin = 0, kp_heap_begin = 0, kp_data_begin = 0, kp_times_ran = 0,
      kp_registers = \<lparr>r_ds = 0, r_edi = 0, r_esi = 0, r_ebp = 0, r_esp = 0, r_ebx = 0, r_edx = 0, r_ecx = 0,
        r_eax = 0, r_int_no = 0, r_err_code = 0, r_eip = 0, r_cs = 0, r_eflags = 0, r_useresp = 0, r_ss = 0\<rparr>,
      kp_registers_set = False, kp_self_mappings = None, kp_on_end = No_Resolver, kp_input_buffer = 0, kp_input_buffer_lock = 0,
      kp_is_finished = False\<rparr>"

definition boot_sched :: sched where
  "boot_sched = ProcessScheduler_new boot_qmem [1 \<mapsto> example_process 1, 2 \<mapsto> example_process 2]"

lemma boot_sched_ready: "ready boot_sched [] [] []"
proof -
  have "sched_rep boot_sched [] [] []"
    using boot_qmem_rep by (auto simp: boot_sched_def ProcessScheduler_new_def sched_rep_def known_def)
  then show ?thesis by (rule readyI) simp_all
qed

lemma boot_sched_room: "bin_room (s_mem boot_sched) = 100"
  by (simp add: boot_sched_def ProcessScheduler_new_def boot_qmem_room)

lemma boot_sched_procs:
  "s_procs boot_sched 1 = Some (example_process 1)" "s_procs boot_sched 2 = Some (example_process 2)"
  by (simp_all add: boot_sched_def ProcessScheduler_new_def)

lemma boot_sched_one: "\<exists>s'. AddItem pdiff 1 boot_sched = Inr s' \<and> ready s' [] [] [1]"
  using AddItem_ready [OF boot_sched_ready boot_sched_procs(1), of pdiff]
  by (auto simp: boot_sched_room example_process_def alive_def)

theorem ticks_round_robin_witness:
  "\<exists>s ps s'. AddItem (\<lambda>_ _. 0) 1 boot_sched = Inr s \<and> run_ticks (\<lambda>_ _. 0) 2 s = Inr (ps, s')
    \<and> ps ! 0 = 1 \<and> ps ! 1 = 1"
proof -
  obtain s where s: "AddItem (\<lambda>_ _. 0) 1 boot_sched = Inr s" "ready s [] [] [1]"
    using boot_sched_one by blast
  obtain ps s' where "run_ticks (\<lambda>_ _. 0) 2 s = Inr (ps, s')" "\<forall>i < 2. ps ! i = 1"
    using ticks_round_robin [OF s(2), of "\<lambda>_ _. 0" 2] by auto
  with s(1) show ?thesis by auto
qed

text \<open>The calls the kernel makes on the scheduler, in any order.\<close>

datatype sched_event = Added u32 | Ended u32 | Tick

fun sched_call :: "(u32 \<Rightarrow> u32 \<Rightarrow> u32) \<Rightarrow> sched_event \<Rightarrow> sched \<Rightarrow> sched outcome" where
  "sched_call pdiff (Added p) s = AddItem pdiff p s"
| "sched_call pdiff (Ended pid) s = SignalEnd pid s"
| "sched_call pdiff Tick s = run_process_scheduler pdiff s"

inductive sched_run :: "(u32 \<Rightarrow> u32 \<Rightarrow> u32) \<Rightarrow> sched \<Rightarrow> sched_event list \<Rightarrow> sched \<Rightarrow> bool" for pdiff where
  sched_stop: "sched_run pdiff s [] s"
| sched_go: "sched_run pdiff s evs s1 \<Longrightarrow> sched_call pdiff e s1 = Inr s2 \<Longrightarrow> sched_run pdiff s (evs @ [e]) s2"

lemma AddItem_Inr:
  assumes "ready s cs A B" and "AddItem pdiff p s = Inr s'"
  shows "\<exists>A' B'. ready s' cs A' B' \<and> s_procs s' = s_procs s"
proof (cases "s_procs s p")
  case None
  then show ?thesis using assms(2) by (simp add: AddItem_def)
next
  case (Some k)
  obtain sys reg P Q where q: "queue_rep (s_mem s) (s_system s) P sys" "queue_rep (s_mem s) (s_regular s) Q reg"
    using assms(1) by (auto simp: ready_def sched_rep_def)
  have "0 < bin_room (s_mem s)"
  proof (rule ccontr)
    assume "\<not> 0 < bin_room (s_mem s)"
    then show False
      using assms(2) Some enqueue_no_room [OF q(1)] enqueue_no_room [OF q(2)]
      by (simp add: AddItem_def split: if_splits)
  qed
  then show ?thesis
    using AddItem_ready [OF assms(1) Some, of pdiff] assms(2) by auto
qed

lemma sched_call_ready:
  assumes "ready s cs A B" and "length cs < 2 ^ 30" and "sched_call pdiff e s = Inr s'"
  shows "\<exists>cs' A' B'. ready s' cs' A' B' \<and> set cs \<subseteq> set cs' \<and> length cs' \<le> Suc (length cs)
    \<and> pid_of (s_procs s') = pid_of (s_procs s)"
proof (cases e)
  case (Added p)
  then show ?thesis using AddItem_Inr [OF assms(1), of pdiff p s'] assms(3) by fastforce
next
  case (Ended pid)
  obtain s1 where s1: "SignalEnd pid s = Inr s1" "s_procs s1 = s_procs s"
      "ready s1 (cs @ [pid]) (filter (\<lambda>p. pid_of (s_procs s) p \<noteq> pid) A) (filter (\<lambda>p. pid_of (s_procs s) p \<noteq> pid) B)"
    using SignalEnd_ready [OF assms(1,2)] by blast
  then show ?thesis using Ended assms(3) by fastforce
next
  case Tick
  then show ?thesis
    using CalculateNext_ready [OF assms(1), of pdiff] assms(3) by (fastforce simp: run_process_scheduler_def)
qed

lemma sched_run_ready:
  assumes "sched_run pdiff s evs s'" and "ready s cs A B" and "length cs + length evs < 2 ^ 30"
  shows "\<exists>cs' A' B'. ready s' cs' A' B' \<and> set cs \<subseteq> set cs' \<and> length cs' \<le> length cs + length evs
    \<and> pid_of (s_procs s') = pid_of (s_procs s)"
  using assms
proof (induction rule: sched_run.induct)
  case (sched_stop s)
  then show ?case by auto
next
  case (sched_go s evs s1 e s2)
  obtain cs1 A1 B1 where 1: "ready s1 cs1 A1 B1" "set cs \<subseteq> set cs1" "length cs1 \<le> length cs + length evs"
      "pid_of (s_procs s1) = pid_of (s_procs s)"
    using sched_go.IH [OF sched_go.prems(1)] sched_go.prems(2) by auto
  then have "length cs1 < 2 ^ 30" using sched_go.prems(2) by simp
  from sched_call_ready [OF 1(1) this sched_go.hyps(2)] show ?case
    using 1(2-4) by fastforce
qed

lemma ready_members:
  assumes "ready s cs A B" and "p \<in> set A \<union> set B"
  shows "p \<noteq> 0 \<and> s_procs s p \<noteq> None \<and> pid_of (s_procs s) p \<notin> set cs"
  using assms by (auto simp: ready_def sched_rep_def known_def alive_set)

lemma selected_member: "selected A B = 0 \<or> selected A B \<in> set A \<union> set B"
  by (cases "(A, B)" rule: selected.cases) auto

text \<open>
  C18: A process whose end was signalled is never selected again: after \<^verbatim>\<open>SignalEnd\<close> and any
  further calls of the scheduler that succeed, a tick succeeds and selects the null pointer or an
  existing process with another id. At most 2^30 calls, so that the vector of ids can grow.
\<close>

theorem ended_never_selected:
  assumes "ready s cs A B" and "SignalEnd pid s = Inr s1" and "sched_run pdiff s1 evs s2"
    and "length cs + length evs + 1 < 2 ^ 30"
  shows "\<exists>s3. run_process_scheduler pdiff s2 = Inr s3
    \<and> (GetNext s3 = 0 \<or> (\<exists>k. s_procs s3 (GetNext s3) = Some k \<and> kp_pid k \<noteq> pid))"
proof -
  obtain A1 B1 where 1: "ready s1 (cs @ [pid]) A1 B1"
    using SignalEnd_ready [OF assms(1), of pid] assms(2,4) by auto
  obtain cs2 A2 B2 where 2: "ready s2 cs2 A2 B2" "pid \<in> set cs2"
    using sched_run_ready [OF assms(3) 1] assms(4) by auto
  obtain s3 where 3: "CalculateNext pdiff s2 = Inr s3" "s_current s3 = selected A2 B2"
      "ready s3 cs2 (fst (after_tick (A2, B2))) (snd (after_tick (A2, B2)))"
    using CalculateNext_ready [OF 2(1)] by blast
  have "GetNext s3 = 0 \<or> (\<exists>k. s_procs s3 (GetNext s3) = Some k \<and> kp_pid k \<noteq> pid)"
  proof (cases "GetNext s3 = 0")
    case False
    then have "GetNext s3 \<in> set A2 \<union> set B2" using selected_member [of A2 B2] 3(2) by (simp add: GetNext_def)
    then have "GetNext s3 \<in> set (fst (after_tick (A2, B2))) \<union> set (snd (after_tick (A2, B2)))"
      by (auto split: if_splits)
    from ready_members [OF 3(3) this] 2(2) show ?thesis
      by (auto simp: pid_of_def)
  qed simp
  then show ?thesis using 3(1) by (simp add: run_process_scheduler_def)
qed

theorem ended_never_selected_witness:
  "\<exists>s s1 s2. AddItem (\<lambda>_ _. 0) 1 boot_sched = Inr s \<and> SignalEnd 1 s = Inr s1
    \<and> run_process_scheduler (\<lambda>_ _. 0) s1 = Inr s2
    \<and> (GetNext s2 = 0 \<or> (\<exists>k. s_procs s2 (GetNext s2) = Some k \<and> kp_pid k \<noteq> 1))"
proof -
  obtain s where s: "AddItem (\<lambda>_ _. 0) 1 boot_sched = Inr s" "ready s [] [] [1]"
    using boot_sched_one by blast
  obtain s1 where s1: "SignalEnd 1 s = Inr s1"
    using SignalEnd_ready [OF s(2), of 1] by auto
  show ?thesis
    using s(1) s1 ended_never_selected [OF s(2) s1 sched_stop, of "\<lambda>_ _. 0"] by auto
qed

text \<open>
  C19: \<^verbatim>\<open>AddItem\<close> succeeds while a node can be had, puts a process whose id is not cancelled at
  the end of the system or the regular list by its priority, and ends in a store through null when
  no node can be had; \<^verbatim>\<open>SignalEnd\<close> records an id, which takes every process with that id, be it none, one
  or several, and no other out of both lists without touching a queue.
\<close>

theorem scheduler_bookkeeping:
  assumes "ready s cs A B" and "s_procs s p = Some k" and "kp_pid k \<notin> set cs" and "length cs < 2 ^ 30"
  shows "(if bin_room (s_mem s) = 0 then AddItem pdiff p s = Inl Null_Pointer
      else \<exists>s'. AddItem pdiff p s = Inr s' \<and>
        (if kp_priority k = System then ready s' cs (A @ [p]) B else ready s' cs A (B @ [p])))
    \<and> (\<exists>s'. SignalEnd pid s = Inr s' \<and> s_mem s' = s_mem s \<and> s_system s' = s_system s \<and> s_regular s' = s_regular s
        \<and> ready s' (cs @ [pid]) (filter (\<lambda>a. pid_of (s_procs s) a \<noteq> pid) A) (filter (\<lambda>a. pid_of (s_procs s) a \<noteq> pid) B))"
proof (intro conjI)
  have "pid_of (s_procs s) p \<notin> set cs" using assms(2,3) by (simp add: pid_of_def)
  moreover obtain sys reg P Q where q: "queue_rep (s_mem s) (s_system s) P sys" "queue_rep (s_mem s) (s_regular s) Q reg"
    using assms(1) by (auto simp: ready_def sched_rep_def)
  ultimately show "if bin_room (s_mem s) = 0 then AddItem pdiff p s = Inl Null_Pointer
      else \<exists>s'. AddItem pdiff p s = Inr s' \<and>
        (if kp_priority k = System then ready s' cs (A @ [p]) B else ready s' cs A (B @ [p]))"
    using AddItem_ready [OF assms(1,2), of pdiff] enqueue_no_room [OF q(1)] enqueue_no_room [OF q(2)] assms(2)
    by (auto simp: AddItem_def)
next
  obtain s' where "SignalEnd pid s = Inr s'"
      "ready s' (cs @ [pid]) (filter (\<lambda>a. pid_of (s_procs s) a \<noteq> pid) A) (filter (\<lambda>a. pid_of (s_procs s) a \<noteq> pid) B)"
    using SignalEnd_ready [OF assms(1,4)] by blast
  then show "\<exists>s'. SignalEnd pid s = Inr s' \<and> s_mem s' = s_mem s \<and> s_system s' = s_system s \<and> s_regular s' = s_regular s
        \<and> ready s' (cs @ [pid]) (filter (\<lambda>a. pid_of (s_procs s) a \<noteq> pid) A) (filter (\<lambda>a. pid_of (s_procs s) a \<noteq> pid) B)"
    by (auto simp: SignalEnd_def and_then_def split: sum.splits)
qed

theorem scheduler_bookkeeping_witness:
  "\<exists>s'. AddItem (\<lambda>_ _. 0) 2 boot_sched = Inr s' \<and> ready s' [] [] [2]"
  using scheduler_bookkeeping [OF boot_sched_ready boot_sched_procs(2), of "\<lambda>_ _. 0" 0]
  by (auto simp: boot_sched_room example_process_def)

end
