(* ===== verification/Libc.thy ===== *)
theory Libc
  imports Prelude
begin

text \<open>
  The string functions of the kernel's C library, \<^verbatim>\<open>libc/string/*.cpp\<close>. A pointer is the
  list of the elements from it to the end of its object, so reading or writing past the object
  is a fault. Characters are bytes; the terminator is \<open>NUL\<close>.
\<close>

abbreviation NUL :: char where "NUL \<equiv> CHR 0x00"

section \<open>Code\<close>

function memset_from :: "'a list \<Rightarrow> nat \<Rightarrow> 'a \<Rightarrow> nat \<Rightarrow> 'a list outcome" where
  "memset_from buf i value sz =
     (if i < sz then and_then (store_at buf i value) (\<lambda>buf'. memset_from buf' (Suc i) value sz)
      else Inr buf)"
  by pat_completeness auto
termination
  by (relation "measure (\<lambda>(buf, i, value, sz). sz - i)") auto

definition memset :: "'a list \<Rightarrow> 'a \<Rightarrow> u32 \<Rightarrow> 'a list outcome" where
  "memset bufptr value sz = memset_from bufptr 0 value (unat sz)"

function memcpy_from :: "'a list \<Rightarrow> 'a list \<Rightarrow> nat \<Rightarrow> nat \<Rightarrow> 'a list outcome" where
  "memcpy_from str1 str2 i n =
     (if i < n
      then and_then (load_at str2 i) (\<lambda>c.
           and_then (store_at str1 i c) (\<lambda>str1'. memcpy_from str1' str2 (Suc i) n))
      else Inr str1)"
  by pat_completeness auto
termination
  by (relation "measure (\<lambda>(str1, str2, i, n). n - i)") auto

definition memcpy :: "'a list \<Rightarrow> 'a list \<Rightarrow> u32 \<Rightarrow> 'a list outcome" where
  "memcpy str1 str2 n = memcpy_from str1 str2 0 (unat n)"

fun strlen_from :: "char list \<Rightarrow> u32 \<Rightarrow> u32 outcome" where
  "strlen_from [] len = Inl Out_Of_Bounds"
| "strlen_from (c # p) len = (if c \<noteq> NUL then strlen_from p (len + 1) else Inr len)"

definition strlen :: "char list \<Rightarrow> u32 outcome" where
  "strlen p = strlen_from p 0"

text \<open>The difference of the first unsigned bytes that differ, or of the terminators.\<close>

fun strcmp :: "char list \<Rightarrow> char list \<Rightarrow> int outcome" where
  "strcmp (c1 # s1) (c2 # s2) =
     (if c1 = NUL then Inr (of_char c1 - of_char c2)
      else if c1 = c2 then strcmp s1 s2
      else Inr (of_char c1 - of_char c2))"
| "strcmp _ _ = Inl Out_Of_Bounds"

text \<open>
  \<^verbatim>\<open>strncpy\<close> as written: \<open>pos\<close> is how far \<^verbatim>\<open>destination\<close> has moved, and the terminator is
  stored after the copied characters whatever \<^verbatim>\<open>num\<close> was. (\<^verbatim>\<open>num--\<close> is only evaluated, and so
  only decremented, when \<^verbatim>\<open>*source\<close> is not the terminator.)
\<close>

fun strncpy_from :: "char list \<Rightarrow> nat \<Rightarrow> char list \<Rightarrow> u32 \<Rightarrow> char list outcome" where
  "strncpy_from dst pos [] num = Inl Out_Of_Bounds"
| "strncpy_from dst pos (c # source) num =
     (if c \<noteq> NUL \<and> num \<noteq> 0
      then and_then (store_at dst pos c) (\<lambda>dst'. strncpy_from dst' (Suc pos) source (num - 1))
      else store_at dst pos NUL)"

definition strncpy :: "char list \<Rightarrow> char list \<Rightarrow> u32 \<Rightarrow> char list outcome" where
  "strncpy destination source num = strncpy_from destination 0 source num"

section \<open>C strings\<close>

definition cstr :: "char list \<Rightarrow> char list" where
  "cstr p = takeWhile (\<lambda>c. c \<noteq> NUL) p"

definition terminated :: "char list \<Rightarrow> bool" where
  "terminated p \<longleftrightarrow> NUL \<in> set p"

lemma cstr_simps [simp]:
  "cstr [] = []" "cstr (c # p) = (if c = NUL then [] else c # cstr p)"
  by (simp_all add: cstr_def)

lemma terminated_simps [simp]:
  "\<not> terminated []" "terminated (c # p) \<longleftrightarrow> c = NUL \<or> terminated p"
  by (auto simp: terminated_def)

lemma cstr_append_NUL [simp]: "NUL \<notin> set s \<Longrightarrow> cstr (s @ NUL # r) = s"
  by (induction s) auto

lemma NUL_notin_cstr [simp]: "NUL \<notin> set (cstr p)"
  by (auto simp: cstr_def dest: set_takeWhileD)

lemma terminated_iff: "terminated p \<longleftrightarrow> (\<exists>r. p = cstr p @ NUL # r)"
  by (induction p) auto

lemma length_cstr_less: "terminated p \<Longrightarrow> length (cstr p) < length p"
  by (induction p) auto

section \<open>Facts\<close>

declare memset_from.simps [simp del] memcpy_from.simps [simp del]

lemma memset_from_spec:
  "i \<le> sz \<Longrightarrow> memset_from buf i v sz =
     (if sz \<le> length buf \<or> i = sz then Inr (take i buf @ replicate (sz - i) v @ drop sz buf)
      else Inl Out_Of_Bounds)"
proof (induction "sz - i" arbitrary: i buf)
  case 0
  then show ?case by (subst memset_from.simps) simp
next
  case (Suc n)
  then have i: "i < sz" "sz - Suc i = n" by simp_all
  show ?case
  proof (cases "i < length buf")
    case True
    have "replicate (sz - i) v = v # replicate (sz - Suc i) v"
      using i by (simp add: Suc_diff_Suc flip: replicate_Suc)
    then show ?thesis
      using Suc.hyps(1) [of "Suc i" "buf[i := v]"] i True
      by (subst memset_from.simps) (simp add: take_Suc_update)
  next
    case False
    then show ?thesis
      using i by (subst memset_from.simps) auto
  qed
qed

lemma memset_eq:
  "memset buf v sz = (if unat sz \<le> length buf then Inr (replicate (unat sz) v @ drop (unat sz) buf)
     else Inl Out_Of_Bounds)"
  using memset_from_spec [of 0 "unat sz" buf v] by (simp add: memset_def)

lemma memcpy_from_spec:
  "i \<le> n \<Longrightarrow> memcpy_from dst src i n =
     (if n \<le> length dst \<and> n \<le> length src \<or> i = n
      then Inr (take i dst @ take (n - i) (drop i src) @ drop n dst)
      else Inl Out_Of_Bounds)"
proof (induction "n - i" arbitrary: i dst)
  case 0
  then show ?case by (subst memcpy_from.simps) simp
next
  case (Suc m)
  then have i: "i < n" "n - Suc i = m" by simp_all
  show ?case
  proof (cases "i < length dst \<and> i < length src")
    case True
    have "take (n - i) (drop i src) = src ! i # take (n - Suc i) (drop (Suc i) src)"
      using True i by (simp add: Cons_nth_drop_Suc [symmetric] take_Cons')
    then show ?thesis
      using Suc.hyps(1) [of "Suc i" "dst[i := src ! i]"] i True
      by (subst memcpy_from.simps) (simp add: take_Suc_update)
  next
    case False
    then show ?thesis
      using i by (subst memcpy_from.simps) (auto simp: load_at_def store_at_def)
  qed
qed

lemma memcpy_eq:
  "memcpy dst src n = (if unat n \<le> length dst \<and> unat n \<le> length src
     then Inr (take (unat n) src @ drop (unat n) dst)
     else if n = 0 then Inr dst else Inl Out_Of_Bounds)"
  using memcpy_from_spec [of 0 "unat n" dst src] by (auto simp: memcpy_def unat_eq_zero)

lemma strlen_from_spec:
  "strlen_from p len = (if terminated p then Inr (len + of_nat (length (cstr p))) else Inl Out_Of_Bounds)"
  by (induction p arbitrary: len) auto

lemma strlen_eq:
  "strlen p = (if terminated p then Inr (of_nat (length (cstr p))) else Inl Out_Of_Bounds)"
  by (simp add: strlen_def strlen_from_spec)

lemma strlen_append_NUL: "NUL \<notin> set s \<Longrightarrow> strlen (s @ NUL # r) = Inr (of_nat (length s))"
  by (simp add: strlen_eq terminated_def)

lemma of_char_nonneg [simp]: "0 \<le> (of_char c :: int)"
  by (simp add: of_char_def horner_sum_nonnegative)

lemma of_char_pos: "c \<noteq> NUL \<Longrightarrow> 0 < (of_char c :: int)"
proof -
  assume "c \<noteq> NUL"
  then have "(of_char c :: int) \<noteq> of_char NUL" by (simp only: of_char_eq_iff not_False_eq_True)
  moreover have "(of_char NUL :: int) = 0" by simp
  ultimately show ?thesis using of_char_nonneg [of c] by linarith
qed

definition before :: "char list \<Rightarrow> char list \<Rightarrow> bool" where
  "before s t \<longleftrightarrow> (s, t) \<in> lexord {(c, d). (of_char c :: int) < of_char d}"

lemma before_simps [simp]:
  "\<not> before s []" "before [] (d # t)"
  "before (c # s) (d # t) \<longleftrightarrow> (of_char c :: int) < of_char d \<or> c = d \<and> before s t"
  by (simp_all add: before_def)

lemma strcmp_spec:
  "terminated p \<Longrightarrow> terminated q \<Longrightarrow>
     \<exists>r. strcmp p q = Inr r \<and> (r = 0 \<longleftrightarrow> cstr p = cstr q) \<and> (r < 0 \<longleftrightarrow> before (cstr p) (cstr q))"
proof (induction p q rule: strcmp.induct)
  case (1 c1 s1 c2 s2)
  then show ?case
    using of_char_pos [of c1] of_char_pos [of c2] by auto
qed auto

lemma strncpy_from_spec:
  assumes "terminated src"
  shows "strncpy_from dst pos src num =
    (let k = min (length (cstr src)) (unat num)
     in if pos + k < length dst
        then Inr (take pos dst @ take k (cstr src) @ NUL # drop (pos + k + 1) dst)
        else Inl Out_Of_Bounds)"
  using assms
proof (induction src arbitrary: dst pos num)
  case (Cons c src)
  show ?case
  proof (cases "c \<noteq> NUL \<and> num \<noteq> 0")
    case False
    then have "min (length (cstr (c # src))) (unat num) = 0" by auto
    then show ?thesis
      using False by (auto simp: store_at_def upd_conv_take_nth_drop Let_def)
  next
    case True
    then have num: "unat num = Suc (unat (num - 1))"
      using unat_minus_no_wrap [of 1 num] by (simp add: Suc_leI unat_gt_0)
    have k: "min (length (cstr (c # src))) (unat num) = Suc (min (length (cstr src)) (unat (num - 1)))"
      using True by (simp add: num)
    show ?thesis
    proof (cases "pos < length dst")
      case True2: True
      then show ?thesis
        using True Cons k by (simp add: Let_def take_Suc_update)
    next
      case False
      then show ?thesis using True k by (simp add: Let_def)
    qed
  qed
qed simp

lemma strncpy_eq:
  assumes "terminated src"
  shows "strncpy dst src num =
    (let k = min (length (cstr src)) (unat num)
     in if k < length dst then Inr (take k (cstr src) @ NUL # drop (k + 1) dst)
        else Inl Out_Of_Bounds)"
  using strncpy_from_spec [OF assms, of dst 0 num] by (simp add: strncpy_def Let_def)

end
