(* ===== verification/KString.thy ===== *)
theory KString
  imports Libc Kmm_Props
begin

text \<open>
  The text class \<^verbatim>\<open>String\<close> of \<^verbatim>\<open>data_structures/string.hpp\<close>. Its characters are in a block
  from \<^verbatim>\<open>new char[n]\<close>. The kernel's own memory manager hands that block out, so it is as long
  as the manager makes it: nothing for 0, a slot of 64 bytes up to 64, and the rounded request
  without its header above. Only that length is modelled: the state of the manager is not passed
  through, so a string takes no slot from it and making one never fails for lack of room.
  \<open>g\<close> gives the bytes a fresh block holds.
\<close>

section \<open>Code\<close>

definition usable :: "u32 \<Rightarrow> nat" where
  "usable n = (if n \<le> FASTBIN_THRESHOLD then unat FASTBIN_THRESHOLD
               else unat (big_request n) - unat SIZEOF_BIG_CHUNK)"

definition new_chars :: "(nat \<Rightarrow> char) \<Rightarrow> u32 \<Rightarrow> char list option" where
  "new_chars g n = (if n = 0 then None else Some (map g [0 ..< usable n]))"

record kstring =
  str_data :: "char list option"
  str_size :: u32

text \<open>Reading through the data pointer.\<close>

definition data_of :: "kstring \<Rightarrow> char list outcome" where
  "data_of s = (case str_data s of None \<Rightarrow> Inl Null_Pointer | Some d \<Rightarrow> Inr d)"

definition String_sized :: "(nat \<Rightarrow> char) \<Rightarrow> u32 \<Rightarrow> kstring outcome" where
  "String_sized g init_size =
     (case new_chars g init_size of
        None \<Rightarrow> Inr \<lparr>str_data = None, str_size = init_size\<rparr>
      | Some d \<Rightarrow> and_then (memset d NUL init_size) (\<lambda>d'. Inr \<lparr>str_data = Some d', str_size = init_size\<rparr>))"

text \<open>The part the constructors share: a block for \<open>n\<close> characters, filled by \<^verbatim>\<open>strncpy\<close>.\<close>

definition store_text :: "(nat \<Rightarrow> char) \<Rightarrow> char list \<Rightarrow> u32 \<Rightarrow> kstring outcome" where
  "store_text g src n =
     (case new_chars g n of
        None \<Rightarrow> Inr \<lparr>str_data = None, str_size = n\<rparr>
      | Some d \<Rightarrow> and_then (strncpy d src n) (\<lambda>d'. Inr \<lparr>str_data = Some d', str_size = n\<rparr>))"

definition String_from :: "(nat \<Rightarrow> char) \<Rightarrow> char list \<Rightarrow> kstring outcome" where
  "String_from g data = and_then (strlen data) (\<lambda>n. store_text g data n)"

definition getLength :: "kstring \<Rightarrow> u32 outcome" where
  "getLength s = and_then (data_of s) strlen"

definition String_copy :: "(nat \<Rightarrow> char) \<Rightarrow> kstring \<Rightarrow> kstring outcome" where
  "String_copy g s = and_then (getLength s) (\<lambda>n. and_then (data_of s) (\<lambda>d. store_text g d n))"

definition String_move :: "kstring \<Rightarrow> kstring \<times> kstring" where
  "String_move s = (\<lparr>str_data = str_data s, str_size = str_size s\<rparr>, s\<lparr>str_data := None\<rparr>)"

definition String_assign_move :: "kstring \<Rightarrow> kstring \<Rightarrow> kstring \<times> kstring" where
  "String_assign_move this s = (this\<lparr>str_data := str_data s, str_size := str_size s\<rparr>, s\<lparr>str_data := None\<rparr>)"

definition String_assign :: "(nat \<Rightarrow> char) \<Rightarrow> kstring \<Rightarrow> kstring outcome" where
  "String_assign g s = and_then (getLength s) (\<lambda>n. and_then (data_of s) (\<lambda>d. store_text g d n))"

text \<open>\<^verbatim>\<open>setText\<close> does not ask whether the new block is null.\<close>

definition setText :: "(nat \<Rightarrow> char) \<Rightarrow> char list \<Rightarrow> kstring outcome" where
  "setText g src =
     and_then (strlen src) (\<lambda>n.
       case new_chars g n of
         None \<Rightarrow> Inl Null_Pointer
       | Some d \<Rightarrow> and_then (strncpy d src n) (\<lambda>d'. Inr \<lparr>str_data = Some d', str_size = n\<rparr>))"

text \<open>The copying loop of \<^verbatim>\<open>setLength\<close> and the one of \<^verbatim>\<open>add\<close>.\<close>

fun set_length_loop :: "nat \<Rightarrow> nat \<Rightarrow> char list \<Rightarrow> char list \<Rightarrow> char list outcome" where
  "set_length_loop 0 old_length old_data d = Inr d"
| "set_length_loop (Suc i) old_length old_data d =
     and_then (set_length_loop i old_length old_data d) (\<lambda>d1.
       if i < old_length then and_then (load_at old_data i) (\<lambda>c. store_at d1 i c)
       else store_at d1 i NUL)"

definition setLength :: "(nat \<Rightarrow> char) \<Rightarrow> u32 \<Rightarrow> kstring \<Rightarrow> kstring outcome" where
  "setLength g n s =
     and_then (getLength s) (\<lambda>old_length.
     and_then (data_of s) (\<lambda>old_data.
       case new_chars g n of
         None \<Rightarrow> Inl Null_Pointer
       | Some d \<Rightarrow> and_then (set_length_loop (unat n) (unat old_length) old_data d) (\<lambda>d1.
                   and_then (store_at d1 (unat n) NUL) (\<lambda>d2. Inr \<lparr>str_data = Some d2, str_size = n\<rparr>))))"

function add_loop :: "nat \<Rightarrow> nat \<Rightarrow> nat \<Rightarrow> char list \<Rightarrow> char list \<Rightarrow> char list outcome" where
  "add_loop i len new_size txt d =
     (if i < new_size
      then and_then (load_at txt (i - len)) (\<lambda>c.
           and_then (store_at d i c) (\<lambda>d'. add_loop (Suc i) len new_size txt d'))
      else Inr d)"
  by pat_completeness auto
termination
  by (relation "measure (\<lambda>(i, len, new_size, txt, d). new_size - i)") auto

declare add_loop.simps [simp del]

definition String_add :: "(nat \<Rightarrow> char) \<Rightarrow> kstring \<Rightarrow> kstring \<Rightarrow> kstring outcome" where
  "String_add g txt s =
     (let new_size = str_size s + str_size txt
      in and_then (setLength g new_size s) (\<lambda>s1.
         and_then (getLength s1) (\<lambda>len.
         and_then (data_of s1) (\<lambda>d.
         and_then (if unat len < unat new_size
                   then and_then (data_of txt) (\<lambda>t. add_loop (unat len) (unat len) (unat new_size) t d)
                   else Inr d) (\<lambda>d'. Inr (s1\<lparr>str_data := Some d'\<rparr>))))))"

definition String_get :: "u32 \<Rightarrow> kstring \<Rightarrow> char outcome" where
  "String_get pos s =
     and_then (getLength s) (\<lambda>n.
       if pos > n then Inr NUL else and_then (data_of s) (\<lambda>d. load_at d (unat pos)))"

definition String_compare :: "kstring \<Rightarrow> kstring \<Rightarrow> bool outcome" where
  "String_compare s t =
     and_then (data_of s) (\<lambda>a. and_then (data_of t) (\<lambda>b.
     and_then (strcmp a b) (\<lambda>r. Inr (r = 0))))"

section \<open>Valid strings\<close>

text \<open>A string that was constructed from a non-empty text: terminated within its block.\<close>

definition str_ok :: "kstring \<Rightarrow> bool" where
  "str_ok s \<longleftrightarrow> (\<exists>d. str_data s = Some d \<and> terminated d \<and> unat (str_size s) = length (cstr d)
     \<and> length d < 2 ^ 32)"

definition text_of :: "kstring \<Rightarrow> char list" where
  "text_of s = (case str_data s of None \<Rightarrow> [] | Some d \<Rightarrow> cstr d)"

lemma str_okE:
  assumes "str_ok s"
  obtains d where "str_data s = Some d" "terminated d" "unat (str_size s) = length (text_of s)"
    "text_of s = cstr d" "length d < 2 ^ 32"
  using assms by (auto simp: str_ok_def text_of_def)

lemma getLength_ok: "str_ok s \<Longrightarrow> getLength s = Inr (str_size s)"
  by (elim str_okE) (simp add: getLength_def data_of_def strlen_eq word_unat_eq_iff unat_of_nat_no_wrap length_cstr_less
      order_less_trans [OF length_cstr_less])

lemma usable_small: "n \<le> 64 \<Longrightarrow> usable n = 64"
  by (simp add: usable_def FASTBIN_THRESHOLD_def)

lemma usable_bounds:
  assumes "unat n + 20 < 2 ^ 32"
  shows "unat n \<le> usable n" and "usable n \<le> unat n + 64"
    and "usable n = unat n \<longleftrightarrow> n = 64 \<or> 64 < n \<and> unat n mod 8 = 3"
proof -
  have *: "usable n = round_up (unat n + 13) 8 - 13" if "64 < n"
    using that big_request_bounds(1) [OF assms]
    by (simp add: usable_def FASTBIN_THRESHOLD_def SIZEOF_BIG_CHUNK_def not_le)
  have up: "unat n + 13 \<le> round_up (unat n + 13) 8" "round_up (unat n + 13) 8 < unat n + 13 + 8" "8 dvd round_up (unat n + 13) 8"
    using round_up_ge [of 8 "unat n + 13"] round_up_less [of 8 "unat n + 13"] round_up_dvd [of 8 "unat n + 13"]
    by simp_all
  have exact: "round_up (unat n + 13) 8 = unat n + 13 \<longleftrightarrow> unat n mod 8 = 3"
  proof
    assume "round_up (unat n + 13) 8 = unat n + 13"
    then have "(unat n + 13) mod 8 = 0" using up(3) by simp
    then show "unat n mod 8 = 3" by presburger
  next
    assume "unat n mod 8 = 3"
    then have "(unat n + 13) mod 8 = 0" by presburger
    then show "round_up (unat n + 13) 8 = unat n + 13" by (simp add: round_up_multiple)
  qed
  show "unat n \<le> usable n" and "usable n \<le> unat n + 64"
    and "usable n = unat n \<longleftrightarrow> n = 64 \<or> 64 < n \<and> unat n mod 8 = 3"
    using * up exact usable_small [of n]
    by (cases "n \<le> 64"; force simp: word_le_nat_alt word_less_nat_alt word_unat_eq_iff)+
qed

lemma store_text_eq:
  assumes "terminated src" and "n \<noteq> 0" and "unat n = length (cstr src)" and "unat n + 20 < 2 ^ 32"
  shows "store_text g src n =
    (if n = 64 \<or> 64 < n \<and> unat n mod 8 = 3 then Inl Out_Of_Bounds
     else Inr \<lparr>str_data = Some (cstr src @ NUL # map g [unat n + 1 ..< usable n]), str_size = n\<rparr>)"
proof -
  have len: "length (map g [0 ..< usable n]) = usable n" by simp
  have fits: "unat n < usable n \<longleftrightarrow> \<not> (n = 64 \<or> 64 < n \<and> unat n mod 8 = 3)"
    using usable_bounds [OF assms(4)] by linarith
  have "strncpy (map g [0 ..< usable n]) src n =
      (if unat n < usable n then Inr (cstr src @ NUL # map g [unat n + 1 ..< usable n]) else Inl Out_Of_Bounds)"
    using assms(1,3) by (simp add: strncpy_eq drop_map)
  then show ?thesis
    using assms(2) fits by (simp add: store_text_def new_chars_def)
qed

lemma store_text_ok:
  assumes "terminated src" and "n \<noteq> 0" and "unat n = length (cstr src)" and "unat n + 200 < 2 ^ 32"
    and "\<not> (n = 64 \<or> 64 < n \<and> unat n mod 8 = 3)"
  shows "\<exists>s. store_text g src n = Inr s \<and> str_ok s \<and> text_of s = cstr src \<and> str_size s = n"
proof -
  have b: "usable n \<le> unat n + 64" "unat n < usable n"
    using usable_bounds [of n] assms(4,5) by (auto simp: le_less)
  have eq: "store_text g src n = Inr \<lparr>str_data = Some (cstr src @ NUL # map g [unat n + 1 ..< usable n]), str_size = n\<rparr>"
    using store_text_eq [OF assms(1-3)] assms(4,5) by simp
  show ?thesis
    using assms(3,4) b
    by (intro exI [of _ "\<lparr>str_data = Some (cstr src @ NUL # map g [unat n + 1 ..< usable n]), str_size = n\<rparr>"])
      (simp add: eq str_ok_def text_of_def terminated_def)
qed

lemma String_compare_ok:
  assumes "str_ok s" and "str_ok t"
  shows "String_compare s t = Inr (text_of s = text_of t)"
proof -
  obtain a b where a: "str_data s = Some a" "terminated a" "text_of s = cstr a"
      and b: "str_data t = Some b" "terminated b" "text_of t = cstr b"
    using assms by (metis str_okE)
  obtain r where "strcmp a b = Inr r" "r = 0 \<longleftrightarrow> cstr a = cstr b"
    using strcmp_spec [OF a(2) b(2)] by blast
  then show ?thesis
    using a b by (simp add: String_compare_def data_of_def)
qed

lemma set_length_loop_eq:
  assumes "old_length \<le> length old_data" and "n \<le> length d"
  shows "set_length_loop n old_length old_data d =
    Inr (take (min n old_length) old_data @ replicate (n - old_length) NUL @ drop n d)"
  using assms
proof (induction n)
  case (Suc i)
  then have IH: "set_length_loop i old_length old_data d =
      Inr (take (min i old_length) old_data @ replicate (i - old_length) NUL @ drop i d)" by simp
  have drop: "drop i d = d ! i # drop (Suc i) d" using Suc.prems(2) by (simp add: Cons_nth_drop_Suc)
  show ?case
  proof (cases "i < old_length")
    case True
    then show ?thesis
      using Suc.prems IH by (simp add: drop take_Suc_conv_app_nth list_update_append)
  next
    case False
    define pre where "pre = take (min i old_length) old_data @ replicate (i - old_length) NUL"
    have len: "length pre = i" using False Suc.prems(1) by (simp add: pre_def)
    have "set_length_loop (Suc i) old_length old_data d = store_at (pre @ d ! i # drop (Suc i) d) i NUL"
      using False IH by (simp add: pre_def drop)
    also have "\<dots> = Inr ((pre @ d ! i # drop (Suc i) d)[length pre := NUL])"
      using len by simp
    also have "\<dots> = Inr (pre @ NUL # drop (Suc i) d)"
      by (simp only: list_update_length)
    also have "pre @ NUL # drop (Suc i) d = take (min (Suc i) old_length) old_data
        @ replicate (Suc i - old_length) NUL @ drop (Suc i) d"
      using False by (simp add: pre_def Suc_diff_le not_less min_def replicate_app_Cons_same)
    finally show ?thesis .
  qed
qed simp

lemma add_loop_eq:
  assumes "len \<le> i" and "i \<le> new_size" and "new_size \<le> length d" and "new_size - len \<le> length txt"
  shows "add_loop i len new_size txt d =
    Inr (take i d @ take (new_size - i) (drop (i - len) txt) @ drop new_size d)"
  using assms
proof (induction "new_size - i" arbitrary: i d)
  case 0
  then show ?case by (subst add_loop.simps) simp
next
  case (Suc m)
  then have i: "i < new_size" by simp
  have "i - len < length txt" using i Suc.prems by simp
  then have "take (new_size - i) (drop (i - len) txt) = txt ! (i - len) # take (new_size - Suc i) (drop (Suc i - len) txt)"
    using i Suc.prems(1) by (simp add: Cons_nth_drop_Suc [symmetric] take_Cons' Suc_diff_le)
  then show ?case
    using Suc.hyps(1) [of "Suc i" "d[i := txt ! (i - len)]"] Suc.hyps(2) Suc.prems i \<open>i - len < length txt\<close>
    by (subst add_loop.simps) (simp add: take_Suc_update)
qed

lemma String_from_cases:
  assumes "terminated src" and "length src + 200 < 2 ^ 32"
  shows "if cstr src = [] then \<exists>s. String_from g src = Inr s \<and> str_data s = None
    else if length (cstr src) = 64 \<or> 64 < length (cstr src) \<and> length (cstr src) mod 8 = 3
    then String_from g src = Inl Out_Of_Bounds
    else \<exists>s. String_from g src = Inr s \<and> str_ok s \<and> text_of s = cstr src
      \<and> str_size s = of_nat (length (cstr src))"
proof -
  define n where "n = (of_nat (length (cstr src)) :: u32)"
  have n: "unat n = length (cstr src)"
    using length_cstr_less [OF assms(1)] assms(2) by (simp add: n_def unat_of_nat_no_wrap)
  have from_eq: "String_from g src = store_text g src n"
    using assms(1) by (simp add: String_from_def strlen_eq n_def)
  have special: "n = 64 \<or> 64 < n \<and> unat n mod 8 = 3 \<longleftrightarrow> length (cstr src) = 64 \<or> 64 < length (cstr src) \<and> length (cstr src) mod 8 = 3"
    by (simp add: word_unat_eq_iff word_less_nat_alt n)
  have small: "unat n + 200 < 2 ^ 32" using length_cstr_less [OF assms(1)] assms(2) n by simp
  show ?thesis
  proof (cases "cstr src = []")
    case True
    then have "n = 0" by (simp add: n_def)
    then show ?thesis
      using True by (simp add: from_eq store_text_def new_chars_def)
  next
    case False
    then have "n \<noteq> 0" using n by auto
    show ?thesis
    proof (cases "n = 64 \<or> 64 < n \<and> unat n mod 8 = 3")
      case True
      then show ?thesis
        using False special store_text_eq [OF assms(1) \<open>n \<noteq> 0\<close> n] small by (simp add: from_eq)
    next
      case ok: False
      obtain s where "store_text g src n = Inr s" "str_ok s" "text_of s = cstr src" "str_size s = n"
        using store_text_ok [OF assms(1) \<open>n \<noteq> 0\<close> n small ok] by blast
      then show ?thesis
        using False ok special by (auto simp: from_eq n_def)
    qed
  qed
qed

lemma String_from_ok:
  assumes "terminated src" and "length src + 200 < 2 ^ 32" and "cstr src \<noteq> []"
    and "\<not> (length (cstr src) = 64 \<or> 64 < length (cstr src) \<and> length (cstr src) mod 8 = 3)"
  shows "\<exists>s. String_from g src = Inr s \<and> str_ok s \<and> text_of s = cstr src"
  using String_from_cases [OF assms(1,2), of g] assms(3,4) by auto

lemma String_copy_ok:
  assumes "str_ok s" and "text_of s \<noteq> []" and "length (text_of s) < 64"
  shows "\<exists>s'. String_copy g s = Inr s' \<and> str_ok s' \<and> text_of s' = text_of s"
    and "\<exists>s'. String_assign g s = Inr s' \<and> str_ok s' \<and> text_of s' = text_of s"
proof -
  obtain d where d: "str_data s = Some d" "terminated d" "unat (str_size s) = length (text_of s)" "text_of s = cstr d"
    using assms(1) by (elim str_okE)
  have "str_size s \<noteq> 0" "unat (str_size s) < 64" using assms(2,3) d(3) by auto
  moreover have "str_size s \<noteq> 64" "\<not> 64 < str_size s" using calculation(2) by (auto simp: word_less_nat_alt)
  ultimately obtain s' where s': "store_text g d (str_size s) = Inr s'" "str_ok s'" "text_of s' = text_of s"
    using store_text_ok [of d "str_size s" g] d by auto
  have "String_copy g s = Inr s'" "String_assign g s = Inr s'"
    using s'(1) d(1) getLength_ok [OF assms(1)] by (simp_all add: String_copy_def String_assign_def data_of_def)
  then show "\<exists>s'. String_copy g s = Inr s' \<and> str_ok s' \<and> text_of s' = text_of s"
    and "\<exists>s'. String_assign g s = Inr s' \<and> str_ok s' \<and> text_of s' = text_of s"
    using s'(2,3) by blast+
qed

section \<open>Properties\<close>

text \<open>
  Constructing a \<^verbatim>\<open>String\<close> from a non-empty C string copies its text, except for the
  lengths where the memory manager returns no byte to spare (64, and from 65 on those of
  remainder 3 by 8): there the terminator that \<^verbatim>\<open>strncpy\<close> adds is stored past the block. An
  empty C string gives a null pointer, whose length cannot be taken.
\<close>

theorem String_from_correct:
  assumes "terminated src" and "length src + 200 < 2 ^ 32"
  shows "if cstr src = [] then \<exists>s. String_from g src = Inr s \<and> getLength s = Inl Null_Pointer
    else if length (cstr src) = 64 \<or> 64 < length (cstr src) \<and> length (cstr src) mod 8 = 3
    then String_from g src = Inl Out_Of_Bounds
    else \<exists>s. String_from g src = Inr s \<and> str_ok s \<and> text_of s = cstr src
      \<and> getLength s = Inr (of_nat (length (cstr src)))"
  using String_from_cases [OF assms, of g] getLength_ok
  by (auto simp: getLength_def data_of_def split: if_splits)

theorem String_from_correct_witness:
  "\<exists>s. String_from (\<lambda>_. CHR ''?'') (''shell'' @ [NUL]) = Inr s \<and> text_of s = ''shell''"
  using String_from_correct [of "''shell'' @ [NUL]" "\<lambda>_. CHR ''?''"] by auto

text \<open>
  C33: \<^verbatim>\<open>compare\<close> on strings made of two texts returns whether the texts are equal, whatever
  lies in their blocks behind the terminators. A text that is empty makes a string without data, whose null pointer
  is dereferenced, and one of 64 characters, or of more with remainder 3 by 8, is not made at all: it is
  copied past its block.
\<close>

theorem String_compare_correct:
  assumes "terminated p" and "terminated q" and "length p + 200 < 2 ^ 32" and "length q + 200 < 2 ^ 32"
  shows "(let past = (\<lambda>x. length (cstr x) = 64 \<or> 64 < length (cstr x) \<and> length (cstr x) mod 8 = 3)
    in (past p \<longrightarrow> String_from g p = Inl Out_Of_Bounds)
      \<and> (\<not> past p \<and> \<not> past q \<longrightarrow> (\<exists>s t. String_from g p = Inr s \<and> String_from h q = Inr t
          \<and> String_compare s t = (if cstr p = [] \<or> cstr q = [] then Inl Null_Pointer else Inr (cstr p = cstr q)))))"
proof -
  let ?past = "\<lambda>x. length (cstr x) = 64 \<or> 64 < length (cstr x) \<and> length (cstr x) mod 8 = 3"
  have made: "\<exists>s. String_from g x = Inr s \<and> (if cstr x = [] then str_data s = None else str_ok s \<and> text_of s = cstr x)"
    if "terminated x" "length x + 200 < 2 ^ 32" "\<not> ?past x" for g x
    using String_from_cases [OF that(1,2), of g] that(3) by (auto split: if_splits)
  have "String_from g p = Inl Out_Of_Bounds" if "?past p"
    using String_from_cases [OF assms(1,3), of g] that by (auto split: if_splits)
  moreover have "\<exists>s t. String_from g p = Inr s \<and> String_from h q = Inr t
      \<and> String_compare s t = (if cstr p = [] \<or> cstr q = [] then Inl Null_Pointer else Inr (cstr p = cstr q))"
    if short: "\<not> ?past p" "\<not> ?past q"
  proof -
    obtain s where s: "String_from g p = Inr s" "if cstr p = [] then str_data s = None else str_ok s \<and> text_of s = cstr p"
      using made [OF assms(1,3) short(1)] by blast
    obtain t where t: "String_from h q = Inr t" "if cstr q = [] then str_data t = None else str_ok t \<and> text_of t = cstr q"
      using made [OF assms(2,4) short(2)] by blast
    have "String_compare s t = (if cstr p = [] \<or> cstr q = [] then Inl Null_Pointer else Inr (cstr p = cstr q))"
    proof (cases "cstr p = [] \<or> cstr q = []")
      case True
      then show ?thesis
        using s(2) t(2) by (auto simp: String_compare_def data_of_def elim!: str_okE split: if_splits)
    next
      case False
      then show ?thesis using s(2) t(2) String_compare_ok by auto
    qed
    then show ?thesis using s(1) t(1) by blast
  qed
  ultimately show ?thesis by (simp add: Let_def)
qed

theorem String_compare_correct_witness:
  "\<exists>s t. String_from (\<lambda>_. CHR ''?'') (''END'' @ [NUL]) = Inr s \<and> String_from (\<lambda>_. NUL) (''START'' @ [NUL]) = Inr t
    \<and> String_compare s t = Inr False"
  using String_compare_correct [of "''END'' @ [NUL]" "''START'' @ [NUL]" "\<lambda>_. CHR ''?''" "\<lambda>_. NUL"] by auto

text \<open>
  \<^verbatim>\<open>add\<close> appends the text of the argument, when the block for the new length has a byte to
  spare for the terminator that \<^verbatim>\<open>setLength\<close> stores behind it.
\<close>

theorem String_add_correct:
  assumes "str_ok s" and "str_ok t" and "length (text_of s) + length (text_of t) + 200 < 2 ^ 32"
    and "text_of s @ text_of t \<noteq> []"
    and "\<not> (length (text_of s @ text_of t) = 64
           \<or> 64 < length (text_of s @ text_of t) \<and> length (text_of s @ text_of t) mod 8 = 3)"
  shows "\<exists>r. String_add g t s = Inr r \<and> str_ok r \<and> text_of r = text_of s @ text_of t"
proof -
  obtain a where a: "str_data s = Some a" "terminated a" "unat (str_size s) = length (text_of s)" "text_of s = cstr a"
    using assms(1) by (metis str_okE)
  obtain b where b: "str_data t = Some b" "terminated b" "unat (str_size t) = length (text_of t)" "text_of t = cstr b"
    using assms(2) by (metis str_okE)
  define n where "n = str_size s + str_size t"
  have n: "unat n = length (text_of s) + length (text_of t)"
    using a(3) b(3) assms(3) unat_plus_no_wrap [of "str_size s" "str_size t"] by (simp add: n_def)
  have "n \<noteq> 0" using n assms(4) by auto
  have special: "\<not> (n = 64 \<or> 64 < n \<and> unat n mod 8 = 3)"
    using assms(5) by (simp add: word_unat_eq_iff word_less_nat_alt n)
  have lim: "unat n + 20 < 2 ^ 32" using n assms(3) by simp
  have use: "unat n < usable n" "usable n \<le> unat n + 64"
    using usable_bounds [OF lim] special by linarith+
  define d2 where "d2 = cstr a @ replicate (length (cstr b)) NUL @ NUL # map g [unat n + 1 ..< usable n]"
  have "set_length_loop (unat n) (unat (str_size s)) a (map g [0 ..< usable n]) =
      Inr (take (min (unat n) (unat (str_size s))) a @ replicate (unat n - unat (str_size s)) NUL
        @ drop (unat n) (map g [0 ..< usable n]))"
    using use length_cstr_less [OF a(2)] a(3,4) by (intro set_length_loop_eq) simp_all
  moreover have "take (length (cstr a)) a = cstr a"
    by (metis a(2) append_eq_conv_conj terminated_iff)
  ultimately have loop: "set_length_loop (unat n) (unat (str_size s)) a (map g [0 ..< usable n]) =
      Inr (cstr a @ replicate (length (cstr b)) NUL @ drop (unat n) (map g [0 ..< usable n]))"
    using n a(3,4) b(4) by simp
  have "drop (unat n) (map g [0 ..< usable n]) = map g [unat n ..< usable n]"
    by (simp only: drop_map drop_upt add_0)
  then have dropn: "drop (unat n) (map g [0 ..< usable n]) = g (unat n) # map g [unat n + 1 ..< usable n]"
    by (simp only: upt_conv_Cons [OF use(1)] list.map Suc_eq_plus1)
  let ?pad = "cstr a @ replicate (length (cstr b)) NUL"
  have pad: "length ?pad = unat n" using n a(4) b(4) by simp
  have "store_at (?pad @ g (unat n) # map g [unat n + 1 ..< usable n]) (unat n) NUL = Inr d2"
    using list_update_length [of ?pad "g (unat n)" "map g [unat n + 1 ..< usable n]" NUL] pad
    by (simp add: store_at_def d2_def del: upt_Suc)
  then have set: "setLength g n s = Inr \<lparr>str_data = Some d2, str_size = n\<rparr>"
    using \<open>n \<noteq> 0\<close> loop a(1)
    by (simp add: setLength_def getLength_ok [OF assms(1)] data_of_def new_chars_def dropn del: upt_Suc)
  have "d2 = cstr a @ NUL # (replicate (length (cstr b)) NUL @ map g [unat n + 1 ..< usable n])"
    by (simp add: d2_def replicate_app_Cons_same del: upt_Suc)
  then have d2: "cstr d2 = cstr a" "terminated d2"
    by (simp_all add: terminated_def del: upt_Suc)
  have bb: "take (length (cstr b)) b = cstr b" "length (cstr b) \<le> length b"
    using length_cstr_less [OF b(2)] by (metis b(2) append_eq_conv_conj terminated_iff, simp)
  define d3 where "d3 = cstr a @ cstr b @ NUL # map g [unat n + 1 ..< usable n]"
  have fill: "add_loop (length (cstr a)) (length (cstr a)) (unat n) b d2 = Inr d3"
    using bb n a(4) b(4)
    by (subst add_loop_eq) (simp_all add: d2_def d3_def del: upt_Suc)
  have len: "unat (of_nat (length (cstr a)) :: u32) = length (cstr a)"
    using n a(4) assms(3) by (intro unat_of_nat_no_wrap) simp
  have "String_add g t s = Inr \<lparr>str_data = Some d3, str_size = n\<rparr>"
  proof (cases "cstr b = []")
    case True
    have "String_add g t s = Inr \<lparr>str_data = Some d2, str_size = n\<rparr>"
      using True n a(4) b(4) len
      by (simp add: String_add_def set getLength_def data_of_def strlen_eq d2 flip: n_def)
    moreover have "d2 = d3" using True by (simp add: d2_def d3_def)
    ultimately show ?thesis by simp
  next
    case False
    then show ?thesis
      using n a(4) b(1,4) len fill
      by (simp add: String_add_def set getLength_def data_of_def strlen_eq d2 flip: n_def)
  qed
  moreover have "cstr d3 = text_of s @ text_of t" "terminated d3" "length d3 < 2 ^ 32"
    using use assms(3) n a(4) b(4) by (simp_all add: d3_def cstr_append_NUL [of "cstr a @ cstr b", simplified] terminated_def del: upt_Suc)
  ultimately show ?thesis
    using n by (auto simp: str_ok_def text_of_def)
qed

theorem String_add_correct_witness:
  "\<exists>s t r. String_from (\<lambda>_. NUL) (''ab'' @ [NUL]) = Inr s \<and> String_from (\<lambda>_. NUL) (''cd'' @ [NUL]) = Inr t
    \<and> String_add (\<lambda>_. CHR ''?'') t s = Inr r \<and> text_of r = ''abcd''"
proof -
  obtain s where s: "String_from (\<lambda>_. NUL) (''ab'' @ [NUL]) = Inr s" "str_ok s" "text_of s = ''ab''"
    using String_from_ok [of "''ab'' @ [NUL]" "\<lambda>_. NUL"] by auto
  obtain t where t: "String_from (\<lambda>_. NUL) (''cd'' @ [NUL]) = Inr t" "str_ok t" "text_of t = ''cd''"
    using String_from_ok [of "''cd'' @ [NUL]" "\<lambda>_. NUL"] by auto
  show ?thesis
    using String_add_correct [OF s(2) t(2), of "\<lambda>_. CHR ''?''"] s t by auto
qed

end
