(* ===== verification/Frames.thy ===== *)
theory Frames
  imports Kheap
begin

text \<open>
  The physical frame table of \<^verbatim>\<open>frame_table.cpp\<close>: an array of one-byte flags, scanned
  from index 0 for the first free frame. The array is not bounds-checked in the source;
  an index past it is a fault here.
\<close>

section \<open>Code\<close>

record FrameTable =
  ft_frames :: "bool list"
  ft_length :: u32

record FrameTableResult =
  ftr_idx :: u32
  ftr_error :: bool

text \<open>The constructor takes its array from the primitive heap, whose new top it returns.\<close>

definition FrameTable_new :: "u32 \<Rightarrow> u32 \<Rightarrow> FrameTable \<times> u32" where
  "FrameTable_new len heap =
     (\<lparr>ft_frames = replicate (unat len) False, ft_length = len\<rparr>, snd (Allocate len True heap))"

function FindFirst_from :: "FrameTable \<Rightarrow> nat \<Rightarrow> FrameTableResult outcome" where
  "FindFirst_from ft i =
     (if i < unat (ft_length ft)
      then (case load_at (ft_frames ft) i of
              Inl e \<Rightarrow> Inl e
            | Inr taken \<Rightarrow>
                if \<not> taken then Inr \<lparr>ftr_idx = of_nat i, ftr_error = False\<rparr>
                else FindFirst_from ft (Suc i))
      else Inr \<lparr>ftr_idx = 0, ftr_error = True\<rparr>)"
  by pat_completeness auto
termination
  by (relation "measure (\<lambda>(ft, i). unat (ft_length ft) - i)") auto

declare FindFirst_from.simps [simp del]

definition FindFirst :: "FrameTable \<Rightarrow> FrameTableResult outcome" where
  "FindFirst ft = FindFirst_from ft 0"

definition SetAtIndex :: "FrameTable \<Rightarrow> u32 \<Rightarrow> FrameTable outcome" where
  "SetAtIndex ft idx =
     and_then (store_at (ft_frames ft) (unat idx) True) (\<lambda>fs. Inr (ft\<lparr>ft_frames := fs\<rparr>))"

definition FreeAtIndex :: "FrameTable \<Rightarrow> u32 \<Rightarrow> FrameTable outcome" where
  "FreeAtIndex ft idx =
     and_then (store_at (ft_frames ft) (unat idx) False) (\<lambda>fs. Inr (ft\<lparr>ft_frames := fs\<rparr>))"

definition SetAtAddress :: "FrameTable \<Rightarrow> u32 \<Rightarrow> FrameTable outcome" where
  "SetAtAddress ft addr =
     and_then (store_at (ft_frames ft) (unat (addr div PAGE_SIZE)) True)
       (\<lambda>fs. Inr (ft\<lparr>ft_frames := fs\<rparr>))"

section \<open>Abstraction: the set of taken frames\<close>

definition taken :: "FrameTable \<Rightarrow> nat set" where
  "taken ft = {i. i < length (ft_frames ft) \<and> ft_frames ft ! i}"

definition ft_wf :: "FrameTable \<Rightarrow> bool" where
  "ft_wf ft \<longleftrightarrow> length (ft_frames ft) = unat (ft_length ft)"

definition free_frames :: "FrameTable \<Rightarrow> nat" where
  "free_frames ft = length (filter Not (ft_frames ft))"

lemma ft_wf_new: "ft_wf (fst (FrameTable_new len heap))"
  and taken_new: "taken (fst (FrameTable_new len heap)) = {}"
  by (auto simp: FrameTable_new_def ft_wf_def taken_def)

text \<open>
  A scan from \<open>i\<close> that returns either reports that every frame from \<open>i\<close> on is
  taken, or the first free one.
\<close>

definition scan_result :: "FrameTable \<Rightarrow> nat \<Rightarrow> FrameTableResult \<Rightarrow> bool" where
  "scan_result ft i res \<longleftrightarrow>
     (if ftr_error res then {i ..< unat (ft_length ft)} \<subseteq> taken ft
      else (\<exists>k. ftr_idx res = of_nat k \<and> i \<le> k \<and> k < unat (ft_length ft) \<and> k \<notin> taken ft
              \<and> {i ..< k} \<subseteq> taken ft))"

lemma scan_result_Suc:
  assumes "scan_result ft (Suc i) res" and "i \<in> taken ft"
  shows "scan_result ft i res"
proof -
  have *: "{i ..< n} \<subseteq> insert i {Suc i ..< n}" for n by auto
  show ?thesis
    using assms * unfolding scan_result_def by (auto split: if_splits) (use Suc_leD in blast)+
qed

lemma FindFirst_from_scan:
  assumes "ft_wf ft"
  shows "\<exists>res. FindFirst_from ft i = Inr res \<and> scan_result ft i res"
  using assms
proof (induction ft i rule: FindFirst_from.induct)
  case (1 ft i)
  show ?case
  proof (cases "i < unat (ft_length ft)")
    case False
    then show ?thesis by (simp add: FindFirst_from.simps [of ft i] scan_result_def)
  next
    case True
    then have ld: "load_at (ft_frames ft) i = Inr (ft_frames ft ! i)"
      using "1.prems" by (simp add: ft_wf_def)
    show ?thesis
    proof (cases "ft_frames ft ! i")
      case False
      then have "scan_result ft i \<lparr>ftr_idx = of_nat i, ftr_error = False\<rparr>"
        using True by (auto simp: scan_result_def taken_def intro!: exI [of _ i])
      with False True ld show ?thesis
        by (simp add: FindFirst_from.simps [of ft i])
    next
      case taken: True
      then obtain res where "FindFirst_from ft (Suc i) = Inr res" "scan_result ft (Suc i) res"
        using "1.IH" [OF True ld] "1.prems" by blast
      moreover have "i \<in> taken ft"
        using taken True "1.prems" by (simp add: taken_def ft_wf_def)
      ultimately show ?thesis
        using True ld taken by (simp add: FindFirst_from.simps [of ft i] scan_result_Suc)
    qed
  qed
qed

lemma FindFirst_scan:
  assumes "ft_wf ft"
  obtains res where "FindFirst ft = Inr res" and "scan_result ft 0 res"
  using FindFirst_from_scan [OF assms, of 0] by (auto simp: FindFirst_def)

lemma FindFirst_Some:
  assumes "ft_wf ft" and "FindFirst ft = Inr res" and "\<not> ftr_error res"
  shows "unat (ftr_idx res) < unat (ft_length ft)" and "unat (ftr_idx res) \<notin> taken ft"
    and "{..< unat (ftr_idx res)} \<subseteq> taken ft"
proof -
  obtain k where k: "ftr_idx res = of_nat k" "k < unat (ft_length ft)" "k \<notin> taken ft"
      "{0 ..< k} \<subseteq> taken ft"
    using FindFirst_scan [OF assms(1)] assms(2,3) by (auto simp: scan_result_def)
  then have "unat (ftr_idx res) = k"
    by (simp add: unat_of_nat_below)
  with k show "unat (ftr_idx res) < unat (ft_length ft)" and "unat (ftr_idx res) \<notin> taken ft"
    and "{..< unat (ftr_idx res)} \<subseteq> taken ft"
    by (simp_all add: lessThan_atLeast0)
qed

text \<open>The scan is exactly the least free index of the table.\<close>

lemma FindFirst_iff:
  assumes "ft_wf ft" and "k < unat (ft_length ft)"
  shows "FindFirst ft = Inr \<lparr>ftr_idx = of_nat k, ftr_error = False\<rparr>
           \<longleftrightarrow> k \<notin> taken ft \<and> {..< k} \<subseteq> taken ft"
    (is "?find \<longleftrightarrow> ?least")
proof -
  have idx: "unat (of_nat k :: u32) = k"
    using assms(2) by (rule unat_of_nat_below)
  obtain res where res: "FindFirst ft = Inr res" "scan_result ft 0 res"
    using FindFirst_scan [OF assms(1)] .
  show ?thesis
  proof
    assume ?find
    then show ?least
      using FindFirst_Some [OF assms(1), of "\<lparr>ftr_idx = of_nat k, ftr_error = False\<rparr>"] idx by simp
  next
    assume least: ?least
    then have ne: "\<not> ftr_error res"
      using res(2) assms(2) by (auto simp: scan_result_def subset_iff)
    then have "unat (ftr_idx res) = k"
      using FindFirst_Some [OF assms(1) res(1)] least by (metis lessThan_iff linorder_neqE_nat subsetD)
    then have "ftr_idx res = of_nat k" by (metis of_nat_unat_id)
    with res(1) ne show ?find by (cases res) simp
  qed
qed

lemma FindFirst_error_iff:
  assumes "ft_wf ft"
  shows "FindFirst ft = Inr \<lparr>ftr_idx = 0, ftr_error = True\<rparr> \<longleftrightarrow> {..< unat (ft_length ft)} \<subseteq> taken ft"
proof -
  have zero: "FindFirst_from ft i = Inr res \<Longrightarrow> ftr_error res \<Longrightarrow> ftr_idx res = 0" for i res
    by (induction ft i rule: FindFirst_from.induct)
      (subst (asm) (2) FindFirst_from.simps, auto split: if_splits sum.splits)
  obtain res where res: "FindFirst ft = Inr res" "scan_result ft 0 res"
    using FindFirst_scan [OF assms] .
  have "ftr_error res \<longleftrightarrow> {..< unat (ft_length ft)} \<subseteq> taken ft"
    using res(2) by (auto simp: scan_result_def lessThan_atLeast0 split: if_splits)
  with res(1) zero [of 0 res] show ?thesis
    by (cases res) (auto simp: FindFirst_def)
qed

section \<open>Marking and releasing\<close>

lemma SetAtIndex_in:
  assumes "ft_wf ft" and "unat idx < unat (ft_length ft)"
  obtains ft' where "SetAtIndex ft idx = Inr ft'" and "ft_wf ft'"
    and "taken ft' = insert (unat idx) (taken ft)" and "ft_length ft' = ft_length ft"
  using assms that
  by (force simp: SetAtIndex_def ft_wf_def taken_def nth_list_update)

lemma FreeAtIndex_in:
  assumes "ft_wf ft" and "unat idx < unat (ft_length ft)"
  obtains ft' where "FreeAtIndex ft idx = Inr ft'" and "ft_wf ft'"
    and "taken ft' = taken ft - {unat idx}" and "ft_length ft' = ft_length ft"
  using assms that
  by (force simp: FreeAtIndex_def ft_wf_def taken_def nth_list_update split: if_splits)

lemma free_frames_marks:
  assumes "FindFirst ft = Inr res" and "\<not> ftr_error res" and "SetAtIndex ft (ftr_idx res) = Inr ft'"
  shows "free_frames ft' < free_frames ft"
proof -
  have free: "FindFirst_from ft i = Inr r \<Longrightarrow> \<not> ftr_error r \<Longrightarrow>
      \<exists>k. ftr_idx r = of_nat k \<and> k < 2 ^ 32 \<and> k < length (ft_frames ft) \<and> \<not> ft_frames ft ! k" for i r
  proof (induction ft i rule: FindFirst_from.induct)
    case (1 ft i)
    then show ?case
      using unat_u32_less [of "ft_length ft"]
      by (subst (asm) (2) FindFirst_from.simps)
        (auto simp: load_at_Inr_iff split: if_splits sum.splits intro!: exI [of _ i])
  qed
  then obtain k where k: "ftr_idx res = of_nat k" "k < 2 ^ 32" "k < length (ft_frames ft)"
      "\<not> ft_frames ft ! k"
    using assms(1,2) by (auto simp: FindFirst_def)
  then have ft': "ft_frames ft' = (ft_frames ft)[k := True]"
    using assms(3) by (auto simp: SetAtIndex_def unat_of_nat_no_wrap)
  have split: "ft_frames ft = take k (ft_frames ft) @ False # drop (Suc k) (ft_frames ft)"
    using k(3,4) by (metis id_take_nth_drop)
  have "ft_frames ft' = take k (ft_frames ft) @ True # drop (Suc k) (ft_frames ft)"
    using k(3) by (simp add: ft' upd_conv_take_nth_drop)
  then show ?thesis
    by (simp add: free_frames_def) (subst split, simp)
qed

section \<open>The frame-source interface\<close>

text \<open>
  What a mapper needs of a source of frames: \<open>pick\<close> returns a free frame or fails,
  \<open>mark\<close> takes it. \<open>grab\<close> is the mapper's use of them: pick and mark, \<open>n\<close> times.
\<close>

fun grab :: "('f \<Rightarrow> nat option) \<Rightarrow> (nat \<Rightarrow> 'f \<Rightarrow> 'f) \<Rightarrow> nat \<Rightarrow> 'f \<Rightarrow> (nat list \<times> 'f) option" where
  "grab pick mark 0 f = Some ([], f)"
| "grab pick mark (Suc n) f =
     (case pick f of
        None \<Rightarrow> None
      | Some i \<Rightarrow> map_option (\<lambda>(is, f'). (i # is, f')) (grab pick mark n (mark i f)))"

locale frame_source =
  fixes pick :: "'f \<Rightarrow> nat option"
    and mark :: "nat \<Rightarrow> 'f \<Rightarrow> 'f"
    and used :: "'f \<Rightarrow> nat set"
    and capacity :: "'f \<Rightarrow> nat"
    and invar :: "'f \<Rightarrow> bool"
  assumes pick_fresh: "invar f \<Longrightarrow> pick f = Some i \<Longrightarrow> i \<notin> used f \<and> i < capacity f"
    and pick_None: "invar f \<Longrightarrow> pick f = None \<longleftrightarrow> used f = {..< capacity f}"
    and mark_used: "invar f \<Longrightarrow> pick f = Some i \<Longrightarrow> used (mark i f) = insert i (used f)"
    and mark_invar: "invar f \<Longrightarrow> pick f = Some i \<Longrightarrow> invar (mark i f) \<and> capacity (mark i f) = capacity f"
    and used_bound: "invar f \<Longrightarrow> used f \<subseteq> {..< capacity f}"
begin

lemma grab_fresh:
  assumes "invar f" and "grab pick mark n f = Some (is, f')"
  shows "length is = n \<and> distinct is \<and> set is \<inter> used f = {} \<and> used f' = used f \<union> set is
    \<and> set is \<subseteq> {..< capacity f} \<and> invar f' \<and> capacity f' = capacity f"
  using assms
proof (induction n arbitrary: f "is")
  case 0
  then show ?case by simp
next
  case (Suc n)
  then obtain i js where i: "pick f = Some i" and js: "grab pick mark n (mark i f) = Some (js, f')"
    and "is": "is = i # js"
    by (auto split: option.splits)
  have inv: "invar (mark i f)" and cap: "capacity (mark i f) = capacity f"
    using mark_invar Suc.prems(1) i by auto
  show ?case
    using Suc.IH [OF inv js] pick_fresh [OF Suc.prems(1) i] mark_used [OF Suc.prems(1) i] cap
    by (auto simp: "is")
qed

lemma grab_enough:
  assumes "invar f" and "n + card (used f) \<le> capacity f"
  shows "\<exists>is f'. grab pick mark n f = Some (is, f')"
  using assms
proof (induction n arbitrary: f)
  case 0
  then show ?case by simp
next
  case (Suc n)
  have fin: "finite (used f)"
    using used_bound [OF Suc.prems(1)] by (rule finite_subset) simp
  have "pick f \<noteq> None"
  proof
    assume "pick f = None"
    then have "used f = {..< capacity f}"
      using pick_None [OF Suc.prems(1)] by (rule iffD1 [rotated])
    with Suc.prems(2) show False by simp
  qed
  then obtain i where i: "pick f = Some i" by (cases "pick f") simp_all
  have inv: "invar (mark i f)" and "capacity (mark i f) = capacity f"
    using mark_invar [OF Suc.prems(1) i] by simp_all
  moreover have "card (used (mark i f)) = Suc (card (used f))"
    using mark_used [OF Suc.prems(1) i] pick_fresh [OF Suc.prems(1) i] fin by simp
  ultimately have "n + card (used (mark i f)) \<le> capacity (mark i f)"
    using Suc.prems(2) by simp
  from Suc.IH [OF inv this] have "grab pick mark n (mark i f) \<noteq> None" by (elim exE) simp
  with i show ?case by (cases "grab pick mark n (mark i f)") simp_all
qed

end

text \<open>\<^verbatim>\<open>FindFirst\<close> followed by \<^verbatim>\<open>SetAtIndex\<close> is such a source.\<close>

definition ft_pick :: "FrameTable \<Rightarrow> nat option" where
  "ft_pick ft = (case FindFirst ft of
       Inl e \<Rightarrow> None
     | Inr res \<Rightarrow> if ftr_error res then None else Some (unat (ftr_idx res)))"

definition ft_mark :: "nat \<Rightarrow> FrameTable \<Rightarrow> FrameTable" where
  "ft_mark i ft = (case SetAtIndex ft (of_nat i) of Inl e \<Rightarrow> ft | Inr ft' \<Rightarrow> ft')"

lemma ft_pick_SomeD:
  assumes "ft_wf ft" and "ft_pick ft = Some i"
  obtains res where "FindFirst ft = Inr res" and "\<not> ftr_error res" and "ftr_idx res = of_nat i"
    and "i < unat (ft_length ft)" and "i \<notin> taken ft" and "{..< i} \<subseteq> taken ft"
proof -
  obtain res where res: "FindFirst ft = Inr res" "\<not> ftr_error res" "unat (ftr_idx res) = i"
    using assms(2) by (auto simp: ft_pick_def split: sum.splits if_splits)
  show ?thesis
    using that [OF res(1,2)] FindFirst_Some [OF assms(1) res(1,2)] res(3)
    by (metis of_nat_unat_id)
qed

lemma ft_mark_props:
  assumes "ft_wf ft" and "i < unat (ft_length ft)"
  shows "ft_wf (ft_mark i ft)" and "taken (ft_mark i ft) = insert i (taken ft)"
    and "ft_length (ft_mark i ft) = ft_length ft"
    and "SetAtIndex ft (of_nat i) = Inr (ft_mark i ft)"
proof -
  have i: "unat (of_nat i :: u32) = i"
    using assms(2) by (rule unat_of_nat_below)
  obtain ft' where *: "SetAtIndex ft (of_nat i) = Inr ft'" "ft_wf ft'"
      "taken ft' = insert i (taken ft)" "ft_length ft' = ft_length ft"
    using SetAtIndex_in [OF assms(1), of "of_nat i"] assms(2) by (metis i)
  then show "ft_wf (ft_mark i ft)" and "taken (ft_mark i ft) = insert i (taken ft)"
    and "ft_length (ft_mark i ft) = ft_length ft"
    and "SetAtIndex ft (of_nat i) = Inr (ft_mark i ft)"
    by (simp_all add: ft_mark_def)
qed

lemma taken_bound: "ft_wf ft \<Longrightarrow> taken ft \<subseteq> {..< unat (ft_length ft)}"
  by (auto simp: taken_def ft_wf_def)

lemma ft_pick_None:
  assumes "ft_wf ft"
  shows "ft_pick ft = None \<longleftrightarrow> taken ft = {..< unat (ft_length ft)}"
proof -
  obtain res where res: "FindFirst ft = Inr res" "scan_result ft 0 res"
    using FindFirst_scan [OF assms] .
  have "ftr_error res \<longleftrightarrow> {..< unat (ft_length ft)} \<subseteq> taken ft"
    using res(2) by (auto simp: scan_result_def lessThan_atLeast0 split: if_splits)
  then show ?thesis
    using res(1) taken_bound [OF assms] by (auto simp: ft_pick_def)
qed

interpretation fs: frame_source ft_pick ft_mark taken "\<lambda>ft. unat (ft_length ft)" ft_wf
proof (unfold_locales, goal_cases)
  case (1 f i)
  then show ?case by (metis ft_pick_SomeD)
next
  case (2 f)
  then show ?case by (rule ft_pick_None)
next
  case (3 f i)
  then show ?case by (metis ft_pick_SomeD ft_mark_props(2))
next
  case (4 f i)
  then show ?case by (metis ft_pick_SomeD ft_mark_props(1,3))
next
  case (5 f)
  then show ?case by (rule taken_bound)
qed

end
