(* ===== verification/Paging.thy ===== *)
theory Paging
  imports Frames
begin

text \<open>
  Paging of \<^verbatim>\<open>paging.cpp\<close> / \<^verbatim>\<open>paging.h\<close>: page directories and page tables live in a
  store indexed by their address, because directories share tables by pointer. The state
  holds the file's globals (both directory pointers, the frame table, the kernel-size
  variables), the primitive heap the tables are taken from, and what the assembly
  routines set in the processor (\<^verbatim>\<open>cr3\<close>, the paging bit).
\<close>

section \<open>Data\<close>

record Page =
  pg_is_present :: bool
  pg_rw :: bool
  pg_is_user :: bool
  pg_was_accessed :: bool
  pg_was_written :: bool
  pg_reserved :: "4 word"
  pg_flags :: "3 word"
  pg_frame_addr :: "20 word"

type_synonym PageTable = "Page list"

record PageDirectory =
  pd_tables :: "u32 list"
  pd_table_addresses :: "u32 list"

record paging_state =
  primitive_heap :: u32
  page_tables :: "u32 \<Rightarrow> PageTable"
  directories :: "u32 \<Rightarrow> PageDirectory option"
  current_directory :: u32
  kernel_directory :: u32
  kernel_size :: u32
  base_kernel_tables_size :: u32
  frame_table :: FrameTable
  cr3 :: u32
  paging_enabled :: bool

text \<open>A \<^verbatim>\<open>MemoryAlloctor\<close>: size and heap top to pointer, stored physical address, new top.\<close>

type_synonym MemoryAlloctor = "u32 \<Rightarrow> u32 \<Rightarrow> u32 \<times> u32 option \<times> u32"

definition StandartAllocator :: MemoryAlloctor where
  "StandartAllocator sz heap = Allocate_WPointer sz True True heap"

definition PAGE_TABLE_SIZE :: u32 where "PAGE_TABLE_SIZE = 1024"
definition K_PHYSICAL_MEM_SIZE :: u32 where "K_PHYSICAL_MEM_SIZE = 0x1000000"
definition K_MAPPED_REGION :: u32 where "K_MAPPED_REGION = push_bit 20 2"
definition FRAME_SIZE :: u32 where "FRAME_SIZE = PAGE_SIZE"
definition SIZEOF_PAGE_TABLE :: u32 where "SIZEOF_PAGE_TABLE = 4096"
definition SIZEOF_PAGE_DIRECTORY :: u32 where "SIZEOF_PAGE_DIRECTORY = 8192"

definition zero_page :: Page where
  "zero_page = \<lparr>pg_is_present = False, pg_rw = False, pg_is_user = False,
     pg_was_accessed = False, pg_was_written = False, pg_reserved = 0, pg_flags = 0,
     pg_frame_addr = 0\<rparr>"

definition zero_table :: PageTable where
  "zero_table = replicate 1024 zero_page"

definition zero_directory :: PageDirectory where
  "zero_directory = \<lparr>pd_tables = replicate 1024 0, pd_table_addresses = replicate 1024 0\<rparr>"

section \<open>Code\<close>

text \<open>
  \<^verbatim>\<open>_get_page\<close> returns a pointer to a page entry: the table's address and the index in
  it. A directory pointer that leads to no directory is a fault.
\<close>

definition get_page ::
    "u32 \<Rightarrow> u32 \<Rightarrow> bool \<Rightarrow> MemoryAlloctor \<Rightarrow> paging_state \<Rightarrow> ((u32 \<times> nat) option \<times> paging_state) outcome" where
  "get_page addr dir make_page allocator st =
     (case directories st dir of
        None \<Rightarrow> Inl Null_Pointer
      | Some d \<Rightarrow>
          (let page_idx = addr div PAGE_SIZE;
               table_idx = unat (page_idx div PAGE_TABLE_SIZE)
           in if pd_tables d ! table_idx \<noteq> 0
              then Inr (Some (pd_tables d ! table_idx, unat (page_idx mod PAGE_TABLE_SIZE)), st)
              else if make_page
              then (case allocator SIZEOF_PAGE_TABLE (primitive_heap st) of (p, phys, heap') \<Rightarrow>
                (let page_addr = (case phys of None \<Rightarrow> 0 | Some a \<Rightarrow> a);
                     d' = d\<lparr>pd_tables := (pd_tables d)[table_idx := p],
                            pd_table_addresses :=
                              (pd_table_addresses d)[table_idx := page_addr OR 7]\<rparr>
                 in Inr (Some (p, unat (page_addr mod PAGE_TABLE_SIZE)),
                         st\<lparr>primitive_heap := heap',
                            page_tables := (page_tables st)(p := zero_table),
                            directories := (directories st)(dir := Some d')\<rparr>)))
              else Inr (None, st)))"

definition write_page :: "u32 \<Rightarrow> nat \<Rightarrow> u32 \<Rightarrow> paging_state \<Rightarrow> paging_state" where
  "write_page t i frame st =
     st\<lparr>page_tables := (page_tables st)(t := (page_tables st t)
          [i := (page_tables st t ! i)\<lparr>pg_is_present := True, pg_is_user := False,
                                        pg_rw := False, pg_frame_addr := ucast frame\<rparr>])\<rparr>"

text \<open>
  The body of the mapping loop for one page: find a frame, get the page entry, panic when
  there was no frame, fill the entry, mark the frame.
\<close>

definition map_page :: "u32 \<Rightarrow> u32 \<Rightarrow> MemoryAlloctor \<Rightarrow> paging_state \<Rightarrow> paging_state outcome" where
  "map_page va dir allocator st =
     and_then (FindFirst (frame_table st)) (\<lambda>res.
     and_then (get_page va dir True allocator st) (\<lambda>(page, st1).
       if ftr_error res then Inl Kernel_Panic
       else (case page of
               None \<Rightarrow> Inl Null_Pointer
             | Some (t, i) \<Rightarrow>
                 (let st2 = write_page t i (ftr_idx res) st1
                  in and_then (SetAtIndex (frame_table st2) (ftr_idx res))
                       (\<lambda>ft. Inr (st2\<lparr>frame_table := ft\<rparr>))))))"

lemma get_page_frame_table:
  "get_page addr dir mk allocator st = Inr (pg, st') \<Longrightarrow> frame_table st' = frame_table st"
  by (auto simp: get_page_def Let_def split: option.splits if_splits prod.splits)

lemma map_page_free_frames:
  assumes "map_page va dir allocator st = Inr st'"
  shows "free_frames (frame_table st') < free_frames (frame_table st)"
proof -
  obtain res pg st1 t i ft where *: "FindFirst (frame_table st) = Inr res" "\<not> ftr_error res"
      "get_page va dir True allocator st = Inr (pg, st1)"
      "SetAtIndex (frame_table (write_page t i (ftr_idx res) st1)) (ftr_idx res) = Inr ft"
      "frame_table st' = ft"
    using assms by (auto simp: map_page_def and_then_Inr_iff Let_def split: if_splits option.splits)
  moreover have "frame_table (write_page t i (ftr_idx res) st1) = frame_table st"
    using get_page_frame_table [OF *(3)] by (simp add: write_page_def)
  ultimately show ?thesis
    using free_frames_marks [of "frame_table st" res ft] by simp
qed

text \<open>
  The loop of \<^verbatim>\<open>_map_virt_to_phys\<close>. \<^verbatim>\<open>top\<close> may wrap past the end of the address space,
  so it is not the address that bounds it: every turn takes a frame, and a table without
  free frames panics.
\<close>

function map_virt_to_phys ::
    "u32 \<Rightarrow> u32 \<Rightarrow> u32 \<Rightarrow> MemoryAlloctor \<Rightarrow> u32 \<Rightarrow> paging_state \<Rightarrow> (u32 \<times> paging_state) outcome" where
  "map_virt_to_phys va end dir allocator pages_created st =
     (if va < end
      then (case map_page va dir allocator st of
              Inl e \<Rightarrow> Inl e
            | Inr st' \<Rightarrow>
                map_virt_to_phys (va + PAGE_SIZE) end dir allocator (pages_created + 1) st')
      else Inr (pages_created, st))"
  by pat_completeness auto
termination
  by (relation "measure (\<lambda>(va, end, dir, allocator, n, st). free_frames (frame_table st))")
    (auto dest: map_page_free_frames)

declare map_virt_to_phys.simps [simp del]

definition map_region ::
    "u32 \<Rightarrow> u32 \<Rightarrow> MemoryAlloctor \<Rightarrow> u32 \<Rightarrow> paging_state \<Rightarrow> (u32 \<times> paging_state) outcome" where
  "map_region start end allocator dir st =
     (let dir = (if dir = 0 then current_directory st else dir)
      in map_virt_to_phys start end dir allocator 0 st)"

text \<open>\<^verbatim>\<open>cr3\<close> gets the address of \<^verbatim>\<open>table_addresses\<close>, 4096 bytes into the structure.\<close>

definition SetDirectory :: "u32 \<Rightarrow> paging_state \<Rightarrow> paging_state" where
  "SetDirectory dir st = st\<lparr>cr3 := dir + 4096\<rparr>"

definition enable_paging :: "paging_state \<Rightarrow> paging_state" where
  "enable_paging st = st\<lparr>paging_enabled := True\<rparr>"

definition number_of_frames :: u32 where
  "number_of_frames = K_PHYSICAL_MEM_SIZE div FRAME_SIZE * 10"

definition num_kernel_tables :: "u32 \<Rightarrow> u32" where
  "num_kernel_tables pages_created =
     (let num_tables = pages_created div PAGE_TABLE_SIZE
      in if num_tables = 0 then 1 else num_tables)"

text \<open>
  \<^verbatim>\<open>paging::Initialize\<close>; \<open>heap_mapping\<close> says whether the caller passed a mapping (its
  fields are not read). Registering the page-fault handler is the interrupt component's.
\<close>

definition paging_Initialize :: "bool \<Rightarrow> paging_state \<Rightarrow> (u32 \<times> paging_state) outcome" where
  "paging_Initialize heap_mapping st =
     (let (cur, heap1) = Allocate SIZEOF_PAGE_DIRECTORY True (primitive_heap st);
          (ker, heap2) = Allocate SIZEOF_PAGE_DIRECTORY True heap1;
          (ft, heap3) = FrameTable_new number_of_frames heap2;
          st1 = st\<lparr>current_directory := cur, kernel_directory := ker,
                   directories := (directories st)(ker := Some zero_directory),
                   frame_table := ft, primitive_heap := heap3, kernel_size := heap3\<rparr>
      in and_then (map_region 0 K_MAPPED_REGION StandartAllocator ker st1) (\<lambda>(n, st2).
         let st3 = st2\<lparr>base_kernel_tables_size := num_kernel_tables n\<rparr>
         in and_then (if heap_mapping
                      then and_then
                             (map_region K_HEAP_START (K_HEAP_START + K_HEAP_INITIAL_SIZE)
                                StandartAllocator ker st3)
                             (\<lambda>(m, s). Inr (n + m, s))
                      else Inr (n, st3)) (\<lambda>(pages, st4).
            let st5 = st4\<lparr>directories := (directories st4)(cur := directories st4 ker)\<rparr>
            in Inr (pages, enable_paging (SetDirectory cur (SetDirectory ker st5))))))"

definition GetKernelDirectory :: "paging_state \<Rightarrow> u32" where
  "GetKernelDirectory st = kernel_directory st"

text \<open>\<^verbatim>\<open>create_directory\<close>: a fresh directory, the kernel's first tables shared, then the mappings.\<close>

definition share_kernel_tables :: "nat \<Rightarrow> PageDirectory \<Rightarrow> PageDirectory \<Rightarrow> PageDirectory" where
  "share_kernel_tables n cur new =
     new\<lparr>pd_tables := take n (pd_tables cur) @ drop n (pd_tables new),
         pd_table_addresses := take n (pd_table_addresses cur) @ drop n (pd_table_addresses new)\<rparr>"

fun map_regions :: "(u32 \<times> u32) list \<Rightarrow> u32 \<Rightarrow> paging_state \<Rightarrow> paging_state outcome" where
  "map_regions [] dir st = Inr st"
| "map_regions ((b, e) # ms) dir st =
     and_then (map_region b e StandartAllocator dir st) (\<lambda>(_, st'). map_regions ms dir st')"

definition create_directory :: "(u32 \<times> u32) list \<Rightarrow> paging_state \<Rightarrow> (u32 \<times> paging_state) outcome" where
  "create_directory proc_mappings st =
     (let (new, heap') = Allocate SIZEOF_PAGE_DIRECTORY True (primitive_heap st)
      in case directories st (current_directory st) of
           None \<Rightarrow> Inl Null_Pointer
         | Some cur \<Rightarrow>
             (let d = share_kernel_tables (unat (base_kernel_tables_size st)) cur zero_directory;
                  st1 = st\<lparr>primitive_heap := heap', directories := (directories st)(new := Some d)\<rparr>
              in and_then (map_regions proc_mappings new st1) (\<lambda>st2. Inr (new, st2))))"

text \<open>
  \<^verbatim>\<open>page_fault_handler\<close>: the pushed error code, the contents of \<^verbatim>\<open>cr2\<close>, and the directory
  of the scheduler's next process if there is one.
\<close>

definition page_fault_handler :: "u32 \<Rightarrow> u32 \<Rightarrow> u32 option \<Rightarrow> paging_state \<Rightarrow> paging_state outcome" where
  "page_fault_handler err_code faulting_address next_directory st =
     (let present = \<not> bit err_code 0
      in if present
         then (case next_directory of
                 None \<Rightarrow> Inl Kernel_Panic
               | Some dir \<Rightarrow>
                   (let base_fault = faulting_address AND (- 0x1000);
                        top_fault = base_fault + 0x1000
                    in and_then (map_region base_fault top_fault StandartAllocator dir st)
                         (\<lambda>(_, st'). Inr st')))
         else Inl Kernel_Panic)"

text \<open>The destructor \<^verbatim>\<open>~PageDirectory\<close>: every entry of every table, present or not.\<close>

fun free_entries :: "PageTable \<Rightarrow> FrameTable \<Rightarrow> FrameTable outcome" where
  "free_entries [] ft = Inr ft"
| "free_entries (pg # pgs) ft =
     and_then (FreeAtIndex ft (ucast (pg_frame_addr pg))) (free_entries pgs)"

fun free_tables :: "u32 list \<Rightarrow> (u32 \<Rightarrow> PageTable) \<Rightarrow> FrameTable \<Rightarrow> FrameTable outcome" where
  "free_tables [] pts ft = Inr ft"
| "free_tables (t # ts) pts ft =
     (if t = 0 then Inl Null_Pointer
      else and_then (free_entries (pts t) ft) (free_tables ts pts))"

definition PageDirectory_destroy :: "u32 \<Rightarrow> paging_state \<Rightarrow> paging_state outcome" where
  "PageDirectory_destroy dir st =
     (case directories st dir of
        None \<Rightarrow> Inl Null_Pointer
      | Some d \<Rightarrow> and_then (free_tables (pd_tables d) (page_tables st) (frame_table st))
                    (\<lambda>ft. Inr (st\<lparr>frame_table := ft\<rparr>)))"

end
