(* ===== verification/Paging_Facts.thy ===== *)
theory Paging_Facts
  imports Paging
begin

text \<open>
  Correctness of the mapping code against what the processor's page walk sees:
  \<open>mmu_walk\<close> reads the directory's \<^verbatim>\<open>table_addresses\<close>, then the page table.
\<close>

section \<open>The page walk\<close>

definition mmu_walk :: "paging_state \<Rightarrow> u32 \<Rightarrow> nat \<Rightarrow> nat option" where
  "mmu_walk st dir q =
     (case directories st dir of
        None \<Rightarrow> None
      | Some d \<Rightarrow>
          (let pde = pd_table_addresses d ! (q div 1024)
           in if \<not> bit pde 0 then None
              else (let pte = page_tables st (pde AND 0xFFFFF000) ! (q mod 1024)
                    in if pg_is_present pte then Some (unat (pg_frame_addr pte)) else None)))"

text \<open>
  A directory is well formed when both arrays agree on every slot: an empty slot, or an
  aligned table below the heap top; no two slots share a table.
\<close>

definition slot_ok :: "paging_state \<Rightarrow> u32 \<Rightarrow> u32 \<Rightarrow> bool" where
  "slot_ok st t e \<longleftrightarrow>
     (if t = 0 then e = 0
      else e = t OR 7 \<and> unat t mod 4096 = 0 \<and> unat t + 4096 \<le> unat (primitive_heap st)
           \<and> length (page_tables st t) = 1024)"

definition directory_wf :: "paging_state \<Rightarrow> PageDirectory \<Rightarrow> bool" where
  "directory_wf st d \<longleftrightarrow>
     length (pd_tables d) = 1024 \<and> length (pd_table_addresses d) = 1024
     \<and> (\<forall>i < 1024. slot_ok st (pd_tables d ! i) (pd_table_addresses d ! i))
     \<and> (\<forall>i < 1024. \<forall>j < 1024. i \<noteq> j \<longrightarrow> pd_tables d ! i \<noteq> 0 \<longrightarrow> pd_tables d ! i \<noteq> pd_tables d ! j)"

definition paging_wf :: "paging_state \<Rightarrow> u32 \<Rightarrow> bool" where
  "paging_wf st dir \<longleftrightarrow>
     (\<exists>d. directories st dir = Some d \<and> directory_wf st d) \<and> ft_wf (frame_table st)
     \<and> unat (ft_length (frame_table st)) \<le> 2 ^ 20 \<and> 0 < unat (primitive_heap st)"

text \<open>Both notions read four components of the state only.\<close>

lemma mmu_walk_cong:
  assumes "directories st' dir' = directories st dir" and "page_tables st' = page_tables st"
  shows "mmu_walk st' dir' = mmu_walk st dir"
  using assms by (intro ext) (simp only: mmu_walk_def)

lemma paging_wf_cong:
  assumes "directories st' dir' = directories st dir" and "page_tables st' = page_tables st"
    and "primitive_heap st' = primitive_heap st" and "frame_table st' = frame_table st"
  shows "paging_wf st' dir' = paging_wf st dir"
proof -
  have "slot_ok st' = slot_ok st"
    using assms by (intro ext) (simp only: slot_ok_def)
  then have "directory_wf st' = directory_wf st"
    by (intro ext) (simp only: directory_wf_def)
  then show ?thesis
    using assms by (simp only: paging_wf_def)
qed

lemma mod_4096_bits: "unat (t::u32) mod 4096 = 0 \<Longrightarrow> n < 12 \<Longrightarrow> \<not> bit t n"
proof -
  assume "unat t mod 4096 = 0" and n: "n < 12"
  then have "unat (t AND mask 12) = 0"
    using unat_and_mask [of t 12] by simp
  then have "t AND mask 12 = 0"
    by (simp add: unat_eq_zero)
  then have "bit (t AND mask 12) n = False" by simp
  with n show "\<not> bit t n"
    by (simp add: bit_simps)
qed

lemma pde_present: "bit (t OR 7 :: u32) 0"
  by (simp add: bit_simps)

lemma pde_base:
  assumes "unat (t::u32) mod 4096 = 0"
  shows "(t OR 7) AND 0xFFFFF000 = t"
proof -
  have m: "(0xFFFFF000::u32) = NOT (mask 12)" and s: "(7::u32) = mask 3"
    by (simp_all add: mask_eq_exp_minus_1)
  show ?thesis
    unfolding m s using mod_4096_bits [OF assms]
    by (intro bit_word_eqI) (auto simp: bit_simps)
qed

lemma mmu_walk_table:
  assumes "directories st dir = Some d" and "directory_wf st d" and "q < 2 ^ 20"
  shows "mmu_walk st dir q =
     (let t = pd_tables d ! (q div 1024) in
      if t = 0 then None
      else (let pte = page_tables st t ! (q mod 1024)
            in if pg_is_present pte then Some (unat (pg_frame_addr pte)) else None))"
proof -
  have "q div 1024 < 1024" using assms(3) by simp
  then have "slot_ok st (pd_tables d ! (q div 1024)) (pd_table_addresses d ! (q div 1024))"
    using assms(2) by (simp add: directory_wf_def)
  then show ?thesis
    using assms(1) by (auto simp: mmu_walk_def slot_ok_def Let_def pde_present pde_base split: if_splits)
qed

section \<open>One page\<close>

text \<open>The page number of an address, and the precondition under which one page is mapped right.\<close>

definition page_no :: "u32 \<Rightarrow> nat" where
  "page_no va = unat va div 4096"

definition table_present :: "paging_state \<Rightarrow> u32 \<Rightarrow> nat \<Rightarrow> bool" where
  "table_present st dir q \<longleftrightarrow>
     (\<exists>d. directories st dir = Some d \<and> pd_tables d ! (q div 1024) \<noteq> 0)"

lemma page_no_less: "page_no va < 2 ^ 20"
  using unat_u32_less [of va] by (simp add: page_no_def)

lemma table_index: "unat (va div PAGE_SIZE div PAGE_TABLE_SIZE) = page_no va div 1024"
  and entry_index: "unat (va div PAGE_SIZE mod PAGE_TABLE_SIZE) = page_no va mod 1024"
  by (simp_all add: unat_div_distrib unat_mod_distrib PAGE_SIZE_def PAGE_TABLE_SIZE_def page_no_def)

lemma get_page_present:
  assumes "directories st dir = Some d" and "pd_tables d ! (page_no va div 1024) \<noteq> 0"
  shows "get_page va dir mk allocator st =
     Inr (Some (pd_tables d ! (page_no va div 1024), page_no va mod 1024), st)"
  using assms by (simp add: get_page_def table_index entry_index Let_def)

definition add_table :: "nat \<Rightarrow> u32 \<Rightarrow> paging_state \<Rightarrow> paging_state" where
  "add_table k dir st =
     (case directories st dir of
        None \<Rightarrow> st
      | Some d \<Rightarrow>
          (let p = aligned_top (primitive_heap st)
           in st\<lparr>primitive_heap := p + 4096, page_tables := (page_tables st)(p := zero_table),
                directories := (directories st)(dir := Some (d\<lparr>
                  pd_tables := (pd_tables d)[k := p],
                  pd_table_addresses := (pd_table_addresses d)[k := p OR 7]\<rparr>))\<rparr>))"

text \<open>
  On a missing table, the entry is chosen by the new table's physical address instead of
  the page number; tables are page aligned, so the answer is always entry 0.
\<close>

lemma get_page_absent:
  assumes "directories st dir = Some d" and "pd_tables d ! (page_no va div 1024) = 0"
  shows "get_page va dir True StandartAllocator st =
     Inr (Some (aligned_top (primitive_heap st), 0), add_table (page_no va div 1024) dir st)"
proof -
  have "unat (aligned_top (primitive_heap st)) mod 4096 = 0"
    using aligned_top_is_aligned by (simp add: IS_ALIGNED_mod)
  then have "unat (aligned_top (primitive_heap st)) mod 1024 = 0"
    using mod_mod_cancel [of 1024 4096 "unat (aligned_top (primitive_heap st))"] by simp
  then have "unat (aligned_top (primitive_heap st) mod PAGE_TABLE_SIZE) = 0"
    by (simp add: unat_mod_distrib PAGE_TABLE_SIZE_def)
  then show ?thesis
    using assms
    by (simp add: get_page_def table_index StandartAllocator_def Allocate_WPointer_aligned Let_def
        add_table_def SIZEOF_PAGE_TABLE_def)
qed

lemma new_table_bounds:
  assumes "unat heap + 0x2000 < 2 ^ 32"
  shows "unat heap \<le> unat (aligned_top heap)"
    and "unat (aligned_top heap + 4096) = unat (aligned_top heap) + 4096"
    and "unat (aligned_top heap) < unat heap + 4096"
    and "unat (aligned_top heap) mod 4096 = 0"
proof -
  have b: "unat heap + unat (4096::u32) + 0x1000 \<le> 2 ^ 32 - 1"
    using assms by simp
  note Allocate_bounds [OF b Allocate_aligned]
  then show "unat heap \<le> unat (aligned_top heap)"
    and "unat (aligned_top heap + 4096) = unat (aligned_top heap) + 4096"
    and "unat (aligned_top heap) < unat heap + 4096" by simp_all
  show "unat (aligned_top heap) mod 4096 = 0"
    using aligned_top_is_aligned by (simp add: IS_ALIGNED_mod)
qed

lemma add_table_wf:
  assumes wf: "paging_wf st dir" and d: "directories st dir = Some d"
    and k: "k < 1024" "pd_tables d ! k = 0" and room: "unat (primitive_heap st) + 0x2000 < 2 ^ 32"
  shows "paging_wf (add_table k dir st) dir"
    and "q < 2 ^ 20 \<Longrightarrow> mmu_walk (add_table k dir st) dir q = mmu_walk st dir q"
    and "table_present (add_table k dir st) dir q \<longleftrightarrow> q div 1024 = k \<or> table_present st dir q"
    and "frame_table (add_table k dir st) = frame_table st"
    and "unat (primitive_heap (add_table k dir st)) \<le> unat (primitive_heap st) + 0x2000"
    and "unat (primitive_heap st) \<le> unat (primitive_heap (add_table k dir st))"
proof -
  let ?p = "aligned_top (primitive_heap st)"
  let ?st = "add_table k dir st"
  let ?d = "d\<lparr>pd_tables := (pd_tables d)[k := ?p],
              pd_table_addresses := (pd_table_addresses d)[k := ?p OR 7]\<rparr>"
  note b = new_table_bounds [OF room]
  have dwf: "directory_wf st d"
    using wf d by (auto simp: paging_wf_def)
  have heap: "primitive_heap ?st = ?p + 4096" and tabs: "page_tables ?st = (page_tables st)(?p := zero_table)"
    and d': "directories ?st dir = Some ?d"
    using d by (simp_all add: add_table_def Let_def)
  have p0: "?p \<noteq> 0"
    using b(1) wf by (auto simp: paging_wf_def)
  have fresh: "pd_tables d ! i \<noteq> ?p" if "i < 1024" "pd_tables d ! i \<noteq> 0" for i
    using dwf that b(1) by (force simp: directory_wf_def slot_ok_def)
  have old: "slot_ok ?st (pd_tables d ! i) (pd_table_addresses d ! i)" if "i < 1024" for i
  proof -
    have "slot_ok st (pd_tables d ! i) (pd_table_addresses d ! i)"
      using dwf that by (simp add: directory_wf_def)
    then show ?thesis
      using fresh [OF that] b by (auto simp: slot_ok_def heap tabs)
  qed
  have new: "slot_ok ?st ?p (?p OR 7)"
    using p0 b by (simp add: slot_ok_def heap tabs zero_table_def)
  have len: "length (pd_tables d) = 1024" "length (pd_table_addresses d) = 1024"
    using dwf by (simp_all add: directory_wf_def)
  have dwf': "directory_wf ?st ?d"
    unfolding directory_wf_def
  proof (intro conjI allI impI)
    show "slot_ok ?st (pd_tables ?d ! i) (pd_table_addresses ?d ! i)" if "i < 1024" for i
      using old [OF that] new len that by (cases "i = k") simp_all
    show "pd_tables ?d ! i \<noteq> pd_tables ?d ! j"
      if "i < 1024" "j < 1024" "i \<noteq> j" "pd_tables ?d ! i \<noteq> 0" for i j
    proof -
      have "pd_tables d ! i \<noteq> pd_tables d ! j" if "pd_tables d ! i \<noteq> 0"
        using dwf \<open>i < 1024\<close> \<open>j < 1024\<close> \<open>i \<noteq> j\<close> that by (auto simp: directory_wf_def)
      moreover have "pd_tables d ! j \<noteq> ?p"
        using fresh [OF \<open>j < 1024\<close>] p0 by (cases "pd_tables d ! j = 0") auto
      moreover have "pd_tables d ! i \<noteq> ?p"
        using fresh [OF \<open>i < 1024\<close>] p0 by (cases "pd_tables d ! i = 0") auto
      ultimately show ?thesis
        using that len k(1) by (auto simp: nth_list_update split: if_splits)
    qed
  qed (simp_all add: len)
  show ft: "frame_table ?st = frame_table st"
    using d by (simp add: add_table_def Let_def)
  show "paging_wf ?st dir"
    using wf dwf' d' ft b p0 by (auto simp: paging_wf_def heap)
  show "table_present ?st dir q \<longleftrightarrow> q div 1024 = k \<or> table_present st dir q"
    using d d' p0 k len by (auto simp: table_present_def nth_list_update)
  show "mmu_walk ?st dir q = mmu_walk st dir q" if q: "q < 2 ^ 20"
  proof -
    have qk: "q div 1024 < 1024" using q by simp
    show ?thesis
    proof (cases "q div 1024 = k")
      case True
      then show ?thesis
        using mmu_walk_table [OF d dwf q] mmu_walk_table [OF d' dwf' q] k p0 len
        by (simp add: tabs zero_table_def zero_page_def)
    next
      case False
      then show ?thesis
        using mmu_walk_table [OF d dwf q] mmu_walk_table [OF d' dwf' q] fresh [OF qk]
        by (simp add: tabs Let_def)
    qed
  qed
  show "unat (primitive_heap ?st) \<le> unat (primitive_heap st) + 0x2000"
    and "unat (primitive_heap st) \<le> unat (primitive_heap ?st)"
    using b by (simp_all add: heap)
qed

lemma write_page_wf:
  assumes wf: "paging_wf st dir" and d: "directories st dir = Some d" and q: "q < 2 ^ 20"
    and t: "pd_tables d ! (q div 1024) = t" "t \<noteq> 0"
  shows "paging_wf (write_page t (q mod 1024) frame st) dir"
    and "r < 2 ^ 20 \<Longrightarrow> mmu_walk (write_page t (q mod 1024) frame st) dir r =
           (if r = q then Some (unat (ucast frame :: 20 word)) else mmu_walk st dir r)"
    and "table_present (write_page t (q mod 1024) frame st) dir = table_present st dir"
    and "frame_table (write_page t (q mod 1024) frame st) = frame_table st"
    and "primitive_heap (write_page t (q mod 1024) frame st) = primitive_heap st"
proof -
  let ?st = "write_page t (q mod 1024) frame st"
  have dwf: "directory_wf st d"
    using wf d by (auto simp: paging_wf_def)
  have d': "directories ?st dir = Some d" and heap: "primitive_heap ?st = primitive_heap st"
    and ft: "frame_table ?st = frame_table st"
    by (simp_all add: write_page_def d)
  show "frame_table ?st = frame_table st" and "primitive_heap ?st = primitive_heap st"
    by (fact ft heap)+
  have len: "length (page_tables ?st s) = length (page_tables st s)" for s
    by (simp add: write_page_def)
  have "slot_ok ?st s e = slot_ok st s e" for s e
    by (simp add: slot_ok_def heap len)
  then have dwf': "directory_wf ?st d"
    using dwf by (simp add: directory_wf_def)
  show "paging_wf ?st dir"
    using wf dwf' d' by (auto simp: paging_wf_def heap ft)
  show "table_present ?st dir = table_present st dir"
    by (simp add: table_present_def d d' fun_eq_iff)
  have qk: "q div 1024 < 1024" using q by simp
  have tlen: "length (page_tables st t) = 1024"
    using dwf qk t by (auto simp: directory_wf_def slot_ok_def)
  show "mmu_walk ?st dir r = (if r = q then Some (unat (ucast frame :: 20 word)) else mmu_walk st dir r)"
    if r: "r < 2 ^ 20"
  proof (cases "r div 1024 = q div 1024")
    case True
    moreover have "r mod 1024 = q mod 1024 \<longleftrightarrow> r = q"
      using True by (metis div_mult_mod_eq)
    ultimately show ?thesis
      using mmu_walk_table [OF d dwf r] mmu_walk_table [OF d' dwf' r] t tlen
      by (auto simp: write_page_def Let_def nth_list_update)
  next
    case False
    have rk: "r div 1024 < 1024" using r by simp
    have "pd_tables d ! (r div 1024) \<noteq> t"
      using dwf qk rk False t unfolding directory_wf_def by metis
    then show ?thesis
      using mmu_walk_table [OF d dwf r] mmu_walk_table [OF d' dwf' r] False
      by (auto simp: write_page_def Let_def)
  qed
qed

section \<open>A region\<close>

text \<open>The state after one page is mapped, as seen by the page walk.\<close>

definition mapped :: "u32 \<Rightarrow> nat \<Rightarrow> nat \<Rightarrow> paging_state \<Rightarrow> paging_state \<Rightarrow> bool" where
  "mapped dir q f st st' \<longleftrightarrow>
     paging_wf st' dir \<and> frame_table st' = ft_mark f (frame_table st)
     \<and> (\<forall>r < 2 ^ 20. mmu_walk st' dir r = (if r = q then Some f else mmu_walk st dir r))
     \<and> table_present st' dir q \<and> (\<forall>r. table_present st dir r \<longrightarrow> table_present st' dir r)
     \<and> unat (primitive_heap st') \<le> unat (primitive_heap st) + 0x2000
     \<and> unat (primitive_heap st) \<le> unat (primitive_heap st')"

lemma frame_word:
  assumes "f < 2 ^ 20"
  shows "unat (ucast (of_nat f :: u32) :: 20 word) = f"
proof -
  have "unat (of_nat f :: u32) = f"
    using assms by (intro unat_of_nat_no_wrap) simp
  then show ?thesis
    using assms by (simp add: unsigned_ucast_eq take_bit_eq_mod)
qed

lemma map_page_mapped:
  assumes wf: "paging_wf st dir" and room: "unat (primitive_heap st) + 0x2000 < 2 ^ 32"
    and start: "table_present st dir (page_no va) \<or> page_no va mod 1024 = 0"
    and pick: "ft_pick (frame_table st) = Some f"
  shows "\<exists>st'. map_page va dir StandartAllocator st = Inr st' \<and> mapped dir (page_no va) f st st'"
proof -
  let ?q = "page_no va"
  obtain d where d: "directories st dir = Some d" and ftwf: "ft_wf (frame_table st)"
      and flen: "unat (ft_length (frame_table st)) \<le> 2 ^ 20"
    using wf by (auto simp: paging_wf_def)
  have q: "?q < 2 ^ 20" by (rule page_no_less)
  then have k: "?q div 1024 < 1024" by simp
  obtain res where res: "FindFirst (frame_table st) = Inr res" "\<not> ftr_error res"
      "ftr_idx res = of_nat f" and f: "f < unat (ft_length (frame_table st))"
    using ft_pick_SomeD [OF ftwf pick] by metis
  have fw: "unat (ucast (ftr_idx res) :: 20 word) = f"
    using f flen res(3) frame_word by simp
  note mark = ft_mark_props [OF ftwf f]
  define st1 where "st1 = (if pd_tables d ! (?q div 1024) \<noteq> 0 then st else add_table (?q div 1024) dir st)"
  have "\<exists>t d1. get_page va dir True StandartAllocator st = Inr (Some (t, ?q mod 1024), st1)
      \<and> directories st1 dir = Some d1 \<and> pd_tables d1 ! (?q div 1024) = t \<and> t \<noteq> 0"
  proof (cases "pd_tables d ! (?q div 1024) = 0")
    case False
    then show ?thesis
      using get_page_present [OF d] d by (auto simp: st1_def)
  next
    case True
    then have "\<not> table_present st dir ?q"
      using d by (simp add: table_present_def)
    then have "?q mod 1024 = 0" using start by blast
    moreover have "aligned_top (primitive_heap st) \<noteq> 0"
      using new_table_bounds(1) [OF room] wf by (auto simp: paging_wf_def)
    moreover have "length (pd_tables d) = 1024"
      using wf d by (auto simp: paging_wf_def directory_wf_def)
    ultimately show ?thesis
      using get_page_absent [OF d True] True k d by (auto simp: st1_def add_table_def Let_def)
  qed
  then obtain t d1 where gp: "get_page va dir True StandartAllocator st = Inr (Some (t, ?q mod 1024), st1)"
      and d1: "directories st1 dir = Some d1" and t: "pd_tables d1 ! (?q div 1024) = t" "t \<noteq> 0"
    by blast
  have st1: "paging_wf st1 dir \<and> (\<forall>r < 2 ^ 20. mmu_walk st1 dir r = mmu_walk st dir r)
      \<and> frame_table st1 = frame_table st \<and> (\<forall>r. table_present st dir r \<longrightarrow> table_present st1 dir r)
      \<and> unat (primitive_heap st1) \<le> unat (primitive_heap st) + 0x2000
      \<and> unat (primitive_heap st) \<le> unat (primitive_heap st1)"
    using add_table_wf [OF wf d k _ room] wf by (simp add: st1_def)
  have present: "table_present st1 dir ?q"
    using d1 t by (simp add: table_present_def)
  let ?st2 = "write_page t (?q mod 1024) (ftr_idx res) st1"
  let ?st3 = "?st2\<lparr>frame_table := ft_mark f (frame_table st)\<rparr>"
  note w = write_page_wf [OF _ d1 q t, where frame = "ftr_idx res"]
  have "map_page va dir StandartAllocator st = Inr ?st3"
    using res gp st1 w(4) mark(4) by (simp add: map_page_def Let_def)
  moreover have "mapped dir ?q f st ?st3"
  proof -
    have walk: "mmu_walk ?st3 dir = mmu_walk ?st2 dir"
      by (rule mmu_walk_cong) simp_all
    have tp: "table_present ?st3 dir = table_present ?st2 dir"
      by (simp add: table_present_def fun_eq_iff)
    have "paging_wf ?st3 dir"
      using w(1) st1 mark ftwf flen by (auto simp: paging_wf_def directory_wf_def slot_ok_def)
    then show ?thesis
      using st1 w present fw unfolding mapped_def walk tp by simp
  qed
  ultimately show ?thesis by blast
qed

text \<open>Stepping to the next page.\<close>

lemma next_page:
  assumes "unat va mod 4096 = 0" and "unat va + 4096 < 2 ^ 32"
  shows "unat (va + PAGE_SIZE) = unat va + 4096" and "page_no (va + PAGE_SIZE) = Suc (page_no va)"
    and "unat (va + PAGE_SIZE) mod 4096 = 0"
proof -
  show n: "unat (va + PAGE_SIZE) = unat va + 4096"
    using assms(2) unat_plus_no_wrap [of va PAGE_SIZE] by (simp add: PAGE_SIZE_def)
  show "page_no (va + PAGE_SIZE) = Suc (page_no va)" and "unat (va + PAGE_SIZE) mod 4096 = 0"
    using assms(1) by (simp_all add: page_no_def n)
qed

lemma table_present_next:
  assumes "table_present st dir q"
  shows "table_present st dir (Suc q) \<or> Suc q mod 1024 = 0"
proof (cases "Suc q mod 1024 = 0")
  case False
  then have "Suc q div 1024 = q div 1024"
    by (simp add: div_Suc)
  then show ?thesis
    using assms by (simp add: table_present_def)
qed simp

lemma map_page_no_frame:
  assumes "paging_wf st dir" and "ft_pick (frame_table st) = None"
  shows "map_page va dir StandartAllocator st = Inl Kernel_Panic"
proof -
  obtain d where d: "directories st dir = Some d" and ftwf: "ft_wf (frame_table st)"
    using assms(1) by (auto simp: paging_wf_def)
  obtain res where res: "FindFirst (frame_table st) = Inr res" "ftr_error res"
    using FindFirst_scan [OF ftwf] assms(2) by (force simp: ft_pick_def split: if_splits)
  show ?thesis
    using res d by (cases "pd_tables d ! (page_no va div 1024) = 0")
      (simp_all add: map_page_def get_page_present get_page_absent)
qed

definition region_mapped ::
    "u32 \<Rightarrow> nat \<Rightarrow> nat list \<Rightarrow> paging_state \<Rightarrow> paging_state \<Rightarrow> bool" where
  "region_mapped dir q0 fs st st' \<longleftrightarrow>
     paging_wf st' dir
     \<and> (\<forall>r < 2 ^ 20. mmu_walk st' dir r =
           (if q0 \<le> r \<and> r < q0 + length fs then Some (fs ! (r - q0)) else mmu_walk st dir r))
     \<and> (\<forall>r. table_present st dir r \<longrightarrow> table_present st' dir r)
     \<and> unat (primitive_heap st') \<le> unat (primitive_heap st) + length fs * 0x2000
     \<and> unat (primitive_heap st) \<le> unat (primitive_heap st')"

lemma region_mapped_step:
  assumes m: "mapped dir q f st st1" and r: "region_mapped dir (Suc q) fs st1 st'"
  shows "region_mapped dir q (f # fs) st st'"
proof -
  have "mmu_walk st' dir r =
      (if q \<le> r \<and> r < q + length (f # fs) then Some ((f # fs) ! (r - q)) else mmu_walk st dir r)"
    if "r < 2 ^ 20" for r
  proof (cases "r = q")
    case True
    then show ?thesis using m r that by (simp add: mapped_def region_mapped_def)
  next
    case False
    then have "q \<le> r \<longleftrightarrow> Suc q \<le> r" by auto
    moreover have "Suc q \<le> r \<Longrightarrow> (f # fs) ! (r - q) = fs ! (r - Suc q)"
      by (simp add: nth_Cons' )
    ultimately show ?thesis using m r that False by (simp add: mapped_def region_mapped_def)
  qed
  then show ?thesis
    using m r by (auto simp: mapped_def region_mapped_def)
qed

text \<open>
  The loop maps its \<open>n\<close> pages to the \<open>n\<close> frames that the frame table hands out, and
  leaves every other translation alone, provided the first page either lies in an existing
  table or is the first of a new one.
\<close>

lemma map_virt_to_phys_maps:
  assumes "paging_wf st dir" and "unat (primitive_heap st) + n * 0x2000 < 2 ^ 32"
    and "unat va mod 4096 = 0" and "unat end = unat va + n * 4096"
    and "table_present st dir (page_no va) \<or> page_no va mod 1024 = 0"
    and "grab ft_pick ft_mark n (frame_table st) = Some (fs, ft')"
  shows "\<exists>st'. map_virt_to_phys va end dir StandartAllocator c st = Inr (c + of_nat n, st')
      \<and> frame_table st' = ft' \<and> region_mapped dir (page_no va) fs st st'"
  using assms
proof (induction n arbitrary: va c st fs)
  case 0
  then show ?case
    by (auto simp: map_virt_to_phys.simps word_less_nat_alt region_mapped_def)
next
  case (Suc n)
  obtain f gs where f: "ft_pick (frame_table st) = Some f"
      and gs: "grab ft_pick ft_mark n (ft_mark f (frame_table st)) = Some (gs, ft')" and fs: "fs = f # gs"
    using Suc.prems(6) by (auto split: option.splits)
  obtain st1 where st1: "map_page va dir StandartAllocator st = Inr st1"
      and m: "mapped dir (page_no va) f st st1"
    using map_page_mapped [OF Suc.prems(1) _ Suc.prems(5) f] Suc.prems(2) by auto
  have lt: "va < end"
    using Suc.prems(4) by (simp add: word_less_nat_alt)
  show ?case
  proof (cases n)
    case 0
    have "\<not> va + PAGE_SIZE < end"
    proof (cases "unat va + 4096 < 2 ^ 32")
      case True
      then show ?thesis
        using next_page(1) [OF Suc.prems(3)] Suc.prems(4) 0 by (simp add: word_less_nat_alt)
    next
      case False
      then show ?thesis
        using Suc.prems(4) 0 unat_u32_less [of "end"] by simp
    qed
    then have "map_virt_to_phys va end dir StandartAllocator c st = Inr (c + 1, st1)"
      using lt st1 by (subst map_virt_to_phys.simps) (simp add: map_virt_to_phys.simps)
    moreover have "region_mapped dir (Suc (page_no va)) [] st1 st1"
      using m by (simp add: region_mapped_def mapped_def)
    ultimately show ?thesis
      using region_mapped_step [OF m] gs m 0 by (auto simp: fs mapped_def)
  next
    case (Suc k)
    have "unat va + 4096 < 2 ^ 32"
      using Suc.prems(4) Suc unat_u32_less [of "end"] by simp
    note np = next_page [OF Suc.prems(3) this]
    have "paging_wf st1 dir" and "unat (primitive_heap st1) + n * 0x2000 < 2 ^ 32"
      and "frame_table st1 = ft_mark f (frame_table st)"
      and "table_present st1 dir (page_no (va + PAGE_SIZE)) \<or> page_no (va + PAGE_SIZE) mod 1024 = 0"
      using m Suc.prems(2) table_present_next [of st1 dir "page_no va"] by (auto simp: mapped_def np)
    moreover have "unat end = unat (va + PAGE_SIZE) + n * 4096"
      using Suc.prems(4) np by simp
    ultimately obtain st' where "map_virt_to_phys (va + PAGE_SIZE) end dir StandartAllocator (c + 1) st1
          = Inr (c + 1 + of_nat n, st')" and ft: "frame_table st' = ft'"
        and r: "region_mapped dir (Suc (page_no va)) gs st1 st'"
      using Suc.IH [of st1 "va + PAGE_SIZE" gs "c + 1"] gs np by auto
    then have "map_virt_to_phys va end dir StandartAllocator c st = Inr (c + of_nat (Suc n), st')"
      using lt st1 by (subst map_virt_to_phys.simps) (simp add: add.commute add.left_commute)
    then show ?thesis
      using region_mapped_step [OF m r] ft by (auto simp: fs)
  qed
qed

text \<open>Without enough frames the loop panics, however far it got.\<close>

lemma map_virt_to_phys_panics:
  assumes "paging_wf st dir" and "unat (primitive_heap st) + n * 0x2000 < 2 ^ 32"
    and "unat va mod 4096 = 0" and "unat end = unat va + n * 4096"
    and "table_present st dir (page_no va) \<or> page_no va mod 1024 = 0"
    and "grab ft_pick ft_mark n (frame_table st) = None"
  shows "map_virt_to_phys va end dir StandartAllocator c st = Inl Kernel_Panic"
  using assms
proof (induction n arbitrary: va c st)
  case 0
  then show ?case by simp
next
  case (Suc n)
  have lt: "va < end"
    using Suc.prems(4) by (simp add: word_less_nat_alt)
  show ?case
  proof (cases "ft_pick (frame_table st)")
    case None
    then show ?thesis
      using lt map_page_no_frame [OF Suc.prems(1)] by (subst map_virt_to_phys.simps) simp
  next
    case (Some f)
    then have gs: "grab ft_pick ft_mark n (ft_mark f (frame_table st)) = None"
      using Suc.prems(6) by (simp split: option.splits)
    obtain st1 where st1: "map_page va dir StandartAllocator st = Inr st1"
        and m: "mapped dir (page_no va) f st st1"
      using map_page_mapped [OF Suc.prems(1) _ Suc.prems(5) Some] Suc.prems(2) by auto
    obtain k where k: "n = Suc k"
      using gs by (cases n) auto
    have "unat va + 4096 < 2 ^ 32"
      using Suc.prems(4) k unat_u32_less [of "end"] by simp
    note np = next_page [OF Suc.prems(3) this]
    have "paging_wf st1 dir" and "unat (primitive_heap st1) + n * 0x2000 < 2 ^ 32"
      and "frame_table st1 = ft_mark f (frame_table st)"
      and "table_present st1 dir (page_no (va + PAGE_SIZE)) \<or> page_no (va + PAGE_SIZE) mod 1024 = 0"
      using m Suc.prems(2) table_present_next [of st1 dir "page_no va"] by (auto simp: mapped_def np)
    moreover have "unat end = unat (va + PAGE_SIZE) + n * 4096"
      using Suc.prems(4) np by simp
    ultimately show ?thesis
      using Suc.IH [of st1 "va + PAGE_SIZE" "c + 1"] gs np lt st1
      by (subst map_virt_to_phys.simps) simp
  qed
qed

section \<open>A fresh frame table hands out frames in order\<close>

lemma ft_pick_least:
  assumes "ft_wf ft" and "taken ft = {..< k}" and "k < unat (ft_length ft)"
  shows "ft_pick ft = Some k"
proof -
  have "FindFirst ft = Inr \<lparr>ftr_idx = of_nat k, ftr_error = False\<rparr>"
    using FindFirst_iff [OF assms(1,3)] assms(2) by simp
  then show ?thesis
    using assms(3) by (simp add: ft_pick_def unat_of_nat_below)
qed

lemma grab_in_order:
  assumes "ft_wf ft" and "taken ft = {..< k}" and "k + n \<le> unat (ft_length ft)"
  shows "\<exists>ft'. grab ft_pick ft_mark n ft = Some ([k ..< k + n], ft') \<and> ft_wf ft'
     \<and> taken ft' = {..< k + n} \<and> ft_length ft' = ft_length ft"
  using assms
proof (induction n arbitrary: ft k)
  case 0
  then show ?case by simp
next
  case (Suc n)
  have k: "k < unat (ft_length ft)" using Suc.prems(3) by simp
  note mark = ft_mark_props [OF Suc.prems(1) k]
  have "taken (ft_mark k ft) = {..< Suc k}"
    using mark(2) Suc.prems(2) by auto
  then obtain ft' where "grab ft_pick ft_mark n (ft_mark k ft) = Some ([Suc k ..< Suc k + n], ft')"
      "ft_wf ft'" "taken ft' = {..< Suc k + n}" "ft_length ft' = ft_length (ft_mark k ft)"
    using Suc.IH [OF mark(1), of "Suc k"] Suc.prems(3) mark(3) by auto
  then show ?case
    using ft_pick_least [OF Suc.prems(1,2) k] mark(3) by (auto simp: upt_conv_Cons)
qed

end
