(* ===== verification/Paging_Boot.thy ===== *)
theory Paging_Boot
  imports Paging_Facts
begin

text \<open>
  What the boot sequence, directory creation and the page-fault handler make of the
  mapping code: the identity map of the kernel, the heap window, sharing of the kernel's
  tables, and the page-fault path on a missing table.
\<close>

section \<open>map_region\<close>

lemma map_region_eq:
  "dir \<noteq> 0 \<Longrightarrow> map_region b e al dir st = map_virt_to_phys b e dir al 0 st"
  by (simp add: map_region_def)

text \<open>C10: \<^verbatim>\<open>map_region\<close> over a page-aligned region of \<open>n\<close> pages whose first page lies in an
  existing table, or is the first page of a missing one, reports \<open>n\<close> pages and makes the
  processor's page walk translate every page of the region to a frame that was free
  before, a different one for each page, while every other translation of the directory
  stays as it was.\<close>

theorem map_region_correct:
  assumes "paging_wf st dir" and "dir \<noteq> 0"
    and "unat start mod 4096 = 0" and "unat end = unat start + n * 4096"
    and "table_present st dir (page_no start) \<or> page_no start mod 1024 = 0"
    and "unat (primitive_heap st) + n * 0x2000 < 2 ^ 32"
    and "card (taken (frame_table st)) + n \<le> unat (ft_length (frame_table st))"
  shows "\<exists>fs st'. map_region start end StandartAllocator dir st = Inr (of_nat n, st')
     \<and> length fs = n \<and> distinct fs \<and> set fs \<inter> taken (frame_table st) = {}
     \<and> taken (frame_table st') = taken (frame_table st) \<union> set fs
     \<and> (\<forall>q < 2 ^ 20. mmu_walk st' dir q =
          (if page_no start \<le> q \<and> q < page_no start + n then Some (fs ! (q - page_no start))
           else mmu_walk st dir q))
     \<and> paging_wf st' dir"
proof -
  have ftwf: "ft_wf (frame_table st)"
    using assms(1) by (simp add: paging_wf_def)
  obtain fs ft' where g: "grab ft_pick ft_mark n (frame_table st) = Some (fs, ft')"
    using fs.grab_enough [OF ftwf, of n] assms(7) by (auto simp: add.commute)
  note gf = fs.grab_fresh [OF ftwf g]
  obtain st' where "map_virt_to_phys start end dir StandartAllocator 0 st = Inr (0 + of_nat n, st')"
      and "frame_table st' = ft'" and "region_mapped dir (page_no start) fs st st'"
    using map_virt_to_phys_maps [OF assms(1,6,3,4,5) g] by blast
  then show ?thesis
    using gf assms(2) by (intro exI [of _ fs] exI [of _ st']) (simp add: map_region_eq region_mapped_def)
qed

text \<open>A concrete machine for the witnesses: an empty directory, eight free frames.\<close>

definition sample_state :: paging_state where
  "sample_state =
     \<lparr>primitive_heap = 0x200000, page_tables = (\<lambda>_. zero_table),
      directories = (\<lambda>_. None)(0x100000 := Some zero_directory),
      current_directory = 0x100000, kernel_directory = 0x100000,
      kernel_size = 0, base_kernel_tables_size = 1,
      frame_table = fst (FrameTable_new 8 0), cr3 = 0, paging_enabled = False\<rparr>"

lemma sample_wf: "paging_wf sample_state 0x100000"
  using ft_wf_new [of 8 0]
  by (simp add: paging_wf_def directory_wf_def slot_ok_def sample_state_def zero_directory_def)
    (simp add: FrameTable_new_def)

lemma sample_taken: "taken (frame_table sample_state) = {}"
  by (simp add: sample_state_def taken_new)

lemma sample_length: "ft_length (frame_table sample_state) = 8"
  by (simp add: sample_state_def FrameTable_new_def)

theorem map_region_correct_witness:
  "\<exists>fs st'. map_region 0xA0000000 0xA0002000 StandartAllocator 0x100000 sample_state = Inr (of_nat 2, st')
     \<and> length fs = 2 \<and> distinct fs \<and> mmu_walk st' 0x100000 0xA0001 = Some (fs ! 1)"
proof -
  have "\<exists>fs st'. map_region 0xA0000000 0xA0002000 StandartAllocator 0x100000 sample_state = Inr (of_nat 2, st')
     \<and> length fs = 2 \<and> distinct fs \<and> set fs \<inter> taken (frame_table sample_state) = {}
     \<and> taken (frame_table st') = taken (frame_table sample_state) \<union> set fs
     \<and> (\<forall>q < 2 ^ 20. mmu_walk st' 0x100000 q =
          (if page_no 0xA0000000 \<le> q \<and> q < page_no 0xA0000000 + 2
           then Some (fs ! (q - page_no 0xA0000000)) else mmu_walk sample_state 0x100000 q))
     \<and> paging_wf st' 0x100000"
    by (rule map_region_correct [OF sample_wf])
      (simp_all add: sample_taken sample_length, simp_all add: sample_state_def page_no_def)
  then obtain fs st' where
      1: "map_region 0xA0000000 0xA0002000 StandartAllocator 0x100000 sample_state = Inr (of_nat 2, st')"
      "length fs = 2" "distinct fs"
    and 2: "\<forall>q < 2 ^ 20. mmu_walk st' 0x100000 q =
          (if page_no 0xA0000000 \<le> q \<and> q < page_no 0xA0000000 + 2
           then Some (fs ! (q - page_no 0xA0000000)) else mmu_walk sample_state 0x100000 q)"
    by blast
  have "mmu_walk st' 0x100000 0xA0001 = Some (fs ! 1)"
    using 2 by (simp add: page_no_def)
  with 1 show ?thesis by blast
qed

text \<open>When fewer frames are free than the region has pages, \<^verbatim>\<open>map_region\<close> ends in the
  kernel panic; it never returns with part of the region unmapped.\<close>

theorem map_region_out_of_frames:
  assumes "paging_wf st dir" and "dir \<noteq> 0"
    and "unat start mod 4096 = 0" and "unat end = unat start + n * 4096"
    and "table_present st dir (page_no start) \<or> page_no start mod 1024 = 0"
    and "unat (primitive_heap st) + n * 0x2000 < 2 ^ 32"
    and "unat (ft_length (frame_table st)) < card (taken (frame_table st)) + n"
  shows "map_region start end StandartAllocator dir st = Inl Kernel_Panic"
proof -
  have ftwf: "ft_wf (frame_table st)"
    using assms(1) by (simp add: paging_wf_def)
  have "grab ft_pick ft_mark n (frame_table st) = None"
  proof (rule ccontr)
    assume "grab ft_pick ft_mark n (frame_table st) \<noteq> None"
    then obtain fs ft' where g: "grab ft_pick ft_mark n (frame_table st) = Some (fs, ft')" by auto
    note gf = fs.grab_fresh [OF ftwf g]
    have fin: "finite (taken (frame_table st))"
      using taken_bound [OF ftwf] finite_subset by blast
    have "card (taken (frame_table st) \<union> set fs) = card (taken (frame_table st)) + n"
      using gf fin by (subst card_Un_disjoint) (auto simp: distinct_card)
    moreover have "card (taken (frame_table st) \<union> set fs) \<le> card {..< unat (ft_length (frame_table st))}"
      using gf taken_bound [OF ftwf] by (intro card_mono) auto
    ultimately show False using assms(7) by simp
  qed
  then show ?thesis
    using map_virt_to_phys_panics [OF assms(1,6,3,4,5)] assms(2) by (simp add: map_region_eq)
qed

theorem map_region_out_of_frames_witness:
  "map_region 0xA0000000 0xA0009000 StandartAllocator 0x100000 sample_state = Inl Kernel_Panic"
  by (rule map_region_out_of_frames [where n = 9, OF sample_wf])
    (simp_all add: sample_taken sample_length, simp_all add: sample_state_def page_no_def)

section \<open>The page-fault path\<close>

lemma page_align: "unat (va AND (- 0x1000) :: u32) = page_no va * 4096"
proof -
  have "(- 0x1000 :: u32) = NOT (mask 12)"
    by (simp add: mask_eq_exp_minus_1)
  then show ?thesis
    using unat_and_not_mask [of va 12] by (simp add: page_no_def)
qed

lemma map_one_page:
  assumes "map_page va dir StandartAllocator st = Inr st'" and "unat va mod 4096 = 0"
    and "unat va + 4096 < 2 ^ 32" and "dir \<noteq> 0"
  shows "map_region va (va + 0x1000) StandartAllocator dir st = Inr (1, st')"
proof -
  have "va + 0x1000 = va + PAGE_SIZE" by (simp add: PAGE_SIZE_def)
  moreover have "va < va + PAGE_SIZE"
    using next_page(1) [OF assms(2,3)] by (simp add: word_less_nat_alt)
  ultimately show ?thesis
    using assms(1,4) by (simp add: map_region_eq map_virt_to_phys.simps)
qed

text \<open>
  A fault in a missing table: the new table's entry 0 is filled, whatever page faulted.
\<close>

lemma map_page_missing_table:
  assumes wf: "paging_wf st dir" and room: "unat (primitive_heap st) + 0x2000 < 2 ^ 32"
    and absent: "\<not> table_present st dir (page_no va)" and pick: "ft_pick (frame_table st) = Some f"
  shows "\<exists>st'. map_page va dir StandartAllocator st = Inr st'
     \<and> mapped dir (page_no va div 1024 * 1024) f st st'"
proof -
  define base where "base = (of_nat (page_no va div 1024 * 1024 * 4096) :: u32)"
  have lt: "page_no va div 1024 * 1024 * 4096 < 2 ^ 32"
  proof -
    have "page_no va div 1024 * 1024 \<le> page_no va" by simp
    then have "page_no va div 1024 * 1024 < 1048576" using page_no_less [of va] by simp
    then show ?thesis by simp
  qed
  then have "unat base = page_no va div 1024 * 1024 * 4096"
    unfolding base_def by (intro unat_of_nat_no_wrap) simp
  then have pn: "page_no base = page_no va div 1024 * 1024"
    unfolding page_no_def [of base] by simp
  obtain d where d: "directories st dir = Some d"
    using wf by (auto simp: paging_wf_def)
  have zero: "pd_tables d ! (page_no va div 1024) = 0" "pd_tables d ! (page_no base div 1024) = 0"
    using absent d by (auto simp: table_present_def pn)
  have "map_page va dir StandartAllocator st = map_page base dir StandartAllocator st"
    unfolding map_page_def get_page_absent [OF d zero(1)] get_page_absent [OF d zero(2)] pn by simp
  then show ?thesis
    using map_page_mapped [OF wf room _ pick, of base] by (simp add: pn)
qed

text \<open>C22: A not-present fault at an address whose page table is missing is reported handled,
  one frame is spent, but unless the page is the first of its table the faulting page is
  still not mapped afterwards: the frame goes to the table's first page.\<close>

theorem page_fault_maps_wrong_page:
  assumes "paging_wf st dir" and "dir \<noteq> 0" and "unat (primitive_heap st) + 0x2000 < 2 ^ 32"
    and "\<not> table_present st dir (page_no va)" and "page_no va mod 1024 \<noteq> 0"
    and "ft_pick (frame_table st) = Some f" and "\<not> bit err 0" and "page_no va < 2 ^ 20 - 1"
  shows "\<exists>st'. page_fault_handler err va (Some dir) st = Inr st'
     \<and> mmu_walk st' dir (page_no va) = None
     \<and> mmu_walk st' dir (page_no va div 1024 * 1024) = Some f
     \<and> taken (frame_table st') = insert f (taken (frame_table st))"
proof -
  let ?base = "va AND (- 0x1000)"
  have base: "unat ?base = page_no va * 4096" by (rule page_align)
  then have pn: "page_no ?base = page_no va" by (simp add: page_no_def)
  obtain st' where st': "map_page ?base dir StandartAllocator st = Inr st'"
      and m: "mapped dir (page_no va div 1024 * 1024) f st st'"
    using map_page_missing_table [OF assms(1,3) _ assms(6), of ?base] assms(4) by (auto simp: pn)
  have "map_region ?base (?base + 0x1000) StandartAllocator dir st = Inr (1, st')"
    using st' base assms(2,8) by (intro map_one_page) simp_all
  then have h: "page_fault_handler err va (Some dir) st = Inr st'"
    using assms(7) by (simp add: page_fault_handler_def Let_def)
  have ftwf: "ft_wf (frame_table st)"
    using assms(1) by (simp add: paging_wf_def)
  have f: "f < unat (ft_length (frame_table st))"
    using ft_pick_SomeD [OF ftwf assms(6)] by metis
  obtain d where d: "directories st dir = Some d" "directory_wf st d"
    using assms(1) by (auto simp: paging_wf_def)
  have old: "mmu_walk st dir (page_no va) = None"
    using mmu_walk_table [OF d page_no_less] assms(4) d(1) by (simp add: table_present_def)
  have "page_no va \<noteq> page_no va div 1024 * 1024"
    using assms(5) by (metis mod_mult_self2_is_0)
  moreover have "page_no va div 1024 * 1024 < 2 ^ 20"
    using page_no_less [of va] by (metis div_times_less_eq_dividend order.strict_trans1)
  ultimately show ?thesis
    using h m old page_no_less [of va] ft_mark_props(2) [OF ftwf f] by (auto simp: mapped_def)
qed

theorem page_fault_maps_wrong_page_witness:
  "\<exists>st'. page_fault_handler 0 0xD0003123 (Some 0x100000) sample_state = Inr st'
     \<and> mmu_walk st' 0x100000 0xD0003 = None"
proof -
  have pick: "ft_pick (frame_table sample_state) = Some 0"
    using ft_pick_least [of "frame_table sample_state" 0] sample_taken sample_wf
    by (simp add: paging_wf_def sample_length)
  have "\<exists>st'. page_fault_handler 0 0xD0003123 (Some 0x100000) sample_state = Inr st'
     \<and> mmu_walk st' 0x100000 (page_no 0xD0003123) = None
     \<and> mmu_walk st' 0x100000 (page_no 0xD0003123 div 1024 * 1024) = Some 0
     \<and> taken (frame_table st') = insert 0 (taken (frame_table sample_state))"
    by (rule page_fault_maps_wrong_page [OF sample_wf _ _ _ _ pick])
      (simp_all add: sample_state_def page_no_def table_present_def zero_directory_def)
  then show ?thesis by (auto simp: page_no_def)
qed

lemma mmu_walk_empty:
  assumes "directories st dir = Some zero_directory" and "q < 2 ^ 20"
  shows "mmu_walk st dir q = None"
  using assms by (simp add: mmu_walk_def zero_directory_def)

text \<open>C21: Where the page table of the faulting address exists, a not-present fault maps
  exactly the faulting page, to a frame that was free.\<close>

theorem page_fault_maps_page:
  assumes "paging_wf st dir" and "dir \<noteq> 0" and "unat (primitive_heap st) + 0x2000 < 2 ^ 32"
    and "table_present st dir (page_no va)"
    and "ft_pick (frame_table st) = Some f" and "\<not> bit err 0" and "page_no va < 2 ^ 20 - 1"
  shows "\<exists>st'. page_fault_handler err va (Some dir) st = Inr st'
     \<and> (\<forall>q < 2 ^ 20. mmu_walk st' dir q = (if q = page_no va then Some f else mmu_walk st dir q))
     \<and> f \<notin> taken (frame_table st)"
proof -
  let ?base = "va AND (- 0x1000)"
  have base: "unat ?base = page_no va * 4096" by (rule page_align)
  then have pn: "page_no ?base = page_no va" by (simp add: page_no_def)
  obtain st' where st': "map_page ?base dir StandartAllocator st = Inr st'"
      and m: "mapped dir (page_no va) f st st'"
    using map_page_mapped [OF assms(1,3) _ assms(5), of ?base] assms(4) by (auto simp: pn)
  have "map_region ?base (?base + 0x1000) StandartAllocator dir st = Inr (1, st')"
    using st' base assms(2,7) by (intro map_one_page) simp_all
  then have h: "page_fault_handler err va (Some dir) st = Inr st'"
    using assms(6) by (simp add: page_fault_handler_def Let_def)
  have "f \<notin> taken (frame_table st)"
    using ft_pick_SomeD [OF _ assms(5)] assms(1) by (metis paging_wf_def)
  with h m show ?thesis by (auto simp: mapped_def)
qed

theorem page_fault_maps_page_witness:
  "\<exists>st st'. mmu_walk st 0x100000 3 = None \<and> page_fault_handler 0 0x3123 (Some 0x100000) st = Inr st'
     \<and> mmu_walk st' 0x100000 3 = Some 1"
proof -
  have pick: "ft_pick (frame_table sample_state) = Some 0"
    using ft_pick_least [of "frame_table sample_state" 0] sample_taken sample_wf
    by (simp add: paging_wf_def sample_length)
  have ftwf: "ft_wf (frame_table sample_state)" using sample_wf by (simp add: paging_wf_def)
  have "\<exists>st. map_page 0 0x100000 StandartAllocator sample_state = Inr st
      \<and> mapped 0x100000 (page_no 0) 0 sample_state st"
    by (rule map_page_mapped [OF sample_wf _ _ pick]) (simp_all add: sample_state_def page_no_def)
  then obtain st where m: "mapped 0x100000 0 0 sample_state st" by (auto simp: page_no_def)
  then have wf: "paging_wf st 0x100000" and ft: "frame_table st = ft_mark 0 (frame_table sample_state)"
    and heap: "unat (primitive_heap st) + 0x2000 < 2 ^ 32"
    by (simp_all add: mapped_def) (simp add: mapped_def sample_state_def)
  have "table_present st 0x100000 (page_no 0x3123)"
    using m by (auto simp: mapped_def table_present_def page_no_def)
  moreover have "ft_pick (frame_table st) = Some 1"
    using ft_pick_least [where ft = "frame_table st" and k = 1] ft_mark_props [OF ftwf, where i = 0]
    by (simp add: ft sample_taken sample_length lessThan_Suc)
  moreover have "mmu_walk st 0x100000 3 = None"
    using m mmu_walk_empty [where st = sample_state and dir = "0x100000" and q = 3] by (simp add: mapped_def sample_state_def)
  ultimately show ?thesis
    using page_fault_maps_page [OF wf _ heap, where va = "0x3123" and f = 1 and err = 0]
    by (fastforce simp: page_no_def)
qed

section \<open>Boot\<close>

lemma directory_wf_zero: "directory_wf st zero_directory"
  by (simp add: directory_wf_def slot_ok_def zero_directory_def)

text \<open>Mapping a region from a frame table that has handed out exactly its first \<open>k\<close> frames.\<close>

lemma map_region_in_order:
  assumes "paging_wf st dir" and "dir \<noteq> 0"
    and "unat b mod 4096 = 0" and "unat e = unat b + n * 4096" and "page_no b mod 1024 = 0"
    and "unat (primitive_heap st) + n * 0x2000 < 2 ^ 32"
    and "taken (frame_table st) = {..< k}" and "k + n \<le> unat (ft_length (frame_table st))"
  shows "\<exists>st'. map_region b e StandartAllocator dir st = Inr (of_nat n, st')
     \<and> paging_wf st' dir \<and> taken (frame_table st') = {..< k + n}
     \<and> ft_length (frame_table st') = ft_length (frame_table st)
     \<and> (\<forall>q < 2 ^ 20. mmu_walk st' dir q =
          (if page_no b \<le> q \<and> q < page_no b + n then Some (k + (q - page_no b)) else mmu_walk st dir q))
     \<and> unat (primitive_heap st') \<le> unat (primitive_heap st) + n * 0x2000
     \<and> unat (primitive_heap st) \<le> unat (primitive_heap st')"
proof -
  have ftwf: "ft_wf (frame_table st)"
    using assms(1) by (simp add: paging_wf_def)
  obtain ft' where g: "grab ft_pick ft_mark n (frame_table st) = Some ([k ..< k + n], ft')"
      and ft': "taken ft' = {..< k + n}" "ft_length ft' = ft_length (frame_table st)"
    using grab_in_order [OF ftwf assms(7,8)] by blast
  obtain st' where "map_virt_to_phys b e dir StandartAllocator 0 st = Inr (0 + of_nat n, st')"
      and "frame_table st' = ft'" and "region_mapped dir (page_no b) [k ..< k + n] st st'"
    using map_virt_to_phys_maps [OF assms(1,6,3,4) disjI2 [OF assms(5)] g] by blast
  then show ?thesis
    using ft' assms(2)
    by (intro exI [of _ st']) (auto simp: map_region_eq region_mapped_def)
qed

lemma map_virt_to_phys_frame:
  assumes "map_virt_to_phys va e dir al c st = Inr (n, st')"
  shows "current_directory st' = current_directory st \<and> kernel_directory st' = kernel_directory st
     \<and> base_kernel_tables_size st' = base_kernel_tables_size st \<and> paging_enabled st' = paging_enabled st
     \<and> (\<forall>d. d \<noteq> dir \<longrightarrow> directories st' d = directories st d)
     \<and> (\<forall>t. length (page_tables st t) = 1024 \<longrightarrow> length (page_tables st' t) = 1024)"
  using assms
proof (induction va e dir al c st rule: map_virt_to_phys.induct)
  case (1 va e dir al c st)
  show ?case
  proof (cases "va < e")
    case False
    then show ?thesis using "1.prems" by (simp add: map_virt_to_phys.simps)
  next
    case True
    then obtain st1 where st1: "map_page va dir al st = Inr st1"
        and "map_virt_to_phys (va + PAGE_SIZE) e dir al (c + 1) st1 = Inr (n, st')"
      using "1.prems" by (subst (asm) map_virt_to_phys.simps) (auto split: sum.splits)
    note IH = "1.IH" [OF True st1 this(2)]
    have "current_directory st1 = current_directory st \<and> kernel_directory st1 = kernel_directory st
       \<and> base_kernel_tables_size st1 = base_kernel_tables_size st \<and> paging_enabled st1 = paging_enabled st
       \<and> (\<forall>d. d \<noteq> dir \<longrightarrow> directories st1 d = directories st d)
       \<and> (\<forall>t. length (page_tables st t) = 1024 \<longrightarrow> length (page_tables st1 t) = 1024)"
      using st1 by (auto simp: map_page_def get_page_def write_page_def zero_table_def and_then_Inr_iff Let_def
          split: if_splits option.splits prod.splits)
    with IH show ?thesis by simp
  qed
qed

text \<open>A table that a directory has stays where it is.\<close>

lemma map_virt_to_phys_tables:
  assumes "map_virt_to_phys va e dir al c st = Inr (n, st')" and "directories st dir = Some d"
  shows "\<exists>d'. directories st' dir = Some d' \<and> (\<forall>i. pd_tables d ! i \<noteq> 0 \<longrightarrow>
     pd_tables d' ! i = pd_tables d ! i \<and> pd_table_addresses d' ! i = pd_table_addresses d ! i)"
  using assms
proof (induction va e dir al c st arbitrary: d rule: map_virt_to_phys.induct)
  case (1 va e dir al c st)
  show ?case
  proof (cases "va < e")
    case False
    then show ?thesis using "1.prems" by (simp add: map_virt_to_phys.simps)
  next
    case True
    then obtain st1 where st1: "map_page va dir al st = Inr st1"
        and rest: "map_virt_to_phys (va + PAGE_SIZE) e dir al (c + 1) st1 = Inr (n, st')"
      using "1.prems" by (subst (asm) map_virt_to_phys.simps) (auto split: sum.splits)
    have "\<exists>d1. directories st1 dir = Some d1 \<and> (\<forall>i. pd_tables d ! i \<noteq> 0 \<longrightarrow>
       pd_tables d1 ! i = pd_tables d ! i \<and> pd_table_addresses d1 ! i = pd_table_addresses d ! i)"
      using st1 "1.prems"(2) by (auto simp: map_page_def get_page_def write_page_def and_then_Inr_iff Let_def
          intro!: nth_list_update_neq split: if_splits option.splits prod.splits)
    then obtain d1 where d1: "directories st1 dir = Some d1" "\<forall>i. pd_tables d ! i \<noteq> 0 \<longrightarrow>
       pd_tables d1 ! i = pd_tables d ! i \<and> pd_table_addresses d1 ! i = pd_table_addresses d ! i" by blast
    show ?thesis using "1.IH" [OF True st1 rest d1(1)] d1(2) by auto
  qed
qed

text \<open>What boot leaves for the page walk to find.\<close>

definition boot_walk :: "nat \<Rightarrow> nat option" where
  "boot_walk q = (if q < 512 then Some q
     else if 0xC0000 \<le> q \<and> q < 0xC1000 then Some (512 + (q - 0xC0000)) else None)"

lemma boot_constants:
  "page_no 0 = 0" "page_no K_HEAP_START = 0xC0000"
  "unat K_MAPPED_REGION = 0x200000" "unat K_HEAP_START = 0xC0000000"
  "unat (K_HEAP_START + K_HEAP_INITIAL_SIZE) = 0xC1000000" "unat number_of_frames = 40960"
  "number_of_frames = 40960" "num_kernel_tables 512 = 1"
  by (simp_all add: page_no_def K_HEAP_START_def K_MAPPED_REGION_def K_HEAP_INITIAL_SIZE_def
      number_of_frames_def K_PHYSICAL_MEM_SIZE_def FRAME_SIZE_def PAGE_SIZE_def
      num_kernel_tables_def PAGE_TABLE_SIZE_def)

lemma Allocate_room:
  assumes "unat heap + unat n + 0x1000 \<le> 2 ^ 32 - 1"
  shows "unat heap \<le> unat (aligned_top heap)"
    and "unat (aligned_top heap + n) = unat (aligned_top heap) + unat n"
    and "unat (aligned_top heap) < unat heap + 0x1000"
  using Allocate_bounds [OF assms Allocate_aligned] by simp_all

text \<open>The two mapping calls of the boot sequence, from a fresh kernel directory.\<close>

lemma boot_regions:
  assumes "paging_wf st ker" and "ker \<noteq> 0" and "directories st ker = Some zero_directory"
    and "taken (frame_table st) = {}" and "unat (ft_length (frame_table st)) = 40960"
    and "unat (primitive_heap st) \<le> 0x20000000"
  shows "\<exists>st2 st4. map_region 0 K_MAPPED_REGION StandartAllocator ker st = Inr (512, st2)
     \<and> map_region K_HEAP_START (K_HEAP_START + K_HEAP_INITIAL_SIZE) StandartAllocator ker
          (st2\<lparr>base_kernel_tables_size := 1\<rparr>) = Inr (4096, st4)
     \<and> paging_wf st4 ker \<and> taken (frame_table st4) = {..< 4608}
     \<and> (\<forall>q < 2 ^ 20. mmu_walk st4 ker q = boot_walk q)
     \<and> current_directory st4 = current_directory st \<and> kernel_directory st4 = kernel_directory st
     \<and> base_kernel_tables_size st4 = 1 \<and> ft_length (frame_table st4) = ft_length (frame_table st)
     \<and> unat (primitive_heap st4) \<le> unat (primitive_heap st) + 4608 * 0x2000
     \<and> unat (primitive_heap st) \<le> unat (primitive_heap st4)"
proof -
  obtain st2 where m1: "map_region 0 K_MAPPED_REGION StandartAllocator ker st = Inr (of_nat 512, st2)"
      and wf2: "paging_wf st2 ker" and tk2: "taken (frame_table st2) = {..< 0 + 512}"
      and fl2: "ft_length (frame_table st2) = ft_length (frame_table st)"
      and w2: "\<forall>q < 2 ^ 20. mmu_walk st2 ker q =
          (if page_no 0 \<le> q \<and> q < page_no 0 + 512 then Some (0 + (q - page_no 0)) else mmu_walk st ker q)"
      and h2: "unat (primitive_heap st2) \<le> unat (primitive_heap st) + 512 * 0x2000"
        "unat (primitive_heap st) \<le> unat (primitive_heap st2)"
    using map_region_in_order [OF assms(1,2), of 0 K_MAPPED_REGION 512 0] assms(4-6)
    by (auto simp: boot_constants lessThan_empty_iff)
  let ?st3 = "st2\<lparr>base_kernel_tables_size := 1\<rparr>"
  have wf3: "paging_wf ?st3 ker"
    using wf2 paging_wf_cong [of ?st3 ker st2 ker] by simp
  obtain st4 where m2: "map_region K_HEAP_START (K_HEAP_START + K_HEAP_INITIAL_SIZE) StandartAllocator ker ?st3
          = Inr (of_nat 4096, st4)"
      and wf4: "paging_wf st4 ker" and tk4: "taken (frame_table st4) = {..< 512 + 4096}"
      and w4: "\<forall>q < 2 ^ 20. mmu_walk st4 ker q =
          (if page_no K_HEAP_START \<le> q \<and> q < page_no K_HEAP_START + 4096
           then Some (512 + (q - page_no K_HEAP_START)) else mmu_walk ?st3 ker q)"
      and fl4: "ft_length (frame_table st4) = ft_length (frame_table ?st3)"
      and h4: "unat (primitive_heap st4) \<le> unat (primitive_heap ?st3) + 4096 * 0x2000"
        "unat (primitive_heap ?st3) \<le> unat (primitive_heap st4)"
    using map_region_in_order [OF wf3 assms(2), of K_HEAP_START "K_HEAP_START + K_HEAP_INITIAL_SIZE" 4096 512]
      h2 assms(6) tk2 fl2 assms(5)
    by (auto simp: boot_constants)
  have w3: "mmu_walk ?st3 ker = mmu_walk st2 ker"
    by (rule mmu_walk_cong) simp_all
  have w1: "mmu_walk st ker q = None" if "q < 2 ^ 20" for q
    using that assms(3) by (intro mmu_walk_empty)
  have "mmu_walk st4 ker q = boot_walk q" if "q < 2 ^ 20" for q
    using that w4 w2 w1 [OF that] by (simp add: w3 boot_walk_def boot_constants)
  then show ?thesis
    using m1 m2 wf4 tk4 fl2 fl4 h2 h4 map_virt_to_phys_frame [OF m1 [unfolded map_region_eq [OF assms(2)]]]
      map_virt_to_phys_frame [OF m2 [unfolded map_region_eq [OF assms(2)]]]
    by (intro exI [of _ st2] exI [of _ st4]) simp
qed

text \<open>The three allocations at the start of it.\<close>

lemma boot_allocations:
  assumes "0 < unat h" and "unat h \<le> 0x10000000"
  defines "cur \<equiv> aligned_top h" and "ker \<equiv> aligned_top (aligned_top h + 8192)"
    and "arr \<equiv> aligned_top (aligned_top (aligned_top h + 8192) + 8192)"
  shows "ker \<noteq> 0" and "cur \<noteq> ker" and "0 < unat (arr + 40960)" and "unat (arr + 40960) \<le> 0x20000000"
    and "unat cur < unat (arr + 40960)" and "unat ker < unat (arr + 40960)"
proof -
  have 1: "unat h \<le> unat cur" "unat (cur + 8192) = unat cur + 8192" "unat cur < unat h + 0x1000"
    using Allocate_room [of h 8192] assms(2) by (simp_all add: cur_def)
  have 2: "unat cur + 8192 \<le> unat ker" "unat (ker + 8192) = unat ker + 8192"
      "unat ker < unat cur + 8192 + 0x1000"
    using Allocate_room [of "cur + 8192" 8192] assms(2) 1 by (simp_all add: ker_def cur_def)
  have 3: "unat ker + 8192 \<le> unat arr" "unat (arr + 40960) = unat arr + 40960"
      "unat arr < unat ker + 8192 + 0x1000"
    using Allocate_room [of "ker + 8192" 40960] assms(2) 1 2 by (simp_all add: arr_def ker_def)
  show "ker \<noteq> 0" and "cur \<noteq> ker" using 1 2 assms(1) by auto
  show "0 < unat (arr + 40960)" and "unat (arr + 40960) \<le> 0x20000000"
    and "unat cur < unat (arr + 40960)" and "unat ker < unat (arr + 40960)"
    using 1 2 3 assms(2) by linarith+
qed

lemma paging_Initialize_state:
  assumes "0 < unat (primitive_heap st)" and "unat (primitive_heap st) \<le> 0x10000000"
  shows "\<exists>st'. paging_Initialize True st = Inr (4608, st')
     \<and> (\<forall>q < 2 ^ 20. mmu_walk st' (kernel_directory st') q = boot_walk q
                  \<and> mmu_walk st' (current_directory st') q = boot_walk q)
     \<and> paging_wf st' (kernel_directory st') \<and> paging_enabled st'
     \<and> cr3 st' = current_directory st' + 4096 \<and> current_directory st' \<noteq> kernel_directory st'
     \<and> base_kernel_tables_size st' = 1 \<and> taken (frame_table st') = {..< 4608}
     \<and> kernel_directory st' \<noteq> 0 \<and> unat (ft_length (frame_table st')) = 40960
     \<and> unat (primitive_heap st') \<le> 0x30000000
     \<and> directories st' (current_directory st') = directories st' (kernel_directory st')
     \<and> unat (current_directory st') < unat (primitive_heap st') \<and> unat (kernel_directory st') < unat (primitive_heap st')"
proof -
  define cur where "cur = aligned_top (primitive_heap st)"
  define ker where "ker = aligned_top (cur + 8192)"
  define arr where "arr = aligned_top (ker + 8192)"
  define ft where "ft = fst (FrameTable_new number_of_frames (ker + 8192))"
  note addr = boot_allocations [OF assms, folded cur_def, folded ker_def, folded arr_def]
  let ?st1 = "st\<lparr>current_directory := cur, kernel_directory := ker,
                directories := (directories st)(ker := Some zero_directory),
                frame_table := ft, primitive_heap := arr + 40960, kernel_size := arr + 40960\<rparr>"
  have ftn: "FrameTable_new number_of_frames (ker + 8192) = (ft, arr + 40960)"
    by (simp add: ft_def FrameTable_new_def Allocate_aligned arr_def boot_constants)
  have tk0: "taken ft = {}" and ftl: "unat (ft_length ft) = 40960" and ftwf: "ft_wf ft"
    using taken_new ft_wf_new by (simp_all add: ft_def) (simp add: FrameTable_new_def boot_constants)
  have wf1: "paging_wf ?st1 ker"
    using ftwf ftl addr by (simp add: paging_wf_def directory_wf_zero)
  obtain st2 st4 where m1: "map_region 0 K_MAPPED_REGION StandartAllocator ker ?st1 = Inr (512, st2)"
      and m2: "map_region K_HEAP_START (K_HEAP_START + K_HEAP_INITIAL_SIZE) StandartAllocator ker
          (st2\<lparr>base_kernel_tables_size := 1\<rparr>) = Inr (4096, st4)"
      and wf4: "paging_wf st4 ker" and tk4: "taken (frame_table st4) = {..< 4608}"
      and walk: "\<forall>q < 2 ^ 20. mmu_walk st4 ker q = boot_walk q"
      and keep: "current_directory st4 = cur" "kernel_directory st4 = ker" "base_kernel_tables_size st4 = 1"
        "unat (ft_length (frame_table st4)) = 40960" "unat (primitive_heap st4) \<le> 0x30000000"
        "unat cur < unat (primitive_heap st4)" "unat ker < unat (primitive_heap st4)"
    using boot_regions [OF wf1] addr tk0 ftl by auto
  let ?st5 = "enable_paging (SetDirectory cur (SetDirectory ker
      (st4\<lparr>directories := (directories st4)(cur := directories st4 ker)\<rparr>)))"
  have init: "paging_Initialize True st = Inr (4608, ?st5)"
    using m1 m2 ftn
    by (simp add: paging_Initialize_def Allocate_aligned SIZEOF_PAGE_DIRECTORY_def Let_def
        boot_constants flip: cur_def ker_def)
  have "mmu_walk ?st5 ker = mmu_walk st4 ker" and "mmu_walk ?st5 cur = mmu_walk st4 ker"
    using addr by (auto intro!: mmu_walk_cong simp: enable_paging_def SetDirectory_def)
  moreover have "paging_wf ?st5 ker"
    using wf4 addr paging_wf_cong [of ?st5 ker st4 ker] by (simp add: enable_paging_def SetDirectory_def)
  moreover have "directories ?st5 cur = directories ?st5 ker"
    using addr(2) by (simp add: enable_paging_def SetDirectory_def)
  moreover have "kernel_directory ?st5 = ker" "current_directory ?st5 = cur" "base_kernel_tables_size ?st5 = 1"
      "paging_enabled ?st5" "cr3 ?st5 = cur + 4096" "frame_table ?st5 = frame_table st4"
      "primitive_heap ?st5 = primitive_heap st4"
    using keep by (simp_all add: enable_paging_def SetDirectory_def)
  ultimately show ?thesis
    using init walk tk4 addr(1,2) keep(4-7) by (intro exI [of _ ?st5]) simp
qed

text \<open>C11: With a mapping for the heap, paging initialisation returns with 4608 pages created.
  Both the kernel directory and its copy, which \<^verbatim>\<open>cr3\<close> ends up pointing at, translate the
  first two megabytes to themselves and the 16 MB heap window at \<^verbatim>\<open>0xC0000000\<close> to the
  frames from 512 on, and translate nothing else; paging is on, and exactly the first 4608
  frames are taken.\<close>

theorem paging_Initialize_maps:
  assumes "0 < unat (primitive_heap st)" and "unat (primitive_heap st) \<le> 0x10000000"
  shows "\<exists>st'. paging_Initialize True st = Inr (4608, st')
     \<and> (\<forall>q < 2 ^ 20. mmu_walk st' (kernel_directory st') q = boot_walk q
                  \<and> mmu_walk st' (current_directory st') q = boot_walk q)
     \<and> paging_wf st' (kernel_directory st') \<and> paging_enabled st'
     \<and> cr3 st' = current_directory st' + 4096 \<and> current_directory st' \<noteq> kernel_directory st'
     \<and> base_kernel_tables_size st' = 1 \<and> taken (frame_table st') = {..< 4608}"
  using paging_Initialize_state [OF assms] by blast

theorem paging_Initialize_maps_witness:
  "\<exists>st'. paging_Initialize True sample_state = Inr (4608, st')
     \<and> mmu_walk st' (kernel_directory st') 5 = Some 5
     \<and> mmu_walk st' (current_directory st') 0xC0FFF = Some 4607"
proof -
  have "0 < unat (primitive_heap sample_state)" "unat (primitive_heap sample_state) \<le> 0x10000000"
    by (simp_all add: sample_state_def)
  from paging_Initialize_maps [OF this] obtain st' where
      "paging_Initialize True sample_state = Inr (4608, st')"
      "\<forall>q < 2 ^ 20. mmu_walk st' (kernel_directory st') q = boot_walk q
                  \<and> mmu_walk st' (current_directory st') q = boot_walk q"
    by blast
  then show ?thesis by (intro exI [of _ st']) (simp add: boot_walk_def)
qed

section \<open>Process directories\<close>

definition region_pages :: "u32 \<times> u32 \<Rightarrow> nat set" where
  "region_pages r = {page_no (fst r) ..< page_no (fst r) + (unat (snd r) - unat (fst r)) div 4096}"

definition region_count :: "(u32 \<times> u32) list \<Rightarrow> nat" where
  "region_count ms = (\<Sum>r\<leftarrow>ms. (unat (snd r) - unat (fst r)) div 4096)"

text \<open>A region that starts at a table boundary and ends at a page boundary.\<close>

definition region_ok :: "u32 \<times> u32 \<Rightarrow> bool" where
  "region_ok r \<longleftrightarrow> unat (fst r) mod 0x400000 = 0 \<and> unat (snd r) mod 4096 = 0 \<and> fst r \<le> snd r"

lemma region_okD:
  assumes "region_ok (b, e)"
  shows "unat b mod 4096 = 0" and "page_no b mod 1024 = 0"
    and "unat e = unat b + (unat e - unat b) div 4096 * 4096"
proof -
  have b: "unat b mod (1024 * 4096) = 0" and e: "unat e mod 4096 = 0" and le: "unat b \<le> unat e"
    using assms by (simp_all add: region_ok_def word_le_nat_alt)
  show b': "unat b mod 4096 = 0"
    using b by (metis dvd_eq_mod_eq_0 dvd_mult_right)
  show "page_no b mod 1024 = 0"
    using b by (auto simp: page_no_def elim!: dvdE dest!: mod_0_imp_dvd)
  have "(unat e - unat b) mod 4096 = 0"
    using b' e le by (metis dvd_diff_nat dvd_eq_mod_eq_0)
  then show "unat e = unat b + (unat e - unat b) div 4096 * 4096"
    using le div_mult_mod_eq [of "unat e - unat b" 4096] by linarith
qed

lemma map_regions_maps:
  assumes "paging_wf st dir" and "dir \<noteq> 0" and "\<forall>r \<in> set ms. region_ok r"
    and "unat (primitive_heap st) + region_count ms * 0x2000 < 2 ^ 32"
    and "card (taken (frame_table st)) + region_count ms \<le> unat (ft_length (frame_table st))"
  shows "\<exists>st'. map_regions ms dir st = Inr st' \<and> paging_wf st' dir
     \<and> (\<forall>q < 2 ^ 20. q \<notin> \<Union> (region_pages ` set ms) \<longrightarrow> mmu_walk st' dir q = mmu_walk st dir q)
     \<and> (\<forall>q \<in> \<Union> (region_pages ` set ms). q < 2 ^ 20 \<longrightarrow>
          (\<exists>f. mmu_walk st' dir q = Some f \<and> f \<notin> taken (frame_table st) \<and> f \<in> taken (frame_table st')))
     \<and> inj_on (mmu_walk st' dir) (\<Union> (region_pages ` set ms) \<inter> {..< 2 ^ 20})
     \<and> taken (frame_table st) \<subseteq> taken (frame_table st')
     \<and> card (taken (frame_table st')) = card (taken (frame_table st)) + region_count ms
     \<and> unat (ft_length (frame_table st')) = unat (ft_length (frame_table st))
     \<and> unat (primitive_heap st) \<le> unat (primitive_heap st')
     \<and> unat (primitive_heap st') \<le> unat (primitive_heap st) + region_count ms * 0x2000"
  using assms
proof (induction ms arbitrary: st)
  case Nil
  then show ?case by (simp add: region_count_def)
next
  case (Cons r ms)
  obtain b e where r: "r = (b, e)" by force
  let ?n = "(unat e - unat b) div 4096"
  have rok: "region_ok (b, e)" using Cons.prems(3) r by simp
  note ok = region_okD [OF rok]
  have count: "region_count (r # ms) = ?n + region_count ms"
    by (simp add: region_count_def r)
  have ftwf: "ft_wf (frame_table st)"
    using Cons.prems(1) by (simp add: paging_wf_def)
  obtain fs ft' where g: "grab ft_pick ft_mark ?n (frame_table st) = Some (fs, ft')"
    using fs.grab_enough [OF ftwf, of ?n] Cons.prems(5) count by (auto simp: add.commute)
  note gf = fs.grab_fresh [OF ftwf g]
  have room: "unat (primitive_heap st) + ?n * 0x2000 < 2 ^ 32"
    using Cons.prems(4) count by simp
  obtain st1 where m: "map_virt_to_phys b e dir StandartAllocator 0 st = Inr (0 + of_nat ?n, st1)"
      and f1: "frame_table st1 = ft'" and r1: "region_mapped dir (page_no b) fs st st1"
    using map_virt_to_phys_maps [OF Cons.prems(1) room ok(1,3) disjI2 [OF ok(2)] g] by blast
  have fin: "finite (taken (frame_table st))"
    using taken_bound [OF ftwf] by (rule finite_subset) simp
  have card: "card (taken (frame_table st1)) = card (taken (frame_table st)) + ?n"
    using gf fin f1 by (simp add: card_Un_disjoint distinct_card Int_commute)
  have heap: "unat (primitive_heap st) \<le> unat (primitive_heap st1)"
      "unat (primitive_heap st1) \<le> unat (primitive_heap st) + ?n * 0x2000"
    using r1 gf by (simp_all add: region_mapped_def)
  have "paging_wf st1 dir" and "unat (primitive_heap st1) + region_count ms * 0x2000 < 2 ^ 32"
    using r1 Cons.prems(4) count gf by (simp_all add: region_mapped_def)
  then obtain st' where st': "map_regions ms dir st1 = Inr st'" "paging_wf st' dir"
      and out: "\<forall>q < 2 ^ 20. q \<notin> \<Union> (region_pages ` set ms) \<longrightarrow> mmu_walk st' dir q = mmu_walk st1 dir q"
      and ins: "\<forall>q \<in> \<Union> (region_pages ` set ms). q < 2 ^ 20 \<longrightarrow>
          (\<exists>f. mmu_walk st' dir q = Some f \<and> f \<notin> taken (frame_table st1) \<and> f \<in> taken (frame_table st'))"
      and inj: "inj_on (mmu_walk st' dir) (\<Union> (region_pages ` set ms) \<inter> {..< 2 ^ 20})"
      and tk: "taken (frame_table st1) \<subseteq> taken (frame_table st')"
      and n': "card (taken (frame_table st')) = card (taken (frame_table st1)) + region_count ms"
        "unat (ft_length (frame_table st')) = unat (ft_length (frame_table st1))"
        "unat (primitive_heap st1) \<le> unat (primitive_heap st')"
        "unat (primitive_heap st') \<le> unat (primitive_heap st1) + region_count ms * 0x2000"
    using Cons.IH [of st1] Cons.prems(2,3,5) card count gf f1 by auto
  have pages: "region_pages r = {page_no b ..< page_no b + ?n}"
    by (simp add: region_pages_def r)
  have w1: "q < 2 ^ 20 \<Longrightarrow> mmu_walk st1 dir q =
      (if q \<in> region_pages r then Some (fs ! (q - page_no b)) else mmu_walk st dir q)" for q
    using r1 gf by (auto simp: region_mapped_def pages)
  have "fs ! (q - page_no b) \<in> set fs" if "q \<in> region_pages r" for q
    using that gf by (intro nth_mem) (auto simp: pages)
  then have fresh: "q \<in> region_pages r \<Longrightarrow> fs ! (q - page_no b) \<notin> taken (frame_table st)
      \<and> fs ! (q - page_no b) \<in> taken (frame_table st')" for q
    using gf f1 tk by blast
  have "map_regions (r # ms) dir st = Inr st'"
    using m st' Cons.prems(2) by (simp add: r map_region_eq)
  moreover have "taken (frame_table st) \<subseteq> taken (frame_table st1)"
    using gf f1 by simp
  moreover have "\<exists>f. mmu_walk st' dir q = Some f \<and> f \<notin> taken (frame_table st) \<and> f \<in> taken (frame_table st')"
    if "q \<in> \<Union> (region_pages ` set (r # ms))" "q < 2 ^ 20" for q
  proof (cases "q \<in> \<Union> (region_pages ` set ms)")
    case True
    then show ?thesis
      using ins that(2) calculation(2) by blast
  next
    case False
    then have "q \<in> region_pages r" using that(1) by simp
    then show ?thesis
      using out w1 [OF that(2)] fresh that(2) False by simp
  qed
  moreover have "mmu_walk st' dir q = mmu_walk st dir q"
    if "q < 2 ^ 20" "q \<notin> \<Union> (region_pages ` set (r # ms))" for q
    using out w1 [OF that(1)] that by simp
  moreover have "taken (frame_table st) \<subseteq> taken (frame_table st')"
    using calculation(2) tk by (rule subset_trans)
  moreover have "inj_on (mmu_walk st' dir) (\<Union> (region_pages ` set (r # ms)) \<inter> {..< 2 ^ 20})"
  proof -
    have here: "mmu_walk st' dir q = Some (fs ! (q - page_no b)) \<and> q - page_no b < length fs \<and> page_no b \<le> q
        \<and> fs ! (q - page_no b) \<in> taken (frame_table st1)"
      if "q \<in> region_pages r" "q < 2 ^ 20" "q \<notin> \<Union> (region_pages ` set ms)" for q
    proof -
      have "q - page_no b < length fs" "page_no b \<le> q" using that(1) gf by (auto simp: pages)
      then show ?thesis using out w1 [OF that(2)] that gf f1 by simp
    qed
    have "p = q" if pq: "mmu_walk st' dir p = mmu_walk st' dir q"
      and p: "p \<in> \<Union> (region_pages ` set (r # ms))" "p < 2 ^ 20" and q: "q \<in> \<Union> (region_pages ` set (r # ms))" "q < 2 ^ 20" for p q
    proof (cases "p \<in> \<Union> (region_pages ` set ms)")
      case True
      show ?thesis
      proof (cases "q \<in> \<Union> (region_pages ` set ms)")
        case True
        then show ?thesis using inj_onD [OF inj pq] \<open>p \<in> \<Union> (region_pages ` set ms)\<close> p(2) q(2) by blast
      next
        case False
        then have "q \<in> region_pages r" using q(1) by simp
        then show ?thesis using here [OF _ q(2) False] ins True p(2) pq by fastforce
      qed
    next
      case False
      then have pr: "p \<in> region_pages r" using p(1) by simp
      note hp = here [OF pr p(2) False]
      show ?thesis
      proof (cases "q \<in> \<Union> (region_pages ` set ms)")
        case True
        then show ?thesis using hp ins q(2) pq by fastforce
      next
        case False
        then have "q \<in> region_pages r" using q(1) by simp
        note hq = here [OF this q(2) False]
        have "fs ! (p - page_no b) = fs ! (q - page_no b)" using hp hq pq by (metis option.inject)
        then have "p - page_no b = q - page_no b"
          using nth_eq_iff_index_eq [of fs "p - page_no b" "q - page_no b"] hp hq gf by blast
        then show ?thesis using hp hq by linarith
      qed
    qed
    then show ?thesis by (intro inj_onI) simp
  qed
  ultimately show ?case
    using st'(2) n' heap card count gf f1 by (intro exI [of _ st'] conjI) simp_all
qed

text \<open>The shared part of a new directory: what the current one has in its first slots.\<close>

lemma directory_wf_share:
  assumes "directory_wf st cur" and "n \<le> 1024"
  shows "directory_wf st (share_kernel_tables n cur zero_directory)"
proof -
  have len: "length (pd_tables cur) = 1024" "length (pd_table_addresses cur) = 1024"
    using assms(1) by (simp_all add: directory_wf_def)
  have slots: "pd_tables (share_kernel_tables n cur zero_directory) ! i = (if i < n then pd_tables cur ! i else 0)"
      "pd_table_addresses (share_kernel_tables n cur zero_directory) ! i
         = (if i < n then pd_table_addresses cur ! i else 0)" if "i < 1024" for i
    using that len assms(2) by (simp_all add: share_kernel_tables_def zero_directory_def nth_append)
  show ?thesis
    unfolding directory_wf_def
  proof (intro conjI allI impI)
    show "slot_ok st (pd_tables (share_kernel_tables n cur zero_directory) ! i)
        (pd_table_addresses (share_kernel_tables n cur zero_directory) ! i)" if "i < 1024" for i
      using assms(1) that by (simp add: slots directory_wf_def slot_ok_def)
    show "pd_tables (share_kernel_tables n cur zero_directory) ! i
        \<noteq> pd_tables (share_kernel_tables n cur zero_directory) ! j"
      if "i < 1024" "j < 1024" "i \<noteq> j" "pd_tables (share_kernel_tables n cur zero_directory) ! i \<noteq> 0" for i j
      using assms(1) that by (auto simp: slots directory_wf_def split: if_splits)
  qed (use len assms(2) in \<open>simp_all add: share_kernel_tables_def zero_directory_def\<close>)
qed

lemma mmu_walk_share:
  assumes "directories st dir = Some (share_kernel_tables n cur zero_directory)"
    and "directories st' dir' = Some cur" and "page_tables st' = page_tables st"
    and "directory_wf st'' cur" and "n \<le> 1024" and "q < 2 ^ 20"
  shows "mmu_walk st dir q = (if q div 1024 < n then mmu_walk st' dir' q else None)"
proof -
  have "q div 1024 < 1024" using assms(6) by simp
  then have "pd_table_addresses (share_kernel_tables n cur zero_directory) ! (q div 1024)
      = (if q div 1024 < n then pd_table_addresses cur ! (q div 1024) else 0)"
    using assms(4,5) by (simp add: share_kernel_tables_def zero_directory_def directory_wf_def nth_append)
  then show ?thesis
    using assms(1-3) by (simp add: mmu_walk_def Let_def)
qed

lemma create_directory_result:
  assumes cur: "directories st (current_directory st) = Some cur" "directory_wf st cur"
    and ft: "ft_wf (frame_table st)" "unat (ft_length (frame_table st)) \<le> 2 ^ 20"
    and base: "unat (base_kernel_tables_size st) \<le> 1024"
    and ms: "\<forall>r \<in> set ms. region_ok r"
    and room: "0 < unat (primitive_heap st)"
      "unat (primitive_heap st) + 0x3000 + region_count ms * 0x2000 < 2 ^ 32"
      "card (taken (frame_table st)) + region_count ms \<le> unat (ft_length (frame_table st))"
  shows "\<exists>new st'. create_directory ms st = Inr (new, st') \<and> paging_wf st' new
     \<and> (\<forall>q < 2 ^ 20. q \<notin> \<Union> (region_pages ` set ms) \<longrightarrow> mmu_walk st' new q =
          (if q div 1024 < unat (base_kernel_tables_size st) then mmu_walk st (current_directory st) q else None))
     \<and> (\<forall>q \<in> \<Union> (region_pages ` set ms). q < 2 ^ 20 \<longrightarrow>
          (\<exists>f. mmu_walk st' new q = Some f \<and> f \<notin> taken (frame_table st) \<and> f \<in> taken (frame_table st')))
     \<and> inj_on (mmu_walk st' new) (\<Union> (region_pages ` set ms) \<inter> {..< 2 ^ 20})
     \<and> unat (primitive_heap st) \<le> unat new \<and> unat new + 8192 \<le> unat (primitive_heap st')
     \<and> taken (frame_table st) \<subseteq> taken (frame_table st')
     \<and> card (taken (frame_table st')) = card (taken (frame_table st)) + region_count ms
     \<and> unat (ft_length (frame_table st')) = unat (ft_length (frame_table st))
     \<and> unat (primitive_heap st') \<le> unat (primitive_heap st) + 0x3000 + region_count ms * 0x2000"
proof -
  let ?n = "unat (base_kernel_tables_size st)"
  define new where "new = aligned_top (primitive_heap st)"
  have a: "unat (primitive_heap st) \<le> unat new" "unat (new + 8192) = unat new + 8192"
      "unat new < unat (primitive_heap st) + 0x1000"
    using Allocate_room [of "primitive_heap st" 8192] room by (simp_all add: new_def)
  let ?d = "share_kernel_tables ?n cur zero_directory"
  let ?st1 = "st\<lparr>primitive_heap := new + 8192, directories := (directories st)(new := Some ?d)\<rparr>"
  have slot_mono: "slot_ok ?st1 t e" if "slot_ok st t e" for t e
    using that a by (auto simp: slot_ok_def split: if_splits)
  then have "directory_wf ?st1 ?d"
    using directory_wf_share [OF cur(2) base] by (simp add: directory_wf_def)
  then have wf1: "paging_wf ?st1 new"
    using ft a by (simp add: paging_wf_def)
  have new0: "new \<noteq> 0" using a(1) room(1) by auto
  obtain st' where st': "map_regions ms new ?st1 = Inr st'" "paging_wf st' new"
      and out: "\<forall>q < 2 ^ 20. q \<notin> \<Union> (region_pages ` set ms) \<longrightarrow> mmu_walk st' new q = mmu_walk ?st1 new q"
      and ins: "\<forall>q \<in> \<Union> (region_pages ` set ms). q < 2 ^ 20 \<longrightarrow>
          (\<exists>f. mmu_walk st' new q = Some f \<and> f \<notin> taken (frame_table ?st1) \<and> f \<in> taken (frame_table st'))"
      and inj: "inj_on (mmu_walk st' new) (\<Union> (region_pages ` set ms) \<inter> {..< 2 ^ 20})"
      and tk: "taken (frame_table ?st1) \<subseteq> taken (frame_table st')"
        "card (taken (frame_table st')) = card (taken (frame_table ?st1)) + region_count ms"
        "unat (ft_length (frame_table st')) = unat (ft_length (frame_table ?st1))"
        "unat (primitive_heap ?st1) \<le> unat (primitive_heap st')"
        "unat (primitive_heap st') \<le> unat (primitive_heap ?st1) + region_count ms * 0x2000"
    using map_regions_maps [OF wf1 new0 ms] a room by auto
  have "create_directory ms st = Inr (new, st')"
    using st'(1) cur(1) by (simp add: create_directory_def SIZEOF_PAGE_DIRECTORY_def Allocate_aligned Let_def
        flip: new_def)
  moreover have "mmu_walk ?st1 new q = (if q div 1024 < ?n then mmu_walk st (current_directory st) q else None)"
    if "q < 2 ^ 20" for q
    using cur base that by (intro mmu_walk_share [where cur = cur]) simp_all
  ultimately show ?thesis
    using st'(2) out ins inj tk a by (intro exI [of _ new] exI [of _ st']) simp
qed

text \<open>C20: A process directory made for regions that start at table boundaries translates the
  pages of its regions to frames that were free before, no two of them to the same frame, sees the kernel's
  pages exactly as the current directory does, and translates nothing else.\<close>

theorem create_directory_correct:
  assumes cur: "directories st (current_directory st) = Some cur" "directory_wf st cur"
    and ft: "ft_wf (frame_table st)" "unat (ft_length (frame_table st)) \<le> 2 ^ 20"
    and base: "unat (base_kernel_tables_size st) \<le> 1024"
    and ms: "\<forall>r \<in> set ms. region_ok r"
    and room: "0 < unat (primitive_heap st)"
      "unat (primitive_heap st) + 0x3000 + region_count ms * 0x2000 < 2 ^ 32"
      "card (taken (frame_table st)) + region_count ms \<le> unat (ft_length (frame_table st))"
  shows "\<exists>new st'. create_directory ms st = Inr (new, st') \<and> paging_wf st' new
     \<and> (\<forall>q < 2 ^ 20. q \<notin> \<Union> (region_pages ` set ms) \<longrightarrow> mmu_walk st' new q =
          (if q div 1024 < unat (base_kernel_tables_size st) then mmu_walk st (current_directory st) q else None))
     \<and> (\<forall>q \<in> \<Union> (region_pages ` set ms). q < 2 ^ 20 \<longrightarrow>
          (\<exists>f. mmu_walk st' new q = Some f \<and> f \<notin> taken (frame_table st) \<and> f \<in> taken (frame_table st')))
     \<and> inj_on (mmu_walk st' new) (\<Union> (region_pages ` set ms) \<inter> {..< 2 ^ 20})"
  using create_directory_result [OF assms] by blast

theorem create_directory_correct_witness:
  "\<exists>new st'. create_directory [(0xA0000000, 0xA0004000)] sample_state = Inr (new, st')
     \<and> (\<exists>f. mmu_walk st' new 0xA0003 = Some f)"
proof -
  have "\<exists>new st'. create_directory [(0xA0000000, 0xA0004000)] sample_state = Inr (new, st') \<and> paging_wf st' new
     \<and> (\<forall>q < 2 ^ 20. q \<notin> \<Union> (region_pages ` set [(0xA0000000, 0xA0004000)]) \<longrightarrow> mmu_walk st' new q =
          (if q div 1024 < unat (base_kernel_tables_size sample_state)
           then mmu_walk sample_state (current_directory sample_state) q else None))
     \<and> (\<forall>q \<in> \<Union> (region_pages ` set [(0xA0000000, 0xA0004000)]). q < 2 ^ 20 \<longrightarrow>
          (\<exists>f. mmu_walk st' new q = Some f \<and> f \<notin> taken (frame_table sample_state)
             \<and> f \<in> taken (frame_table st')))
     \<and> inj_on (mmu_walk st' new) (\<Union> (region_pages ` set [(0xA0000000, 0xA0004000)]) \<inter> {..< 2 ^ 20})"
    by (rule create_directory_correct [of _ zero_directory])
      (use sample_wf in \<open>simp_all add: directory_wf_zero sample_taken sample_length paging_wf_def\<close>,
       simp_all add: sample_state_def region_ok_def region_count_def)
  moreover have "0xA0003 \<in> \<Union> (region_pages ` set [(0xA0000000::u32, 0xA0004000)])"
    by (simp add: region_pages_def page_no_def)
  ultimately show ?thesis by fastforce
qed

section \<open>Destroying a directory\<close>

text \<open>The directory destructor reads every one of the 1024 tables: a directory with a
  missing table, with or without mapped pages, is never destroyed without a fault.\<close>

theorem PageDirectory_destroy_faults:
  assumes "directories st dir = Some d" and "0 \<in> set (pd_tables d)"
  shows "\<exists>e. PageDirectory_destroy dir st = Inl e"
proof -
  have "\<exists>e. free_tables ts pts ft = Inl e" if "0 \<in> set ts" for ts pts ft
    using that
  proof (induction ts arbitrary: ft)
    case (Cons t ts)
    then show ?case
      by (cases "free_entries (pts t) ft") auto
  qed simp
  then show ?thesis
    using assms by (metis PageDirectory_destroy_def and_then_simps(1) option.simps(5))
qed

theorem PageDirectory_destroy_faults_witness:
  "\<exists>e. PageDirectory_destroy 0x100000 sample_state = Inl e"
  by (rule PageDirectory_destroy_faults [of _ _ zero_directory])
    (simp_all add: sample_state_def zero_directory_def)

end
