(* ===== verification/Processing.thy ===== *)
theory Processing
  imports Scheduler KString Paging_Boot
begin

text \<open>
  Processes: \<^verbatim>\<open>process.cpp\<close> and \<^verbatim>\<open>processing.h\<close>. The state joins the scheduler, paging, the
  registered programs, the id counter and the cached information of the running process. A
  fresh \<^verbatim>\<open>KernelProcess\<close> keeps in the fields its constructor does not set what the memory held:
  the parameter \<open>junk\<close>. \<open>beyond\<close> is what memory holds after the block of a name, and \<open>g\<close> what a
  fresh block of characters holds.
\<close>

section \<open>State\<close>

record RegisteredProcess =
  rp_name :: kstring
  rp_func_ptr :: u32

record processing =
  pr_sched :: sched
  pr_paging :: paging_state
  pr_registered :: "RegisteredProcess vector"
  pr_pid_seq :: u32
  pr_functions :: "(RegistersStruct_x86_32 \<Rightarrow> sched \<Rightarrow> sched outcome) vector"
  pr_cached_pid :: u32
  pr_cached_process :: u32

text \<open>The processor's registers and memory as far as the code's inline assembly uses them.\<close>

record cpu =
  cpu_esp :: u32
  cpu_ebp :: u32
  cpu_eip :: u32
  cpu_eax :: u32
  cpu_interrupts :: bool

definition KERNEL_STACK_BEGIN :: u32 where "KERNEL_STACK_BEGIN = 0xA0000000"
definition KERNEL_STACK_SIZE :: u32 where "KERNEL_STACK_SIZE = 0x01000000"
definition SIZEOF_KERNEL_PROCESS :: u32 where "SIZEOF_KERNEL_PROCESS = 136"
definition SIZEOF_VECTOR :: u32 where "SIZEOF_VECTOR = 16"
definition SIZEOF_QUEUE :: u32 where "SIZEOF_QUEUE = 8"

definition set_mm :: "mm_state \<Rightarrow> processing \<Rightarrow> processing" where
  "set_mm mm st = st\<lparr>pr_sched := (pr_sched st)\<lparr>s_mem := (s_mem (pr_sched st))\<lparr>q_mm := mm\<rparr>\<rparr>\<rparr>"

definition set_proc :: "u32 \<Rightarrow> KernelProcess \<Rightarrow> processing \<Rightarrow> processing" where
  "set_proc p k st = st\<lparr>pr_sched := (pr_sched st)\<lparr>s_procs := (s_procs (pr_sched st))(p \<mapsto> k)\<rparr>\<rparr>"

text \<open>\<^verbatim>\<open>operator new\<close> followed by a constructor that stores into the object.\<close>

definition new_object :: "(u32 \<Rightarrow> u32 \<Rightarrow> u32) \<Rightarrow> u32 \<Rightarrow> processing \<Rightarrow> (u32 \<times> processing) outcome" where
  "new_object pdiff sz st =
     and_then (operator_new pdiff sz (q_mm (s_mem (pr_sched st)))) (\<lambda>(p, mm).
       if p = 0 then Inl Null_Pointer else Inr (p, set_mm mm st))"

section \<open>Code\<close>

definition KernelProcess_init :: "KernelProcess \<Rightarrow> u32 \<Rightarrow> Priority \<Rightarrow> KernelProcess" where
  "KernelProcess_init junk pid priority =
     junk\<lparr>kp_pid := pid, kp_start_time := 0,
       kp_slice_size := (of_nat (priority_value priority) + 1) * 10, kp_priority := priority,
       kp_directory := 0, kp_stack_begin := 0, kp_heap_begin := 0, kp_data_begin := 0, kp_times_ran := 0,
       kp_registers_set := False, kp_on_end := No_Resolver, kp_input_buffer := 0, kp_is_finished := False\<rparr>"

text \<open>
  A context has a copy of the directory in use. Taking one stores the two pointers of the stack and the
  copy; the instruction pointer stays what it was.
\<close>

record Context =
  ctx_eip :: u32
  ctx_esp :: u32
  ctx_ebp :: u32
  ctx_directory :: PageDirectory

definition GetCurrentContext :: "cpu \<Rightarrow> paging_state \<Rightarrow> Context \<Rightarrow> Context outcome" where
  "GetCurrentContext c pag ctx =
     (case directories pag (current_directory pag) of
        None \<Rightarrow> Inl Null_Pointer
      | Some d \<Rightarrow> Inr (ctx\<lparr>ctx_esp := cpu_esp c, ctx_ebp := cpu_ebp c, ctx_directory := d\<rparr>))"

definition ApplyContext :: "Context \<Rightarrow> KernelProcess \<Rightarrow> KernelProcess" where
  "ApplyContext ctx k =
     k\<lparr>kp_registers := (kp_registers k)\<lparr>r_eip := ctx_eip ctx, r_esp := ctx_esp ctx, r_ebp := ctx_ebp ctx\<rparr>\<rparr>"

text \<open>The guard keeps interrupts off from its construction, or around the call it is given, to its end.\<close>

definition InterruptGuard :: "cpu \<Rightarrow> cpu" where
  "InterruptGuard c = c\<lparr>cpu_interrupts := False\<rparr>"

definition InterruptGuard_call :: "(cpu \<Rightarrow> 's \<Rightarrow> (cpu \<times> 's) outcome) \<Rightarrow> cpu \<Rightarrow> 's \<Rightarrow> (cpu \<times> 's) outcome" where
  "InterruptGuard_call func c s = func (c\<lparr>cpu_interrupts := False\<rparr>) s"

definition InterruptGuard_destroy :: "cpu \<Rightarrow> cpu" where
  "InterruptGuard_destroy c = c\<lparr>cpu_interrupts := True\<rparr>"

text \<open>
  \<^verbatim>\<open>_set_instruction_ptr\<close>, up to the call of the code and from its return: \<open>mem\<close> holds the words of the stack,
  \<open>back\<close> is the address behind the call. \<^verbatim>\<open>mov esp, ebp\<close> is in Intel order: it writes the stack pointer.
\<close>

definition set_instruction_ptr :: "u32 \<Rightarrow> cpu \<Rightarrow> (u32 \<Rightarrow> u32) \<Rightarrow> cpu \<times> (u32 \<Rightarrow> u32)" where
  "set_instruction_ptr back c mem =
     (let mem = mem(cpu_esp c - 4 := cpu_ebp c);
          esp = cpu_ebp c;
          eax = mem (esp + 8)
      in (c\<lparr>cpu_eax := eax, cpu_esp := esp - 4, cpu_eip := eax\<rparr>, mem(esp - 4 := back)))"

definition set_instruction_ptr_return :: "cpu \<Rightarrow> (u32 \<Rightarrow> u32) \<Rightarrow> cpu" where
  "set_instruction_ptr_return c mem =
     (let c = c\<lparr>cpu_ebp := cpu_esp c\<rparr>;
          c = c\<lparr>cpu_ebp := mem (cpu_esp c), cpu_esp := cpu_esp c + 4\<rparr>
      in c\<lparr>cpu_eip := mem (cpu_esp c), cpu_esp := cpu_esp c + 4\<rparr>)"

text \<open>
  \<^verbatim>\<open>Start::Code\<close> from its entry, with the frame pointer kept and no locals: it passes its argument on, and
  \<open>here\<close> is where it is called back from.
\<close>

definition Start_Code :: "u32 \<Rightarrow> u32 \<Rightarrow> cpu \<Rightarrow> (u32 \<Rightarrow> u32) \<Rightarrow> cpu \<times> (u32 \<Rightarrow> u32)" where
  "Start_Code here back c mem =
     (let mem = mem(cpu_esp c - 4 := cpu_ebp c);
          c = c\<lparr>cpu_esp := cpu_esp c - 4, cpu_ebp := cpu_esp c - 4\<rparr>;
          mem = mem(cpu_esp c - 4 := mem (cpu_ebp c + 8));
          mem = mem(cpu_esp c - 8 := here)
      in set_instruction_ptr back (c\<lparr>cpu_esp := cpu_esp c - 8\<rparr>) mem)"

definition NewProcess ::
    "(u32 \<Rightarrow> u32 \<Rightarrow> u32) \<Rightarrow> KernelProcess \<Rightarrow> u32 \<Rightarrow> Priority \<Rightarrow> (u32 \<times> (u32 \<times> u32) list) option \<Rightarrow> processing
     \<Rightarrow> (u32 \<times> processing) outcome" where
  "NewProcess pdiff junk start priority mappings st =
     and_then (new_object pdiff SIZEOF_KERNEL_PROCESS st) (\<lambda>(p, st1).
       let k = KernelProcess_init junk (pr_pid_seq st1) priority;
           st2 = st1\<lparr>pr_pid_seq := pr_pid_seq st1 + 1\<rparr>
       in and_then (case mappings of
                      None \<Rightarrow> Inr (k, st2)
                    | Some (_, ms) \<Rightarrow> and_then (create_directory ms (pr_paging st2)) (\<lambda>(d, pag).
                        Inr (k\<lparr>kp_directory := d\<rparr>, st2\<lparr>pr_paging := pag\<rparr>))) (\<lambda>(k, st3).
          let k = k\<lparr>kp_stack_begin := KERNEL_STACK_BEGIN, kp_heap_begin := K_HEAP_START\<rparr>;
              k = k\<lparr>kp_registers := (kp_registers k)\<lparr>r_eip := start, r_esp := kp_stack_begin k + 0x1000,
                      r_ebp := kp_stack_begin k + 0x1000\<rparr>,
                     kp_on_end := SignalProcEnd, kp_self_mappings := mappings\<rparr>
          in Inr (p, set_proc p k st3)))"

definition GetPid :: "processing \<Rightarrow> u32" where "GetPid st = pr_cached_pid st"

text \<open>The inline assembly that loads and stores \<^verbatim>\<open>cr3\<close>.\<close>

definition load_cr3 :: "u32 \<Rightarrow> processing \<Rightarrow> processing" where
  "load_cr3 v st = st\<lparr>pr_paging := (pr_paging st)\<lparr>cr3 := v\<rparr>\<rparr>"

definition enter_kernel :: "processing \<Rightarrow> processing" where
  "enter_kernel st = st\<lparr>pr_paging := SetDirectory (kernel_directory (pr_paging st)) (pr_paging st)\<rparr>"

text \<open>
  The destructor: the vector of mappings, the input buffer (a \<^verbatim>\<open>Queue\<close> has no destructor, its
  nodes stay) and, but for the first process, the directory, which never came from \<^verbatim>\<open>new\<close>.
\<close>

definition delete_object :: "u32 \<Rightarrow> processing \<Rightarrow> processing outcome" where
  "delete_object p st = and_then (operator_delete p (q_mm (s_mem (pr_sched st)))) (\<lambda>mm. Inr (set_mm mm st))"

definition KernelProcess_destroy :: "u32 \<Rightarrow> processing \<Rightarrow> processing outcome" where
  "KernelProcess_destroy p st =
     and_then (proc_at p (s_procs (pr_sched st))) (\<lambda>k.
     and_then (case kp_self_mappings k of None \<Rightarrow> Inr st | Some (v, _) \<Rightarrow> delete_object v st) (\<lambda>st1.
     and_then (if kp_input_buffer k \<noteq> 0 then delete_object (kp_input_buffer k) st1 else Inr st1) (\<lambda>st2.
       if kp_pid k > 1 \<and> kp_directory k \<noteq> 0
       then and_then (PageDirectory_destroy (kp_directory k) (pr_paging st2)) (\<lambda>pag.
              delete_object (kp_directory k) (st2\<lparr>pr_paging := pag\<rparr>))
       else Inr st2)))"

definition resolve :: "ProcessResolver \<Rightarrow> u32 \<Rightarrow> processing \<Rightarrow> processing outcome" where
  "resolve r proc_id st =
     (case r of
        No_Resolver \<Rightarrow> Inl Null_Pointer
      | SignalProcEnd \<Rightarrow> and_then (SignalEnd proc_id (pr_sched st)) (\<lambda>s. Inr (st\<lparr>pr_sched := s\<rparr>)))"

text \<open>The search for the program: each test makes a \<^verbatim>\<open>String\<close> of the name buffer.\<close>

fun find_registered :: "(nat \<Rightarrow> char) \<Rightarrow> char list \<Rightarrow> RegisteredProcess list \<Rightarrow> nat outcome" where
  "find_registered g name [] = Inr 0"
| "find_registered g name (rp # rps) =
     and_then (String_from g name) (\<lambda>s.
     and_then (String_compare (rp_name rp) s) (\<lambda>eq.
       if eq then Inr 0 else and_then (find_registered g name rps) (\<lambda>i. Inr (Suc i))))"

definition process_mappings :: "(u32 \<times> u32) list outcome" where
  "process_mappings =
     and_then (push_back (0, 0) (0xA0000000, 0xA0010000) Vector_new) (\<lambda>v1.
     and_then (push_back (0, 0) (K_HEAP_START, K_HEAP_START + K_HEAP_INITIAL_SIZE) v1) elements)"

definition copy_name :: "char list \<Rightarrow> kstring \<Rightarrow> char list outcome" where
  "copy_name beyond name =
     and_then (memset (replicate 128 NUL) NUL 128) (\<lambda>buf.
     and_then (data_of name) (\<lambda>d. memcpy buf (d @ beyond) 128))"

definition Start_Process ::
    "(u32 \<Rightarrow> u32 \<Rightarrow> u32) \<Rightarrow> (nat \<Rightarrow> char) \<Rightarrow> char list \<Rightarrow> KernelProcess \<Rightarrow> kstring \<Rightarrow> Priority \<Rightarrow> processing
     \<Rightarrow> (u32 \<times> processing) outcome" where
  "Start_Process pdiff g beyond junk name priority st =
     and_then (copy_name beyond name) (\<lambda>buf.
       let old_directory = cr3 (pr_paging st);
           st1 = (if pr_cached_pid st \<noteq> 0 then enter_kernel st else st)
       in and_then (elements (pr_registered st1)) (\<lambda>rps.
          and_then (find_registered g buf rps) (\<lambda>i.
          and_then (new_object pdiff SIZEOF_VECTOR st1) (\<lambda>(v, st2).
          and_then process_mappings (\<lambda>ms.
          and_then (load_at (v_buffer (pr_registered st2)) i) (\<lambda>rp.
          and_then (NewProcess pdiff junk (rp_func_ptr rp) priority (Some (v, ms)) st2) (\<lambda>(p, st3).
          and_then (proc_at p (s_procs (pr_sched st3))) (\<lambda>k.
          and_then (AddItem pdiff p (pr_sched st3)) (\<lambda>s.
            let st4 = st3\<lparr>pr_sched := s\<rparr>;
                st5 = (if pr_cached_pid st \<noteq> 0 then load_cr3 old_directory st4 else st4)
            in Inr (kp_pid k, st5))))))))))"

definition End_Process :: "u32 \<Rightarrow> processing \<Rightarrow> processing outcome" where
  "End_Process pid st =
     (let temp_dir = cr3 (pr_paging st);
          st1 = (if pr_cached_pid st \<noteq> 1 then enter_kernel st else st)
      in and_then (SignalEnd pid (pr_sched st1)) (\<lambda>s.
           let st2 = st1\<lparr>pr_sched := s\<rparr>
           in Inr (if pr_cached_pid st \<noteq> 1 then load_cr3 temp_dir st2 else st2)))"

definition no_program :: RegisteredProcess where
  "no_program = \<lparr>rp_name = \<lparr>str_data = None, str_size = 0\<rparr>, rp_func_ptr = 0\<rparr>"

definition RegisterProcess :: "(nat \<Rightarrow> char) \<Rightarrow> kstring \<Rightarrow> u32 \<Rightarrow> processing \<Rightarrow> processing outcome" where
  "RegisterProcess g name func st =
     and_then (String_copy g name) (\<lambda>n.
     and_then (String_assign g n) (\<lambda>n'.
     and_then (push_back no_program \<lparr>rp_name = n', rp_func_ptr = func\<rparr> (pr_registered st)) (\<lambda>v.
       Inr (st\<lparr>pr_registered := v\<rparr>))))"

text \<open>The input buffer of the running process, through the cached pointers to it and its lock.\<close>

definition cached_process :: "processing \<Rightarrow> KernelProcess outcome" where
  "cached_process st = proc_at (pr_cached_process st) (s_procs (pr_sched st))"

definition GetInputBuffer :: "processing \<Rightarrow> u32 outcome" where
  "GetInputBuffer st = and_then (cached_process st) (\<lambda>k. Inr (kp_input_buffer k))"

definition SelfProcessInit :: "(u32 \<Rightarrow> u32 \<Rightarrow> u32) \<Rightarrow> processing \<Rightarrow> processing outcome" where
  "SelfProcessInit pdiff st =
     and_then (new_object pdiff SIZEOF_QUEUE st) (\<lambda>(q, st1).
     and_then (cached_process st1) (\<lambda>k.
       Inr (set_proc (pr_cached_process st1) (k\<lparr>kp_input_buffer := q\<rparr>) st1)))"

text \<open>Alone on the processor a taken lock spins for ever.\<close>

definition LockInputBuffer :: "processing \<Rightarrow> processing outcome" where
  "LockInputBuffer st =
     and_then (cached_process st) (\<lambda>k.
       if kp_input_buffer_lock k = 0
       then Inr (set_proc (pr_cached_process st) (k\<lparr>kp_input_buffer_lock := 1\<rparr>) st)
       else Inl No_Return)"

definition UnlockInputBuffer :: "processing \<Rightarrow> processing outcome" where
  "UnlockInputBuffer st =
     and_then (cached_process st) (\<lambda>k.
       Inr (set_proc (pr_cached_process st) (k\<lparr>kp_input_buffer_lock := 0\<rparr>) st))"

text \<open>
  \<^verbatim>\<open>Processing::Initialize\<close>: the kernel process, its stack region, and the running stack copied
  to it; \<open>stack_top\<close> is where the stack began and \<open>mem\<close> the bytes of memory.
\<close>

definition relocate_stack :: "u32 \<Rightarrow> cpu \<Rightarrow> (u32 \<Rightarrow> u8) \<Rightarrow> cpu \<times> (u32 \<Rightarrow> u8)" where
  "relocate_stack stack_top c mem =
     (let stack_offset = KERNEL_STACK_BEGIN - stack_top + 0x1000;
          new_esp = cpu_esp c + stack_offset;
          new_ebp = cpu_ebp c + stack_offset;
          n = stack_top - cpu_esp c
      in (c\<lparr>cpu_esp := new_esp, cpu_ebp := new_ebp\<rparr>,
          \<lambda>a. if a - new_esp < n then mem (cpu_esp c + (a - new_esp)) else mem a))"

definition add_callable_function ::
    "(RegistersStruct_x86_32 \<Rightarrow> sched \<Rightarrow> sched outcome) \<Rightarrow> processing \<Rightarrow> processing outcome" where
  "add_callable_function func st =
     and_then (push_back (\<lambda>_ _. Inl Null_Pointer) func (pr_functions st)) (\<lambda>v. Inr (st\<lparr>pr_functions := v\<rparr>))"

definition Processing_Initialize ::
    "(u32 \<Rightarrow> u32 \<Rightarrow> u32) \<Rightarrow> KernelProcess \<Rightarrow> u32 \<Rightarrow> (RegistersStruct_x86_32 \<Rightarrow> sched \<Rightarrow> sched outcome) \<Rightarrow> sched
     \<Rightarrow> u32 \<Rightarrow> cpu \<Rightarrow> (u32 \<Rightarrow> u8) \<Rightarrow> processing \<Rightarrow> (u32 \<times> cpu \<times> (u32 \<Rightarrow> u8) \<times> processing) outcome" where
  "Processing_Initialize pdiff junk start callback scheduler stack_top c mem st =
     and_then (NewProcess pdiff junk start System None (st\<lparr>pr_sched := scheduler\<rparr>)) (\<lambda>(p, st1).
     and_then (proc_at p (s_procs (pr_sched st1))) (\<lambda>k.
       let ker = GetKernelDirectory (pr_paging st1);
           st2 = set_proc p (k\<lparr>kp_directory := ker\<rparr>) st1
       in and_then (map_region KERNEL_STACK_BEGIN (KERNEL_STACK_BEGIN + KERNEL_STACK_SIZE) StandartAllocator ker
                      (pr_paging st2)) (\<lambda>(_, pag).
          let st3 = st2\<lparr>pr_paging := SetDirectory ker pag\<rparr>;
              (c', mem') = relocate_stack stack_top (c\<lparr>cpu_interrupts := False\<rparr>) mem
          in and_then (AddItem pdiff p (pr_sched st3)) (\<lambda>s.
             and_then (add_callable_function callback (st3\<lparr>pr_sched := s\<rparr>)) (\<lambda>st4.
               Inr (p, c'\<lparr>cpu_interrupts := True\<rparr>, mem', st4))))))"


section \<open>Facts\<close>

lemma find_registered_first:
  assumes "terminated name" and "length name + 200 < 2 ^ 32" and "0 < length (cstr name)" "length (cstr name) < 64"
    and "i < length rps" and "\<forall>rp \<in> set (take (Suc i) rps). str_ok (rp_name rp)"
    and "text_of (rp_name (rps ! i)) = cstr name" and "\<forall>j < i. text_of (rp_name (rps ! j)) \<noteq> cstr name"
  shows "find_registered g name rps = Inr i"
proof -
  obtain s where s: "String_from g name = Inr s" "str_ok s" "text_of s = cstr name"
    using String_from_ok [OF assms(1,2), of g] assms(3,4) by auto
  show ?thesis
    using assms(5-8)
  proof (induction rps arbitrary: i)
    case (Cons rp rps)
    have cmp: "String_compare (rp_name rp) s = Inr (text_of (rp_name rp) = cstr name)"
      using String_compare_ok [of "rp_name rp" s] Cons.prems(2) s(2,3) by simp
    show ?case
    proof (cases i)
      case 0
      then show ?thesis using Cons.prems s cmp by simp
    next
      case (Suc k)
      have "text_of (rp_name rp) \<noteq> cstr name" using Cons.prems(4) Suc by force
      moreover have "find_registered g name rps = Inr k"
        using Cons.prems Suc by (intro Cons.IH) fastforce+
      ultimately show ?thesis using Suc s cmp by simp
    qed
  qed simp
qed

lemma find_registered_none:
  assumes "terminated name" and "length name + 200 < 2 ^ 32" and "0 < length (cstr name)" "length (cstr name) < 64"
    and "\<forall>rp \<in> set rps. str_ok (rp_name rp) \<and> text_of (rp_name rp) \<noteq> cstr name"
  shows "find_registered g name rps = Inr (length rps)"
proof -
  obtain s where s: "String_from g name = Inr s" "str_ok s" "text_of s = cstr name"
    using String_from_ok [OF assms(1,2), of g] assms(3,4) by auto
  show ?thesis
    using assms(5) by (induction rps) (simp_all add: s String_compare_ok)
qed

lemma copy_name_ok:
  assumes "str_data name = Some d" and "terminated d" and "length (cstr d) < 64" and "128 \<le> length (d @ beyond)"
  shows "\<exists>buf. copy_name beyond name = Inr buf \<and> terminated buf \<and> cstr buf = cstr d \<and> length buf = 128"
proof -
  obtain r where r: "d = cstr d @ NUL # r" using assms(2) terminated_iff by blast
  define buf where "buf = take 128 (d @ beyond)"
  have "buf = cstr d @ NUL # take (127 - length (cstr d)) (r @ beyond)"
    unfolding buf_def by (subst r) (use assms(3) in \<open>simp add: take_Cons'\<close>)
  then have "terminated buf" "cstr buf = cstr d" by (simp_all add: terminated_def)
  moreover have "copy_name beyond name = Inr buf"
    using assms(1,4) by (simp add: copy_name_def memset_eq data_of_def memcpy_eq buf_def)
  ultimately show ?thesis using assms(4) by (simp add: buf_def)
qed

lemma process_mappings_eq: "process_mappings = Inr [(0xA0000000, 0xA0010000), (0xC0000000, 0xC1000000)]"
  by (simp add: process_mappings_def push_back_def Vector_new_def shl_one_def vreserve_def copy_elements_eq
      elements_def K_HEAP_START_def K_HEAP_INITIAL_SIZE_def)

text \<open>The scheduler does not see the objects the heap gives to others.\<close>

lemma ready_set_mm:
  assumes "ready s cs A B" and "bin_wf mm" and "small_blocks (q_mm (s_mem s)) \<subseteq> small_blocks mm"
  shows "ready (s\<lparr>s_mem := (s_mem s)\<lparr>q_mm := mm\<rparr>\<rparr>) cs A B"
proof -
  have "queue_rep ((s_mem s)\<lparr>q_mm := mm\<rparr>) q P xs" if "queue_rep (s_mem s) q P xs" for q P xs
    using that assms(2,3) by (auto simp: queue_rep_def qmem_wf_def queue_nodes_def)
  then show ?thesis
    using assms(1) unfolding ready_def sched_rep_def by simp blast
qed

lemma ready_new_proc:
  assumes "ready s cs A B" and "s_procs s p = None" and "p \<noteq> 0"
  shows "ready (s\<lparr>s_procs := (s_procs s)(p \<mapsto> k)\<rparr>) cs A B"
proof -
  obtain sys reg where rep: "sched_rep s cs sys reg" "A = alive (s_procs s) cs sys" "B = alive (s_procs s) cs reg"
    using assms(1) by (auto simp: ready_def)
  have alive: "alive ((s_procs s)(p \<mapsto> k)) cs ps = alive (s_procs s) cs ps" if "known (s_procs s) ps" for ps
    using that assms(2) by (auto simp: alive_def known_def pid_of_def intro!: filter_cong)
  have "sched_rep (s\<lparr>s_procs := (s_procs s)(p \<mapsto> k)\<rparr>) cs sys reg"
    using rep(1) assms(3) by (auto simp: sched_rep_def known_def)
  moreover have "known (s_procs s) sys" "known (s_procs s) reg" using rep(1) by (simp_all add: sched_rep_def)
  ultimately show ?thesis using rep(2,3) alive [of sys] alive [of reg] by (intro readyI) simp_all
qed

lemma ready_same_pids:
  assumes "ready s cs A B" and "pid_of procs = pid_of (s_procs s)" and "dom procs = dom (s_procs s)"
  shows "ready (s\<lparr>s_procs := procs\<rparr>) cs A B"
proof -
  obtain sys reg where rep: "sched_rep s cs sys reg" "A = alive (s_procs s) cs sys" "B = alive (s_procs s) cs reg"
    using assms(1) by (auto simp: ready_def)
  have none: "procs p = None \<longleftrightarrow> s_procs s p = None" for p using assms(3) by (metis domIff)
  have "sched_rep (s\<lparr>s_procs := procs\<rparr>) cs sys reg"
    using rep(1) none by (auto simp: sched_rep_def known_def)
  then show ?thesis
    using rep(2,3) alive_cong [OF assms(2)] by (intro readyI) simp_all
qed

lemma ready_bin: "ready s cs A B \<Longrightarrow> bin_wf (q_mm (s_mem s))"
  by (auto simp: ready_def sched_rep_def queue_rep_def qmem_wf_def)


text \<open>
  The invariant: the scheduler represents \<open>cs\<close>, \<open>A\<close> and \<open>B\<close>, the heap is well formed with live
  blocks \<open>live\<close>, and every process object is a live block.
\<close>

definition proc_inv :: "processing \<Rightarrow> u32 list \<Rightarrow> u32 list \<Rightarrow> u32 list \<Rightarrow> (u32 \<rightharpoonup> nat) \<Rightarrow> bool" where
  "proc_inv st cs A B live \<longleftrightarrow> ready (pr_sched st) cs A B
     \<and> (\<exists>ks. big_wf (q_mm (s_mem (pr_sched st))) ks live)
     \<and> dom (s_procs (pr_sched st)) \<subseteq> BIGCHUNK_DATA_BEGIN ` dom live"

text \<open>The heap has room for one more process object, and \<open>n\<close> more small blocks.\<close>

definition has_room :: "nat \<Rightarrow> processing \<Rightarrow> (u32 \<rightharpoonup> nat) \<Rightarrow> bool" where
  "has_room n st live \<longleftrightarrow> n \<le> bin_room (s_mem (pr_sched st))
     \<and> (\<forall>ks. big_wf (q_mm (s_mem (pr_sched st))) ks live \<longrightarrow>
          can_serve (q_mm (s_mem (pr_sched st))) ks (big_request SIZEOF_KERNEL_PROCESS))"

text \<open>Room for \<open>m\<close> more process objects, one after the other, and \<open>n\<close> more small blocks.\<close>

definition room_for :: "nat \<Rightarrow> nat \<Rightarrow> processing \<Rightarrow> (u32 \<rightharpoonup> nat) \<Rightarrow> bool" where
  "room_for m n st live \<longleftrightarrow> n \<le> bin_room (s_mem (pr_sched st))
     \<and> (\<forall>ks. big_wf (q_mm (s_mem (pr_sched st))) ks live \<longrightarrow>
          (\<exists>L. big_room L (q_mm (s_mem (pr_sched st))) ks \<and> L + 152 * m < 2 ^ 32))"

lemma process_request: "big_request SIZEOF_KERNEL_PROCESS = 152"
  by (simp add: big_request_def SIZEOF_KERNEL_PROCESS_def SIZEOF_BIG_CHUNK_def ALIGN_VAL_def CHUNK_SIZE_ALIGN_def)

lemma room_for_has_room: "room_for (Suc m) n st live \<Longrightarrow> has_room n st live"
  using big_room_serves [where req = "152"] by (fastforce simp: room_for_def has_room_def process_request)

lemma room_for_frame:
  assumes "room_for m n st live" and "same_big (q_mm (s_mem (pr_sched st))) (q_mm (s_mem (pr_sched st')))"
    and "n' + bin_room (s_mem (pr_sched st)) \<le> n + bin_room (s_mem (pr_sched st'))"
  shows "room_for m n' st' live"
  using assms by (simp add: room_for_def same_bigD)

lemma set_mm_simps [simp]:
  "q_mm (s_mem (pr_sched (set_mm mm st))) = mm" "s_procs (pr_sched (set_mm mm st)) = s_procs (pr_sched st)"
  "pr_paging (set_mm mm st) = pr_paging st" "pr_registered (set_mm mm st) = pr_registered st"
  "pr_pid_seq (set_mm mm st) = pr_pid_seq st" "pr_cached_pid (set_mm mm st) = pr_cached_pid st"
  "pr_cached_process (set_mm mm st) = pr_cached_process st" "pr_functions (set_mm mm st) = pr_functions st"
  by (simp_all add: set_mm_def)

lemma set_proc_simps [simp]:
  "s_procs (pr_sched (set_proc p k st)) = (s_procs (pr_sched st))(p \<mapsto> k)" "s_mem (pr_sched (set_proc p k st)) = s_mem (pr_sched st)"
  "pr_paging (set_proc p k st) = pr_paging st" "pr_registered (set_proc p k st) = pr_registered st"
  "pr_pid_seq (set_proc p k st) = pr_pid_seq st" "pr_cached_pid (set_proc p k st) = pr_cached_pid st"
  "pr_cached_process (set_proc p k st) = pr_cached_process st" "pr_functions (set_proc p k st) = pr_functions st"
  by (simp_all add: set_proc_def)

lemma can_serve_other_bin: "can_serve (put_slot i v st) ks req = can_serve st ks req"
  by (simp add: can_serve_def)

lemma new_small_object:
  assumes inv: "proc_inv st cs A B live" and room: "has_room (Suc n) st live" and sz: "0 < sz" "sz \<le> 64"
  shows "\<exists>p mm. new_object pdiff sz st = Inr (p, set_mm mm st) \<and> p \<noteq> 0
    \<and> proc_inv (set_mm mm st) cs A B live \<and> has_room n (set_mm mm st) live
    \<and> same_big (q_mm (s_mem (pr_sched st))) mm \<and> bin_room (s_mem (pr_sched st)) \<le> Suc (bin_room (s_mem (pr_sched (set_mm mm st))))"
proof -
  let ?mm = "q_mm (s_mem (pr_sched st))"
  have ready: "ready (pr_sched st) cs A B" and wf: "bin_wf ?mm"
    using inv ready_bin by (auto simp: proc_inv_def)
  obtain ks where ks: "big_wf ?mm ks live" using inv by (auto simp: proc_inv_def)
  have "Suc n \<le> 100 - card (small_blocks ?mm)" using room by (simp add: has_room_def bin_room_def)
  then have "card (small_blocks ?mm) < 100" by linarith
  then obtain k where k: "k < 100" "malloc_fastbin ?mm = Inr (slot_addr ?mm k, put_slot k (slot_addr ?mm k) ?mm)" "k \<notin> used_slots ?mm"
    using malloc_fastbin_free_slot [OF wf] card_small_blocks [OF wf] by metis
  define p where "p = slot_addr ?mm k"
  define mm where "mm = put_slot k p ?mm"
  have p: "p \<noteq> 0" "bin_wf mm" "small_blocks mm = insert p (small_blocks ?mm)"
    using slot_addr_nonzero [OF wf k(1)] put_slot_wf [OF wf] wf k(1)
    by (simp_all add: p_def mm_def small_blocks_def put_slot_used)
  have new: "new_object pdiff sz st = Inr (p, set_mm mm st)"
    using operator_new_small [OF sz] k(2) p(1) by (simp add: new_object_def p_def mm_def)
  have "ready (pr_sched (set_mm mm st)) cs A B"
    using ready_set_mm [OF ready p(2)] p(3) by (auto simp: set_mm_def)
  moreover have "big_wf mm ks' live = big_wf ?mm ks' live" for ks' by (simp add: mm_def big_wf_other_bin)
  ultimately have "proc_inv (set_mm mm st) cs A B live"
    using inv ks by (auto simp: proc_inv_def)
  have grown: "card (small_blocks mm) \<le> Suc (card (small_blocks ?mm))"
    using p(3) card_insert_le_m1 by (simp add: card_insert_if small_blocks_card [OF wf])
  have "has_room n (set_mm mm st) live"
  proof -
    have "Suc n \<le> 100 - card (small_blocks ?mm)" using room by (simp add: has_room_def bin_room_def)
    then have "n \<le> 100 - card (small_blocks mm)" using grown by linarith
    then have "n \<le> bin_room (s_mem (pr_sched (set_mm mm st)))" by (simp add: bin_room_def)
    then show ?thesis
      using room by (simp add: has_room_def mm_def big_wf_other_bin can_serve_other_bin)
  qed
  moreover have "same_big ?mm mm" by (simp add: same_big_def mm_def)
  moreover have "bin_room (s_mem (pr_sched st)) \<le> Suc (bin_room (s_mem (pr_sched (set_mm mm st))))"
    using grown by (simp add: bin_room_def)
  ultimately show ?thesis using new p(1) \<open>proc_inv (set_mm mm st) cs A B live\<close> by blast
qed

lemma big_data_begin:
  assumes "big_wf st ks (live(c \<mapsto> q))"
  shows "c + 13 \<noteq> 0"
proof
  assume "c + 13 = 0"
  then have "c = - 13" by (simp only: eq_neg_iff_add_eq_0)
  then have c: "unat c = 2 ^ 32 - 13" by simp
  have "c \<in> set ks" "tail_ok (chunk_at st) (live(c \<mapsto> q)) 0 ks"
    using assms by (auto simp: big_wf_alt)
  then have "13 < q \<and> unat c + q \<le> 2 ^ 32" using tail_ok_live [of "chunk_at st" "live(c \<mapsto> q)" 0 ks c q] by simp
  then show False using c by linarith
qed

lemma big_wf_unique: "big_wf st ks live \<Longrightarrow> big_wf st ks' live' \<Longrightarrow> ks = ks'"
  using linked_unique [of "chunk_at st" ks ks'] tail_ok_linked by (auto simp: big_wf_alt)

lemma new_process_object:
  assumes inv: "proc_inv st cs A B live" and room: "has_room n st live"
  shows "\<exists>c mm. new_object pdiff SIZEOF_KERNEL_PROCESS st = Inr (BIGCHUNK_DATA_BEGIN c, set_mm mm st)
    \<and> BIGCHUNK_DATA_BEGIN c \<noteq> 0 \<and> s_procs (pr_sched st) (BIGCHUNK_DATA_BEGIN c) = None \<and> c \<notin> dom live
    \<and> proc_inv (set_mm mm st) cs A B (live(c \<mapsto> 152)) \<and> n \<le> bin_room (s_mem (pr_sched (set_mm mm st)))
    \<and> (\<forall>m n. room_for (Suc m) n st live \<longrightarrow> room_for m n (set_mm mm st) (live(c \<mapsto> 152)))"
proof -
  let ?mm = "q_mm (s_mem (pr_sched st))"
  have ready: "ready (pr_sched st) cs A B" and wf: "bin_wf ?mm"
    using inv ready_bin by (auto simp: proc_inv_def)
  obtain ks where ks: "big_wf ?mm ks live" using inv by (auto simp: proc_inv_def)
  note req = process_request
  have serve: "can_serve ?mm ks 152" using room ks req by (simp add: has_room_def)
  obtain c mm ks' where c: "malloc_big pdiff 152 ?mm = Inr (c + 13, mm)" "c \<notin> dom live"
      "big_wf mm ks' (live(c \<mapsto> 152))" "fast_bin mm = fast_bin ?mm"
      "\<forall>L. big_room L ?mm ks \<longrightarrow> big_room (L + 152) mm ks'"
    using malloc_big_wf_room [OF ks serve, of pdiff] by auto
  have keeps: "bin_wf mm = bin_wf ?mm" "small_blocks mm = small_blocks ?mm"
    using malloc_big_keeps [OF c(1)] c(4) bin_wf_cong small_blocks_cong by metis+
  have nz: "BIGCHUNK_DATA_BEGIN c \<noteq> 0" "BIGCHUNK_DATA_BEGIN c = c + 13"
    using big_data_begin [OF c(3)] by (simp_all add: BIGCHUNK_DATA_BEGIN_def SIZEOF_BIG_CHUNK_def)
  have fresh: "s_procs (pr_sched st) (BIGCHUNK_DATA_BEGIN c) = None"
    using inv c(2) nz(2) by (auto simp: proc_inv_def BIGCHUNK_DATA_BEGIN_def)
  have "new_object pdiff SIZEOF_KERNEL_PROCESS st = Inr (BIGCHUNK_DATA_BEGIN c, set_mm mm st)"
    using malloc_big_sized(1) [of SIZEOF_KERNEL_PROCESS pdiff ?mm] req c(1) nz
    by (simp add: new_object_def operator_new_def SIZEOF_KERNEL_PROCESS_def)
  moreover have "ready (pr_sched (set_mm mm st)) cs A B"
    using ready_set_mm [OF ready, of mm] keeps wf by (simp add: set_mm_def)
  then have "proc_inv (set_mm mm st) cs A B (live(c \<mapsto> 152))"
    using inv c(3) by (auto simp: proc_inv_def)
  moreover have "n \<le> bin_room (s_mem (pr_sched (set_mm mm st)))"
    using room keeps(2) by (simp add: has_room_def bin_room_def)
  moreover have "room_for m n (set_mm mm st) (live(c \<mapsto> 152))" if r: "room_for (Suc m) n st live" for m n
  proof -
    obtain L where L: "big_room L ?mm ks" "L + 152 * Suc m < 2 ^ 32" using r ks by (auto simp: room_for_def)
    have "big_room (L + 152) mm ks''" if "big_wf mm ks'' (live(c \<mapsto> 152))" for ks''
      using c(5) L(1) big_wf_unique [OF c(3) that] by simp
    then show ?thesis
      using r L(2) keeps(2) by (auto simp: room_for_def bin_room_def intro!: exI [of _ "L + 152"])
  qed
  ultimately show ?thesis using nz(1) fresh c(2) by blast
qed


lemma malloc_fastbin_big_wf:
  assumes "bin_wf st" and "malloc_fastbin st = Inr (p, st')"
  shows "big_wf st' ks live = big_wf st ks live"
proof (cases "card (used_slots st) < 100")
  case True
  then show ?thesis
    using malloc_fastbin_free_slot [OF assms(1)] assms(2) big_wf_other_bin by (metis Inr_inject Pair_inject)
next
  case False
  then have "malloc_fastbin st = Inr (0, st)"
    using sb.get_full [OF assms(1)] card_small_blocks [OF assms(1)] by simp
  then show ?thesis using assms(2) by simp
qed

lemma enqueue_big_wf:
  assumes "bin_wf (q_mm m)" and "enqueue pdiff SIZEOF_PROCESS_NODE x q m = Inr (q', m')"
  shows "big_wf (q_mm m') ks live = big_wf (q_mm m) ks live"
proof -
  have "operator_new pdiff SIZEOF_PROCESS_NODE mm = malloc_fastbin mm" for mm
    by (simp add: operator_new_small SIZEOF_PROCESS_NODE_def)
  then show ?thesis
    using assms malloc_fastbin_big_wf [OF assms(1)]
    by (auto simp: enqueue_def new_qnode_def and_then_Inr_iff Let_def split: if_splits)
qed

lemma AddItem_big_wf:
  assumes "bin_wf (q_mm (s_mem s))" and "AddItem pdiff p s = Inr s'"
  shows "big_wf (q_mm (s_mem s')) ks live = big_wf (q_mm (s_mem s)) ks live"
  using assms enqueue_big_wf [OF assms(1)]
  by (auto simp: AddItem_def and_then_Inr_iff split: if_splits)

lemma AddItem_inv:
  assumes inv: "proc_inv st cs A B live" and k: "s_procs (pr_sched st) p = Some k"
    and room: "0 < bin_room (s_mem (pr_sched st))" and new: "kp_pid k \<notin> set cs"
    and AB: "A' = (if kp_priority k = System then A @ [p] else A)" "B' = (if kp_priority k = System then B else B @ [p])"
  shows "\<exists>s. AddItem pdiff p (pr_sched st) = Inr s \<and> s_procs s = s_procs (pr_sched st)
    \<and> proc_inv (st\<lparr>pr_sched := s\<rparr>) cs A' B' live
    \<and> same_big (q_mm (s_mem (pr_sched st))) (q_mm (s_mem s)) \<and> bin_room (s_mem (pr_sched st)) = Suc (bin_room (s_mem s))"
proof -
  have ready: "ready (pr_sched st) cs A B" using inv by (simp add: proc_inv_def)
  have new': "alive (s_procs (pr_sched st)) cs [p] = [p]" using k new by (simp add: pid_of_def)
  obtain s where s: "AddItem pdiff p (pr_sched st) = Inr s" "s_procs s = s_procs (pr_sched st)" "ready s cs A' B'"
      "same_big (q_mm (s_mem (pr_sched st))) (q_mm (s_mem s))" "bin_room (s_mem (pr_sched st)) = Suc (bin_room (s_mem s))"
    using AddItem_ready [OF ready k room, of pdiff] AB mem_frameD(1) unfolding new' by blast
  obtain ks where "big_wf (q_mm (s_mem (pr_sched st))) ks live" using inv by (auto simp: proc_inv_def)
  then have "big_wf (q_mm (s_mem s)) ks live"
    using AddItem_big_wf [OF ready_bin [OF ready] s(1)] by simp
  then show ?thesis
    using s inv by (auto simp: proc_inv_def)
qed


lemma NewProcess_inv:
  assumes inv: "proc_inv st cs A B live" and room: "has_room n st live"
    and dir: "case mappings of None \<Rightarrow> d = 0 \<and> pag = pr_paging st
      | Some (v, ms) \<Rightarrow> create_directory ms (pr_paging st) = Inr (d, pag)"
  shows "\<exists>p st1 k live'. NewProcess pdiff junk start priority mappings st = Inr (p, st1)
    \<and> proc_inv st1 cs A B live' \<and> n \<le> bin_room (s_mem (pr_sched st1)) \<and> s_procs (pr_sched st) p = None
    \<and> s_procs (pr_sched st1) = (s_procs (pr_sched st))(p \<mapsto> k) \<and> kp_pid k = pr_pid_seq st \<and> kp_priority k = priority
    \<and> kp_slice_size k = (of_nat (priority_value priority) + 1) * 10 \<and> kp_directory k = d
    \<and> r_eip (kp_registers k) = start \<and> r_esp (kp_registers k) = 0xA0001000 \<and> kp_self_mappings k = mappings
    \<and> kp_input_buffer k = 0 \<and> kp_times_ran k = 0 \<and> kp_input_buffer_lock k = kp_input_buffer_lock junk
    \<and> pr_pid_seq st1 = pr_pid_seq st + 1 \<and> pr_paging st1 = pag \<and> pr_registered st1 = pr_registered st
    \<and> pr_cached_pid st1 = pr_cached_pid st \<and> pr_functions st1 = pr_functions st
    \<and> (\<forall>m n. room_for (Suc m) n st live \<longrightarrow> room_for m n st1 live')"
proof -
  obtain c mm where new: "new_object pdiff SIZEOF_KERNEL_PROCESS st = Inr (BIGCHUNK_DATA_BEGIN c, set_mm mm st)"
      "BIGCHUNK_DATA_BEGIN c \<noteq> 0" "s_procs (pr_sched st) (BIGCHUNK_DATA_BEGIN c) = None"
      "proc_inv (set_mm mm st) cs A B (live(c \<mapsto> 152))" "n \<le> bin_room (s_mem (pr_sched (set_mm mm st)))"
      "\<forall>m n. room_for (Suc m) n st live \<longrightarrow> room_for m n (set_mm mm st) (live(c \<mapsto> 152))"
    using new_process_object [OF inv room, of pdiff] by blast
  define k where "k = (KernelProcess_init junk (pr_pid_seq st) priority)
      \<lparr>kp_directory := d, kp_stack_begin := KERNEL_STACK_BEGIN, kp_heap_begin := K_HEAP_START\<rparr>"
  define k' where "k' = k\<lparr>kp_registers := (kp_registers k)\<lparr>r_eip := start, r_esp := kp_stack_begin k + 0x1000,
      r_ebp := kp_stack_begin k + 0x1000\<rparr>, kp_on_end := SignalProcEnd, kp_self_mappings := mappings\<rparr>"
  define st1 where "st1 = set_proc (BIGCHUNK_DATA_BEGIN c) k' ((set_mm mm st)\<lparr>pr_pid_seq := pr_pid_seq st + 1, pr_paging := pag\<rparr>)"
  have "NewProcess pdiff junk start priority mappings st = Inr (BIGCHUNK_DATA_BEGIN c, st1)"
    using new(1) dir
    by (cases mappings) (auto simp: NewProcess_def st1_def k'_def k_def Let_def set_mm_def KernelProcess_init_def
        intro!: arg_cong2 [where f = "set_proc (BIGCHUNK_DATA_BEGIN c)"] KernelProcess.equality)
  moreover have "ready (pr_sched (set_mm mm st)) cs A B" using new(4) by (simp add: proc_inv_def)
  then have "ready (pr_sched st1) cs A B"
    using ready_new_proc [of "pr_sched (set_mm mm st)" cs A B _ k'] new(2,3) by (simp add: st1_def set_proc_def)
  then have "proc_inv st1 cs A B (live(c \<mapsto> 152))"
    using new(4) by (auto simp: proc_inv_def st1_def)
  moreover have "room_for m n st1 (live(c \<mapsto> 152)) = room_for m n (set_mm mm st) (live(c \<mapsto> 152))" for m n
    by (simp add: room_for_def st1_def)
  ultimately show ?thesis
    using new(3,5,6)
    by (intro exI [of _ "BIGCHUNK_DATA_BEGIN c"] exI [of _ st1] exI [of _ k'] exI [of _ "live(c \<mapsto> 152)"])
      (simp add: st1_def k'_def k_def KernelProcess_init_def KERNEL_STACK_BEGIN_def)
qed


lemma proc_inv_set_proc:
  assumes inv: "proc_inv st cs A B live" and k: "s_procs (pr_sched st) p = Some k" "kp_pid k' = kp_pid k"
  shows "proc_inv (set_proc p k' st) cs A B live"
proof -
  have "pid_of ((s_procs (pr_sched st))(p \<mapsto> k')) = pid_of (s_procs (pr_sched st))"
    using k by (auto simp: pid_of_def fun_eq_iff)
  moreover have "dom ((s_procs (pr_sched st))(p \<mapsto> k')) = dom (s_procs (pr_sched st))"
    using k(1) by auto
  ultimately have "ready (pr_sched (set_proc p k' st)) cs A B"
    using inv ready_same_pids [of "pr_sched st" cs A B] by (simp add: proc_inv_def set_proc_def)
  then show ?thesis
    using inv k(1) by (auto simp: proc_inv_def)
qed

text \<open>A name of 1 to 63 characters, with at least 128 readable bytes from its start.\<close>

definition good_name :: "char list \<Rightarrow> kstring \<Rightarrow> bool" where
  "good_name beyond name \<longleftrightarrow> (\<exists>d. str_data name = Some d \<and> terminated d \<and> 0 < length (cstr d)
     \<and> length (cstr d) < 64 \<and> 128 \<le> length (d @ beyond))"

text \<open>The first registered program with that name is number \<open>i\<close>, at address \<open>func\<close>.\<close>

definition names_program :: "processing \<Rightarrow> char list \<Rightarrow> nat \<Rightarrow> u32 \<Rightarrow> bool" where
  "names_program st txt i func \<longleftrightarrow> (\<exists>rps. elements (pr_registered st) = Inr rps \<and> i < length rps
     \<and> (\<forall>rp \<in> set (take (Suc i) rps). str_ok (rp_name rp)) \<and> text_of (rp_name (rps ! i)) = txt
     \<and> (\<forall>j < i. text_of (rp_name (rps ! j)) \<noteq> txt) \<and> rp_func_ptr (rps ! i) = func)"

definition in_kernel :: "processing \<Rightarrow> processing" where
  "in_kernel st = (if pr_cached_pid st \<noteq> 0 then enter_kernel st else st)"

lemma names_program_find:
  assumes "good_name beyond name" and "names_program st (text_of name) i func"
  shows "\<exists>buf rps rp. copy_name beyond name = Inr buf \<and> elements (pr_registered st) = Inr rps
    \<and> find_registered g buf rps = Inr i \<and> load_at (v_buffer (pr_registered st)) i = Inr rp \<and> rp_func_ptr rp = func"
proof -
  obtain d where d: "str_data name = Some d" "terminated d" "0 < length (cstr d)" "length (cstr d) < 64"
      "128 \<le> length (d @ beyond)"
    using assms(1) by (auto simp: good_name_def)
  then have named: "text_of name = cstr d" by (simp add: text_of_def)
  obtain buf where buf: "copy_name beyond name = Inr buf" "terminated buf" "cstr buf = cstr d" "length buf = 128"
    using copy_name_ok [OF d(1,2,4,5)] by blast
  obtain rps where rps: "elements (pr_registered st) = Inr rps" "i < length rps"
      "\<forall>rp \<in> set (take (Suc i) rps). str_ok (rp_name rp)" "text_of (rp_name (rps ! i)) = cstr d"
      "\<forall>j < i. text_of (rp_name (rps ! j)) \<noteq> cstr d" "rp_func_ptr (rps ! i) = func"
    using assms(2) named by (auto simp: names_program_def)
  have "find_registered g buf rps = Inr i"
    using find_registered_first [of buf i rps g] buf d(3,4) rps by simp
  moreover have "load_at (v_buffer (pr_registered st)) i = Inr (rps ! i)"
    using rps(1,2) by (auto simp: elements_def split: if_splits)
  ultimately show ?thesis using buf(1) rps(1,6) by blast
qed

lemma proc_inv_in_kernel [simp]: "proc_inv (in_kernel st) cs A B live = proc_inv st cs A B live"
  "has_room n (in_kernel st) live = has_room n st live" "pr_registered (in_kernel st) = pr_registered st"
  "pr_cached_pid (in_kernel st) = pr_cached_pid st" "pr_pid_seq (in_kernel st) = pr_pid_seq st"
  "pr_sched (in_kernel st) = pr_sched st" "cr3 (pr_paging (load_cr3 v st)) = v"
  "proc_inv (load_cr3 v st) cs A B live = proc_inv st cs A B live" "pr_sched (load_cr3 v st) = pr_sched st"
  "pr_pid_seq (load_cr3 v st) = pr_pid_seq st" "cr3 (pr_paging st) = c \<Longrightarrow> cr3 (pr_paging (st\<lparr>pr_sched := s\<rparr>)) = c"
  by (simp_all add: in_kernel_def enter_kernel_def proc_inv_def has_room_def load_cr3_def)

lemma Start_Process_at:
  assumes inv: "proc_inv st cs A B live" and room: "has_room 2 st live"
    and find: "copy_name beyond name = Inr buf" "elements (pr_registered st) = Inr rps"
      "find_registered g buf rps = Inr i" "load_at (v_buffer (pr_registered st)) i = Inr rp"
    and dir: "create_directory [(0xA0000000, 0xA0010000), (0xC0000000, 0xC1000000)] (pr_paging (in_kernel st)) = Inr (d, pag)"
    and new: "pr_pid_seq st \<notin> set cs"
  shows "\<exists>p k st' live'. Start_Process pdiff g beyond junk name priority st = Inr (pr_pid_seq st, st')
    \<and> proc_inv st' cs (if priority = System then A @ [p] else A) (if priority = System then B else B @ [p]) live'
    \<and> s_procs (pr_sched st) p = None \<and> s_procs (pr_sched st') = (s_procs (pr_sched st))(p \<mapsto> k)
    \<and> kp_pid k = pr_pid_seq st \<and> kp_directory k = d \<and> r_eip (kp_registers k) = rp_func_ptr rp \<and> r_esp (kp_registers k) = 0xA0001000
    \<and> kp_slice_size k = (of_nat (priority_value priority) + 1) * 10 \<and> pr_pid_seq st' = pr_pid_seq st + 1
    \<and> cr3 (pr_paging st') = (if pr_cached_pid st \<noteq> 0 then cr3 (pr_paging st) else cr3 pag)
    \<and> pr_paging st' = pag\<lparr>cr3 := cr3 (pr_paging st')\<rparr> \<and> kp_times_ran k = 0
    \<and> (\<forall>m n. room_for (Suc m) (n + 2) st live \<longrightarrow> room_for m n st' live')"
proof -
  let ?ms = "[(0xA0000000, 0xA0010000), (0xC0000000, 0xC1000000)] :: (u32 \<times> u32) list"
  let ?st1 = "in_kernel st"
  have two: "has_room (Suc 1) ?st1 live" using room by (simp add: numeral_2_eq_2)
  have sizes: "0 < SIZEOF_VECTOR" "SIZEOF_VECTOR \<le> 64" by (simp_all add: SIZEOF_VECTOR_def)
  obtain v mm where v: "new_object pdiff SIZEOF_VECTOR ?st1 = Inr (v, set_mm mm ?st1)"
      "proc_inv (set_mm mm ?st1) cs A B live" "has_room 1 (set_mm mm ?st1) live"
      "same_big (q_mm (s_mem (pr_sched st))) mm" "bin_room (s_mem (pr_sched st)) \<le> Suc (bin_room (s_mem (pr_sched (set_mm mm ?st1))))"
    using new_small_object [of ?st1 cs A B live 1 SIZEOF_VECTOR pdiff] inv two sizes by auto
  obtain p st2 k live' where p: "NewProcess pdiff junk (rp_func_ptr rp) priority (Some (v, ?ms)) (set_mm mm ?st1) = Inr (p, st2)"
      "proc_inv st2 cs A B live'" "1 \<le> bin_room (s_mem (pr_sched st2))" "s_procs (pr_sched st) p = None"
      "s_procs (pr_sched st2) = (s_procs (pr_sched st))(p \<mapsto> k)" "kp_pid k = pr_pid_seq st" "kp_priority k = priority"
      "kp_slice_size k = (of_nat (priority_value priority) + 1) * 10" "kp_directory k = d"
      "r_eip (kp_registers k) = rp_func_ptr rp" "r_esp (kp_registers k) = 0xA0001000" "pr_pid_seq st2 = pr_pid_seq st + 1"
      "pr_paging st2 = pag" "pr_cached_pid st2 = pr_cached_pid st"
      "\<forall>m n. room_for (Suc m) n (set_mm mm ?st1) live \<longrightarrow> room_for m n st2 live'" "kp_times_ran k = 0"
    using NewProcess_inv [OF v(2,3), of d pag "Some (v, ?ms)" pdiff junk "rp_func_ptr rp" priority] dir by simp blast
  obtain s where s: "AddItem pdiff p (pr_sched st2) = Inr s" "s_procs s = s_procs (pr_sched st2)"
      "proc_inv (st2\<lparr>pr_sched := s\<rparr>) cs (if priority = System then A @ [p] else A)
         (if priority = System then B else B @ [p]) live'"
      "same_big (q_mm (s_mem (pr_sched st2))) (q_mm (s_mem s))" "bin_room (s_mem (pr_sched st2)) = Suc (bin_room (s_mem s))"
    using AddItem_inv [OF p(2) _ _ _ refl refl, of p k pdiff] p(3,5,6,7) new by auto
  define st3 where "st3 = (if pr_cached_pid st \<noteq> 0 then load_cr3 (cr3 (pr_paging st)) (st2\<lparr>pr_sched := s\<rparr>) else st2\<lparr>pr_sched := s\<rparr>)"
  have start3: "Start_Process pdiff g beyond junk name priority st = Inr (pr_pid_seq st, st3)"
    using find v(1) p(1,5,6) s(1) unfolding Start_Process_def process_mappings_eq in_kernel_def [symmetric]
    by (simp add: Let_def st3_def)
  have cr3: "cr3 (pr_paging st3) = (if pr_cached_pid st \<noteq> 0 then cr3 (pr_paging st) else cr3 pag)"
    using p(13) by (simp add: st3_def)
  have pag3: "pr_paging st3 = pag\<lparr>cr3 := cr3 (pr_paging st3)\<rparr>"
    using p(13) by (simp add: st3_def load_cr3_def)
  have procs3: "s_procs (pr_sched st3) = (s_procs (pr_sched st))(p \<mapsto> k)" "pr_pid_seq st3 = pr_pid_seq st + 1"
    using p(5,12) s(2) by (simp_all add: st3_def)
  have inv3: "proc_inv st3 cs (if priority = System then A @ [p] else A) (if priority = System then B else B @ [p]) live'"
    using s(3) by (cases "pr_cached_pid st = 0") (simp_all add: st3_def split del: if_split)
  have room3: "room_for m n st3 live'" if r: "room_for (Suc m) (n + 2) st live" for m n
  proof -
    have "room_for (Suc m) (n + 1) (set_mm mm ?st1) live"
      using room_for_frame [OF r, of "set_mm mm ?st1" "n + 1"] v(4,5) by simp
    then have "room_for m (n + 1) st2 live'" using p(15) by blast
    then have "room_for m n (st2\<lparr>pr_sched := s\<rparr>) live'"
      using s(4,5) room_for_frame [of m "n + 1" st2 live' "st2\<lparr>pr_sched := s\<rparr>" n] by simp
    then show ?thesis by (cases "pr_cached_pid st = 0") (simp_all add: st3_def room_for_def)
  qed
  show ?thesis
    using start3 cr3 pag3 procs3 inv3 p(4,6-11,16) room3
    by (intro exI [of _ p] exI [of _ k] exI [of _ st3] exI [of _ live'] conjI allI impI) assumption+
qed

lemma End_Process_inv:
  assumes inv: "proc_inv st cs A B live" and "length cs < 2 ^ 30"
  shows "\<exists>st'. End_Process pid st = Inr st' \<and> s_procs (pr_sched st') = s_procs (pr_sched st)
    \<and> pr_registered st' = pr_registered st \<and> pr_paging st' = pr_paging st
    \<and> s_mem (pr_sched st') = s_mem (pr_sched st) \<and> pr_pid_seq st' = pr_pid_seq st
    \<and> proc_inv st' (cs @ [pid]) (filter (\<lambda>p. pid_of (s_procs (pr_sched st)) p \<noteq> pid) A)
        (filter (\<lambda>p. pid_of (s_procs (pr_sched st)) p \<noteq> pid) B) live"
proof -
  have ready: "ready (pr_sched st) cs A B" using inv by (simp add: proc_inv_def)
  obtain s where s: "SignalEnd pid (pr_sched st) = Inr s" "s_procs s = s_procs (pr_sched st)" "s_mem s = s_mem (pr_sched st)"
      "ready s (cs @ [pid]) (filter (\<lambda>p. pid_of (s_procs (pr_sched st)) p \<noteq> pid) A)
         (filter (\<lambda>p. pid_of (s_procs (pr_sched st)) p \<noteq> pid) B)"
    using SignalEnd_ready [OF ready assms(2), of pid] by blast
  define st' where "st' = (if pr_cached_pid st \<noteq> 1 then load_cr3 (cr3 (pr_paging st)) ((enter_kernel st)\<lparr>pr_sched := s\<rparr>)
      else st\<lparr>pr_sched := s\<rparr>)"
  have "End_Process pid st = Inr st'"
    using s(1) by (simp add: End_Process_def Let_def st'_def enter_kernel_def)
  moreover have "proc_inv st' (cs @ [pid]) (filter (\<lambda>p. pid_of (s_procs (pr_sched st)) p \<noteq> pid) A)
      (filter (\<lambda>p. pid_of (s_procs (pr_sched st)) p \<noteq> pid) B) live"
    using s inv by (auto simp: proc_inv_def st'_def enter_kernel_def load_cr3_def)
  moreover have "s_procs (pr_sched st') = s_procs (pr_sched st)" "pr_registered st' = pr_registered st"
      "pr_paging st' = pr_paging st" "s_mem (pr_sched st') = s_mem (pr_sched st)" "pr_pid_seq st' = pr_pid_seq st"
    using s(2,3) by (simp_all add: st'_def enter_kernel_def load_cr3_def SetDirectory_def)
  ultimately show ?thesis by blast
qed

lemma start_end_cycle:
  assumes inv: "proc_inv st cs A B live" and room: "has_room 2 st live"
    and name: "good_name beyond name" "names_program st (text_of name) i func"
    and dir: "create_directory [(0xA0000000, 0xA0010000), (0xC0000000, 0xC1000000)] (pr_paging (in_kernel st)) = Inr (d, pag)"
    and new: "pr_pid_seq st \<notin> set cs" "\<forall>p \<in> set A \<union> set B. pid_of (s_procs (pr_sched st)) p \<noteq> pr_pid_seq st"
    and "length cs < 2 ^ 30" and "pr_cached_pid st \<noteq> 0"
  shows "\<exists>st1 st2 live'. Start_Process pdiff g beyond junk name priority st = Inr (pr_pid_seq st, st1)
    \<and> End_Process (pr_pid_seq st) st1 = Inr st2 \<and> proc_inv st2 (cs @ [pr_pid_seq st]) A B live'
    \<and> cr3 (pr_paging st2) = cr3 (pr_paging st)"
proof -
  obtain buf rps rp where find: "copy_name beyond name = Inr buf" "elements (pr_registered st) = Inr rps"
      "find_registered g buf rps = Inr i" "load_at (v_buffer (pr_registered st)) i = Inr rp"
    using names_program_find [OF name] by blast
  define A' where "A' p = (if priority = System then A @ [p] else A)" for p
  define B' where "B' p = (if priority = System then B else B @ [p])" for p
  obtain p k st1 live' where 1: "Start_Process pdiff g beyond junk name priority st = Inr (pr_pid_seq st, st1)"
      "proc_inv st1 cs (A' p) (B' p) live'" "s_procs (pr_sched st) p = None" "kp_pid k = pr_pid_seq st"
      "s_procs (pr_sched st1) = (s_procs (pr_sched st))(p \<mapsto> k)" "cr3 (pr_paging st1) = cr3 (pr_paging st)"
    using Start_Process_at [OF inv room find dir new(1), of pdiff junk priority] assms(9)
    unfolding A'_def B'_def by (simp only: if_True not_False_eq_True) blast
  have pid: "pid_of (s_procs (pr_sched st1)) p = pr_pid_seq st" using 1(4,5) by (simp add: pid_of_def)
  have "q \<noteq> p" "pid_of (s_procs (pr_sched st1)) q \<noteq> pr_pid_seq st" if "q \<in> set A \<union> set B" for q
  proof -
    have "s_procs (pr_sched st) q \<noteq> None"
      using ready_members [of "pr_sched st" cs A B q] inv that by (simp add: proc_inv_def)
    then show "q \<noteq> p" using 1(3) by auto
    then show "pid_of (s_procs (pr_sched st1)) q \<noteq> pr_pid_seq st"
      using new(2) that 1(5) by (auto simp: pid_of_def)
  qed
  then have "filter (\<lambda>q. pid_of (s_procs (pr_sched st1)) q \<noteq> pr_pid_seq st) (A' p) = A"
      "filter (\<lambda>q. pid_of (s_procs (pr_sched st1)) q \<noteq> pr_pid_seq st) (B' p) = B"
    using pid by (simp_all add: A'_def B'_def)
  moreover obtain st2 where "End_Process (pr_pid_seq st) st1 = Inr st2" "pr_paging st2 = pr_paging st1"
      "proc_inv st2 (cs @ [pr_pid_seq st]) (filter (\<lambda>q. pid_of (s_procs (pr_sched st1)) q \<noteq> pr_pid_seq st) (A' p))
        (filter (\<lambda>q. pid_of (s_procs (pr_sched st1)) q \<noteq> pr_pid_seq st) (B' p)) live'"
    using End_Process_inv [OF 1(2) assms(8), of "pr_pid_seq st"] by blast
  ultimately show ?thesis using 1(1,6) by metis
qed

lemma RegisterProcess_appends:
  assumes vec: "vector_wf (pr_registered st)" "elements (pr_registered st) = Inr rps" "length rps < 2 ^ 30"
    and name: "str_ok name" "text_of name \<noteq> []" "length (text_of name) < 64"
  shows "\<exists>v rp. RegisterProcess g name func st = Inr (st\<lparr>pr_registered := v\<rparr>) \<and> vector_wf v
    \<and> elements v = Inr (rps @ [rp]) \<and> str_ok (rp_name rp) \<and> text_of (rp_name rp) = text_of name \<and> rp_func_ptr rp = func"
proof -
  obtain n where n: "String_copy g name = Inr n" "str_ok n" "text_of n = text_of name"
    using String_copy_ok(1) [OF name] by blast
  obtain n' where n': "String_assign g n = Inr n'" "str_ok n'" "text_of n' = text_of name"
    using String_copy_ok(2) [OF n(2)] n(3) name by auto
  obtain v where v: "push_back no_program \<lparr>rp_name = n', rp_func_ptr = func\<rparr> (pr_registered st) = Inr v" "vector_wf v"
      "elements v = Inr (rps @ [\<lparr>rp_name = n', rp_func_ptr = func\<rparr>])"
    using push_back_appends [OF vec] by blast
  then show ?thesis using n n' by (intro exI [of _ v] exI [of _ "\<lparr>rp_name = n', rp_func_ptr = func\<rparr>"]) (simp add: RegisterProcess_def)
qed

lemma SelfProcessInit_inv:
  assumes inv: "proc_inv st cs A B live" and room: "has_room (Suc n) st live"
    and k: "s_procs (pr_sched st) (pr_cached_process st) = Some k"
  shows "\<exists>q mm. SelfProcessInit pdiff st = Inr (set_proc (pr_cached_process st) (k\<lparr>kp_input_buffer := q\<rparr>) (set_mm mm st))
    \<and> q \<noteq> 0 \<and> proc_inv (set_proc (pr_cached_process st) (k\<lparr>kp_input_buffer := q\<rparr>) (set_mm mm st)) cs A B live
    \<and> (\<forall>m n. room_for m (Suc n) st live \<longrightarrow>
         room_for m n (set_proc (pr_cached_process st) (k\<lparr>kp_input_buffer := q\<rparr>) (set_mm mm st)) live)"
proof -
  have sizes: "0 < SIZEOF_QUEUE" "SIZEOF_QUEUE \<le> 64" by (simp_all add: SIZEOF_QUEUE_def)
  obtain q mm where q: "new_object pdiff SIZEOF_QUEUE st = Inr (q, set_mm mm st)" "q \<noteq> 0" "proc_inv (set_mm mm st) cs A B live"
      "same_big (q_mm (s_mem (pr_sched st))) mm" "bin_room (s_mem (pr_sched st)) \<le> Suc (bin_room (s_mem (pr_sched (set_mm mm st))))"
    using new_small_object [OF inv room sizes, of pdiff] by blast
  let ?st' = "set_proc (pr_cached_process st) (k\<lparr>kp_input_buffer := q\<rparr>) (set_mm mm st)"
  have "SelfProcessInit pdiff st = Inr ?st'"
    using q(1) k by (simp add: SelfProcessInit_def cached_process_def)
  moreover have "proc_inv ?st' cs A B live" using proc_inv_set_proc [OF q(3), of _ k] k by simp
  moreover have "room_for m n ?st' live" if "room_for m (Suc n) st live" for m n
    using room_for_frame [OF that, of ?st' n] q(4,5) by simp
  ultimately show ?thesis using q(2) by blast
qed

text \<open>What the operations leave alone.\<close>

definition keeps_clock :: "processing \<Rightarrow> processing \<Rightarrow> bool" where
  "keeps_clock st st' \<longleftrightarrow> pr_functions st' = pr_functions st \<and> s_current (pr_sched st') = s_current (pr_sched st)
     \<and> pr_cached_pid st' = pr_cached_pid st \<and> pr_cached_process st' = pr_cached_process st"

lemma keeps_clock_trans: "keeps_clock st st' \<Longrightarrow> keeps_clock st' st'' \<Longrightarrow> keeps_clock st st''"
  by (simp add: keeps_clock_def)

lemma keeps_clock_simps [simp]:
  "keeps_clock st st" "keeps_clock st (set_mm mm st)" "keeps_clock st (set_proc p k st)" "keeps_clock st (load_cr3 v st)"
  "keeps_clock st (enter_kernel st)" "keeps_clock st (st\<lparr>pr_registered := w\<rparr>)" "keeps_clock st (st\<lparr>pr_paging := pag\<rparr>)"
  "keeps_clock st (st\<lparr>pr_pid_seq := i\<rparr>)"
  by (simp_all add: keeps_clock_def set_mm_def set_proc_def load_cr3_def enter_kernel_def)

lemma AddItem_current: "AddItem pdiff p s = Inr s' \<Longrightarrow> s_current s' = s_current s"
  by (auto simp: AddItem_def and_then_Inr_iff split: if_splits)

lemma SignalEnd_current: "SignalEnd pid s = Inr s' \<Longrightarrow> s_current s' = s_current s"
  by (auto simp: SignalEnd_def and_then_Inr_iff split: if_splits)

lemma NewProcess_keeps:
  "NewProcess pdiff junk start priority ms st = Inr (p, st') \<Longrightarrow> keeps_clock st st' \<and> pr_registered st' = pr_registered st"
  by (cases ms) (auto simp: NewProcess_def new_object_def set_mm_def set_proc_def keeps_clock_def and_then_Inr_iff Let_def
      split: if_splits prod.splits)

lemma Start_Process_keeps:
  assumes "Start_Process pdiff g beyond junk name priority st = Inr (pid, st')"
  shows "keeps_clock st st' \<and> pr_registered st' = pr_registered st"
  using assms NewProcess_keeps AddItem_current
  by (auto simp: Start_Process_def and_then_Inr_iff Let_def new_object_def keeps_clock_def enter_kernel_def set_mm_def
      load_cr3_def split: if_splits)

lemma End_Process_keeps: "End_Process pid st = Inr st' \<Longrightarrow> keeps_clock st st'"
  using SignalEnd_current
  by (auto simp: End_Process_def and_then_Inr_iff Let_def keeps_clock_def enter_kernel_def load_cr3_def split: if_splits)

text \<open>A machine with one registered program, for the witnesses.\<close>

definition example_name :: "char list \<Rightarrow> kstring" where
  "example_name s = \<lparr>str_data = Some (s @ replicate (64 - length s) NUL), str_size = of_nat (length s)\<rparr>"

definition example_paging :: paging_state where
  "example_paging = sample_state\<lparr>frame_table := fst (FrameTable_new 8192 0)\<rparr>"

definition example_processing :: processing where
  "example_processing =
     \<lparr>pr_sched = ProcessScheduler_new boot_qmem Map.empty, pr_paging = example_paging,
      pr_registered = \<lparr>v_size = 1, v_capacity = 2, v_Log = 2,
        v_buffer = [\<lparr>rp_name = example_name ''ab'', rp_func_ptr = 0x5000\<rparr>, no_program]\<rparr>,
      pr_pid_seq = 5, pr_functions = Vector_new, pr_cached_pid = 1, pr_cached_process = 0\<rparr>"

lemma example_inv: "proc_inv example_processing [] [] [] Map.empty"
proof -
  have "sched_rep (ProcessScheduler_new boot_qmem Map.empty) [] [] []"
    using boot_qmem_rep by (auto simp: ProcessScheduler_new_def sched_rep_def known_def)
  then have "ready (ProcessScheduler_new boot_qmem Map.empty) [] [] []" by (rule readyI) simp_all
  then show ?thesis
    using boot_heap_wf(4) by (auto simp: proc_inv_def example_processing_def ProcessScheduler_new_def boot_qmem_def)
qed

lemma example_room: "has_room 2 example_processing Map.empty"
proof -
  have "can_serve boot_heap [0xC0001A90] (big_request SIZEOF_KERNEL_PROCESS)"
    by (simp add: can_serve_def big_request_def ALIGN_VAL_def CHUNK_SIZE_ALIGN_def SIZEOF_BIG_CHUNK_def
        SIZEOF_KERNEL_PROCESS_def boot_heap_eq)
  then have "can_serve boot_heap ks (big_request SIZEOF_KERNEL_PROCESS)" if "big_wf boot_heap ks Map.empty" for ks
    using big_wf_unique [OF boot_heap_wf(4) that] by simp
  moreover have "bin_room (s_mem (pr_sched example_processing)) = 100"
    by (simp add: example_processing_def ProcessScheduler_new_def boot_qmem_room)
  ultimately show ?thesis
    by (simp add: has_room_def example_processing_def ProcessScheduler_new_def boot_qmem_def)
qed

lemma example_names: "length s < 64 \<Longrightarrow> NUL \<notin> set s \<Longrightarrow> s \<noteq> []
    \<Longrightarrow> good_name (replicate 64 NUL) (example_name s) \<and> text_of (example_name s) = s \<and> str_ok (example_name s)"
proof -
  assume s: "length s < 64" "NUL \<notin> set s" "s \<noteq> []"
  then obtain n where "64 - length s = Suc n" by (metis Suc_diff_Suc)
  then have data: "str_data (example_name s) = Some (s @ NUL # replicate n NUL)" "length s + Suc n = 64"
    using s(1) by (simp_all add: example_name_def)
  have "cstr (s @ NUL # replicate n NUL) = s" using s(2) by simp
  moreover have "unat (of_nat (length s) :: u32) = length s"
    using s(1) by (intro unat_of_nat_no_wrap) simp
  ultimately show ?thesis
    using data s by (auto simp: good_name_def text_of_def str_ok_def terminated_def example_name_def)
qed

lemma example_program: "names_program example_processing ''ab'' 0 0x5000"
proof -
  have "text_of (example_name ''ab'') = ''ab''" "str_ok (example_name ''ab'')"
    using example_names [of "''ab''"] by simp_all
  then show ?thesis
    by (simp add: names_program_def example_processing_def elements_def)
qed

lemma example_directory:
  "\<exists>d pag. create_directory [(0xA0000000, 0xA0010000), (0xC0000000, 0xC1000000)]
     (pr_paging (in_kernel example_processing)) = Inr (d, pag)"
proof -
  let ?st = "pr_paging (in_kernel example_processing)"
  have ft: "frame_table ?st = fst (FrameTable_new 8192 0)" "primitive_heap ?st = 0x200000"
      "base_kernel_tables_size ?st = 1" "current_directory ?st = 0x100000" "directories ?st 0x100000 = Some zero_directory"
    by (simp_all add: example_processing_def in_kernel_def enter_kernel_def SetDirectory_def example_paging_def sample_state_def)
  have "ft_length (frame_table ?st) = 8192" by (simp add: ft FrameTable_new_def)
  then show ?thesis
    using create_directory_result [of ?st zero_directory "[(0xA0000000, 0xA0010000), (0xC0000000, 0xC1000000)]"]
      ft directory_wf_zero ft_wf_new [of 8192 0] taken_new [of 8192 0]
    by (auto simp: region_ok_def region_count_def)
qed

section \<open>Properties\<close>

text \<open>
  C6: Starting a registered program succeeds while the heap has room for the process object and
  two small blocks and its directory can be made: it returns the next id, appends one new process
  to the system or the regular ready list by its priority and to nothing else, sets it up at the
  program's address, with a stack pointer one page above the stack's start and a slice of
  ten times its priority plus one, keeps the invariant of the heap and the scheduler, and a caller
  that is a process continues in the directory it was in.
\<close>

theorem Start_Process_correct:
  assumes inv: "proc_inv st cs A B live" and room: "has_room 2 st live"
    and name: "good_name beyond name" "names_program st (text_of name) i func"
    and dir: "create_directory [(0xA0000000, 0xA0010000), (0xC0000000, 0xC1000000)] (pr_paging (in_kernel st)) = Inr (d, pag)"
    and new: "pr_pid_seq st \<notin> set cs"
  shows "\<exists>p k st' live'. Start_Process pdiff g beyond junk name priority st = Inr (pr_pid_seq st, st')
    \<and> proc_inv st' cs (if priority = System then A @ [p] else A) (if priority = System then B else B @ [p]) live'
    \<and> s_procs (pr_sched st) p = None \<and> s_procs (pr_sched st') = (s_procs (pr_sched st))(p \<mapsto> k)
    \<and> kp_pid k = pr_pid_seq st \<and> kp_directory k = d \<and> r_eip (kp_registers k) = func \<and> r_esp (kp_registers k) = 0xA0001000
    \<and> kp_slice_size k = (of_nat (priority_value priority) + 1) * 10 \<and> pr_pid_seq st' = pr_pid_seq st + 1
    \<and> cr3 (pr_paging st') = (if pr_cached_pid st \<noteq> 0 then cr3 (pr_paging st) else cr3 pag)"
proof -
  obtain buf rps rp where find: "copy_name beyond name = Inr buf" "elements (pr_registered st) = Inr rps"
      "find_registered g buf rps = Inr i" "load_at (v_buffer (pr_registered st)) i = Inr rp" "rp_func_ptr rp = func"
    using names_program_find [OF name] by blast
  show ?thesis
    using Start_Process_at [OF inv room find(1-4) dir new, of pdiff junk priority] unfolding find(5) by blast
qed

theorem Start_Process_correct_witness:
  "\<exists>st'. Start_Process (\<lambda>_ _. 0) (\<lambda>_. NUL) (replicate 64 NUL) (example_process 0) (example_name ''ab'') High
     example_processing = Inr (5, st')"
proof -
  obtain d pag where dir: "create_directory [(0xA0000000, 0xA0010000), (0xC0000000, 0xC1000000)]
     (pr_paging (in_kernel example_processing)) = Inr (d, pag)"
    using example_directory by blast
  have name: "good_name (replicate 64 NUL) (example_name ''ab'')" "text_of (example_name ''ab'') = ''ab''"
    using example_names [of "''ab''"] by simp_all
  have seq: "pr_pid_seq example_processing = 5" by (simp add: example_processing_def)
  show ?thesis
    using Start_Process_correct [OF example_inv example_room name(1) _ dir, of 0 "0x5000" "\<lambda>_ _. 0" "\<lambda>_. NUL" _ High]
      example_program name(2) seq by auto
qed

text \<open>
  The search for the program does not ask whether it found one: with a name no registered
  program has, the code reads the slot after the last one. When the vector has spare capacity it
  starts a process at whatever address that slot holds, as a success; when it has none, as after
  registering the two programs of the kernel, the read is out of bounds.
\<close>

theorem Start_Process_unregistered:
  assumes inv: "proc_inv st cs A B live" and room: "has_room 2 st live" and name: "good_name beyond name"
    and none: "elements (pr_registered st) = Inr rps"
      "\<forall>rp \<in> set rps. str_ok (rp_name rp) \<and> text_of (rp_name rp) \<noteq> text_of name"
    and dir: "create_directory [(0xA0000000, 0xA0010000), (0xC0000000, 0xC1000000)] (pr_paging (in_kernel st)) = Inr (d, pag)"
    and new: "pr_pid_seq st \<notin> set cs"
  shows "if length rps < length (v_buffer (pr_registered st))
    then \<exists>p k st'. Start_Process pdiff g beyond junk name priority st = Inr (pr_pid_seq st, st')
      \<and> s_procs (pr_sched st) p = None \<and> s_procs (pr_sched st') = (s_procs (pr_sched st))(p \<mapsto> k)
      \<and> r_eip (kp_registers k) = rp_func_ptr (v_buffer (pr_registered st) ! length rps)
    else Start_Process pdiff g beyond junk name priority st = Inl Out_Of_Bounds"
proof -
  obtain dt where dt: "str_data name = Some dt" "terminated dt" "0 < length (cstr dt)" "length (cstr dt) < 64"
      "128 \<le> length (dt @ beyond)"
    using name by (auto simp: good_name_def)
  then have named: "text_of name = cstr dt" by (simp add: text_of_def)
  obtain buf where buf: "copy_name beyond name = Inr buf" "terminated buf" "cstr buf = cstr dt" "length buf = 128"
    using copy_name_ok [OF dt(1,2,4,5)] by blast
  have find: "find_registered g buf rps = Inr (length rps)"
    using find_registered_none [of buf rps g] buf dt(3,4) none(2) named by simp
  show ?thesis
  proof (cases "length rps < length (v_buffer (pr_registered st))")
    case True
    then have "load_at (v_buffer (pr_registered st)) (length rps) = Inr (v_buffer (pr_registered st) ! length rps)"
      by simp
    from Start_Process_at [OF inv room buf(1) none(1) find this dir new, of pdiff junk priority] True
    show ?thesis by (simp del: load_at_in) blast
  next
    case False
    have two: "has_room (Suc 1) (in_kernel st) live" using room by (simp add: numeral_2_eq_2)
    have sizes: "0 < SIZEOF_VECTOR" "SIZEOF_VECTOR \<le> 64" by (simp_all add: SIZEOF_VECTOR_def)
    obtain v mm where "new_object pdiff SIZEOF_VECTOR (in_kernel st) = Inr (v, set_mm mm (in_kernel st))"
      using new_small_object [of "in_kernel st" cs A B live 1 SIZEOF_VECTOR pdiff] inv two sizes by auto
    then have "Start_Process pdiff g beyond junk name priority st = Inl Out_Of_Bounds"
      using False buf(1) none(1) find unfolding Start_Process_def process_mappings_eq in_kernel_def [symmetric]
      by (simp add: Let_def)
    then show ?thesis using False by simp
  qed
qed

theorem Start_Process_unregistered_witness:
  "\<exists>p k st'. Start_Process (\<lambda>_ _. 0) (\<lambda>_. NUL) (replicate 64 NUL) (example_process 0) (example_name ''cd'') High
     example_processing = Inr (5, st') \<and> s_procs (pr_sched st') p = Some k \<and> r_eip (kp_registers k) = 0"
proof -
  obtain d pag where dir: "create_directory [(0xA0000000, 0xA0010000), (0xC0000000, 0xC1000000)]
     (pr_paging (in_kernel example_processing)) = Inr (d, pag)"
    using example_directory by blast
  have name: "good_name (replicate 64 NUL) (example_name ''cd'')" "text_of (example_name ''cd'') = ''cd''"
      "text_of (example_name ''ab'') = ''ab''" "str_ok (example_name ''ab'')"
    using example_names [of "''cd''"] example_names [of "''ab''"] by simp_all
  have st: "pr_pid_seq example_processing = 5"
      "elements (pr_registered example_processing) = Inr [\<lparr>rp_name = example_name ''ab'', rp_func_ptr = 0x5000\<rparr>]"
      "v_buffer (pr_registered example_processing) = [\<lparr>rp_name = example_name ''ab'', rp_func_ptr = 0x5000\<rparr>, no_program]"
    by (simp_all add: example_processing_def elements_def)
  show ?thesis
    using Start_Process_unregistered [OF example_inv example_room name(1) st(2) _ dir, of "\<lambda>_ _. 0" "\<lambda>_. NUL" "example_process 0" High]
      name st by (fastforce simp: no_program_def)
qed

text \<open>
  Starting a program and then ending it by the id that was returned gives back the ready lists
  there were before, whatever its priority, and leaves the caller in its directory.
\<close>

theorem start_then_end:
  assumes inv: "proc_inv st cs A B live" and room: "has_room 2 st live"
    and name: "good_name beyond name" "names_program st (text_of name) i func"
    and dir: "create_directory [(0xA0000000, 0xA0010000), (0xC0000000, 0xC1000000)] (pr_paging (in_kernel st)) = Inr (d, pag)"
    and new: "pr_pid_seq st \<notin> set cs" "\<forall>p \<in> set A \<union> set B. pid_of (s_procs (pr_sched st)) p \<noteq> pr_pid_seq st"
    and "length cs < 2 ^ 30" and "pr_cached_pid st \<noteq> 0"
  shows "\<exists>pid st1 st2 live'. Start_Process pdiff g beyond junk name priority st = Inr (pid, st1)
    \<and> End_Process pid st1 = Inr st2 \<and> proc_inv st2 (cs @ [pid]) A B live' \<and> cr3 (pr_paging st2) = cr3 (pr_paging st)"
  using start_end_cycle [OF assms] by blast

theorem start_then_end_witness:
  "\<exists>pid st1 st2. Start_Process (\<lambda>_ _. 0) (\<lambda>_. NUL) (replicate 64 NUL) (example_process 0) (example_name ''ab'') High
     example_processing = Inr (pid, st1) \<and> End_Process pid st1 = Inr st2"
proof -
  obtain d pag where dir: "create_directory [(0xA0000000, 0xA0010000), (0xC0000000, 0xC1000000)]
     (pr_paging (in_kernel example_processing)) = Inr (d, pag)"
    using example_directory by blast
  have name: "good_name (replicate 64 NUL) (example_name ''ab'')" "names_program example_processing (text_of (example_name ''ab'')) 0 0x5000"
    using example_names [of "''ab''"] example_program by simp_all
  have "pr_cached_pid example_processing \<noteq> 0" by (simp add: example_processing_def)
  then show ?thesis
    using start_then_end [OF example_inv example_room name dir, of "\<lambda>_ _. 0" "\<lambda>_. NUL" "example_process 0" High] by auto
qed

text \<open>
  Initialisation moves the running stack: every byte between the stack pointer and the old
  top is found at the same distance below the new top, which is one page above
  \<^verbatim>\<open>KERNEL_STACK_BEGIN\<close>, and both pointers move along. The copy lies inside the mapped region
  exactly when at most one page was in use, although the region has 4096 of them.
\<close>

theorem relocate_stack_correct:
  assumes esp: "cpu_esp c \<le> stack_top" and new: "relocate_stack stack_top c mem = (c', mem')"
  shows "(\<forall>i < stack_top - cpu_esp c. mem' (cpu_esp c' + i) = mem (cpu_esp c + i))
    \<and> cpu_esp c' + (stack_top - cpu_esp c) = KERNEL_STACK_BEGIN + 0x1000
    \<and> cpu_ebp c' - cpu_esp c' = cpu_ebp c - cpu_esp c
    \<and> (stack_top - cpu_esp c \<le> KERNEL_STACK_BEGIN \<longrightarrow>
        (KERNEL_STACK_BEGIN \<le> cpu_esp c' \<longleftrightarrow> stack_top - cpu_esp c \<le> 0x1000))"
proof -
  define n where "n = stack_top - cpu_esp c"
  have c': "cpu_esp c' = KERNEL_STACK_BEGIN + 0x1000 - n" "cpu_ebp c' - cpu_esp c' = cpu_ebp c - cpu_esp c"
      "mem' = (\<lambda>a. if a - cpu_esp c' < n then mem (cpu_esp c + (a - cpu_esp c')) else mem a)"
    using new by (auto simp: relocate_stack_def Let_def n_def algebra_simps)
  have "KERNEL_STACK_BEGIN \<le> cpu_esp c' \<longleftrightarrow> n \<le> 0x1000" if "n \<le> KERNEL_STACK_BEGIN"
  proof -
    have "unat n \<le> 2684354560" using that by (simp add: KERNEL_STACK_BEGIN_def word_le_nat_alt)
    moreover from this have "unat (cpu_esp c') = 2684358656 - unat n"
      by (simp add: c'(1) KERNEL_STACK_BEGIN_def unat_minus_no_wrap)
    ultimately show ?thesis by (simp add: KERNEL_STACK_BEGIN_def word_le_nat_alt) linarith
  qed
  then show ?thesis
    using c' by (auto simp: n_def KERNEL_STACK_BEGIN_def)
qed

theorem relocate_stack_correct_witness:
  "snd (relocate_stack 0x108000 \<lparr>cpu_esp = 0x107F00, cpu_ebp = 0x107F10, cpu_eip = 0, cpu_eax = 0, cpu_interrupts = True\<rparr>
       (\<lambda>a. ucast a)) 0xA0000F04 = 4"
proof -
  define c where "c = \<lparr>cpu_esp = 0x107F00, cpu_ebp = 0x107F10, cpu_eip = 0, cpu_eax = 0, cpu_interrupts = True\<rparr>"
  obtain c' mem' where new: "relocate_stack 0x108000 c (\<lambda>a. ucast a :: u8) = (c', mem')" by fastforce
  have le: "cpu_esp c \<le> 0x108000" by (simp add: c_def)
  have moved: "\<forall>i < 0x108000 - cpu_esp c. mem' (cpu_esp c' + i) = ucast (cpu_esp c + i)"
    and esp: "cpu_esp c' + (0x108000 - cpu_esp c) = KERNEL_STACK_BEGIN + 0x1000"
    using relocate_stack_correct [OF le new] by simp_all
  have "cpu_esp c' = 0xA0000F00"
    using esp by (simp add: c_def KERNEL_STACK_BEGIN_def eq_diff_eq [symmetric])
  moreover have "mem' (cpu_esp c' + 4) = ucast (cpu_esp c + 4)"
    using moved [THEN spec, of 4] by (simp add: c_def)
  ultimately show ?thesis using new by (simp add: c_def)
qed

text \<open>The words of the stack around a frame.\<close>

lemma stack_words:
  fixes s :: u32
  shows "s - 4 + 8 = s + 4" "s - 4 + 4 = s" "s - 8 + 4 = s - 4" "s - 4 - 4 = s - 8" "s - 4 - 8 = s - 12" "s - 4 - 8 - 4 = s - 16"
    "s - 12 - 4 = s - 16" "s - 4 \<noteq> s + 4" "s - 8 \<noteq> s + 4" "s - 12 \<noteq> s + 4" "s - 16 \<noteq> s + 4"
proof -
  have apart: "s - a = s + b \<Longrightarrow> a + b = 0" for a b
  proof -
    assume "s - a = s + b"
    then have "s - a - s = s + b - s" by (rule arg_cong)
    then have "- a = b" by simp
    then show "a + b = 0" by (metis add.right_inverse)
  qed
  show "s - 4 \<noteq> s + 4" "s - 8 \<noteq> s + 4" "s - 12 \<noteq> s + 4" "s - 16 \<noteq> s + 4"
    using apart [of 4 4] apart [of 8 4] apart [of 12 4] apart [of 16 4] by auto
qed simp_all

text \<open>
  \<^verbatim>\<open>Start::Code\<close> reaches the code it is given, by the luck of the frame: the stack pointer is set to the
  frame of \<^verbatim>\<open>Start::Code\<close> instead of the callee's own, where the argument lies at the same distance. When
  the code returns with the stack as it found it, it is \<^verbatim>\<open>Start::Code\<close> itself that is left, to its caller and
  with the caller's frame pointer; what \<^verbatim>\<open>Start::Code\<close> would do after the call is skipped.
\<close>

theorem Start_Code_runs:
  assumes entry: "mem (cpu_esp c) = caller" "mem (cpu_esp c + 4) = code"
    and call: "Start_Code here back c mem = (c1, mem1)"
    and returned: "cpu_esp c2 = cpu_esp c1 + 4" "\<forall>a \<in> {cpu_esp c - 4, cpu_esp c}. mem2 a = mem1 a"
  shows "cpu_eip c1 = code \<and> mem1 (cpu_esp c1) = back
    \<and> cpu_eip (set_instruction_ptr_return c2 mem2) = caller
    \<and> cpu_ebp (set_instruction_ptr_return c2 mem2) = cpu_ebp c
    \<and> cpu_esp (set_instruction_ptr_return c2 mem2) = cpu_esp c + 4"
proof -
  let ?s = "cpu_esp c"
  have "c1 = c\<lparr>cpu_ebp := ?s - 4, cpu_eax := code, cpu_esp := ?s - 8, cpu_eip := code\<rparr>"
      "mem1 (?s - 8) = back" "mem1 (?s - 4) = cpu_ebp c" "mem1 ?s = caller"
    using call entry by (auto simp: Start_Code_def set_instruction_ptr_def Let_def stack_words)
  moreover from this have "cpu_esp c2 = ?s - 4" "mem2 (?s - 4) = cpu_ebp c" "mem2 ?s = caller"
    using returned by (simp_all add: stack_words)
  ultimately show ?thesis by (simp add: set_instruction_ptr_return_def Let_def stack_words)
qed

theorem Start_Code_runs_witness:
  "cpu_eip (fst (Start_Code 0x200 0x300 \<lparr>cpu_esp = 0x9000, cpu_ebp = 0x9100, cpu_eip = 0x100, cpu_eax = 0, cpu_interrupts = True\<rparr>
     (\<lambda>a. if a = 0x9004 then 0x5000 else 0x400))) = 0x5000"
proof -
  let ?c = "\<lparr>cpu_esp = 0x9000, cpu_ebp = 0x9100, cpu_eip = 0x100, cpu_eax = 0, cpu_interrupts = True\<rparr>"
  let ?mem = "\<lambda>a :: u32. if a = 0x9004 then 0x5000 else 0x400 :: u32"
  obtain c1 mem1 where call: "Start_Code 0x200 0x300 ?c ?mem = (c1, mem1)" by force
  have at: "?mem (cpu_esp ?c) = 0x400" "?mem (cpu_esp ?c + 4) = 0x5000" by simp_all
  show ?thesis
    using Start_Code_runs [OF at call, of "c1\<lparr>cpu_esp := cpu_esp c1 + 4\<rparr>" mem1] call by simp
qed

end
