(* ===== verification/Timer.thy ===== *)
theory Timer
  imports Processing
begin

text \<open>
  The clock interrupt, \<^verbatim>\<open>timer.cpp\<close>: the callbacks, among them the scheduler, and the switch
  from the process that was interrupted to the one the scheduler selected. \<open>here\<close> is the
  address \<^verbatim>\<open>get_ip\<close> returns inside the handler; a process that is switched to continues there
  with \<^verbatim>\<open>0x12345\<close> in \<^verbatim>\<open>eax\<close>, which the handler takes for what \<^verbatim>\<open>get_ip\<close> returned.
\<close>

section \<open>Code\<close>

definition TIMER_PORT :: u8 where "TIMER_PORT = 32"

record timer =
  tick_counter :: u64
  is_asleep :: bool
  ticks_left :: u64

definition Timer_sleep :: "u32 \<Rightarrow> timer \<Rightarrow> timer" where "Timer_sleep slices t = t"

definition current_time :: "timer \<Rightarrow> u64" where "current_time t = tick_counter t"

fun run_functions ::
    "(RegistersStruct_x86_32 \<Rightarrow> sched \<Rightarrow> sched outcome) list \<Rightarrow> RegistersStruct_x86_32 \<Rightarrow> sched \<Rightarrow> sched outcome" where
  "run_functions [] regs s = Inr s"
| "run_functions (f # fs) regs s = and_then (f regs s) (run_functions fs regs)"

definition SET_DIRECTORY :: "u32 \<Rightarrow> processing \<Rightarrow> processing" where
  "SET_DIRECTORY directory st = st\<lparr>pr_paging := SetDirectory directory (pr_paging st)\<rparr>"

text \<open>
  The handler from where \<^verbatim>\<open>get_ip\<close> returned \<open>eip\<close>: this is where a process that is switched to
  comes out again.
\<close>

definition switch_to :: "u32 \<Rightarrow> cpu \<Rightarrow> processing \<Rightarrow> (cpu \<times> processing) outcome" where
  "switch_to next_process c st =
     and_then (proc_at next_process (s_procs (pr_sched st))) (\<lambda>k.
       let st1 = st\<lparr>pr_cached_pid := kp_pid k, pr_cached_process := next_process\<rparr>;
           next_eip = r_eip (kp_registers k);
           next_times_ran = (ucast (kp_times_ran k) :: u32);
           k1 = k\<lparr>kp_times_ran := kp_times_ran k + 1\<rparr>;
           st2 = SET_DIRECTORY (kp_directory k1) (set_proc next_process k1 st1);
           c1 = c\<lparr>cpu_interrupts := False, cpu_esp := r_esp (kp_registers k1), cpu_ebp := r_ebp (kp_registers k1)\<rparr>
       in Inr (if next_times_ran > 0 then c1\<lparr>cpu_eip := next_eip, cpu_eax := 0x12345, cpu_interrupts := True\<rparr> else c1,
               st2))"

definition after_get_ip :: "u32 \<Rightarrow> u32 \<Rightarrow> u32 \<Rightarrow> cpu \<Rightarrow> processing \<Rightarrow> (cpu \<times> processing) outcome" where
  "after_get_ip eip current_process next_process c st =
     (if eip = 0x12345 then Inr (c, st)
      else and_then (proc_at current_process (s_procs (pr_sched st))) (\<lambda>k.
             switch_to next_process c
               (set_proc current_process (k\<lparr>kp_registers := (kp_registers k)\<lparr>r_eip := eip\<rparr>\<rparr>) st)))"

definition tick_handler ::
    "u32 \<Rightarrow> RegistersStruct_x86_32 \<Rightarrow> cpu \<Rightarrow> processing \<Rightarrow> (cpu \<times> processing) outcome" where
  "tick_handler here reg c st =
     (let c0 = c\<lparr>cpu_interrupts := False\<rparr>;
          st1 = SET_DIRECTORY (GetKernelDirectory (pr_paging st)) st;
          current_process = GetCurrentProcess (pr_sched st1)
      in and_then (elements (pr_functions st1)) (\<lambda>fs.
         and_then (run_functions fs reg (pr_sched st1)) (\<lambda>s.
           let st2 = st1\<lparr>pr_sched := s\<rparr>; next_process = GetNext s
           in if next_process = 0
              then and_then (proc_at current_process (s_procs s)) (\<lambda>k. Inr (c0, SET_DIRECTORY (kp_directory k) st2))
              else if current_process \<noteq> 0
              then and_then (proc_at current_process (s_procs s)) (\<lambda>k.
                     let k1 = k\<lparr>kp_registers := (kp_registers k)\<lparr>r_esp := cpu_esp c0, r_ebp := cpu_ebp c0\<rparr>\<rparr>
                     in after_get_ip here current_process next_process c0 (set_proc current_process k1 st2))
              else switch_to next_process c0 st2)))"

text \<open>The clock ticks again and again, each time out of what the processor was doing.\<close>

fun run_clock :: "u32 \<Rightarrow> RegistersStruct_x86_32 \<Rightarrow> cpu list \<Rightarrow> processing \<Rightarrow> (cpu list \<times> processing) outcome" where
  "run_clock here reg [] st = Inr ([], st)"
| "run_clock here reg (c # cs) st =
     and_then (tick_handler here reg c st) (\<lambda>(c', st').
     and_then (run_clock here reg cs st') (\<lambda>(cs', st''). Inr (c' # cs', st'')))"

section \<open>One tick\<close>

text \<open>The state after booting: the scheduler is the only callback.\<close>

definition clocked :: "(u32 \<Rightarrow> u32 \<Rightarrow> u32) \<Rightarrow> processing \<Rightarrow> u32 list \<Rightarrow> u32 list \<Rightarrow> u32 list \<Rightarrow> bool" where
  "clocked pdiff st cs A B \<longleftrightarrow> ready (pr_sched st) cs A B
     \<and> elements (pr_functions st) = Inr [\<lambda>reg s. run_process_scheduler pdiff s]
     \<and> (s_current (pr_sched st) \<noteq> 0 \<longrightarrow> s_procs (pr_sched st) (s_current (pr_sched st)) \<noteq> None)"

text \<open>How the processor comes out, and what is saved of the process that was running.\<close>

definition resumes :: "cpu \<Rightarrow> KernelProcess \<Rightarrow> bool" where
  "resumes c k \<longleftrightarrow> cpu_esp c = r_esp (kp_registers k) \<and> cpu_ebp c = r_ebp (kp_registers k)
     \<and> cpu_eip c = r_eip (kp_registers k) \<and> cpu_eax c = 0x12345 \<and> cpu_interrupts c"

definition saved :: "u32 \<Rightarrow> cpu \<Rightarrow> KernelProcess \<Rightarrow> bool" where
  "saved here c k \<longleftrightarrow> r_esp (kp_registers k) = cpu_esp c \<and> r_ebp (kp_registers k) = cpu_ebp c
     \<and> r_eip (kp_registers k) = here"

lemma ready_update_proc:
  assumes "ready s cs A B" and "s_procs s p = Some k" and "kp_pid k' = kp_pid k"
  shows "ready (s\<lparr>s_procs := (s_procs s)(p \<mapsto> k')\<rparr>) cs A B"
proof -
  obtain sys reg where rep: "sched_rep s cs sys reg" "A = alive (s_procs s) cs sys" "B = alive (s_procs s) cs reg"
    using assms(1) by (auto simp: ready_def)
  have "pid_of ((s_procs s)(p \<mapsto> k')) = pid_of (s_procs s)"
    using assms(2,3) by (auto simp: pid_of_def fun_eq_iff)
  then have alive: "alive ((s_procs s)(p \<mapsto> k')) cs ps = alive (s_procs s) cs ps" for ps
    by (rule alive_cong)
  have "sched_rep (s\<lparr>s_procs := (s_procs s)(p \<mapsto> k')\<rparr>) cs sys reg"
    using rep(1) assms(2) by (auto simp: sched_rep_def known_def)
  then show ?thesis using rep(2,3) alive [of sys] alive [of reg] by (intro readyI) simp_all
qed

lemma SET_DIRECTORY_simps [simp]:
  "pr_sched (SET_DIRECTORY d st) = pr_sched st" "pr_functions (SET_DIRECTORY d st) = pr_functions st"
  "pr_cached_pid (SET_DIRECTORY d st) = pr_cached_pid st" "cr3 (pr_paging (SET_DIRECTORY d st)) = d + 4096"
  by (simp_all add: SET_DIRECTORY_def SetDirectory_def)

lemma set_proc_sched: "pr_sched (set_proc p k st) = (pr_sched st)\<lparr>s_procs := (s_procs (pr_sched st))(p \<mapsto> k)\<rparr>"
  by (simp add: set_proc_def)

text \<open>What a tick leaves alone.\<close>

definition tick_frame :: "processing \<Rightarrow> processing \<Rightarrow> bool" where
  "tick_frame st st' \<longleftrightarrow> mem_frame (s_mem (pr_sched st)) (s_mem (pr_sched st'))
     \<and> bin_room (s_mem (pr_sched st)) \<le> bin_room (s_mem (pr_sched st'))
     \<and> pr_registered st' = pr_registered st \<and> pr_pid_seq st' = pr_pid_seq st
     \<and> pr_paging st' = (pr_paging st)\<lparr>cr3 := cr3 (pr_paging st')\<rparr>"

lemma switch_to_selected:
  assumes ready: "ready (pr_sched st) cs A B" and n: "s_procs (pr_sched st) n = Some k"
    and ran: "ucast (kp_times_ran k) \<noteq> (0 :: u32)"
  shows "\<exists>c' st'. switch_to n c st = Inr (c', st') \<and> resumes c' k \<and> ready (pr_sched st') cs A B
    \<and> s_current (pr_sched st') = s_current (pr_sched st) \<and> pr_functions st' = pr_functions st
    \<and> s_procs (pr_sched st') = bump n (s_procs (pr_sched st)) \<and> pr_cached_pid st' = kp_pid k
    \<and> cr3 (pr_paging st') = kp_directory k + 4096 \<and> tick_frame st st' \<and> pr_cached_process st' = n"
proof -
  define k1 where "k1 = k\<lparr>kp_times_ran := kp_times_ran k + 1\<rparr>"
  define st' where "st' = SET_DIRECTORY (kp_directory k1) (set_proc n k1 (st\<lparr>pr_cached_pid := kp_pid k, pr_cached_process := n\<rparr>))"
  define c' where "c' = c\<lparr>cpu_interrupts := True, cpu_esp := r_esp (kp_registers k), cpu_ebp := r_ebp (kp_registers k),
      cpu_eip := r_eip (kp_registers k), cpu_eax := 0x12345\<rparr>"
  have "switch_to n c st = Inr (c', st')"
    using n ran by (simp add: switch_to_def Let_def st'_def k1_def c'_def word_gt_0)
  moreover have "ready (pr_sched st') cs A B"
    using ready_update_proc [OF ready n, of k1] by (simp add: st'_def set_proc_sched k1_def)
  moreover have "s_procs (pr_sched st') = bump n (s_procs (pr_sched st))"
    using n by (simp add: st'_def bump_def k1_def)
  ultimately show ?thesis
    by (intro exI [of _ c'] exI [of _ st']) (simp add: resumes_def c'_def st'_def k1_def set_proc_def tick_frame_def SET_DIRECTORY_def SetDirectory_def)
qed


definition save_context ::
    "u32 \<Rightarrow> u32 \<Rightarrow> cpu \<Rightarrow> (u32 \<Rightarrow> KernelProcess option) \<Rightarrow> (u32 \<Rightarrow> KernelProcess option)" where
  "save_context p here c procs = procs(p := map_option (\<lambda>k. k\<lparr>kp_registers :=
     (kp_registers k)\<lparr>r_esp := cpu_esp c, r_ebp := cpu_ebp c, r_eip := here\<rparr>\<rparr>) (procs p))"

definition tick_procs ::
    "u32 \<Rightarrow> u32 \<Rightarrow> u32 \<Rightarrow> cpu \<Rightarrow> (u32 \<Rightarrow> KernelProcess option) \<Rightarrow> (u32 \<Rightarrow> KernelProcess option)" where
  "tick_procs cur n here c procs = bump n (save_context cur here c (bump n procs))"

lemma save_context_none [simp]: "procs 0 = None \<Longrightarrow> save_context 0 here c procs = procs"
  by (auto simp: save_context_def fun_eq_iff)

lemma bump_some: "procs p = Some k \<Longrightarrow> \<exists>k'. bump n procs p = Some k' \<and> kp_registers k' = kp_registers k \<and> kp_pid k' = kp_pid k
    \<and> kp_directory k' = kp_directory k \<and> kp_times_ran k' = (if p = n then kp_times_ran k + 1 else kp_times_ran k)"
  by (cases "p = n") (auto simp: bump_def)

lemma bump_dom: "bump n procs p = None \<longleftrightarrow> procs p = None"
  by (simp add: bump_def)

lemma ready_null: "ready s cs A B \<Longrightarrow> s_procs s 0 = None"
  by (auto simp: ready_def sched_rep_def)

lemma clockedD:
  assumes "clocked pdiff st cs A B"
  shows "ready (pr_sched st) cs A B" "elements (pr_functions st) = Inr [\<lambda>reg s. run_process_scheduler pdiff s]"
    "s_current (pr_sched st) \<noteq> 0 \<Longrightarrow> s_procs (pr_sched st) (s_current (pr_sched st)) \<noteq> None"
  using assms by (auto simp: clocked_def)

lemma tick_selected:
  assumes st: "clocked pdiff st cs A B" and n: "selected A B = n" "n \<noteq> 0" "s_procs (pr_sched st) n = Some k"
    and here: "here \<noteq> 0x12345" and ran: "ucast (kp_times_ran k + 1) \<noteq> (0 :: u32)"
  shows "\<exists>c' st' k'. tick_handler here reg c st = Inr (c', st')
    \<and> save_context (s_current (pr_sched st)) here c (bump n (s_procs (pr_sched st))) n = Some k' \<and> resumes c' k'
    \<and> clocked pdiff st' cs (fst (after_tick (A, B))) (snd (after_tick (A, B))) \<and> s_current (pr_sched st') = n
    \<and> s_procs (pr_sched st') = tick_procs (s_current (pr_sched st)) n here c (s_procs (pr_sched st))
    \<and> pr_cached_pid st' = kp_pid k \<and> cr3 (pr_paging st') = kp_directory k + 4096
    \<and> tick_frame st st' \<and> pr_cached_process st' = n"
proof -
  let ?cur = "s_current (pr_sched st)" and ?A' = "fst (after_tick (A, B))" and ?B' = "snd (after_tick (A, B))"
  let ?c0 = "c\<lparr>cpu_interrupts := False\<rparr>"
  note ready = clockedD(1) [OF st] and fns = clockedD(2) [OF st] and cur = clockedD(3) [OF st]
  obtain s where s: "CalculateNext pdiff (pr_sched st) = Inr s" "s_current s = n"
      "s_procs s = bump n (s_procs (pr_sched st))" "ready s cs ?A' ?B'"
      "mem_frame (s_mem (pr_sched st)) (s_mem s)" "bin_room (s_mem (pr_sched st)) \<le> bin_room (s_mem s)"
    using CalculateNext_ready [OF ready, of pdiff] n(1) by blast
  define st2 where "st2 = (SET_DIRECTORY (GetKernelDirectory (pr_paging st)) st)\<lparr>pr_sched := s\<rparr>"
  define st3 where "st3 = st2\<lparr>pr_sched := s\<lparr>s_procs := save_context ?cur here c (s_procs s)\<rparr>\<rparr>"
  obtain k1 where k1: "s_procs s n = Some k1" "kp_registers k1 = kp_registers k" "kp_pid k1 = kp_pid k"
      "kp_directory k1 = kp_directory k" "kp_times_ran k1 = kp_times_ran k + 1"
    using bump_some [of "s_procs (pr_sched st)" n k n, OF n(3)] s(3) by auto
  then obtain k2 where k2: "save_context ?cur here c (s_procs s) n = Some k2" "kp_pid k2 = kp_pid k"
      "kp_directory k2 = kp_directory k" "kp_times_ran k2 = kp_times_ran k + 1"
    by (cases "n = ?cur") (auto simp: save_context_def)
  have tick: "tick_handler here reg c st = switch_to n ?c0 st3 \<and> ready (s\<lparr>s_procs := save_context ?cur here c (s_procs s)\<rparr>) cs ?A' ?B'"
  proof (cases "?cur = 0")
    case True
    then have same: "s\<lparr>s_procs := save_context ?cur here c (s_procs s)\<rparr> = s" using ready_null [OF s(4)] by simp
    then have "st3 = st2" by (simp add: st3_def st2_def)
    then have "tick_handler here reg c st = switch_to n ?c0 st3"
      using True fns s(1,2) n(2) unfolding tick_handler_def
      by (simp add: GetCurrentProcess_def GetNext_def run_process_scheduler_def Let_def st2_def)
    then show ?thesis using same s(4) by simp
  next
    case False
    then obtain kc where kc: "s_procs s ?cur = Some kc" using cur s(3) bump_dom by fastforce
    then have "tick_handler here reg c st = switch_to n ?c0 st3"
      using False fns s n(2) here unfolding tick_handler_def after_get_ip_def
      by (simp add: GetCurrentProcess_def GetNext_def run_process_scheduler_def Let_def st2_def st3_def set_proc_def save_context_def)
    moreover have "ready (s\<lparr>s_procs := save_context ?cur here c (s_procs s)\<rparr>) cs ?A' ?B'"
      using ready_update_proc [OF s(4) kc] kc by (simp add: save_context_def)
    ultimately show ?thesis by blast
  qed
  then have ready3: "ready (pr_sched st3) cs ?A' ?B'" "s_procs (pr_sched st3) n = Some k2"
    using k2(1) by (simp_all add: st3_def)
  obtain c' st' where sw: "switch_to n ?c0 st3 = Inr (c', st')" "resumes c' k2" "ready (pr_sched st') cs ?A' ?B'"
      "s_current (pr_sched st') = n" "pr_functions st' = pr_functions st" "s_procs (pr_sched st') = bump n (s_procs (pr_sched st3))"
      "pr_cached_pid st' = kp_pid k" "cr3 (pr_paging st') = kp_directory k + 4096"
      "tick_frame st3 st'" "pr_cached_process st' = n"
    using switch_to_selected [OF ready3, of ?c0] ran k2(2-4) s(2) by (auto simp: st3_def st2_def)
  have "clocked pdiff st' cs ?A' ?B'"
    using sw fns ready3(2) bump_dom by (auto simp: clocked_def)
  moreover have "tick_frame st st'"
    using sw(9) s(5,6) mem_frame_trans by (auto simp: tick_frame_def st3_def st2_def SET_DIRECTORY_def SetDirectory_def)
  ultimately show ?thesis
    using tick sw k2(1) s(3) by (auto simp: tick_procs_def st3_def)
qed


section \<open>Many ticks\<close>

text \<open>The ready list in use: the system processes, or the regular ones when there are none.\<close>

definition turns :: "(u32 \<Rightarrow> u32 \<Rightarrow> u32) \<Rightarrow> processing \<Rightarrow> u32 list \<Rightarrow> u32 list \<Rightarrow> bool" where
  "turns pdiff st cs L \<longleftrightarrow> L \<noteq> [] \<and> ((\<exists>B. clocked pdiff st cs L B) \<or> clocked pdiff st cs [] L)"

text \<open>No selection counter reaches the 32 bits the handler looks at within \<open>n\<close> ticks.\<close>

definition counters_low :: "nat \<Rightarrow> (u32 \<Rightarrow> KernelProcess option) \<Rightarrow> bool" where
  "counters_low n procs \<longleftrightarrow> (\<forall>p k. procs p = Some k \<longrightarrow> unat (kp_times_ran k) + 2 * n < 2 ^ 32)"

lemma low_counter:
  assumes "unat (w :: u64) + 2 < 2 ^ 32"
  shows "ucast (w + 1) \<noteq> (0 :: u32)"
proof -
  have "unat (w + 1) = unat w + 1" using assms unat_plus_no_wrap [of w 1] by simp
  moreover have "unat (ucast (w + 1) :: u32) = unat (w + 1) mod 2 ^ 32"
    by (simp add: unsigned_ucast_eq take_bit_eq_mod)
  ultimately have "unat (ucast (w + 1) :: u32) = unat w + 1" using assms by simp
  then show ?thesis by auto
qed

lemma counters_low_tick: "counters_low (Suc n) procs \<Longrightarrow> counters_low n (tick_procs cur p here c procs)"
  unfolding counters_low_def
proof (intro allI impI)
  fix q k assume low: "\<forall>p k. procs p = Some k \<longrightarrow> unat (kp_times_ran k) + 2 * Suc n < 2 ^ 32"
    and "tick_procs cur p here c procs q = Some k"
  then obtain k0 where k0: "procs q = Some k0" "kp_times_ran k = kp_times_ran k0 \<or> kp_times_ran k = kp_times_ran k0 + 1 + 1"
    by (auto simp: tick_procs_def bump_def save_context_def split: if_splits)
  then have "unat (kp_times_ran k0) + 2 * Suc n < 2 ^ 32" using low by blast
  moreover from this have "unat (kp_times_ran k0 + 1 + 1) = unat (kp_times_ran k0) + 2"
    using unat_plus_no_wrap [of "kp_times_ran k0" 1] unat_plus_no_wrap [of "kp_times_ran k0 + 1" 1] by simp
  ultimately show "unat (kp_times_ran k) + 2 * n < 2 ^ 32" using k0(2) by auto
qed

lemma tick_turn:
  assumes "turns pdiff st cs (n # L)" and here: "here \<noteq> 0x12345"
    and low: "counters_low (Suc m) (s_procs (pr_sched st))"
  shows "\<exists>c' st' k k'. tick_handler here reg c st = Inr (c', st') \<and> s_procs (pr_sched st) n = Some k \<and> n \<noteq> 0
    \<and> save_context (s_current (pr_sched st)) here c (bump n (s_procs (pr_sched st))) n = Some k' \<and> resumes c' k'
    \<and> turns pdiff st' cs (L @ [n]) \<and> s_current (pr_sched st') = n
    \<and> s_procs (pr_sched st') = tick_procs (s_current (pr_sched st)) n here c (s_procs (pr_sched st))
    \<and> counters_low m (s_procs (pr_sched st')) \<and> cr3 (pr_paging st') = kp_directory k + 4096
    \<and> tick_frame st st' \<and> pr_cached_process st' = n"
proof -
  obtain A B where AB: "clocked pdiff st cs A B" "selected A B = n" "n \<in> set A \<union> set B"
      "(A = n # L \<and> after_tick (A, B) = (L @ [n], B)) \<or> (A = [] \<and> B = n # L \<and> after_tick (A, B) = ([], L @ [n]))"
    using assms(1) by (auto simp: turns_def)
  obtain k where k: "n \<noteq> 0" "s_procs (pr_sched st) n = Some k"
    using ready_members [OF clockedD(1) [OF AB(1)] AB(3)] by auto
  have "unat (kp_times_ran k) + 2 < 2 ^ 32" using low k(2) by (force simp: counters_low_def)
  then have ran: "ucast (kp_times_ran k + 1) \<noteq> (0 :: u32)" by (rule low_counter)
  obtain c' st' k' where t: "tick_handler here reg c st = Inr (c', st')"
      "save_context (s_current (pr_sched st)) here c (bump n (s_procs (pr_sched st))) n = Some k'" "resumes c' k'"
      "clocked pdiff st' cs (fst (after_tick (A, B))) (snd (after_tick (A, B)))" "s_current (pr_sched st') = n"
      "s_procs (pr_sched st') = tick_procs (s_current (pr_sched st)) n here c (s_procs (pr_sched st))"
      "cr3 (pr_paging st') = kp_directory k + 4096" "tick_frame st st'" "pr_cached_process st' = n"
    using tick_selected [OF AB(1,2) k here ran] by blast
  have "turns pdiff st' cs (L @ [n])" using t(4) AB(4) by (auto simp: turns_def)
  moreover have "counters_low m (s_procs (pr_sched st'))" using counters_low_tick [OF low] t(6) by simp
  ultimately show ?thesis using t k by blast
qed

text \<open>A process that is waiting its turn keeps its saved registers until it is selected.\<close>

lemma tick_procs_other:
  assumes "p \<noteq> cur" and "procs p = Some k"
  shows "\<exists>k'. tick_procs cur n here c procs p = Some k' \<and> kp_registers k' = kp_registers k \<and> kp_directory k' = kp_directory k"
proof -
  obtain k1 where 1: "bump n procs p = Some k1" "kp_registers k1 = kp_registers k" "kp_directory k1 = kp_directory k"
    using bump_some [of procs p k n, OF assms(2)] by auto
  then have "save_context cur here c (bump n procs) p = Some k1" using assms(1) by (simp add: save_context_def)
  then show ?thesis
    using bump_some [of "save_context cur here c (bump n procs)" p k1 n] 1 by (auto simp: tick_procs_def)
qed

lemma tick_procs_current:
  assumes "procs cur = Some k"
  shows "\<exists>k'. tick_procs cur n here c procs cur = Some k' \<and> saved here c k' \<and> kp_directory k' = kp_directory k"
proof -
  obtain k1 where "bump n procs cur = Some k1" "kp_directory k1 = kp_directory k"
    using bump_some [of procs cur k n, OF assms] by blast
  then obtain k2 where k2: "save_context cur here c (bump n procs) cur = Some k2" "saved here c k2"
      "kp_directory k2 = kp_directory k"
    by (simp add: save_context_def saved_def)
  show ?thesis
    using bump_some [of "save_context cur here c (bump n procs)" cur k2 n, OF k2(1)] k2(2,3)
    by (auto simp: tick_procs_def saved_def)
qed

lemma waiting_resumes:
  assumes "turns pdiff st cs (qs @ p # rs)" and "p \<notin> set qs" and "s_current (pr_sched st) \<noteq> p" and here: "here \<noteq> 0x12345"
    and "s_procs (pr_sched st) p = Some k" and "saved here c k"
    and "counters_low (Suc (length qs)) (s_procs (pr_sched st))" and "length ins = Suc (length qs)"
  shows "\<exists>outs st'. run_clock here reg ins st = Inr (outs, st') \<and> outs \<noteq> [] \<and> s_current (pr_sched st') = p
    \<and> cpu_esp (last outs) = cpu_esp c \<and> cpu_ebp (last outs) = cpu_ebp c \<and> cpu_eip (last outs) = here
    \<and> cpu_eax (last outs) = 0x12345 \<and> cr3 (pr_paging st') = kp_directory k + 4096"
  using assms(1-3,5-8)
proof (induction qs arbitrary: st rs k ins)
  case Nil
  obtain i where i: "ins = [i]" using Nil.prems(7) by (cases ins) auto
  have turn: "turns pdiff st cs (p # rs)" "counters_low (Suc 0) (s_procs (pr_sched st))"
    using Nil.prems(1,6) by simp_all
  obtain c' st' k0 k' where t: "tick_handler here reg i st = Inr (c', st')" "s_procs (pr_sched st) p = Some k0"
      "save_context (s_current (pr_sched st)) here i (bump p (s_procs (pr_sched st))) p = Some k'" "resumes c' k'"
      "s_current (pr_sched st') = p" "cr3 (pr_paging st') = kp_directory k0 + 4096"
    using tick_turn [OF turn(1) here turn(2), of reg i] by blast
  have "k0 = k" using t(2) Nil.prems(4) by simp
  obtain k1 where k1: "bump p (s_procs (pr_sched st)) p = Some k1" "kp_registers k1 = kp_registers k"
    using bump_some [of "s_procs (pr_sched st)" p k p, OF Nil.prems(4)] by blast
  then have "k' = k1" using t(3) Nil.prems(3) by (simp add: save_context_def)
  then have "cpu_esp c' = cpu_esp c" "cpu_ebp c' = cpu_ebp c" "cpu_eip c' = here" "cpu_eax c' = 0x12345"
    using t(4) k1(2) Nil.prems(5) by (simp_all add: resumes_def saved_def)
  moreover have "run_clock here reg ins st = Inr ([c'], st')" using t(1) i by simp
  ultimately show ?case using t(5,6) \<open>k0 = k\<close> by (intro exI [of _ "[c']"] exI [of _ st']) simp
next
  case (Cons q qs)
  obtain i js where i: "ins = i # js" "length js = Suc (length qs)" using Cons.prems(7) by (cases ins) auto
  have turn: "turns pdiff st cs (q # qs @ p # rs)" "counters_low (Suc (Suc (length qs))) (s_procs (pr_sched st))"
    using Cons.prems(1,6) by simp_all
  obtain c' st' where t: "tick_handler here reg i st = Inr (c', st')" "turns pdiff st' cs ((qs @ p # rs) @ [q])"
      "s_current (pr_sched st') = q" "counters_low (Suc (length qs)) (s_procs (pr_sched st'))"
      "s_procs (pr_sched st') = tick_procs (s_current (pr_sched st)) q here i (s_procs (pr_sched st))"
    using tick_turn [OF turn(1) here turn(2), of reg i] by blast
  have t2: "turns pdiff st' cs (qs @ p # rs @ [q])" using t(2) by simp
  obtain k' where k': "s_procs (pr_sched st') p = Some k'" "kp_registers k' = kp_registers k" "kp_directory k' = kp_directory k"
    using tick_procs_other [of p "s_current (pr_sched st)" "s_procs (pr_sched st)" k q here i] Cons.prems(3,4) t(5) by metis
  have "p \<notin> set qs" "s_current (pr_sched st') \<noteq> p" "saved here c k'"
    using Cons.prems(2,5) t(3) k'(2) by (auto simp: saved_def)
  from Cons.IH [OF t2 this(1,2) k'(1) this(3) t(4) i(2)] obtain outs st'' where
    "run_clock here reg js st' = Inr (outs, st'')" "outs \<noteq> []" "s_current (pr_sched st'') = p"
    "cpu_esp (last outs) = cpu_esp c" "cpu_ebp (last outs) = cpu_ebp c" "cpu_eip (last outs) = here"
    "cpu_eax (last outs) = 0x12345" "cr3 (pr_paging st'') = kp_directory k' + 4096"
    by blast
  then show ?case
    using t(1) i(1) k'(3) by (intro exI [of _ "c' # outs"] exI [of _ st'']) simp
qed

text \<open>A clocked machine with one process, for the witnesses.\<close>

definition example_clock :: "u32 \<Rightarrow> sched \<Rightarrow> processing" where
  "example_clock cur s = example_processing\<lparr>pr_sched := s\<lparr>s_current := cur\<rparr>,
     pr_functions := \<lparr>v_size = 1, v_capacity = 1, v_Log = 1, v_buffer = [\<lambda>reg s. run_process_scheduler (\<lambda>_ _. 0) s]\<rparr>\<rparr>"

definition example_cpu :: cpu where
  "example_cpu = \<lparr>cpu_esp = 0xA0000F00, cpu_ebp = 0xA0000F10, cpu_eip = 0x5010, cpu_eax = 7, cpu_interrupts = True\<rparr>"

lemma ready_current: "ready s cs A B \<Longrightarrow> ready (s\<lparr>s_current := cur\<rparr>) cs A B"
  by (simp add: ready_def sched_rep_def)

lemma example_clocked:
  assumes "ready s [] A B" and "cur \<noteq> 0 \<Longrightarrow> s_procs s cur \<noteq> None"
  shows "clocked (\<lambda>_ _. 0) (example_clock cur s) [] A B"
  using ready_current [OF assms(1)] assms(2) by (simp add: clocked_def example_clock_def elements_def)

lemma example_turns:
  obtains s where "ready s [] [] [1]" "s_procs s = s_procs boot_sched" "counters_low 1 (s_procs s)"
    "turns (\<lambda>_ _. 0) (example_clock 0 s) [] [1]" "turns (\<lambda>_ _. 0) (example_clock 1 s) [] [1]"
proof -
  obtain s where s: "ready s [] [] [1]" "s_procs s = s_procs boot_sched"
    using AddItem_ready [OF boot_sched_ready boot_sched_procs(1), of "\<lambda>_ _. 0"]
    by (auto simp: boot_sched_room example_process_def alive_def)
  have "clocked (\<lambda>_ _. 0) (example_clock 0 s) [] [] [1]" "clocked (\<lambda>_ _. 0) (example_clock 1 s) [] [] [1]"
    using s boot_sched_procs by (auto intro!: example_clocked)
  moreover have "counters_low 1 (s_procs s)"
    by (auto simp: s(2) counters_low_def boot_sched_def ProcessScheduler_new_def example_process_def split: if_splits)
  ultimately show thesis using that s by (auto simp: turns_def)
qed

section \<open>Properties\<close>

text \<open>
  C7: A tick with a live process to run switches to the one whose turn it is: the processor gets
  its saved stack, frame and instruction pointers and its address space, with interrupts on and
  \<^verbatim>\<open>0x12345\<close> in \<^verbatim>\<open>eax\<close>; the pointers of the process that was interrupted are stored in it, no
  other process's registers change, and the ready list in use is rotated by one.
\<close>

theorem tick_switches:
  assumes "turns pdiff st cs (n # L)" and "here \<noteq> 0x12345" and "counters_low 1 (s_procs (pr_sched st))"
  shows "\<exists>c' st' k k'. tick_handler here reg c st = Inr (c', st') \<and> turns pdiff st' cs (L @ [n])
    \<and> GetCurrentProcess (pr_sched st') = n \<and> s_procs (pr_sched st) n = Some k
    \<and> save_context (s_current (pr_sched st)) here c (bump n (s_procs (pr_sched st))) n = Some k' \<and> resumes c' k'
    \<and> cr3 (pr_paging st') = kp_directory k + 4096
    \<and> (\<forall>p j. p \<noteq> s_current (pr_sched st) \<longrightarrow> s_procs (pr_sched st) p = Some j \<longrightarrow>
        (\<exists>j'. s_procs (pr_sched st') p = Some j' \<and> kp_registers j' = kp_registers j))
    \<and> (s_current (pr_sched st) \<noteq> 0 \<longrightarrow>
        (\<exists>j. s_procs (pr_sched st') (s_current (pr_sched st)) = Some j \<and> saved here c j))"
proof -
  let ?cur = "s_current (pr_sched st)" and ?procs = "s_procs (pr_sched st)"
  have low: "counters_low (Suc 0) ?procs" using assms(3) by simp
  obtain c' st' k k' where t: "tick_handler here reg c st = Inr (c', st')" "?procs n = Some k"
      "save_context ?cur here c (bump n ?procs) n = Some k'" "resumes c' k'" "turns pdiff st' cs (L @ [n])"
      "s_current (pr_sched st') = n" "s_procs (pr_sched st') = tick_procs ?cur n here c ?procs"
      "cr3 (pr_paging st') = kp_directory k + 4096"
    using tick_turn [OF assms(1,2) low, of reg c] by blast
  have others: "\<exists>j'. s_procs (pr_sched st') p = Some j' \<and> kp_registers j' = kp_registers j"
    if "p \<noteq> ?cur" "?procs p = Some j" for p j
    using tick_procs_other [of p ?cur ?procs j n here c] that t(7) by metis
  have "\<exists>j. s_procs (pr_sched st') ?cur = Some j \<and> saved here c j" if nonzero: "?cur \<noteq> 0"
  proof -
    obtain k0 where "?procs ?cur = Some k0"
      using assms(1) clockedD(3) nonzero unfolding turns_def by blast
    then show ?thesis using tick_procs_current [of ?procs ?cur k0 n here c] t(7) by metis
  qed
  then show ?thesis using t others unfolding GetCurrentProcess_def by blast
qed

theorem tick_switches_witness:
  "\<exists>s c' st'. tick_handler 0x9000 (kp_registers (example_process 1)) example_cpu (example_clock 0 s) = Inr (c', st')
    \<and> GetCurrentProcess (pr_sched st') = 1"
proof -
  obtain s where s: "counters_low 1 (s_procs s)" "turns (\<lambda>_ _. 0) (example_clock 0 s) [] [1]"
    using example_turns by metis
  have "counters_low 1 (s_procs (pr_sched (example_clock 0 s)))" using s(1) by (simp add: example_clock_def)
  from tick_switches [OF s(2) _ this, of "0x9000" "kp_registers (example_process 1)" example_cpu] show ?thesis
    by auto
qed

text \<open>
  C9: A preempted process comes back where it was: when the running process is the last of the
  ready list, as after every selection, the clock ticks that give every other process its turn
  end with that process selected again, with the stack and frame pointers the first of those
  ticks interrupted it with, at the handler's address, in its own address space, whatever the
  other processes do with the processor's registers.
\<close>

theorem preempted_process_resumes:
  assumes "turns pdiff st cs (qs @ [p])" and "p \<notin> set qs" and "s_current (pr_sched st) = p" and "here \<noteq> 0x12345"
    and "counters_low (Suc (length qs)) (s_procs (pr_sched st))" and "length ins = length qs"
  shows "\<exists>outs st' k. run_clock here reg (c # ins) st = Inr (outs, st') \<and> GetCurrentProcess (pr_sched st') = p
    \<and> s_procs (pr_sched st) p = Some k \<and> cpu_esp (last outs) = cpu_esp c \<and> cpu_ebp (last outs) = cpu_ebp c
    \<and> cpu_eip (last outs) = here \<and> cpu_eax (last outs) = 0x12345 \<and> cr3 (pr_paging st') = kp_directory k + 4096"
proof (cases qs)
  case Nil
  have turn: "turns pdiff st cs (p # [])" "counters_low (Suc 0) (s_procs (pr_sched st))" using assms(1,5) Nil by simp_all
  obtain c' st' k k' where t: "tick_handler here reg c st = Inr (c', st')" "s_procs (pr_sched st) p = Some k"
      "save_context p here c (bump p (s_procs (pr_sched st))) p = Some k'" "resumes c' k'"
      "s_current (pr_sched st') = p" "cr3 (pr_paging st') = kp_directory k + 4096"
    using tick_turn [OF turn(1) assms(4) turn(2), of reg c] unfolding assms(3) by blast
  have "saved here c k'" using t(3) by (auto simp: save_context_def saved_def)
  then show ?thesis
    using t(1,2,4-6) Nil assms(6)
    by (intro exI [of _ "[c']"] exI [of _ st'] exI [of _ k]) (simp add: resumes_def saved_def GetCurrentProcess_def)
next
  case (Cons q qs')
  have turn: "turns pdiff st cs (q # qs' @ [p])" "counters_low (Suc (Suc (length qs'))) (s_procs (pr_sched st))"
    using assms(1,5) Cons by simp_all
  obtain c' st' where t: "tick_handler here reg c st = Inr (c', st')" "turns pdiff st' cs ((qs' @ [p]) @ [q])"
      "s_current (pr_sched st') = q" "counters_low (Suc (length qs')) (s_procs (pr_sched st'))"
      "s_procs (pr_sched st') = tick_procs p q here c (s_procs (pr_sched st))"
    using tick_turn [OF turn(1) assms(4) turn(2), of reg c] unfolding assms(3) by blast
  have "p \<in> set (qs @ [p])" by simp
  then obtain k where k: "p \<noteq> 0" "s_procs (pr_sched st) p = Some k"
    using assms(1) ready_members [of "pr_sched st" cs _ _ p] by (fastforce simp: turns_def clocked_def)
  obtain k' where k': "s_procs (pr_sched st') p = Some k'" "saved here c k'" "kp_directory k' = kp_directory k"
    using tick_procs_current [of "s_procs (pr_sched st)" p k q here c] k(2) t(5) by metis
  have "turns pdiff st' cs (qs' @ p # [q])" "p \<notin> set qs'" "s_current (pr_sched st') \<noteq> p" "length ins = Suc (length qs')"
    using t(2,3) assms(2,6) Cons by auto
  from waiting_resumes [OF this(1-3) assms(4) k'(1,2) t(4) this(4), of reg] obtain outs st'' where
    "run_clock here reg ins st' = Inr (outs, st'')" "outs \<noteq> []" "s_current (pr_sched st'') = p"
    "cpu_esp (last outs) = cpu_esp c" "cpu_ebp (last outs) = cpu_ebp c" "cpu_eip (last outs) = here"
    "cpu_eax (last outs) = 0x12345" "cr3 (pr_paging st'') = kp_directory k' + 4096"
    by blast
  then show ?thesis
    using t(1) k(2) k'(3)
    by (intro exI [of _ "c' # outs"] exI [of _ st''] exI [of _ k]) (simp add: GetCurrentProcess_def)
qed

theorem preempted_process_resumes_witness:
  "\<exists>s outs st'. run_clock 0x9000 (kp_registers (example_process 1)) [example_cpu] (example_clock 1 s) = Inr (outs, st')
    \<and> cpu_esp (last outs) = 0xA0000F00"
proof -
  obtain s where s: "counters_low 1 (s_procs s)" "turns (\<lambda>_ _. 0) (example_clock 1 s) [] ([] @ [1])"
    using example_turns by (metis append_Nil)
  have "counters_low (Suc (length ([] :: u32 list))) (s_procs (pr_sched (example_clock 1 s)))"
    "s_current (pr_sched (example_clock 1 s)) = 1"
    using s(1) by (simp_all add: example_clock_def)
  from preempted_process_resumes [OF s(2) _ this(2) _ this(1), of "0x9000" "[]" "kp_registers (example_process 1)" example_cpu]
  show ?thesis by (auto simp: example_cpu_def)
qed

text \<open>
  Once no process is left alive a tick that finds a process current, the one just ended, leaves
  it running in its own address space; the next tick finds none, and reads the directory of the
  null pointer.
\<close>

theorem idle_clock_faults:
  assumes "clocked pdiff st cs [] []"
  shows "if s_current (pr_sched st) = 0 then tick_handler here reg c st = Inl Null_Pointer
    else \<exists>st1 k. tick_handler here reg c st = Inr (c\<lparr>cpu_interrupts := False\<rparr>, st1)
      \<and> s_procs (pr_sched st) (s_current (pr_sched st)) = Some k \<and> cr3 (pr_paging st1) = kp_directory k + 4096
      \<and> (\<forall>c1. tick_handler here reg c1 st1 = Inl Null_Pointer)"
proof -
  have idle: "\<exists>s. CalculateNext pdiff (pr_sched st) = Inr s \<and> s_current s = 0 \<and> s_procs s = s_procs (pr_sched st)
      \<and> ready s cs [] []" if "ready (pr_sched st) cs [] []" for st
    using CalculateNext_ready [OF that, of pdiff] ready_null [OF that] by auto
  have null: "tick_handler here reg c1 st = Inl Null_Pointer"
    if clk: "clocked pdiff st cs [] []" and cur0: "s_current (pr_sched st) = 0" for st c1
  proof -
    obtain s where "CalculateNext pdiff (pr_sched st) = Inr s" "s_current s = 0" "s_procs s 0 = None"
      using idle [OF clockedD(1) [OF clk]] ready_null by metis
    then show ?thesis
      using clockedD(2) [OF clk] cur0 unfolding tick_handler_def
      by (simp add: GetCurrentProcess_def GetNext_def run_process_scheduler_def Let_def)
  qed
  show ?thesis
  proof (cases "s_current (pr_sched st) = 0")
    case True
    then show ?thesis using null [OF assms] by simp
  next
    case False
    obtain s where s: "CalculateNext pdiff (pr_sched st) = Inr s" "s_current s = 0" "s_procs s = s_procs (pr_sched st)"
        "ready s cs [] []"
      using idle [OF clockedD(1) [OF assms]] by blast
    obtain k where k: "s_procs (pr_sched st) (s_current (pr_sched st)) = Some k"
      using clockedD(3) [OF assms] False by blast
    define st1 where "st1 = SET_DIRECTORY (kp_directory k) ((SET_DIRECTORY (GetKernelDirectory (pr_paging st)) st)\<lparr>pr_sched := s\<rparr>)"
    have "tick_handler here reg c st = Inr (c\<lparr>cpu_interrupts := False\<rparr>, st1)"
      using clockedD(2) [OF assms] s k unfolding tick_handler_def
      by (simp add: GetCurrentProcess_def GetNext_def run_process_scheduler_def Let_def st1_def)
    moreover have "clocked pdiff st1 cs [] []" "s_current (pr_sched st1) = 0"
      using s clockedD(2) [OF assms] by (simp_all add: clocked_def st1_def)
    ultimately show ?thesis using False k null by (simp add: st1_def)
  qed
qed

theorem idle_clock_faults_witness:
  "tick_handler 0x9000 (kp_registers (example_process 1)) example_cpu (example_clock 0 boot_sched) = Inl Null_Pointer"
proof -
  have "clocked (\<lambda>_ _. 0) (example_clock 0 boot_sched) [] [] []"
    using boot_sched_ready by (intro example_clocked) simp_all
  from idle_clock_faults [OF this, of "0x9000" "kp_registers (example_process 1)" example_cpu] show ?thesis
    by (simp add: example_clock_def)
qed

end
