(* ===== verification/Tty.thy ===== *)
theory Tty
  imports Libc
begin

text \<open>
  The text screen, \<^verbatim>\<open>arch/i386/tty.cpp\<close> with \<^verbatim>\<open>vgh.h\<close>: a cursor and 25 rows of 80
  cells. The cells are the VGA memory; an index outside of the 2000 cells is a fault. The
  reference is a flat screen with one position.
\<close>

section \<open>Code\<close>

definition VgaEntryColor :: "u32 \<Rightarrow> u32 \<Rightarrow> u8" where
  "VgaEntryColor fg bg = ucast (fg OR push_bit 4 bg)"

definition VgaEntry :: "u8 \<Rightarrow> u8 \<Rightarrow> u16" where
  "VgaEntry uc color = ucast uc OR push_bit 8 (ucast color)"

definition VGA_COLOR_BLACK :: u32 where "VGA_COLOR_BLACK = 0"
definition VGA_COLOR_WHITE :: u32 where "VGA_COLOR_WHITE = 15"
definition VGA_WIDTH :: u32 where "VGA_WIDTH = 80"
definition VGA_HEIGHT :: u32 where "VGA_HEIGHT = 25"

record tty =
  terminal_row :: u32
  terminal_column :: u32
  terminal_color :: u8
  terminal_buffer :: "u16 list"

definition Tty_Initialize :: "u16 list \<Rightarrow> tty" where
  "Tty_Initialize vga_memory =
     (let color = VgaEntryColor VGA_COLOR_WHITE VGA_COLOR_BLACK
      in \<lparr>terminal_row = 0, terminal_column = 0, terminal_color = color,
          terminal_buffer = fold (\<lambda>y buf. fold (\<lambda>x buf. buf[y * 80 + x := VgaEntry 0x20 color]) [0..<80] buf)
                              [0..<25] vga_memory\<rparr>)"

definition Tty_SetColor :: "u32 \<Rightarrow> u32 \<Rightarrow> tty \<Rightarrow> tty" where
  "Tty_SetColor fg bg t = t\<lparr>terminal_color := VgaEntryColor fg bg\<rparr>"

definition terminal_setcolor :: "u8 \<Rightarrow> tty \<Rightarrow> tty" where
  "terminal_setcolor color t = t\<lparr>terminal_color := color\<rparr>"

definition terminal_putentryat :: "u8 \<Rightarrow> u8 \<Rightarrow> u32 \<Rightarrow> u32 \<Rightarrow> tty \<Rightarrow> tty outcome" where
  "terminal_putentryat c color x y t =
     (let index = y * VGA_WIDTH + x
      in and_then (store_at (terminal_buffer t) (unat index) (VgaEntry c color))
           (\<lambda>buf. Inr (t\<lparr>terminal_buffer := buf\<rparr>)))"

definition Tty_Clean :: "tty \<Rightarrow> tty" where
  "Tty_Clean t = t\<lparr>terminal_buffer :=
     fold (\<lambda>i buf. fold (\<lambda>j buf. buf[i + j * 80 := 0]) [0..<25] buf) [0..<80] (terminal_buffer t)\<rparr>"

text \<open>The checks at the end of \<^verbatim>\<open>Putchar\<close>, then \<^verbatim>\<open>Putchar\<close>.\<close>

definition cursor_checks :: "tty \<Rightarrow> tty" where
  "cursor_checks t =
     (let t1 = (if terminal_column t = VGA_WIDTH
                then t\<lparr>terminal_column := 0, terminal_row := terminal_row t + 1\<rparr> else t)
      in if terminal_row t1 = VGA_HEIGHT then (Tty_Clean t1)\<lparr>terminal_row := 0\<rparr> else t1)"

definition Tty_Putchar :: "char \<Rightarrow> tty \<Rightarrow> tty outcome" where
  "Tty_Putchar c t =
     (if c = CHR 0x0A
      then Inr (cursor_checks (t\<lparr>terminal_column := 0, terminal_row := terminal_row t + 1\<rparr>))
      else if c = CHR 0x08
      then (let t1 = t\<lparr>terminal_column := terminal_column t - 1\<rparr>
            in and_then (terminal_putentryat 0 (VgaEntryColor VGA_COLOR_BLACK VGA_COLOR_BLACK)
                           (terminal_column t1) (terminal_row t1) t1) (\<lambda>t2. Inr (cursor_checks t2)))
      else and_then (terminal_putentryat (of_char c) (terminal_color t) (terminal_column t) (terminal_row t) t)
             (\<lambda>t1. Inr (cursor_checks (t1\<lparr>terminal_column := terminal_column t1 + 1\<rparr>))))"

fun Tty_Write :: "char list \<Rightarrow> nat \<Rightarrow> tty \<Rightarrow> tty outcome" where
  "Tty_Write data 0 t = Inr t"
| "Tty_Write [] (Suc n) t = Inl Out_Of_Bounds"
| "Tty_Write (c # data) (Suc n) t = and_then (Tty_Putchar c t) (Tty_Write data n)"

definition Tty_WriteString :: "char list \<Rightarrow> tty \<Rightarrow> tty outcome" where
  "Tty_WriteString data t = and_then (strlen data) (\<lambda>n. Tty_Write data (unat n) t)"

section \<open>The reference screen\<close>

record screen =
  cells :: "u16 list"
  position :: nat
  attribute :: u8

definition screen_put :: "char \<Rightarrow> screen \<Rightarrow> screen" where
  "screen_put c s =
     (let s1 = (if c = CHR 0x0A then s\<lparr>position := (position s div 80 + 1) * 80\<rparr>
                else if c = CHR 0x08
                then s\<lparr>cells := (cells s)[position s - 1 := 0], position := position s - 1\<rparr>
                else s\<lparr>cells := (cells s)[position s := VgaEntry (of_char c) (attribute s)],
                       position := position s + 1\<rparr>)
      in if position s1 = 2000 then s1\<lparr>cells := replicate 2000 0, position := 0\<rparr> else s1)"

text \<open>No backspace of a text is met in the first column, where there is nothing before it on its line.\<close>

fun stays_on_line :: "char list \<Rightarrow> screen \<Rightarrow> bool" where
  "stays_on_line [] s = True"
| "stays_on_line (c # cs) s = ((c = CHR 0x08 \<longrightarrow> position s mod 80 \<noteq> 0) \<and> stays_on_line cs (screen_put c s))"

definition abs_screen :: "tty \<Rightarrow> screen" where
  "abs_screen t = \<lparr>cells = terminal_buffer t,
     position = unat (terminal_row t) * 80 + unat (terminal_column t), attribute = terminal_color t\<rparr>"

definition tty_wf :: "tty \<Rightarrow> bool" where
  "tty_wf t \<longleftrightarrow> terminal_row t < 25 \<and> terminal_column t < 80 \<and> length (terminal_buffer t) = 2000"

section \<open>Facts\<close>

lemma fold_update_length [simp]: "length (fold (\<lambda>x buf. buf[f x := v]) xs buf) = length buf"
  by (induction xs arbitrary: buf) auto

lemma fold_update_nth:
  "k < length buf \<Longrightarrow> fold (\<lambda>x buf. buf[f x := v]) xs buf ! k = (if k \<in> f ` set xs then v else buf ! k)"
  by (induction xs arbitrary: buf) (auto simp: nth_list_update)

lemma fold_fold_length [simp]:
  "length (fold (\<lambda>y buf. fold (\<lambda>x buf. buf[g y x := v]) xs buf) ys buf) = length buf"
  by (induction ys arbitrary: buf) auto

lemma fold_fold_nth:
  "k < length buf \<Longrightarrow> fold (\<lambda>y buf. fold (\<lambda>x buf. buf[g y x := v]) xs buf) ys buf ! k =
     (if \<exists>y \<in> set ys. \<exists>x \<in> set xs. k = g y x then v else buf ! k)"
proof (induction ys arbitrary: buf)
  case (Cons y ys)
  then show ?case
    by (auto simp: fold_update_nth image_iff)
qed simp

lemma fill_rows:
  assumes "length buf = 2000"
  shows "fold (\<lambda>y buf. fold (\<lambda>x buf. buf[y * 80 + x := v]) [0..<80] buf) [0..<25] buf = replicate 2000 v"
proof (rule nth_equalityI)
  fix k assume "k < length (fold (\<lambda>y buf. fold (\<lambda>x buf. buf[y * 80 + x := v]) [0..<80] buf) [0..<25] buf)"
  then have k: "k < 2000" using assms by simp
  then have "k div 80 < 25" "k mod 80 < 80" "k = k div 80 * 80 + k mod 80" by auto
  then have "\<exists>y \<in> set [0..<25]. \<exists>x \<in> set [0..<80]. k = y * 80 + x"
    by (metis atLeastLessThan_iff le0 set_upt)
  then show "fold (\<lambda>y buf. fold (\<lambda>x buf. buf[y * 80 + x := v]) [0..<80] buf) [0..<25] buf ! k = replicate 2000 v ! k"
    using k assms by (subst fold_fold_nth) simp_all
qed (simp add: assms)

lemma fill_columns:
  assumes "length buf = 2000"
  shows "fold (\<lambda>i buf. fold (\<lambda>j buf. buf[i + j * 80 := v]) [0..<25] buf) [0..<80] buf = replicate 2000 v"
proof (rule nth_equalityI)
  fix k assume "k < length (fold (\<lambda>i buf. fold (\<lambda>j buf. buf[i + j * 80 := v]) [0..<25] buf) [0..<80] buf)"
  then have k: "k < 2000" using assms by simp
  then have "k div 80 < 25" "k mod 80 < 80" "k = k mod 80 + k div 80 * 80" by auto
  then have "\<exists>i \<in> set [0..<80]. \<exists>j \<in> set [0..<25]. k = i + j * 80"
    by (metis atLeastLessThan_iff le0 set_upt)
  then show "fold (\<lambda>i buf. fold (\<lambda>j buf. buf[i + j * 80 := v]) [0..<25] buf) [0..<80] buf ! k = replicate 2000 v ! k"
    using k assms by (subst fold_fold_nth) simp_all
qed (simp add: assms)

lemma Tty_Clean_eq:
  "length (terminal_buffer t) = 2000 \<Longrightarrow> Tty_Clean t = t\<lparr>terminal_buffer := replicate 2000 0\<rparr>"
  by (simp only: Tty_Clean_def fill_columns)

lemma Tty_Initialize_wf: "length vga = 2000 \<Longrightarrow> tty_wf (Tty_Initialize vga)"
  by (simp add: Tty_Initialize_def Let_def tty_wf_def)

lemma Tty_SetColor_wf: "tty_wf t \<Longrightarrow> tty_wf (Tty_SetColor fg bg t)"
  by (simp add: tty_wf_def Tty_SetColor_def)

text \<open>The cursor checks, for a cursor that may have moved one past its row or past the screen.\<close>

lemma cursor_checks_spec:
  assumes "unat (terminal_row t) \<le> 25" and "unat (terminal_column t) \<le> 80"
    and "unat (terminal_row t) * 80 + unat (terminal_column t) \<le> 2000"
    and "length (terminal_buffer t) = 2000"
  shows "tty_wf (cursor_checks t)
    \<and> abs_screen (cursor_checks t) =
        (if position (abs_screen t) = 2000 then (abs_screen t)\<lparr>cells := replicate 2000 0, position := 0\<rparr>
         else abs_screen t)"
proof -
  define r c where "r = unat (terminal_row t)" and "c = unat (terminal_column t)"
  have lim: "r \<le> 25" "c \<le> 80" "r * 80 + c \<le> 2000"
    using assms(1-3) by (simp_all add: r_def c_def)
  have row: "terminal_row t = 25 \<longleftrightarrow> r = 25" and col: "terminal_column t = 80 \<longleftrightarrow> c = 80"
    by (simp_all add: r_def c_def word_unat_eq_iff)
  have next_row: "unat (terminal_row t + 1) = r + 1"
    using lim unat_plus_no_wrap [of "terminal_row t" 1] by (simp add: r_def)
  then have next_end: "terminal_row t + 1 = 25 \<longleftrightarrow> r = 24"
    by (simp add: word_unat_eq_iff)
  consider (wrap) "c = 80" "r < 24" | (wrap_end) "c = 80" "r = 24" | (full) "c < 80" "r = 25" | (fine) "c < 80" "r < 25"
    using lim by linarith
  then show ?thesis
  proof cases
    case wrap
    then have "cursor_checks t = t\<lparr>terminal_column := 0, terminal_row := terminal_row t + 1\<rparr>"
      by (simp add: cursor_checks_def VGA_WIDTH_def VGA_HEIGHT_def row col next_end Let_def)
    then show ?thesis
      using wrap assms(4) next_row
      by (simp add: tty_wf_def abs_screen_def word_less_nat_alt flip: r_def c_def)
  next
    case wrap_end
    then have "cursor_checks t = t\<lparr>terminal_column := 0, terminal_row := 0, terminal_buffer := replicate 2000 0\<rparr>"
      using assms(4)
      by (simp add: cursor_checks_def VGA_WIDTH_def VGA_HEIGHT_def row col next_end Let_def Tty_Clean_eq)
    then show ?thesis
      using wrap_end by (simp add: tty_wf_def abs_screen_def flip: r_def c_def)
  next
    case full
    then have "cursor_checks t = t\<lparr>terminal_row := 0, terminal_buffer := replicate 2000 0\<rparr>"
      using assms(4)
      by (simp add: cursor_checks_def VGA_WIDTH_def VGA_HEIGHT_def row col Let_def Tty_Clean_eq)
    moreover have "c = 0" using full lim by simp
    ultimately show ?thesis
      using full by (simp add: tty_wf_def abs_screen_def word_less_nat_alt flip: r_def c_def)
  next
    case fine
    then have "cursor_checks t = t"
      by (simp add: cursor_checks_def VGA_WIDTH_def VGA_HEIGHT_def row col Let_def)
    moreover have "r * 80 + c \<noteq> 2000" using fine by simp
    ultimately show ?thesis
      using fine assms(4) by (simp add: tty_wf_def abs_screen_def word_less_nat_alt flip: r_def c_def)
  qed
qed

lemma cell_index:
  assumes "tty_wf t"
  shows "unat (terminal_row t * VGA_WIDTH + terminal_column t) = position (abs_screen t)"
    and "position (abs_screen t) < 2000"
proof -
  have lim: "unat (terminal_row t) < 25" "unat (terminal_column t) < 80"
    using assms by (simp_all add: tty_wf_def word_less_nat_alt)
  have mul: "unat (terminal_row t * 80) = unat (terminal_row t) * 80"
    using lim by (simp add: unat_word_ariths)
  then have "unat (terminal_row t * 80 + terminal_column t) = unat (terminal_row t) * 80 + unat (terminal_column t)"
    using lim unat_plus_no_wrap [of "terminal_row t * 80" "terminal_column t"] by simp
  then show "unat (terminal_row t * VGA_WIDTH + terminal_column t) = position (abs_screen t)"
    and "position (abs_screen t) < 2000"
    using lim by (simp_all add: VGA_WIDTH_def abs_screen_def)
qed

lemma putentry_here:
  assumes "tty_wf t"
  shows "terminal_putentryat v color (terminal_column t) (terminal_row t) t =
    Inr (t\<lparr>terminal_buffer := (terminal_buffer t)[position (abs_screen t) := VgaEntry v color]\<rparr>)"
  using assms cell_index [OF assms] by (simp add: terminal_putentryat_def Let_def tty_wf_def)

text \<open>One character, for each of the three cases.\<close>

lemma Putchar_newline:
  assumes "tty_wf t"
  shows "\<exists>t'. Tty_Putchar (CHR 0x0A) t = Inr t' \<and> tty_wf t' \<and> abs_screen t' = screen_put (CHR 0x0A) (abs_screen t)"
proof -
  have lim: "unat (terminal_row t) < 25" "unat (terminal_column t) < 80" "length (terminal_buffer t) = 2000"
    using assms by (simp_all add: tty_wf_def word_less_nat_alt)
  let ?t = "t\<lparr>terminal_column := 0, terminal_row := terminal_row t + 1\<rparr>"
  have row: "unat (terminal_row t + 1) = unat (terminal_row t) + 1"
    using lim unat_plus_no_wrap [of "terminal_row t" 1] by simp
  have "position (abs_screen t) div 80 = unat (terminal_row t)"
    using lim by (simp add: abs_screen_def)
  then show ?thesis
    using cursor_checks_spec [of ?t] lim row
    by (simp add: Tty_Putchar_def screen_put_def Let_def abs_screen_def)
qed

lemma Putchar_plain:
  assumes "tty_wf t" and "c \<noteq> CHR 0x0A" and "c \<noteq> CHR 0x08"
  shows "\<exists>t'. Tty_Putchar c t = Inr t' \<and> tty_wf t' \<and> abs_screen t' = screen_put c (abs_screen t)"
proof -
  have lim: "unat (terminal_row t) < 25" "unat (terminal_column t) < 80" "length (terminal_buffer t) = 2000"
    using assms by (simp_all add: tty_wf_def word_less_nat_alt)
  have col: "unat (terminal_column t + 1) = unat (terminal_column t) + 1"
    using lim unat_plus_no_wrap [of "terminal_column t" 1] by simp
  define t1 where "t1 = t\<lparr>terminal_buffer := (terminal_buffer t)[position (abs_screen t) := VgaEntry (of_char c) (terminal_color t)],
      terminal_column := terminal_column t + 1\<rparr>"
  have "Tty_Putchar c t = Inr (cursor_checks t1)"
    using assms putentry_here [OF assms(1)] by (simp add: Tty_Putchar_def t1_def)
  moreover have "tty_wf (cursor_checks t1) \<and> abs_screen (cursor_checks t1) =
        (if position (abs_screen t1) = 2000 then (abs_screen t1)\<lparr>cells := replicate 2000 0, position := 0\<rparr>
         else abs_screen t1)"
    using lim col by (intro cursor_checks_spec) (simp_all add: t1_def)
  moreover have "abs_screen t1 = (abs_screen t)\<lparr>cells := (cells (abs_screen t))[position (abs_screen t) :=
      VgaEntry (of_char c) (terminal_color t)], position := position (abs_screen t) + 1\<rparr>"
    using col by (simp add: t1_def abs_screen_def)
  ultimately show ?thesis
    using assms(2,3) by (simp add: screen_put_def Let_def abs_screen_def)
qed

lemma Putchar_backspace:
  assumes "tty_wf t" and "terminal_column t \<noteq> 0"
  shows "\<exists>t'. Tty_Putchar (CHR 0x08) t = Inr t' \<and> tty_wf t' \<and> abs_screen t' = screen_put (CHR 0x08) (abs_screen t)"
proof -
  have lim: "unat (terminal_row t) < 25" "unat (terminal_column t) < 80" "length (terminal_buffer t) = 2000"
    using assms by (simp_all add: tty_wf_def word_less_nat_alt)
  have pos: "0 < unat (terminal_column t)" using assms(2) by (simp add: unat_gt_0)
  then have "unat (terminal_column t - 1) = unat (terminal_column t) - 1"
    using unat_minus_no_wrap [of 1 "terminal_column t"] by (simp add: Suc_leI)
  note col = this pos
  define t1 where "t1 = t\<lparr>terminal_column := terminal_column t - 1\<rparr>"
  have "unat (terminal_column t - 1) < 80" using lim col by linarith
  then have wf1: "tty_wf t1" using lim by (simp add: t1_def tty_wf_def word_less_nat_alt)
  define t2 where "t2 = t1\<lparr>terminal_buffer := (terminal_buffer t1)[position (abs_screen t1) := VgaEntry 0 (VgaEntryColor 0 0)]\<rparr>"
  have "Tty_Putchar (CHR 0x08) t = Inr (cursor_checks t2)"
    unfolding Tty_Putchar_def t1_def [symmetric] VGA_COLOR_BLACK_def t2_def
    by (simp add: putentry_here [OF wf1])
  moreover have "tty_wf (cursor_checks t2) \<and> abs_screen (cursor_checks t2) =
        (if position (abs_screen t2) = 2000 then (abs_screen t2)\<lparr>cells := replicate 2000 0, position := 0\<rparr>
         else abs_screen t2)"
  proof (rule cursor_checks_spec)
    show "unat (terminal_row t2) \<le> 25" "unat (terminal_column t2) \<le> 80"
      "unat (terminal_row t2) * 80 + unat (terminal_column t2) \<le> 2000" "length (terminal_buffer t2) = 2000"
      using lim \<open>unat (terminal_column t - 1) < 80\<close> by (simp_all add: t2_def t1_def)
  qed
  moreover have "abs_screen t2 = (abs_screen t)\<lparr>cells := (cells (abs_screen t))[position (abs_screen t) - 1 := 0],
      position := position (abs_screen t) - 1\<rparr>"
    using col(2) by (simp add: t2_def t1_def abs_screen_def col(1) VgaEntry_def VgaEntryColor_def)
  ultimately show ?thesis
    by (simp add: screen_put_def Let_def)
qed

lemma Tty_Putchar_refines:
  assumes "tty_wf t" and "c = CHR 0x08 \<longrightarrow> terminal_column t \<noteq> 0"
  shows "\<exists>t'. Tty_Putchar c t = Inr t' \<and> tty_wf t' \<and> abs_screen t' = screen_put c (abs_screen t)"
proof -
  consider (nl) "c = CHR 0x0A" | (bs) "c = CHR 0x08" "terminal_column t \<noteq> 0" | (plain) "c \<noteq> CHR 0x0A" "c \<noteq> CHR 0x08"
    using assms(2) by metis
  then show ?thesis
  proof cases
    case nl
    show ?thesis unfolding nl using assms(1) by (rule Putchar_newline)
  next
    case bs
    show ?thesis unfolding bs(1) using assms(1) bs(2) by (rule Putchar_backspace)
  next
    case plain
    with assms(1) show ?thesis by (rule Putchar_plain)
  qed
qed

lemma stays_on_line_append: "stays_on_line (a @ b) s = (stays_on_line a s \<and> stays_on_line b (fold screen_put a s))"
  by (induction a arbitrary: s) auto

lemma stays_on_line_plain: "CHR 0x08 \<notin> set s \<Longrightarrow> stays_on_line s sc"
  by (induction s arbitrary: sc) auto

lemma column_of_position: "tty_wf t \<Longrightarrow> terminal_column t = 0 \<longleftrightarrow> position (abs_screen t) mod 80 = 0"
  by (simp add: tty_wf_def abs_screen_def word_less_nat_alt word_unat_eq_iff)

lemma Tty_Write_on_line:
  assumes "tty_wf t" and "stays_on_line s (abs_screen t)"
  shows "\<exists>t'. Tty_Write (s @ r) (length s) t = Inr t' \<and> tty_wf t' \<and> abs_screen t' = fold screen_put s (abs_screen t)"
  using assms
proof (induction s arbitrary: t)
  case (Cons c s)
  have "c = CHR 0x08 \<longrightarrow> terminal_column t \<noteq> 0" using Cons.prems column_of_position [of t] by simp
  then obtain t1 where "Tty_Putchar c t = Inr t1" "tty_wf t1" "abs_screen t1 = screen_put c (abs_screen t)"
    using Tty_Putchar_refines [OF Cons.prems(1)] by blast
  then show ?case using Cons.IH [of t1] Cons.prems by simp
qed simp

lemma Tty_Write_refines:
  assumes "tty_wf t" and "CHR 0x08 \<notin> set s"
  shows "\<exists>t'. Tty_Write (s @ r) (length s) t = Inr t' \<and> tty_wf t' \<and> abs_screen t' = fold screen_put s (abs_screen t)"
  using assms by (intro Tty_Write_on_line stays_on_line_plain)

section \<open>Properties\<close>

definition blank_tty :: tty where "blank_tty = Tty_Initialize (replicate 2000 0)"

lemma blank_tty_wf: "tty_wf blank_tty"
  by (simp add: blank_tty_def Tty_Initialize_wf)

lemma blank_tty_cursor: "terminal_row blank_tty = 0" "terminal_column blank_tty = 0"
  by (simp_all add: blank_tty_def Tty_Initialize_def Let_def)

text \<open>
  C28: \<^verbatim>\<open>WriteString\<close> of any terminated text in which no backspace comes in the first column, one
  without backspaces above all, never touches memory outside
  of the screen, keeps the cursor on it, and shows on the flat reference screen what writing the
  characters one by one shows: lines break at column 80, a backspace blanks the cell before it, and the screen is
  cleared after its last row. What a backspace in the first column does is the next theorem.
\<close>

theorem WriteString_refines:
  assumes "tty_wf t" and "terminated data" and "stays_on_line (cstr data) (abs_screen t)" and "length data < 2 ^ 32"
  shows "\<exists>t'. Tty_WriteString data t = Inr t' \<and> tty_wf t'
    \<and> abs_screen t' = fold screen_put (cstr data) (abs_screen t)"
proof -
  obtain r where data: "data = cstr data @ NUL # r" using assms(2) terminated_iff by blast
  have "unat (of_nat (length (cstr data)) :: u32) = length (cstr data)"
    using length_cstr_less [OF assms(2)] assms(4) by (intro unat_of_nat_no_wrap) simp
  moreover obtain t' where "Tty_Write (cstr data @ NUL # r) (length (cstr data)) t = Inr t'" "tty_wf t'"
      "abs_screen t' = fold screen_put (cstr data) (abs_screen t)"
    using Tty_Write_on_line [OF assms(1,3)] by blast
  ultimately show ?thesis
    using assms(2) data by (simp add: Tty_WriteString_def strlen_eq)
qed

theorem WriteString_refines_witness:
  "\<exists>t'. Tty_WriteString (''oh'' @ [CHR 0x08, CHR ''k'', NUL]) blank_tty = Inr t' \<and> tty_wf t' \<and> position (abs_screen t') = 2"
  using WriteString_refines [OF blank_tty_wf, of "''oh'' @ [CHR 0x08, CHR ''k'', NUL]"]
  by (auto simp: screen_put_def abs_screen_def blank_tty_cursor)

text \<open>
  A backspace in the first cell of the screen stores outside of the screen memory; in the
  first column of a later row it blanks the end of the row above but leaves a column that is not
  on the screen, so a newline after it skips a row.
\<close>

theorem backspace_at_line_start:
  assumes "tty_wf t" and "terminal_column t = 0"
  shows "if terminal_row t = 0 then Tty_Putchar (CHR 0x08) t = Inl Out_Of_Bounds
    else \<exists>t'. Tty_Putchar (CHR 0x08) t = Inr t' \<and> \<not> tty_wf t'
      \<and> cells (abs_screen t') = (cells (abs_screen t))[unat (terminal_row t) * 80 - 1 := 0]
      \<and> (terminal_row t < 23 \<longrightarrow> (\<exists>t''. Tty_Putchar (CHR 0x0A) t' = Inr t''
           \<and> position (abs_screen t'') = (unat (terminal_row t) + 1) * 80))"
proof -
  define t1 where "t1 = t\<lparr>terminal_column := - 1\<rparr>"
  have lim: "unat (terminal_row t) < 25" "length (terminal_buffer t) = 2000"
    using assms by (simp_all add: tty_wf_def word_less_nat_alt)
  have put: "Tty_Putchar (CHR 0x08) t =
      and_then (store_at (terminal_buffer t) (unat (terminal_row t * 80 - 1)) 0)
        (\<lambda>buf. Inr (cursor_checks (t1\<lparr>terminal_buffer := buf\<rparr>)))"
    using assms(2)
    by (simp add: Tty_Putchar_def terminal_putentryat_def t1_def VGA_WIDTH_def VGA_COLOR_BLACK_def
        VgaEntry_def VgaEntryColor_def and_then_assoc)
  have mul: "unat (terminal_row t * 80) = unat (terminal_row t) * 80"
    using lim by (simp add: unat_word_ariths)
  show ?thesis
  proof (cases "terminal_row t = 0")
    case True
    have "unat (- 1 :: u32) = 4294967295"
      by (simp add: unsigned_minus_1_eq_mask mask_eq_exp_minus_1)
    then show ?thesis using True lim(2) by (simp add: put)
  next
    case False
    then have row: "0 < unat (terminal_row t)" by (simp add: unat_gt_0)
    then have idx: "unat (terminal_row t * 80 - 1) = unat (terminal_row t) * 80 - 1"
      using unat_minus_no_wrap [of 1 "terminal_row t * 80"] mul by simp
    define t2 where "t2 = t1\<lparr>terminal_buffer := (terminal_buffer t)[unat (terminal_row t) * 80 - 1 := 0]\<rparr>"
    have "terminal_row t \<noteq> 25" using lim(1) by auto
    then have "cursor_checks t2 = t2"
      by (simp add: cursor_checks_def t2_def t1_def VGA_WIDTH_def VGA_HEIGHT_def Let_def)
    then have put': "Tty_Putchar (CHR 0x08) t = Inr t2"
      using lim row by (simp add: put idx t2_def)
    have "unat (terminal_row t + 1) = unat (terminal_row t) + 1"
      using lim unat_plus_no_wrap [of "terminal_row t" 1] by simp
    then have nl: "position (abs_screen t'') = (unat (terminal_row t) + 1) * 80"
      if "terminal_row t < 23" "t'' = cursor_checks (t2\<lparr>terminal_column := 0, terminal_row := terminal_row t + 1\<rparr>)" for t''
      using that lim cursor_checks_spec [of "t2\<lparr>terminal_column := 0, terminal_row := terminal_row t + 1\<rparr>"]
      by (simp add: t2_def t1_def abs_screen_def word_less_nat_alt)
    show ?thesis
      using False put' nl by (auto simp: tty_wf_def t2_def t1_def abs_screen_def Tty_Putchar_def)
  qed
qed

theorem backspace_at_line_start_witness:
  "Tty_Putchar (CHR 0x08) blank_tty = Inl Out_Of_Bounds"
  using backspace_at_line_start [OF blank_tty_wf] by (simp add: blank_tty_cursor)

end
