(* ===== verification/Printf.thy ===== *)
theory Printf
  imports Tty
begin

text \<open>
  The kernel's \<^verbatim>\<open>printf\<close> (\<^verbatim>\<open>libc/stdio\<close>, built with \<^verbatim>\<open>__is_libk\<close>), which writes to the
  screen. The variable arguments are a list; a conversion that finds no argument of its type is
  a fault. A number is converted in a buffer of 64 bytes from its end.
\<close>

section \<open>Code\<close>

datatype va = Va_int u32 | Va_str "char list"

definition representation :: "char list" where
  "representation = ''0123456789abcdef'' @ [NUL]"

definition MaxStrSize :: nat where "MaxStrSize = 64"

text \<open>
  The loop of \<^verbatim>\<open>_convert_to_base\<close>: \<open>end\<close> is the index the pointer has reached. \<^verbatim>\<open>value\<close> is
  an \<^verbatim>\<open>int\<close>, but \<^verbatim>\<open>base\<close> is unsigned, so both operations are unsigned. Division by the
  base makes the value smaller only for bases above one.
\<close>

partial_function (option) convert_loop :: "u32 \<Rightarrow> u32 \<Rightarrow> char list \<Rightarrow> nat \<Rightarrow> (char list \<times> nat) outcome option" where
  "convert_loop value base buf endp =
     (if base = 0 \<or> endp = 0 then Some (Inl Out_Of_Bounds)
      else (case load_at representation (unat (value mod base)) of
              Inl e \<Rightarrow> Some (Inl e)
            | Inr d \<Rightarrow>
               (case store_at buf (endp - 1) d of
                  Inl e \<Rightarrow> Some (Inl e)
                | Inr buf' \<Rightarrow>
                   (if value div base \<noteq> 0 then convert_loop (value div base) base buf' (endp - 1)
                    else Some (Inr (buf', endp - 1))))))"

definition convert_to_base :: "u32 \<Rightarrow> u32 \<Rightarrow> char list outcome" where
  "convert_to_base value base =
     (case convert_loop value base (replicate MaxStrSize NUL) (MaxStrSize - 1) of
        None \<Rightarrow> Inl No_Return
      | Some r \<Rightarrow> and_then r (\<lambda>(buf, endp). Inr (drop endp buf)))"

definition putchar :: "u32 \<Rightarrow> tty \<Rightarrow> tty outcome" where
  "putchar c t = Tty_Putchar (char_of (unat c)) t"

definition put_char :: "char \<Rightarrow> tty \<Rightarrow> tty outcome" where
  "put_char c t = putchar (of_char c) t"

fun print_s :: "char list \<Rightarrow> nat \<Rightarrow> tty \<Rightarrow> tty outcome" where
  "print_s s 0 t = Inr t"
| "print_s [] (Suc n) t = Inl Out_Of_Bounds"
| "print_s (c # s) (Suc n) t = and_then (put_char c t) (print_s s n)"

definition print_cstr :: "char list \<Rightarrow> tty \<Rightarrow> tty outcome" where
  "print_cstr s t = and_then (strlen s) (\<lambda>n. print_s s (unat n) t)"

definition print_n :: "u32 \<Rightarrow> u32 \<Rightarrow> tty \<Rightarrow> tty outcome" where
  "print_n n base t = and_then (convert_to_base n base) (\<lambda>rep. print_cstr rep t)"

fun puts :: "char list \<Rightarrow> tty \<Rightarrow> tty outcome" where
  "puts [] t = Inl Out_Of_Bounds"
| "puts (c # s) t = (if c \<noteq> NUL then and_then (put_char c t) (puts s) else Inr t)"

definition PTR_PREFIX :: "char list" where "PTR_PREFIX = ''0x'' @ [NUL]"

definition va_int :: "va list \<Rightarrow> (u32 \<times> va list) outcome" where
  "va_int args = (case args of Va_int n # as \<Rightarrow> Inr (n, as) | _ \<Rightarrow> Inl Uninitialised)"

definition va_str :: "va list \<Rightarrow> (char list \<times> va list) outcome" where
  "va_str args = (case args of Va_str s # as \<Rightarrow> Inr (s, as) | _ \<Rightarrow> Inl Uninitialised)"

text \<open>
  The switch on the character after \<^verbatim>\<open>%\<close>: the new screen, the arguments left, and whether
  an argument was printed.
\<close>

definition print_number :: "u32 \<Rightarrow> va list \<Rightarrow> tty \<Rightarrow> (tty \<times> va list \<times> bool) outcome" where
  "print_number base args t =
     and_then (va_int args) (\<lambda>(n, as). and_then (print_n n base t) (\<lambda>t'. Inr (t', as, True)))"

definition conversion :: "char \<Rightarrow> va list \<Rightarrow> tty \<Rightarrow> (tty \<times> va list \<times> bool) outcome" where
  "conversion d args t =
     (if d = CHR ''c'' then and_then (va_int args) (\<lambda>(n, as). and_then (putchar n t) (\<lambda>t'. Inr (t', as, True)))
      else if d = CHR ''s'' then and_then (va_str args) (\<lambda>(s, as). and_then (print_cstr s t) (\<lambda>t'. Inr (t', as, True)))
      else if d = CHR ''d'' then print_number 10 args t
      else if d = CHR ''x'' then print_number 16 args t
      else if d = CHR ''o'' then print_number 8 args t
      else if d = CHR ''b'' then print_number 2 args t
      else if d = CHR ''p'' then and_then (print_cstr PTR_PREFIX t) (print_number 16 args)
      else and_then (put_char (CHR ''%'') t) (\<lambda>t1. and_then (put_char d t1) (\<lambda>t2. Inr (t2, args, False))))"

text \<open>A \<^verbatim>\<open>char\<close> is signed; \<^verbatim>\<open>unsigned int fg = format[2]\<close> extends its sign.\<close>

definition char_to_uint :: "char \<Rightarrow> u32" where
  "char_to_uint c = scast (of_char c :: u8)"

text \<open>
  The loop over the format. After \<^verbatim>\<open>$\<close> the next character is consumed without asking
  whether it is the terminator.
\<close>

fun printf_from :: "char list \<Rightarrow> va list \<Rightarrow> u32 \<Rightarrow> tty \<Rightarrow> (u32 \<times> tty) outcome" where
  "printf_from [] args n t = Inl Out_Of_Bounds"
| "printf_from (c # fmt) args n t =
     (if c = NUL then Inr (n, t)
      else if c = CHR ''%''
      then (case fmt of
              [] \<Rightarrow> Inl Out_Of_Bounds
            | d # rest \<Rightarrow>
                if d = NUL then Inr (n, t)
                else and_then (conversion d args t) (\<lambda>(t', args', special).
                       printf_from rest args' (n + of_bool special) t'))
      else if c = CHR ''$''
      then (case fmt of
              [] \<Rightarrow> Inl Out_Of_Bounds
            | d # rest \<Rightarrow>
                if d = CHR ''&''
                then (case rest of
                        fg # bg # rest' \<Rightarrow>
                          printf_from rest' args (n + 1) (Tty_SetColor (char_to_uint fg) (char_to_uint bg) t)
                      | _ \<Rightarrow> Inl Out_Of_Bounds)
                else and_then (put_char (CHR ''$'') t) (\<lambda>t1. and_then (put_char d t1) (\<lambda>t2.
                       printf_from rest args (n + 1) t2)))
      else and_then (put_char c t) (\<lambda>t'. printf_from fmt args n t'))"

definition printf :: "char list \<Rightarrow> va list \<Rightarrow> tty \<Rightarrow> (u32 \<times> tty) outcome" where
  "printf format args t = printf_from format args 0 t"

section \<open>Numbers\<close>

text \<open>The digits of a number, most significant first, and their value.\<close>

definition digit_char :: "nat \<Rightarrow> char" where
  "digit_char d = ''0123456789abcdef'' ! d"

fun digits :: "nat \<Rightarrow> nat \<Rightarrow> nat list" where
  "digits b n = (if b < 2 \<or> n < b then [n] else digits b (n div b) @ [n mod b])"

declare digits.simps [simp del]

definition digits_value :: "nat \<Rightarrow> nat list \<Rightarrow> nat" where
  "digits_value b ds = foldl (\<lambda>a d. a * b + d) 0 ds"

lemma digits_value_snoc [simp]: "digits_value b (ds @ [d]) = digits_value b ds * b + d"
  by (simp add: digits_value_def)

lemma digits_value_digits: "2 \<le> b \<Longrightarrow> digits_value b (digits b n) = n"
proof (induction b n rule: digits.induct)
  case (1 b n)
  show ?case
  proof (cases "n < b")
    case True
    then show ?thesis by (subst digits.simps) (simp add: digits_value_def)
  next
    case False
    then show ?thesis using 1 by (subst digits.simps) simp
  qed
qed

lemma digits_less: "2 \<le> b \<Longrightarrow> d \<in> set (digits b n) \<Longrightarrow> d < b"
proof (induction b n rule: digits.induct)
  case (1 b n)
  show ?case
  proof (cases "n < b")
    case True
    then show ?thesis using 1(3) digits.simps [of b n] by simp
  next
    case False
    then show ?thesis using 1 digits.simps [of b n] by auto
  qed
qed

lemma length_digits: "2 \<le> b \<Longrightarrow> n < 2 ^ Suc m \<Longrightarrow> length (digits b n) \<le> Suc m"
proof (induction m arbitrary: n)
  case 0
  then show ?case by (subst digits.simps) simp
next
  case (Suc m)
  have "n div b \<le> n div 2" using Suc.prems(1) by (simp add: div_le_mono2)
  also have "n div 2 < 2 ^ Suc m" using Suc.prems(2) by simp
  finally have "length (digits b (n div b)) \<le> Suc m" using Suc.IH Suc.prems(1) by blast
  then show ?case by (subst digits.simps) simp
qed

lemma digits_nonempty [simp]: "digits b n \<noteq> []"
  by (subst digits.simps) simp

lemma hd_digits: "2 \<le> b \<Longrightarrow> hd (digits b n) = 0 \<longleftrightarrow> n = 0"
proof (induction b n rule: digits.induct)
  case (1 b n)
  then show ?case
    by (subst digits.simps) (auto simp: div_eq_0_iff hd_append)
qed

lemma representation_at: "d < 16 \<Longrightarrow> load_at representation d = Inr (digit_char d)"
  unfolding representation_def digit_char_def load_at_def by (simp only: nth_append) simp

lemma digit_char_not_NUL: "d < 16 \<Longrightarrow> digit_char d \<noteq> NUL"
proof -
  assume "d < 16"
  then have "digit_char d \<in> set ''0123456789abcdef''"
    unfolding digit_char_def by (intro nth_mem) simp
  moreover have "NUL \<notin> set ''0123456789abcdef''" by simp
  ultimately show ?thesis by metis
qed

lemma convert_loop_digits:
  assumes "2 \<le> unat base" and "unat base \<le> 16" and "endp \<le> length buf"
    and "length (digits (unat base) (unat v)) \<le> endp"
  shows "convert_loop v base buf endp =
    Some (Inr (take (endp - length (digits (unat base) (unat v))) buf
               @ map digit_char (digits (unat base) (unat v)) @ drop endp buf,
               endp - length (digits (unat base) (unat v))))"
  using assms(3,4)
proof (induction "unat v" arbitrary: v buf endp rule: less_induct)
  case less
  have base: "base \<noteq> 0" using assms(1) by auto
  have d16: "unat (v mod base) < 16"
    using assms(1,2) by (metis bot_nat_0.not_eq_extremum mod_less_divisor not_numeral_le_zero order_less_le_trans unat_mod_distrib)
  have "0 < length (digits (unat base) (unat v))" by (simp only: length_greater_0_conv digits_nonempty not_False_eq_True)
  then have endp: "endp \<noteq> 0" "endp - 1 < length buf"
    using less.prems by linarith+
  have step: "convert_loop v base buf endp =
     (if v div base \<noteq> 0 then convert_loop (v div base) base (buf[endp - 1 := digit_char (unat (v mod base))]) (endp - 1)
      else Some (Inr (buf[endp - 1 := digit_char (unat (v mod base))], endp - 1)))"
    using base endp d16 by (subst convert_loop.simps) (simp add: representation_at)
  have upd: "drop (endp - 1) (buf[endp - 1 := c]) = c # drop endp buf" for c
    using endp by (cases endp) (simp_all add: drop_update_swap flip: Cons_nth_drop_Suc)
  show ?case
  proof (cases "unat v < unat base")
    case True
    then have "v div base = 0" by (simp add: word_unat_eq_iff unat_div)
    moreover have "digits (unat base) (unat v) = [unat v]" "unat (v mod base) = unat v"
      using True by (simp_all add: digits.simps unat_mod)
    ultimately show ?thesis
      using step endp upd by (simp add: take_list_update_other upd_conv_take_nth_drop)
  next
    case False
    have ds: "digits (unat base) (unat v) = digits (unat base) (unat (v div base)) @ [unat (v mod base)]"
      using False assms(1) digits.simps [of "unat base" "unat v"] by (simp add: unat_div unat_mod)
    have "unat (v div base) \<noteq> 0"
      using False assms(1) by (simp add: unat_div div_eq_0_iff)
    then have "v div base \<noteq> 0" by auto
    moreover have "unat (v div base) < unat v"
      using False assms(1) by (simp add: unat_div)
    ultimately show ?thesis
      using less.hyps [of "v div base" "endp - 1" "buf[endp - 1 := digit_char (unat (v mod base))]"]
        less.prems step upd
      by (simp add: ds take_list_update_other)
  qed
qed

lemma convert_to_base_eq:
  assumes "2 \<le> unat base" and "unat base \<le> 16"
  shows "convert_to_base v base = Inr (map digit_char (digits (unat base) (unat v)) @ [NUL])"
proof -
  have "unat v < 2 ^ Suc 31" using unat_u32_less [of v] by simp
  from length_digits [OF assms(1) this] have len: "length (digits (unat base) (unat v)) \<le> 32" by simp
  then show ?thesis
    using convert_loop_digits [OF assms, of 63 "replicate 64 NUL" v]
    by (simp add: convert_to_base_def MaxStrSize_def)
qed

section \<open>Output\<close>

lemma put_char_eq [simp]: "put_char c t = Tty_Putchar c t"
proof -
  have "unat (of_char c :: u32) = of_char c"
    by (cases c) simp
  then show ?thesis by (simp add: put_char_def putchar_def)
qed

lemma print_s_eq: "print_s s n t = Tty_Write s n t"
  by (induction s n t rule: print_s.induct) (auto intro!: arg_cong [where f = "and_then _"] split: sum.splits simp: and_then_def)

definition emit :: "char list \<Rightarrow> tty \<Rightarrow> tty outcome" where
  "emit s t = Tty_Write s (length s) t"

lemma Tty_Write_prefix: "Tty_Write (s @ r) (length s) t = emit s t"
  unfolding emit_def
  by (induction s arbitrary: t) (auto simp: and_then_def split: sum.splits)

lemma emit_append: "emit (s @ r) t = and_then (emit s t) (emit r)"
  unfolding emit_def
  by (induction s arbitrary: t) (auto simp: and_then_def split: sum.splits)

lemma emit_Nil [simp]: "emit [] t = Inr t"
  and emit_Cons: "emit (c # s) t = and_then (Tty_Putchar c t) (emit s)"
  by (simp_all add: emit_def [abs_def])

lemma emit_single [simp]: "emit [c] t = Tty_Putchar c t"
  by (cases "Tty_Putchar c t") (simp_all add: emit_def)

lemma print_cstr_eq:
  assumes "NUL \<notin> set s" and "length s < 2 ^ 32"
  shows "print_cstr (s @ NUL # r) t = emit s t"
  using assms
  by (simp add: print_cstr_def strlen_append_NUL print_s_eq unat_of_nat_no_wrap Tty_Write_prefix)

lemma print_n_eq:
  assumes "2 \<le> unat base" and "unat base \<le> 16"
  shows "print_n v base t = emit (map digit_char (digits (unat base) (unat v))) t"
proof -
  have "unat v < 2 ^ Suc 31" using unat_u32_less [of v] by simp
  from length_digits [OF assms(1) this] have "length (map digit_char (digits (unat base) (unat v))) < 2 ^ 32" by simp
  moreover have "NUL \<notin> set (map digit_char (digits (unat base) (unat v)))"
    using digits_less [OF assms(1)] digit_char_not_NUL assms(2)
    by (auto simp: image_iff) (metis order_less_le_trans)
  ultimately show ?thesis
    using assms print_cstr_eq [of _ "[]"] by (simp add: print_n_def convert_to_base_eq)
qed

section \<open>Properties\<close>

text \<open>
  C30: For every base from 2 to 16 the number conversion stays inside its 64-byte buffer and
  returns a terminated string of digits below the base, without leading zeros, whose value in
  that base is the unsigned reading of the argument.
\<close>

theorem convert_to_base_roundtrip:
  assumes "2 \<le> unat base" and "unat base \<le> 16"
  shows "\<exists>ds. convert_to_base v base = Inr (map digit_char ds @ [NUL])
    \<and> digits_value (unat base) ds = unat v \<and> (\<forall>d \<in> set ds. d < unat base)
    \<and> ds \<noteq> [] \<and> (hd ds = 0 \<longrightarrow> v = 0) \<and> length ds \<le> 32"
proof -
  have "unat v < 2 ^ Suc 31" using unat_u32_less [of v] by simp
  from length_digits [OF assms(1) this] have "length (digits (unat base) (unat v)) \<le> 32" by simp
  then show ?thesis
    using convert_to_base_eq [OF assms] digits_value_digits [OF assms(1)] digits_less [OF assms(1)]
      hd_digits [OF assms(1)]
    by (intro exI [of _ "digits (unat base) (unat v)"]) (auto simp: unat_eq_zero)
qed

theorem convert_to_base_roundtrip_witness:
  "\<exists>ds. convert_to_base 0xFFFFFFFF 16 = Inr (map digit_char ds @ [NUL]) \<and> digits_value 16 ds = 0xFFFFFFFF"
  using convert_to_base_roundtrip [of 16 "0xFFFFFFFF"] by auto

text \<open>The pieces a format can be made of, the text and arguments they stand for, and what they show.\<close>

datatype piece =
    Plain char
  | Character u32
  | Text "char list"
  | Number char u32
  | Pointer u32

definition number_base :: "char \<Rightarrow> nat" where
  "number_base d = (if d = CHR ''d'' then 10 else if d = CHR ''x'' then 16 else if d = CHR ''o'' then 8 else 2)"

fun piece_format :: "piece \<Rightarrow> char list" where
  "piece_format (Plain c) = [c]"
| "piece_format (Character n) = ''%c''"
| "piece_format (Text s) = ''%s''"
| "piece_format (Number d n) = [CHR ''%'', d]"
| "piece_format (Pointer n) = ''%p''"

fun piece_args :: "piece \<Rightarrow> va list" where
  "piece_args (Plain c) = []"
| "piece_args (Character n) = [Va_int n]"
| "piece_args (Text s) = [Va_str s]"
| "piece_args (Number d n) = [Va_int n]"
| "piece_args (Pointer n) = [Va_int n]"

fun piece_shows :: "piece \<Rightarrow> char list" where
  "piece_shows (Plain c) = [c]"
| "piece_shows (Character n) = [char_of (unat n)]"
| "piece_shows (Text s) = cstr s"
| "piece_shows (Number d n) = map digit_char (digits (number_base d) (unat n))"
| "piece_shows (Pointer n) = ''0x'' @ map digit_char (digits 16 (unat n))"

fun piece_ok :: "piece \<Rightarrow> bool" where
  "piece_ok (Plain c) = (c \<noteq> NUL \<and> c \<noteq> CHR ''%'' \<and> c \<noteq> CHR ''$'')"
| "piece_ok (Text s) = (terminated s \<and> length s < 2 ^ 32)"
| "piece_ok (Number d n) = (d \<in> set ''dxob'')"
| "piece_ok _ = True"

lemma print_cstr_text: "terminated s \<Longrightarrow> length s < 2 ^ 32 \<Longrightarrow> print_cstr s t = emit (cstr s) t"
proof -
  assume s: "terminated s" "length s < 2 ^ 32"
  then obtain r where "s = cstr s @ NUL # r" using terminated_iff by blast
  then show ?thesis
    using print_cstr_eq [of "cstr s" r t] length_cstr_less [OF s(1)] s(2) by simp
qed

lemma number_base_bounds: "2 \<le> number_base d" "number_base d \<le> 16"
  by (simp_all add: number_base_def)

lemma conversion_Number:
  assumes "d \<in> set ''dxob''"
  shows "conversion d (Va_int n # as) t =
    and_then (emit (map digit_char (digits (number_base d) (unat n))) t) (\<lambda>t'. Inr (t', as, True))"
proof -
  have "conversion d (Va_int n # as) t = print_number (of_nat (number_base d)) (Va_int n # as) t"
    using assms by (auto simp: conversion_def number_base_def)
  moreover have "unat (of_nat (number_base d) :: u32) = number_base d"
    using number_base_bounds(2) [of d] by (intro unat_of_nat_no_wrap) simp
  ultimately show ?thesis
    using number_base_bounds [of d] by (simp add: print_number_def va_int_def print_n_eq)
qed

lemma printf_from_piece:
  assumes "piece_ok p"
  shows "printf_from (piece_format p @ fmt) (piece_args p @ as) n t =
    and_then (emit (piece_shows p) t) (printf_from fmt as (n + of_bool (piece_args p \<noteq> [])))"
proof (cases p)
  case (Plain c)
  then show ?thesis using assms by simp
next
  case (Character m)
  then show ?thesis
    by (simp add: conversion_def va_int_def putchar_def and_then_assoc)
next
  case (Text s)
  then show ?thesis
    using assms by (simp add: conversion_def va_str_def print_cstr_text and_then_assoc)
next
  case (Number d m)
  then have "d \<noteq> NUL" using assms by auto
  then show ?thesis
    using assms Number by (simp add: conversion_Number and_then_assoc)
next
  case (Pointer m)
  have "print_cstr PTR_PREFIX t = emit ''0x'' t" for t
    using print_cstr_text [of PTR_PREFIX t] by (simp add: PTR_PREFIX_def)
  moreover have "emit (piece_shows p) t = and_then (emit ''0x'' t) (emit (map digit_char (digits 16 (unat m))))"
    unfolding Pointer piece_shows.simps by (rule emit_append)
  ultimately have "conversion (CHR ''p'') (Va_int m # as) t =
      and_then (emit (piece_shows p) t) (\<lambda>t'. Inr (t', as, True))"
    by (simp add: conversion_def print_number_def [abs_def] va_int_def print_n_eq and_then_assoc)
  then show ?thesis
    using Pointer by (simp add: and_then_assoc)
qed

lemma printf_pieces:
  assumes "\<forall>p \<in> set ps. piece_ok p"
  shows "printf (concat (map piece_format ps) @ [NUL]) (concat (map piece_args ps)) t =
    and_then (emit (concat (map piece_shows ps)) t)
      (\<lambda>t'. Inr (of_nat (length (filter (\<lambda>p. piece_args p \<noteq> []) ps)), t'))"
proof -
  have "printf_from (concat (map piece_format ps) @ [NUL]) (concat (map piece_args ps)) n t =
      and_then (emit (concat (map piece_shows ps)) t)
        (\<lambda>t'. Inr (n + of_nat (length (filter (\<lambda>p. piece_args p \<noteq> []) ps)), t'))" for n
    using assms
  proof (induction ps arbitrary: n t)
    case (Cons p ps)
    then have "printf_from (concat (map piece_format ps) @ [NUL]) (concat (map piece_args ps)) m =
      (\<lambda>t. and_then (emit (concat (map piece_shows ps)) t)
        (\<lambda>t'. Inr (m + of_nat (length (filter (\<lambda>p. piece_args p \<noteq> []) ps)), t')))" for m
      by (intro ext) simp
    then have "printf_from (piece_format p @ concat (map piece_format ps) @ [NUL]) (piece_args p @ concat (map piece_args ps)) n t =
      and_then (emit (piece_shows p) t) (\<lambda>t. and_then (emit (concat (map piece_shows ps)) t)
        (\<lambda>t'. Inr (n + of_bool (piece_args p \<noteq> []) + of_nat (length (filter (\<lambda>p. piece_args p \<noteq> []) ps)), t')))"
      using Cons.prems by (subst printf_from_piece) simp_all
    then show ?case
      by (simp add: emit_append and_then_assoc add.assoc)
  qed simp
  then show ?thesis by (simp add: printf_def)
qed

text \<open>A format with one number never fails on a screen in order.\<close>

definition plain_text :: "char list \<Rightarrow> bool" where
  "plain_text s \<longleftrightarrow> set s \<inter> {NUL, CHR ''%'', CHR ''$'', CHR 0x08} = {}"

lemma digit_char_plain: "d < 16 \<Longrightarrow> digit_char d \<noteq> CHR 0x08"
  by (auto simp: digit_char_def numeral_eq_Suc less_Suc_eq)

text \<open>A text with one number in it.\<close>

definition number_text :: "char list \<Rightarrow> u32 \<Rightarrow> char list \<Rightarrow> char list" where
  "number_text a n b = a @ map digit_char (digits 10 (unat n)) @ b"

lemma number_text_plain:
  assumes "plain_text a" and "plain_text b"
  shows "CHR 0x08 \<notin> set (number_text a n b)"
proof -
  have "digit_char d \<noteq> CHR 0x08" if "d \<in> set (digits 10 (unat n))" for d
    using digits_less [OF _ that] by (intro digit_char_plain) simp
  then have "CHR 0x08 \<notin> set (map digit_char (digits 10 (unat n)))" by (metis imageE list.set_map)
  then show ?thesis using assms by (simp add: plain_text_def number_text_def)
qed

lemma printf_number_text:
  assumes "plain_text a" and "plain_text b"
  shows "printf (a @ ''%d'' @ b @ [NUL]) [Va_int n] t = and_then (emit (number_text a n b) t) (\<lambda>t'. Inr (1, t'))"
proof -
  let ?ps = "map Plain a @ [Number (CHR ''d'') n] @ map Plain b"
  have plain: "concat (map piece_format (map Plain s)) = s" "concat (map piece_args (map Plain s)) = []"
    "concat (map piece_shows (map Plain s)) = s" "filter (\<lambda>p. piece_args p \<noteq> []) (map Plain s) = []" for s
    by (induction s) simp_all
  have "\<forall>p \<in> set ?ps. piece_ok p" using assms by (auto simp: plain_text_def)
  then show ?thesis
    using printf_pieces [of ?ps t] unfolding map_append concat_append filter_append plain
    by (simp add: number_base_def number_text_def)
qed

lemma printf_number:
  assumes "tty_wf t" and "plain_text a" and "plain_text b"
  shows "\<exists>t'. printf (a @ ''%d'' @ b @ [NUL]) [Va_int n] t = Inr (1, t') \<and> tty_wf t'"
proof -
  obtain t' where "emit (number_text a n b) t = Inr t'" "tty_wf t'"
    using Tty_Write_refines [OF assms(1) number_text_plain [OF assms(2,3)], of n "[]"] by (auto simp: emit_def)
  then show ?thesis using printf_number_text [OF assms(2,3), of n t] by (intro exI [of _ t']) simp
qed

text \<open>
  C29: A format made of ordinary characters and the conversions \<^verbatim>\<open>%c %s %d %x %o %b %p\<close>, with
  an argument for each conversion, puts on the screen exactly the concatenation of what the
  pieces show (numbers unsigned, so a negative \<^verbatim>\<open>%d\<close> shows its two's complement), returns the
  number of conversions, and fails only where writing that text to the screen fails.
\<close>

theorem printf_renders:
  assumes "\<forall>p \<in> set ps. piece_ok p"
  shows "printf (concat (map piece_format ps) @ [NUL]) (concat (map piece_args ps)) t =
    (let text = concat (map piece_shows ps)
     in and_then (Tty_Write text (length text) t)
          (\<lambda>t'. Inr (of_nat (length (filter (\<lambda>p. piece_args p \<noteq> []) ps)), t')))"
  using printf_pieces [OF assms, of t] by (simp add: emit_def Let_def)

theorem printf_renders_witness:
  "\<exists>t'. printf (''pid %d'' @ [NUL]) [Va_int 42] blank_tty = Inr (1, t') \<and> Tty_Write ''pid 42'' 6 blank_tty = Inr t'"
proof -
  let ?ps = "[Plain (CHR ''p''), Plain (CHR ''i''), Plain (CHR ''d''), Plain (CHR '' ''), Number (CHR ''d'') 42]"
  have dig: "digits 10 42 = [4, 2]" by (simp add: digits.simps)
  have shown: "concat (map piece_shows ?ps) = ''pid 42''"
    by (simp add: number_base_def dig digit_char_def)
  have "printf (concat (map piece_format ?ps) @ [NUL]) (concat (map piece_args ?ps)) blank_tty =
      and_then (Tty_Write ''pid 42'' (length ''pid 42'') blank_tty) (\<lambda>t'. Inr (of_nat (length (filter (\<lambda>p. piece_args p \<noteq> []) ?ps)), t'))"
    using printf_renders [of ?ps blank_tty] unfolding shown Let_def by simp
  moreover obtain t' where "Tty_Write (''pid 42'' @ []) (length ''pid 42'') blank_tty = Inr t'"
    using Tty_Write_refines [OF blank_tty_wf, of "''pid 42''" "[]"] by auto
  ultimately show ?thesis
    by (intro exI [of _ t']) (simp add: eval_nat_numeral)
qed

end
