(* ===== verification/Lock.thy ===== *)
theory Lock
  imports Prelude
begin

text \<open>
  The spin lock of \<^verbatim>\<open>lock.h\<close>: the macros \<^verbatim>\<open>LOCK\<close> and \<^verbatim>\<open>UNLOCK\<close> on a word of memory, and the threads that
  run them in any order. The compare-and-swap is atomic; a thread that does not get the lock
  tries again for ever. The class \<^verbatim>\<open>Concurrency::Lock\<close>, which nothing uses, is its assembly,
  instruction by instruction.
\<close>

section \<open>The macros\<close>

definition compare_and_swap :: "u32 \<Rightarrow> u32 \<Rightarrow> u32 \<Rightarrow> bool \<times> u32" where
  "compare_and_swap old new w = (if w = old then (True, new) else (False, w))"

text \<open>One round of the loop of \<^verbatim>\<open>LOCK\<close>: the word once it is taken.\<close>

definition LOCK_word :: "u32 \<Rightarrow> u32 option" where
  "LOCK_word w = (case compare_and_swap 0 1 w of (True, w') \<Rightarrow> Some w' | (False, _) \<Rightarrow> None)"

definition UNLOCK_word :: "u32 \<Rightarrow> u32" where "UNLOCK_word w = 0"

lemma LOCK_word_eq: "LOCK_word w = (if w = 0 then Some 1 else None)"
  by (simp add: LOCK_word_def compare_and_swap_def)

section \<open>The class\<close>

text \<open>
  The five instructions of \<^verbatim>\<open>Aquire\<close>, by position, on the two flags and the lock word; position 5
  is the end of the function. The conditional jump at 1 leads to the instruction after it.
\<close>

fun aquire_instr :: "nat \<Rightarrow> bool \<Rightarrow> bool \<Rightarrow> u32 \<Rightarrow> nat \<times> bool \<times> bool \<times> u32" where
  "aquire_instr pc cf zf w =
     (if pc = 0 then (1, bit w 1, zf, set_bit 1 w)
      else if pc = 1 then (2, cf, zf, w)
      else if pc = 2 then (3, False, w AND 1 = 0, w)
      else if pc = 3 then (if \<not> zf then 2 else 4, cf, zf, w)
      else if pc = 4 then (0, cf, zf, w)
      else (pc, cf, zf, w))"

definition Release_word :: "u32 \<Rightarrow> u32" where "Release_word w = set_bit 0 w"

text \<open>Other threads may change the lock word between any two instructions.\<close>

inductive aquire_run :: "u32 \<Rightarrow> nat \<times> bool \<times> bool \<times> u32 \<Rightarrow> bool" for w0 where
  start: "aquire_run w0 (0, cf, zf, w0)"
| instr: "aquire_run w0 (pc, cf, zf, w) \<Longrightarrow> aquire_run w0 (aquire_instr pc cf zf w)"
| other: "aquire_run w0 (pc, cf, zf, w) \<Longrightarrow> aquire_run w0 (pc, cf, zf, w')"

text \<open>
  \<^verbatim>\<open>Aquire\<close> never returns, whatever the lock holds and whatever other threads do to it: the path on
  which the test finds the bit clear jumps back to the first instruction. \<^verbatim>\<open>Release\<close> sets the bit
  that keeps the inner loop waiting.
\<close>

theorem Aquire_never_returns: "aquire_run w0 (pc, cf, zf, w) \<longrightarrow> pc < 5"
proof
  assume "aquire_run w0 (pc, cf, zf, w)"
  then have "fst (pc, cf, zf, w) < 5" by (induction rule: aquire_run.induct) auto
  then show "pc < 5" by simp
qed

theorem Release_keeps_waiting: "fst (aquire_instr 3 cf (Release_word w AND 1 = 0) (Release_word w)) = 2"
  by (simp add: Release_word_def and_one_eq even_set_bit_iff flip: even_iff_mod_2_eq_zero)

section \<open>Threads\<close>

datatype phase = Outside | Spinning | Inside

record 't lock_state =
  lk_word :: u32
  lk_phase :: "'t \<Rightarrow> phase"

inductive lock_step :: "'t lock_state \<Rightarrow> 't lock_state \<Rightarrow> bool" where
  arrive: "lk_phase s t = Outside \<Longrightarrow> lock_step s (s\<lparr>lk_phase := (lk_phase s)(t := Spinning)\<rparr>)"
| spin: "lk_phase s t = Spinning \<Longrightarrow> LOCK_word (lk_word s) = None \<Longrightarrow> lock_step s s"
| enter: "lk_phase s t = Spinning \<Longrightarrow> LOCK_word (lk_word s) = Some w \<Longrightarrow>
    lock_step s (s\<lparr>lk_word := w, lk_phase := (lk_phase s)(t := Inside)\<rparr>)"
| leave: "lk_phase s t = Inside \<Longrightarrow>
    lock_step s (s\<lparr>lk_word := UNLOCK_word (lk_word s), lk_phase := (lk_phase s)(t := Outside)\<rparr>)"

inductive_cases lock_stepE: "lock_step s s'"

definition lock_start :: "u32 \<Rightarrow> 't lock_state" where
  "lock_start w = \<lparr>lk_word = w, lk_phase = (\<lambda>_. Outside)\<rparr>"

text \<open>A declared lock starts with any word: the macro stores nothing in it.\<close>

definition lock_reachable :: "u32 \<Rightarrow> 't lock_state \<Rightarrow> bool" where
  "lock_reachable w s \<longleftrightarrow> lock_step\<^sup>*\<^sup>* (lock_start w) s"

definition lock_inv :: "'t lock_state \<Rightarrow> bool" where
  "lock_inv s \<longleftrightarrow> (lk_word s = 0 \<and> (\<forall>t. lk_phase s t \<noteq> Inside)) \<or> (lk_word s = 1 \<and> (\<exists>t. \<forall>u. (lk_phase s u = Inside) = (u = t)))"

lemma lock_inv_step:
  assumes "lock_inv s" and "lock_step s s'"
  shows "lock_inv s'"
  using assms(2,1)
proof (cases rule: lock_step.cases)
  case (arrive t)
  then have "(lk_phase s' u = Inside) = (lk_phase s u = Inside)" for u by auto
  then show ?thesis using assms(1) arrive(1) by (simp add: lock_inv_def)
next
  case (spin t)
  then show ?thesis using assms(1) by simp
next
  case (enter t w)
  then have "lk_word s = 0" "w = 1" by (simp_all add: LOCK_word_eq split: if_splits)
  then show ?thesis using enter assms(1) by (auto simp: lock_inv_def intro!: exI [of _ t])
next
  case (leave t)
  then show ?thesis using assms(1) by (auto simp: lock_inv_def UNLOCK_word_def)
qed

lemma lock_inv_reachable: "lock_reachable 0 s \<Longrightarrow> lock_inv s"
  unfolding lock_reachable_def
proof (induction rule: rtranclp_induct)
  case base
  then show ?case by (simp add: lock_inv_def lock_start_def)
next
  case (step y z)
  show ?case by (rule lock_inv_step [OF step.IH step.hyps(2)])
qed

section \<open>Properties\<close>

text \<open>
  C35: On a lock that starts free at most one thread is inside at any time; when none is, every
  thread that spins can enter with its next round, and while one is, a thread that spins can still get in once the one
  inside has left. On a lock that starts with anything but 0, as
  one nothing was stored in may, no thread ever gets inside.
\<close>

theorem lock_mutual_exclusion:
  "(lock_reachable 0 s \<longrightarrow>
      (\<forall>t u. lk_phase s t = Inside \<and> lk_phase s u = Inside \<longrightarrow> t = u)
      \<and> ((\<forall>t. lk_phase s t \<noteq> Inside) \<longrightarrow>
          (\<forall>t. lk_phase s t = Spinning \<longrightarrow> lock_step s (s\<lparr>lk_word := 1, lk_phase := (lk_phase s)(t := Inside)\<rparr>)))
      \<and> (\<forall>t u. lk_phase s t = Spinning \<and> lk_phase s u = Inside \<longrightarrow>
          (\<exists>s'. lock_step s s' \<and> lk_phase s' u = Outside
            \<and> lock_step s' (s'\<lparr>lk_word := 1, lk_phase := (lk_phase s')(t := Inside)\<rparr>))))
   \<and> (w \<noteq> 0 \<and> lock_reachable w s \<longrightarrow> (\<forall>t. lk_phase s t \<noteq> Inside))"
proof (intro conjI impI)
  assume "lock_reachable 0 s"
  then have inv: "lock_inv s" by (rule lock_inv_reachable)
  show "\<forall>t u. lk_phase s t = Spinning \<and> lk_phase s u = Inside \<longrightarrow> (\<exists>s'. lock_step s s' \<and> lk_phase s' u = Outside
            \<and> lock_step s' (s'\<lparr>lk_word := 1, lk_phase := (lk_phase s')(t := Inside)\<rparr>))"
  proof (intro allI impI)
    fix t u assume tu: "lk_phase s t = Spinning \<and> lk_phase s u = Inside"
    let ?s = "s\<lparr>lk_word := UNLOCK_word (lk_word s), lk_phase := (lk_phase s)(u := Outside)\<rparr>"
    have "lock_step s ?s" using tu by (intro lock_step.leave) simp
    moreover have "t \<noteq> u" using tu by auto
    then have "lock_step ?s (?s\<lparr>lk_word := 1, lk_phase := (lk_phase ?s)(t := Inside)\<rparr>)"
      using tu by (intro lock_step.enter) (simp_all add: LOCK_word_eq UNLOCK_word_def)
    ultimately show "\<exists>s'. lock_step s s' \<and> lk_phase s' u = Outside
            \<and> lock_step s' (s'\<lparr>lk_word := 1, lk_phase := (lk_phase s')(t := Inside)\<rparr>)"
      by (intro exI [of _ ?s]) simp
  qed
  from inv show "\<forall>t u. lk_phase s t = Inside \<and> lk_phase s u = Inside \<longrightarrow> t = u" by (auto simp: lock_inv_def)
  show "\<forall>t. lk_phase s t = Spinning \<longrightarrow> lock_step s (s\<lparr>lk_word := 1, lk_phase := (lk_phase s)(t := Inside)\<rparr>)"
    if "\<forall>t. lk_phase s t \<noteq> Inside"
  proof (intro allI impI)
    fix t assume "lk_phase s t = Spinning"
    moreover have "LOCK_word (lk_word s) = Some 1" using inv that by (auto simp: lock_inv_def LOCK_word_eq)
    ultimately show "lock_step s (s\<lparr>lk_word := 1, lk_phase := (lk_phase s)(t := Inside)\<rparr>)" by (rule lock_step.enter)
  qed
next
  assume "w \<noteq> 0 \<and> lock_reachable w s"
  then have w: "w \<noteq> 0" and "lock_step\<^sup>*\<^sup>* (lock_start w) s" by (simp_all add: lock_reachable_def)
  from this(2) have "lk_word s = w \<and> (\<forall>t. lk_phase s t \<noteq> Inside)"
  proof (induction rule: rtranclp_induct)
    case base
    then show ?case by (simp add: lock_start_def)
  next
    case (step y z)
    from step.hyps(2) show ?case
      using step.IH w by (cases rule: lock_step.cases) (auto simp: LOCK_word_eq)
  qed
  then show "\<forall>t. lk_phase s t \<noteq> Inside" by simp
qed

definition held_lock :: "nat lock_state" where
  "held_lock = \<lparr>lk_word = 1, lk_phase = (\<lambda>_. Outside)(0 := Inside, 1 := Spinning)\<rparr>"

lemma held_lock_reachable: "lock_reachable 0 held_lock"
proof -
  let ?s0 = "lock_start 0 :: nat lock_state"
  define s1 where "s1 = ?s0\<lparr>lk_phase := (lk_phase ?s0)(0 := Spinning)\<rparr>"
  define s2 where "s2 = s1\<lparr>lk_word := 1, lk_phase := (lk_phase s1)(0 := Inside)\<rparr>"
  define s3 where "s3 = s2\<lparr>lk_phase := (lk_phase s2)(1 := Spinning)\<rparr>"
  have "lock_step ?s0 s1" unfolding s1_def by (rule lock_step.arrive) (simp add: lock_start_def)
  moreover have "lock_step s1 s2"
    unfolding s2_def by (rule lock_step.enter) (simp_all add: s1_def lock_start_def LOCK_word_eq)
  moreover have "lock_step s2 s3"
    unfolding s3_def by (rule lock_step.arrive) (simp add: s2_def s1_def lock_start_def)
  ultimately have "lock_step\<^sup>*\<^sup>* ?s0 s3" by (meson converse_rtranclp_into_rtranclp r_into_rtranclp)
  moreover have "s3 = held_lock" by (simp add: s3_def s2_def s1_def lock_start_def held_lock_def fun_eq_iff)
  ultimately show ?thesis by (simp add: lock_reachable_def)
qed

theorem lock_mutual_exclusion_witness:
  "{t. lk_phase held_lock t = Inside} = {0} \<and> \<not> (\<exists>t :: nat. lk_phase (lock_start 5) t = Inside)"
proof -
  have "lk_phase held_lock 0 = Inside" by (simp add: held_lock_def)
  moreover have "lock_reachable 5 (lock_start 5 :: nat lock_state)" by (simp add: lock_reachable_def)
  ultimately show ?thesis
    using lock_mutual_exclusion [of held_lock 5] lock_mutual_exclusion [of "lock_start 5 :: nat lock_state" 5] held_lock_reachable
    by auto
qed

end
