(* ===== verification/Keyboard.thy ===== *)
theory Keyboard
  imports Queue Printf Lock
begin

text \<open>
  Keyboard input: the PS/2 driver \<^verbatim>\<open>ps2_keyboard.cpp\<close>, the interrupt handler \<^verbatim>\<open>keyboard.cpp\<close> and
  the blocking reads of \<^verbatim>\<open>kio.cpp\<close>. What the data port will hold at the coming keyboard
  interrupts is a list of scan codes; a read that waits for a key takes the next of them through
  the handler, and does not return when there is none. The reference is a line editor on a list of
  characters.
\<close>

section \<open>The driver\<close>

datatype StrokeType = Pressed | Released

datatype SpecialCharacterType =
    Normal | Escape | Backspace | Tab | Enter | LeftControl | LeftShift | RightShift | LeftAlt | CapsLock | F_Key

record KeyDescriptor =
  kd_value :: u8
  kd_explanation :: string
  kd_type :: StrokeType
  kd_special_type :: SpecialCharacterType

definition keys :: "KeyDescriptor list" where
  "keys =
    [
     \<lparr>kd_value = 0x60, kd_explanation = ''Excape Pressed'', kd_type = Pressed, kd_special_type = Escape\<rparr>,
     \<lparr>kd_value = 0x31, kd_explanation = ''1 Pressed'', kd_type = Pressed, kd_special_type = Normal\<rparr>,
     \<lparr>kd_value = 0x32, kd_explanation = ''2 Pressed'', kd_type = Pressed, kd_special_type = Normal\<rparr>,
     \<lparr>kd_value = 0x33, kd_explanation = ''3 Pressed'', kd_type = Pressed, kd_special_type = Normal\<rparr>,
     \<lparr>kd_value = 0x34, kd_explanation = ''4 Pressed'', kd_type = Pressed, kd_special_type = Normal\<rparr>,
     \<lparr>kd_value = 0x35, kd_explanation = ''5 Pressed'', kd_type = Pressed, kd_special_type = Normal\<rparr>,
     \<lparr>kd_value = 0x36, kd_explanation = ''6 Pressed'', kd_type = Pressed, kd_special_type = Normal\<rparr>,
     \<lparr>kd_value = 0x37, kd_explanation = ''7 Pressed'', kd_type = Pressed, kd_special_type = Normal\<rparr>,
     \<lparr>kd_value = 0x38, kd_explanation = ''8 Pressed'', kd_type = Pressed, kd_special_type = Normal\<rparr>,
     \<lparr>kd_value = 0x39, kd_explanation = ''9 Pressed'', kd_type = Pressed, kd_special_type = Normal\<rparr>,
     \<lparr>kd_value = 0x30, kd_explanation = ''0 Pressed'', kd_type = Pressed, kd_special_type = Normal\<rparr>,
     \<lparr>kd_value = 0x2d, kd_explanation = ''- Pressed'', kd_type = Pressed, kd_special_type = Normal\<rparr>,
     \<lparr>kd_value = 0x2b, kd_explanation = ''+ Pressed'', kd_type = Pressed, kd_special_type = Normal\<rparr>,
     \<lparr>kd_value = 0, kd_explanation = ''Backspace Pressed'', kd_type = Pressed, kd_special_type = Backspace\<rparr>,
     \<lparr>kd_value = 0, kd_explanation = ''Tab Pressed'', kd_type = Pressed, kd_special_type = Tab\<rparr>,
     \<lparr>kd_value = 0x51, kd_explanation = ''Q Pressed'', kd_type = Pressed, kd_special_type = Normal\<rparr>,
     \<lparr>kd_value = 0x57, kd_explanation = ''W Pressed'', kd_type = Pressed, kd_special_type = Normal\<rparr>,
     \<lparr>kd_value = 0x45, kd_explanation = ''E Pressed'', kd_type = Pressed, kd_special_type = Normal\<rparr>,
     \<lparr>kd_value = 0x52, kd_explanation = ''R Pressed'', kd_type = Pressed, kd_special_type = Normal\<rparr>,
     \<lparr>kd_value = 0x54, kd_explanation = ''T Pressed'', kd_type = Pressed, kd_special_type = Normal\<rparr>,
     \<lparr>kd_value = 0x59, kd_explanation = ''Y Pressed'', kd_type = Pressed, kd_special_type = Normal\<rparr>,
     \<lparr>kd_value = 0x55, kd_explanation = ''U Pressed'', kd_type = Pressed, kd_special_type = Normal\<rparr>,
     \<lparr>kd_value = 0x49, kd_explanation = ''I Pressed'', kd_type = Pressed, kd_special_type = Normal\<rparr>,
     \<lparr>kd_value = 0x4f, kd_explanation = ''O Pressed'', kd_type = Pressed, kd_special_type = Normal\<rparr>,
     \<lparr>kd_value = 0x50, kd_explanation = ''P Pressed'', kd_type = Pressed, kd_special_type = Normal\<rparr>,
     \<lparr>kd_value = 0x5b, kd_explanation = ''[ Pressed'', kd_type = Pressed, kd_special_type = Normal\<rparr>,
     \<lparr>kd_value = 0x5d, kd_explanation = ''] Pressed'', kd_type = Pressed, kd_special_type = Normal\<rparr>,
     \<lparr>kd_value = 0, kd_explanation = ''Enter Pressed'', kd_type = Pressed, kd_special_type = Enter\<rparr>,
     \<lparr>kd_value = 0, kd_explanation = ''Left Control Pressed'', kd_type = Pressed, kd_special_type = LeftControl\<rparr>,
     \<lparr>kd_value = 0x41, kd_explanation = ''A Pressed'', kd_type = Pressed, kd_special_type = Normal\<rparr>,
     \<lparr>kd_value = 0x53, kd_explanation = ''S Pressed'', kd_type = Pressed, kd_special_type = Normal\<rparr>,
     \<lparr>kd_value = 0x44, kd_explanation = ''D Pressed'', kd_type = Pressed, kd_special_type = Normal\<rparr>,
     \<lparr>kd_value = 0x46, kd_explanation = ''F Pressed'', kd_type = Pressed, kd_special_type = Normal\<rparr>,
     \<lparr>kd_value = 0x47, kd_explanation = ''G Pressed'', kd_type = Pressed, kd_special_type = Normal\<rparr>,
     \<lparr>kd_value = 0x48, kd_explanation = ''H Pressed'', kd_type = Pressed, kd_special_type = Normal\<rparr>,
     \<lparr>kd_value = 0x4a, kd_explanation = ''J Pressed'', kd_type = Pressed, kd_special_type = Normal\<rparr>,
     \<lparr>kd_value = 0x4b, kd_explanation = ''K Pressed'', kd_type = Pressed, kd_special_type = Normal\<rparr>,
     \<lparr>kd_value = 0x4c, kd_explanation = ''L Pressed'', kd_type = Pressed, kd_special_type = Normal\<rparr>,
     \<lparr>kd_value = 0x3b, kd_explanation = ''; Pressed'', kd_type = Pressed, kd_special_type = Normal\<rparr>,
     \<lparr>kd_value = 0x27, kd_explanation = CHR 0x27 # '' Pressed'', kd_type = Pressed, kd_special_type = Normal\<rparr>,
     \<lparr>kd_value = 0x60, kd_explanation = CHR 0x60 # '' Pressed'', kd_type = Pressed, kd_special_type = Normal\<rparr>,
     \<lparr>kd_value = 0, kd_explanation = ''Left Shift Pressed'', kd_type = Pressed, kd_special_type = LeftShift\<rparr>,
     \<lparr>kd_value = 0x5c, kd_explanation = CHR 0x5C # '' Pressed'', kd_type = Pressed, kd_special_type = Normal\<rparr>,
     \<lparr>kd_value = 0x5a, kd_explanation = ''Z Pressed'', kd_type = Pressed, kd_special_type = Normal\<rparr>,
     \<lparr>kd_value = 0x58, kd_explanation = ''X Pressed'', kd_type = Pressed, kd_special_type = Normal\<rparr>,
     \<lparr>kd_value = 0x43, kd_explanation = ''C Pressed'', kd_type = Pressed, kd_special_type = Normal\<rparr>,
     \<lparr>kd_value = 0x56, kd_explanation = ''V Pressed'', kd_type = Pressed, kd_special_type = Normal\<rparr>,
     \<lparr>kd_value = 0x42, kd_explanation = ''B Pressed'', kd_type = Pressed, kd_special_type = Normal\<rparr>,
     \<lparr>kd_value = 0x4e, kd_explanation = ''N Pressed'', kd_type = Pressed, kd_special_type = Normal\<rparr>,
     \<lparr>kd_value = 0x4d, kd_explanation = ''M Pressed'', kd_type = Pressed, kd_special_type = Normal\<rparr>,
     \<lparr>kd_value = 0x2c, kd_explanation = '', Pressed'', kd_type = Pressed, kd_special_type = Normal\<rparr>,
     \<lparr>kd_value = 0x2e, kd_explanation = ''. Pressed'', kd_type = Pressed, kd_special_type = Normal\<rparr>,
     \<lparr>kd_value = 0x2f, kd_explanation = ''/ Pressed'', kd_type = Pressed, kd_special_type = Normal\<rparr>,
     \<lparr>kd_value = 0, kd_explanation = ''Right Shift Pressed'', kd_type = Pressed, kd_special_type = RightShift\<rparr>,
     \<lparr>kd_value = 0x2a, kd_explanation = ''* Pressed'', kd_type = Pressed, kd_special_type = Normal\<rparr>,
     \<lparr>kd_value = 0, kd_explanation = ''Left Alt Pressed'', kd_type = Pressed, kd_special_type = LeftAlt\<rparr>,
     \<lparr>kd_value = 0x20, kd_explanation = ''Space Pressed'', kd_type = Pressed, kd_special_type = Normal\<rparr>,
     \<lparr>kd_value = 0, kd_explanation = ''Caps Lock Pressed'', kd_type = Pressed, kd_special_type = CapsLock\<rparr>,
     \<lparr>kd_value = 0x31, kd_explanation = ''F1 Pressed'', kd_type = Pressed, kd_special_type = F_Key\<rparr>,
     \<lparr>kd_value = 0x32, kd_explanation = ''F2 Pressed'', kd_type = Pressed, kd_special_type = F_Key\<rparr>,
     \<lparr>kd_value = 0x33, kd_explanation = ''F3 Pressed'', kd_type = Pressed, kd_special_type = F_Key\<rparr>,
     \<lparr>kd_value = 0x34, kd_explanation = ''F4 Pressed'', kd_type = Pressed, kd_special_type = F_Key\<rparr>,
     \<lparr>kd_value = 0x35, kd_explanation = ''F5 Pressed'', kd_type = Pressed, kd_special_type = F_Key\<rparr>,
     \<lparr>kd_value = 0x36, kd_explanation = ''F6 Pressed'', kd_type = Pressed, kd_special_type = F_Key\<rparr>,
     \<lparr>kd_value = 0x37, kd_explanation = ''F7 Pressed'', kd_type = Pressed, kd_special_type = F_Key\<rparr>,
     \<lparr>kd_value = 0x38, kd_explanation = ''F8 Pressed'', kd_type = Pressed, kd_special_type = F_Key\<rparr>,
     \<lparr>kd_value = 0x39, kd_explanation = ''F9 Pressed'', kd_type = Pressed, kd_special_type = F_Key\<rparr>,
     \<lparr>kd_value = 0x30, kd_explanation = ''F10 Pressed'', kd_type = Pressed, kd_special_type = F_Key\<rparr>,
     \<lparr>kd_value = 0x2d, kd_explanation = ''F11 Pressed'', kd_type = Pressed, kd_special_type = F_Key\<rparr>
    ]"

record InputKeyType =
  ik_character :: u32
  ik_error :: bool

definition PS2_DATA_PORT :: u32 where "PS2_DATA_PORT = 0x60"

text \<open>\<open>input\<close> is what \<^verbatim>\<open>inb(DATA_PORT)\<close> read; \<open>junk\<close> is the character nothing was stored in.\<close>

definition KeyboardSource :: "u32 \<Rightarrow> u8 \<Rightarrow> InputKeyType" where
  "KeyboardSource junk input =
     (if input > 0 \<and> unat input < length keys
      then (let key = keys ! (unat input - 1)
            in \<lparr>ik_character = (case kd_special_type key of
                                 Enter \<Rightarrow> 0x0A
                               | Backspace \<Rightarrow> 0x08
                               | _ \<Rightarrow> ucast (kd_value key)),
                ik_error = False\<rparr>)
      else \<lparr>ik_character = junk, ik_error = True\<rparr>)"

section \<open>The handler and the reads\<close>

text \<open>
  The running process's input buffer, null before \<^verbatim>\<open>SelfProcessInit\<close>, with the memory its nodes are
  in, and its lock.
\<close>

record keyboard =
  kb_mem :: "InputKeyType qmem"
  kb_buffer :: "queue option"
  kb_lock :: u32

definition KeyboardHandler :: "(u32 \<Rightarrow> u32 \<Rightarrow> u32) \<Rightarrow> InputKeyType \<Rightarrow> keyboard \<Rightarrow> keyboard outcome" where
  "KeyboardHandler pdiff key kb =
     (if ik_error key then Inr kb
      else (case kb_buffer kb of
              None \<Rightarrow> Inr kb
            | Some q \<Rightarrow> and_then (enqueue pdiff SIZEOF_KEY_NODE key q (kb_mem kb)) (\<lambda>(q', m).
                Inr (kb\<lparr>kb_buffer := Some q', kb_mem := m\<rparr>))))"

text \<open>
  \<^verbatim>\<open>GetChar\<close>: \<^verbatim>\<open>LOCK\<close> spins on a lock that is taken; the loop halts until an interrupt has put
  a key in the buffer.
\<close>

fun wait_key ::
    "(u32 \<Rightarrow> u32 \<Rightarrow> u32) \<Rightarrow> u32 \<Rightarrow> u8 list \<Rightarrow> keyboard \<Rightarrow> (u8 list \<times> keyboard) outcome option" where
  "wait_key pdiff junk codes kb =
     (case kb_buffer kb of
        None \<Rightarrow> Some (Inl Null_Pointer)
      | Some q \<Rightarrow>
          if isempty q
          then (case codes of
                  [] \<Rightarrow> None
                | code # rest \<Rightarrow>
                    (case KeyboardHandler pdiff (KeyboardSource junk code) kb of
                       Inl e \<Rightarrow> Some (Inl e)
                     | Inr kb' \<Rightarrow> wait_key pdiff junk rest kb'))
          else Some (Inr (codes, kb)))"

declare wait_key.simps [simp del]

definition no_key :: InputKeyType where "no_key = \<lparr>ik_character = 0, ik_error = False\<rparr>"

definition GetChar ::
    "(u32 \<Rightarrow> u32 \<Rightarrow> u32) \<Rightarrow> u32 \<Rightarrow> u8 list \<Rightarrow> keyboard \<Rightarrow> (char \<times> u8 list \<times> keyboard) outcome option" where
  "GetChar pdiff junk codes kb =
     (case LOCK_word (kb_lock kb) of
        None \<Rightarrow> None
      | Some w \<Rightarrow>
          (case wait_key pdiff junk codes (kb\<lparr>kb_lock := w\<rparr>) of
             None \<Rightarrow> None
           | Some r \<Rightarrow> Some (and_then r (\<lambda>(codes', kb1).
               case kb_buffer kb1 of
                 None \<Rightarrow> Inl Null_Pointer
               | Some q \<Rightarrow> and_then (dequeue no_key q (kb_mem kb1)) (\<lambda>(key, q', m).
                   Inr (char_of (unat (ik_character key)), codes',
                        kb1\<lparr>kb_buffer := Some q', kb_mem := m, kb_lock := 0\<rparr>))))))"

text \<open>The loop of \<^verbatim>\<open>GetString\<close>.\<close>

partial_function (option) GetString_from ::
    "(u32 \<Rightarrow> u32 \<Rightarrow> u32) \<Rightarrow> u32 \<Rightarrow> u32 \<Rightarrow> u32 \<Rightarrow> char list \<Rightarrow> u8 list \<Rightarrow> keyboard \<Rightarrow> tty
     \<Rightarrow> (char list \<times> u8 list \<times> keyboard \<times> tty) outcome option" where
  "GetString_from pdiff junk i max_len buffer codes kb t =
     (if i < max_len
      then (case GetChar pdiff junk codes kb of
              None \<Rightarrow> None
            | Some (Inl e) \<Rightarrow> Some (Inl e)
            | Some (Inr r) \<Rightarrow>
                (let c = fst r; codes' = fst (snd r); kb' = snd (snd r)
                 in if c = CHR 0x0A
                    then Some (and_then (put_char c t) (\<lambda>t'. Inr (buffer, codes', kb', t')))
                    else if c = CHR 0x08
                    then (if i > 0
                          then (case put_char c t of
                                  Inl e \<Rightarrow> Some (Inl e)
                                | Inr t' \<Rightarrow> GetString_from pdiff junk (i - 1) max_len buffer codes' kb' t')
                          else GetString_from pdiff junk i max_len buffer codes' kb' t)
                    else (case put_char c t of
                            Inl e \<Rightarrow> Some (Inl e)
                          | Inr t' \<Rightarrow>
                              (case store_at buffer (unat i) c of
                                 Inl e \<Rightarrow> Some (Inl e)
                               | Inr b \<Rightarrow> GetString_from pdiff junk (i + 1) max_len b codes' kb' t'))))
      else Some (Inr (buffer, codes, kb, t)))"

definition GetString ::
    "(u32 \<Rightarrow> u32 \<Rightarrow> u32) \<Rightarrow> u32 \<Rightarrow> char list \<Rightarrow> u32 \<Rightarrow> u8 list \<Rightarrow> keyboard \<Rightarrow> tty
     \<Rightarrow> (char list \<times> u8 list \<times> keyboard \<times> tty) outcome option" where
  "GetString pdiff junk buffer max_len codes kb t = GetString_from pdiff junk 0 max_len buffer codes kb t"


section \<open>The reference\<close>

definition key_char :: "InputKeyType \<Rightarrow> char" where "key_char k = char_of (unat (ik_character k))"

definition pressed :: "u8 \<Rightarrow> char option" where
  "pressed code = (let k = KeyboardSource 0 code in if ik_error k then None else Some (key_char k))"

fun decode :: "u8 list \<Rightarrow> char list" where
  "decode [] = []"
| "decode (code # codes) = (case pressed code of None \<Rightarrow> decode codes | Some c \<Rightarrow> c # decode codes)"

text \<open>
  A line editor on the characters to come: the buffer it ends with, what it echoes and the
  characters left; \<open>None\<close> while it waits for more.
\<close>

fun edit :: "nat \<Rightarrow> nat \<Rightarrow> char list \<Rightarrow> char list \<Rightarrow> (char list \<times> char list \<times> char list) option" where
  "edit m i buf [] = (if i < m then None else Some (buf, [], []))"
| "edit m i buf (c # cs) =
     (if \<not> i < m then Some (buf, [], c # cs)
      else if c = CHR 0x0A then Some (buf, [c], cs)
      else if c = CHR 0x08
      then (if 0 < i then map_option (\<lambda>(b, e, r). (b, c # e, r)) (edit m (i - 1) buf cs) else edit m i buf cs)
      else map_option (\<lambda>(b, e, r). (b, c # e, r)) (edit m (Suc i) (buf[i := c]) cs))"

text \<open>The keys in the buffer and the scan codes to come stand for the characters \<open>cs\<close>.\<close>

definition pending :: "keyboard \<Rightarrow> u8 list \<Rightarrow> char list \<Rightarrow> bool" where
  "pending kb codes cs \<longleftrightarrow> kb_lock kb = 0 \<and> 0 < bin_room (kb_mem kb)
     \<and> (\<exists>q P ks. kb_buffer kb = Some q \<and> queue_rep (kb_mem kb) q P ks \<and> cs = map key_char ks @ decode codes)"

section \<open>Facts\<close>

lemma KeyboardSource_pressed:
  "pressed code = None \<Longrightarrow> ik_error (KeyboardSource junk code)"
  "pressed code = Some c \<Longrightarrow> \<not> ik_error (KeyboardSource junk code) \<and> key_char (KeyboardSource junk code) = c"
  by (auto simp: pressed_def KeyboardSource_def Let_def split: if_splits)

lemma wait_key_ready:
  assumes "kb_buffer kb = Some q" and "\<not> isempty q"
  shows "wait_key pdiff junk codes kb = Some (Inr (codes, kb))"
  using assms by (subst wait_key.simps) simp

lemma wait_key_empty:
  assumes "kb_buffer kb = Some q" and "queue_rep (kb_mem kb) q P []" and "0 < bin_room (kb_mem kb)"
  shows "case decode codes of
      [] \<Rightarrow> wait_key pdiff junk codes kb = None
    | c # cs \<Rightarrow> \<exists>codes' kb' q' P' k. wait_key pdiff junk codes kb = Some (Inr (codes', kb')) \<and> decode codes' = cs
        \<and> kb_lock kb' = kb_lock kb \<and> kb_buffer kb' = Some q' \<and> queue_rep (kb_mem kb') q' P' [k] \<and> key_char k = c"
proof (induction codes)
  case Nil
  then show ?case
    using assms(1) queue_rep_empty [OF assms(2)] by (subst wait_key.simps) simp
next
  case (Cons code codes)
  have empty: "isempty q" using queue_rep_empty [OF assms(2)] by simp
  show ?case
  proof (cases "pressed code")
    case None
    have skip: "wait_key pdiff junk (code # codes) kb = wait_key pdiff junk codes kb"
      using empty assms(1) KeyboardSource_pressed(1) [OF None] by (subst wait_key.simps) (simp add: KeyboardHandler_def)
    have "decode (code # codes) = decode codes" using None by simp
    then show ?thesis unfolding skip using Cons.IH by (simp only:)
  next
    case (Some c)
    let ?k = "KeyboardSource junk code"
    have k: "\<not> ik_error ?k" "key_char ?k = c" using KeyboardSource_pressed(2) [OF Some] by auto
    obtain q' m P' where 1: "enqueue pdiff SIZEOF_KEY_NODE ?k q (kb_mem kb) = Inr (q', m)" "queue_rep m q' P' [?k]"
      using kq.put_last [OF assms(2,3), where x = ?k and pdiff = pdiff] by auto
    define kb' where "kb' = kb\<lparr>kb_buffer := Some q', kb_mem := m\<rparr>"
    have "KeyboardHandler pdiff ?k kb = Inr kb'" using k(1) assms(1) 1(1) by (simp add: KeyboardHandler_def kb'_def)
    moreover have "wait_key pdiff junk codes kb' = Some (Inr (codes, kb'))"
      using queue_rep_empty [OF 1(2)] by (intro wait_key_ready [of _ q']) (simp_all add: kb'_def)
    ultimately have "wait_key pdiff junk (code # codes) kb = Some (Inr (codes, kb'))"
      using empty assms(1) by (subst wait_key.simps) simp
    then show ?thesis using Some 1(2) k(2) by (auto simp: kb'_def)
  qed
qed

lemma GetChar_pending:
  assumes "pending kb codes (c # cs)"
  shows "\<exists>codes' kb'. GetChar pdiff junk codes kb = Some (Inr (c, codes', kb')) \<and> pending kb' codes' cs"
proof -
  obtain q P ks where kb: "kb_lock kb = 0" "0 < bin_room (kb_mem kb)" "kb_buffer kb = Some q"
      "queue_rep (kb_mem kb) q P ks" "c # cs = map key_char ks @ decode codes"
    using assms by (auto simp: pending_def)
  let ?kb1 = "kb\<lparr>kb_lock := 1\<rparr>"
  obtain codes1 kb1 q1 P1 k ks1 where w: "wait_key pdiff junk codes ?kb1 = Some (Inr (codes1, kb1))" "kb_buffer kb1 = Some q1"
      "queue_rep (kb_mem kb1) q1 P1 (k # ks1)" "key_char k = c" "cs = map key_char ks1 @ decode codes1"
  proof (cases ks)
    case Nil
    then have "decode codes = c # cs" using kb(5) by simp
    then show thesis
      using wait_key_empty [of ?kb1 q P, where codes = codes and pdiff = pdiff and junk = junk] kb(2-4) Nil that by (fastforce split: list.splits)
  next
    case (Cons k ks1)
    then show thesis
      using that [of codes ?kb1 q P k ks1] wait_key_ready [of ?kb1 q pdiff junk codes] kb queue_rep_empty [OF kb(4)] by simp
  qed
  obtain q2 m P2 where d: "dequeue no_key q1 (kb_mem kb1) = Inr (k, q2, m)" "queue_rep m q2 P2 ks1" "bin_room m = Suc (bin_room (kb_mem kb1))"
    using kq.take_front [OF w(3), of no_key] by blast
  define kb2 where "kb2 = kb1\<lparr>kb_buffer := Some q2, kb_mem := m, kb_lock := 0\<rparr>"
  have "GetChar pdiff junk codes kb = Some (Inr (c, codes1, kb2))"
    using kb(1) w(1,2,4) d(1) by (simp add: GetChar_def LOCK_word_eq kb2_def key_char_def)
  moreover have "pending kb2 codes1 cs" using d(2,3) w(5) by (auto simp: pending_def kb2_def)
  ultimately show ?thesis by blast
qed

lemma GetChar_waits:
  assumes "pending kb codes []"
  shows "GetChar pdiff junk codes kb = None"
proof -
  obtain q P where kb: "kb_lock kb = 0" "0 < bin_room (kb_mem kb)" "kb_buffer kb = Some q"
      "queue_rep (kb_mem kb) q P []" "decode codes = []"
    using assms by (auto simp: pending_def)
  then have "wait_key pdiff junk codes (kb\<lparr>kb_lock := 1\<rparr>) = None"
    using wait_key_empty [of "kb\<lparr>kb_lock := 1\<rparr>" q P, where codes = codes and pdiff = pdiff and junk = junk] by simp
  then show ?thesis using kb(1) by (simp add: GetChar_def LOCK_word_eq)
qed

lemma GetString_edit:
  assumes "pending kb codes cs" and "unat max_len \<le> length buffer" and "i \<le> max_len"
    and "edit (unat max_len) (unat i) buffer cs = Some (buf, echo, rest)" and "print_s echo (length echo) t = Inr t'"
  shows "\<exists>codes' kb'. GetString_from pdiff junk i max_len buffer codes kb t = Some (Inr (buf, codes', kb', t'))
    \<and> pending kb' codes' rest"
  using assms
proof (induction cs arbitrary: kb codes i buffer echo t)
  case Nil
  then have "\<not> i < max_len" "buffer = buf" "echo = []" "rest = []"
    by (auto simp: word_less_nat_alt split: if_splits)
  then show ?case
    using Nil.prems(1,5) by (subst GetString_from.simps) auto
next
  case (Cons c cs)
  show ?case
  proof (cases "i < max_len")
    case False
    then have "buffer = buf" "echo = []" "rest = c # cs"
      using Cons.prems(4) by (auto simp: word_less_nat_alt split: if_splits)
    then show ?thesis
      using Cons.prems(1,5) False by (subst GetString_from.simps) auto
  next
    case True
    then have lt: "unat i < unat max_len" by (simp add: word_less_nat_alt)
    obtain codes' kb' where g: "GetChar pdiff junk codes kb = Some (Inr (c, codes', kb'))" "pending kb' codes' cs"
      using GetChar_pending [OF Cons.prems(1)] by blast
    consider (enter) "c = CHR 0x0A" | (erase) "c = CHR 0x08" "i \<noteq> 0" | (ignore) "c = CHR 0x08" "i = 0"
      | (other) "c \<noteq> CHR 0x0A" "c \<noteq> CHR 0x08" by blast
    then show ?thesis
    proof cases
      case enter
      then have e: "buffer = buf" "echo = [c]" "rest = cs" using Cons.prems(4) lt by auto
      then have "put_char c t = Inr t'" using Cons.prems(5) by (cases "put_char c t") auto
      then show ?thesis using True g enter e by (subst GetString_from.simps) (auto simp: Let_def)
    next
      case erase
      have i1: "unat (i - 1) = unat i - 1" "0 < unat i"
        using erase(2) unat_minus_no_wrap [of 1 i] by (simp_all add: Suc_leI unat_gt_0)
      then obtain e where e: "edit (unat max_len) (unat (i - 1)) buffer cs = Some (buf, e, rest)" "echo = c # e"
        using Cons.prems(4) lt erase by auto
      obtain t1 where t1: "put_char c t = Inr t1" "print_s e (length e) t1 = Inr t'"
        using Cons.prems(5) e(2) by (cases "put_char c t") auto
      have "i - 1 \<le> max_len" using i1 lt by (simp add: word_le_nat_alt)
      from Cons.IH [OF g(2) Cons.prems(2) this e(1) t1(2)] show ?thesis
        using True g(1) erase t1(1) by (subst GetString_from.simps) (simp add: Let_def word_gt_0)
    next
      case ignore
      then have "edit (unat max_len) (unat i) buffer cs = Some (buf, echo, rest)" using Cons.prems(4) lt by simp
      from Cons.IH [OF g(2) Cons.prems(2,3) this Cons.prems(5)] show ?thesis
        using True g(1) ignore by (subst GetString_from.simps) (simp add: Let_def)
    next
      case other
      have i1: "unat (i + 1) = Suc (unat i)"
        using lt unat_u32_less [of max_len] unat_plus_no_wrap [of i 1] by simp
      obtain e where e: "edit (unat max_len) (unat (i + 1)) (buffer[unat i := c]) cs = Some (buf, e, rest)" "echo = c # e"
        using Cons.prems(4) lt other i1 by auto
      obtain t1 where t1: "put_char c t = Inr t1" "print_s e (length e) t1 = Inr t'"
        using Cons.prems(5) e(2) by (cases "put_char c t") auto
      have "i + 1 \<le> max_len" "unat max_len \<le> length (buffer[unat i := c])" "unat i < length buffer"
        using i1 lt Cons.prems(2) by (simp_all add: word_le_nat_alt)
      from Cons.IH [OF g(2) this(2,1) e(1) t1(2)] show ?thesis
        using True g(1) other t1(1) \<open>unat i < length buffer\<close> by (subst GetString_from.simps) (simp add: Let_def)
    qed
  qed
qed


lemma GetString_waits:
  assumes "pending kb codes cs" and "unat max_len \<le> length buffer"
    and "edit (unat max_len) (unat i) buffer cs = None"
  shows "GetString_from pdiff junk i max_len buffer codes kb t \<noteq> Some (Inr r)"
  using assms
proof (induction cs arbitrary: kb codes i buffer t)
  case Nil
  then have "i < max_len" by (simp add: word_less_nat_alt split: if_splits)
  then show ?case
    using GetChar_waits [OF Nil.prems(1)] by (subst GetString_from.simps) simp
next
  case (Cons c cs)
  then have lt: "i < max_len" "unat i < unat max_len" "c \<noteq> CHR 0x0A"
    by (auto simp: word_less_nat_alt split: if_splits)
  obtain codes' kb' where g: "GetChar pdiff junk codes kb = Some (Inr (c, codes', kb'))" "pending kb' codes' cs"
    using GetChar_pending [OF Cons.prems(1)] by blast
  consider (erase) "c = CHR 0x08" "i \<noteq> 0" | (ignore) "c = CHR 0x08" "i = 0" | (other) "c \<noteq> CHR 0x08" by blast
  then show ?case
  proof cases
    case erase
    have "unat (i - 1) = unat i - 1" "0 < unat i"
      using erase(2) unat_minus_no_wrap [of 1 i] by (simp_all add: Suc_leI unat_gt_0)
    then have "edit (unat max_len) (unat (i - 1)) buffer cs = None" using Cons.prems(3) lt erase by auto
    from Cons.IH [OF g(2) Cons.prems(2) this] show ?thesis
      using lt g(1) erase by (subst GetString_from.simps) (simp add: Let_def word_gt_0 split: sum.splits)
  next
    case ignore
    then have "edit (unat max_len) (unat i) buffer cs = None" using Cons.prems(3) lt by simp
    from Cons.IH [OF g(2) Cons.prems(2) this] show ?thesis
      using lt g(1) ignore by (subst GetString_from.simps) (simp add: Let_def)
  next
    case other
    have "unat (i + 1) = Suc (unat i)"
      using lt unat_u32_less [of max_len] unat_plus_no_wrap [of i 1] by simp
    then have "edit (unat max_len) (unat (i + 1)) (buffer[unat i := c]) cs = None"
      using Cons.prems(3) lt other by auto
    moreover have "unat max_len \<le> length (buffer[unat i := c])" "unat i < length buffer"
      using lt Cons.prems(2) by simp_all
    ultimately show ?thesis
      using Cons.IH [OF g(2), of "buffer[unat i := c]" "i + 1"] lt g(1) other
      by (subst GetString_from.simps) (simp add: Let_def split: sum.splits)
  qed
qed

lemma edit_typed:
  assumes "\<forall>c \<in> set xs. c \<noteq> CHR 0x0A \<and> c \<noteq> CHR 0x08" and "i + length xs \<le> m" and "m \<le> length buf"
  shows "edit m i buf (xs @ cs) =
    map_option (\<lambda>(b, e, r). (b, xs @ e, r)) (edit m (i + length xs) (take i buf @ xs @ drop (i + length xs) buf) cs)"
  using assms
proof (induction xs arbitrary: i buf)
  case Nil
  then show ?case by (simp add: option.map_ident prod.case_eq_if)
next
  case (Cons x xs)
  have "take (Suc i) (buf[i := x]) = take i buf @ [x]"
    using Cons.prems(2,3) by (intro take_Suc_update) simp
  moreover have "drop (Suc i + length xs) (buf[i := x]) = drop (Suc i + length xs) buf" by simp
  ultimately have "edit m (Suc i) (buf[i := x]) (xs @ cs) = map_option (\<lambda>(b, e, r). (b, xs @ e, r))
      (edit m (Suc i + length xs) (take i buf @ x # xs @ drop (Suc i + length xs) buf) cs)"
    using Cons.IH [of "Suc i" "buf[i := x]"] Cons.prems by simp
  then show ?case
    using Cons.prems by (simp add: option.map_comp comp_def prod.case_eq_if)
qed

lemma edit_erased:
  assumes "i < m" and "k \<le> i"
  shows "edit m i buf (replicate k (CHR 0x08) @ CHR 0x0A # cs) = Some (buf, replicate k (CHR 0x08) @ [CHR 0x0A], cs)"
  using assms by (induction k arbitrary: i) auto

section \<open>Properties\<close>

text \<open>
  C25: \<^verbatim>\<open>GetString\<close> is the line editor: on keys in the buffer and scan codes to come that stand
  for the characters \<open>cs\<close>, it returns exactly when the editor finishes on \<open>cs\<close>, with the editor's
  buffer, having echoed what the editor echoes, and leaves the characters after the line for the
  next read, each still in the buffer or to come. When they run out first it does not return.
\<close>

theorem GetString_refines:
  assumes "pending kb codes cs" and "unat max_len \<le> length buffer"
  shows "case edit (unat max_len) 0 buffer cs of
      None \<Rightarrow> \<forall>r. GetString pdiff junk buffer max_len codes kb t \<noteq> Some (Inr r)
    | Some (buf, echo, rest) \<Rightarrow> (case print_s echo (length echo) t of
        Inl e \<Rightarrow> True
      | Inr t' \<Rightarrow> \<exists>codes' kb'. GetString pdiff junk buffer max_len codes kb t = Some (Inr (buf, codes', kb', t'))
          \<and> pending kb' codes' rest)"
proof (cases "edit (unat max_len) 0 buffer cs")
  case None
  then have "edit (unat max_len) (unat (0 :: u32)) buffer cs = None" by simp
  from GetString_waits [OF assms(1,2) this] show ?thesis using None by (simp add: GetString_def)
next
  case (Some r)
  then have "edit (unat max_len) (unat (0 :: u32)) buffer cs = Some (fst r, fst (snd r), snd (snd r))" by simp
  from GetString_edit [OF assms(1,2) _ this, of t] show ?thesis
    using Some unfolding GetString_def by (auto split: sum.splits)
qed

definition idle_keyboard :: keyboard where
  "idle_keyboard = \<lparr>kb_mem = boot_qmem, kb_buffer = Some Queue_new, kb_lock = 0\<rparr>"

lemma idle_keyboard_pending: "pending idle_keyboard [0x1E, 0x0E, 0x1C] ([CHR ''A''] @ replicate 1 (CHR 0x08) @ [CHR 0x0A])"
proof -
  have "decode [0x1E, 0x0E, 0x1C] = [CHR ''A'', CHR 0x08, CHR 0x0A]" by code_simp
  then show ?thesis using boot_qmem_rep
    by (auto simp: pending_def idle_keyboard_def boot_qmem_room simp del: decode.simps
        intro!: exI [of _ "[] :: InputKeyType list"])
qed

lemma echo_blank_tty: "\<exists>t'. print_s ([CHR ''A''] @ replicate 1 (CHR 0x08) @ [CHR 0x0A]) 3 blank_tty = Inr t'"
proof -
  obtain t1 where 1: "Tty_Putchar (CHR ''A'') blank_tty = Inr t1" "tty_wf t1"
      "abs_screen t1 = screen_put (CHR ''A'') (abs_screen blank_tty)"
    using Tty_Putchar_refines [OF blank_tty_wf, of "CHR ''A''"] by auto
  then have "position (abs_screen t1) = 1"
    by (simp add: screen_put_def abs_screen_def blank_tty_cursor)
  then have "terminal_column t1 \<noteq> 0" by (auto simp: abs_screen_def)
  then obtain t2 where 2: "Tty_Putchar (CHR 0x08) t1 = Inr t2" "tty_wf t2"
    using Putchar_backspace [OF 1(2)] by blast
  obtain t3 where "Tty_Putchar (CHR 0x0A) t2 = Inr t3" using Putchar_newline [OF 2(2)] by blast
  then show ?thesis using 1(1) 2(1) by (simp add: eval_nat_numeral)
qed

theorem GetString_refines_witness:
  "\<exists>codes' kb' t'. GetString (\<lambda>_ _. 0) 0 ''ab'' 2 [0x1E, 0x0E, 0x1C] idle_keyboard blank_tty
     = Some (Inr (''Ab'', codes', kb', t'))"
proof -
  obtain t' where "print_s ([CHR ''A''] @ replicate 1 (CHR 0x08) @ [CHR 0x0A])
      (length ([CHR ''A''] @ replicate 1 (CHR 0x08) @ [CHR 0x0A])) blank_tty = Inr t'"
    using echo_blank_tty by (auto simp: eval_nat_numeral simp del: print_s.simps)
  moreover have "edit 2 0 ''ab'' ([CHR ''A''] @ replicate 1 (CHR 0x08) @ [CHR 0x0A])
      = Some (''Ab'', [CHR ''A''] @ replicate 1 (CHR 0x08) @ [CHR 0x0A], [])"
    by simp
  ultimately show ?thesis
    using GetString_refines [OF idle_keyboard_pending, of 2 "''ab''" "\<lambda>_ _. 0" 0 blank_tty]
    by (simp del: edit.simps print_s.simps append.simps) blast
qed

text \<open>
  A backspace takes a character off the screen and not out of the buffer: after typing a line,
  erasing any number of its characters and pressing Enter, the buffer holds the whole line that
  was typed, so a command that was erased completely is still there.
\<close>

theorem erased_text_remains:
  assumes "pending kb codes (xs @ replicate k (CHR 0x08) @ [CHR 0x0A])"
    and "\<forall>c \<in> set xs. c \<noteq> CHR 0x0A \<and> c \<noteq> CHR 0x08" and "length xs < unat max_len" and "k \<le> length xs"
    and "unat max_len \<le> length buffer"
    and "print_s (xs @ replicate k (CHR 0x08) @ [CHR 0x0A]) (length xs + k + 1) t = Inr t'"
  shows "\<exists>codes' kb'. GetString pdiff junk buffer max_len codes kb t
      = Some (Inr (xs @ drop (length xs) buffer, codes', kb', t')) \<and> pending kb' codes' []"
proof -
  have "edit (unat max_len) 0 buffer (xs @ replicate k (CHR 0x08) @ [CHR 0x0A])
      = Some (xs @ drop (length xs) buffer, xs @ replicate k (CHR 0x08) @ [CHR 0x0A], [])"
    using edit_typed [OF assms(2), of 0 "unat max_len" buffer] assms(3-5) edit_erased [OF assms(3,4)] by simp
  then have e: "edit (unat max_len) (unat (0 :: u32)) buffer (xs @ replicate k (CHR 0x08) @ [CHR 0x0A])
      = Some (xs @ drop (length xs) buffer, xs @ replicate k (CHR 0x08) @ [CHR 0x0A], [])" by simp
  have p: "print_s (xs @ replicate k (CHR 0x08) @ [CHR 0x0A]) (length (xs @ replicate k (CHR 0x08) @ [CHR 0x0A])) t = Inr t'"
    using assms(6) by simp
  show ?thesis
    using GetString_edit [OF assms(1,5) _ e p, of pdiff junk] unfolding GetString_def by simp
qed

theorem erased_text_remains_witness:
  "\<exists>codes' kb' t'. GetString (\<lambda>_ _. 0) 0 ''abc'' 3 [0x1E, 0x0E, 0x1C] idle_keyboard blank_tty
     = Some (Inr (''A'' @ drop 1 ''abc'', codes', kb', t')) \<and> pending kb' codes' []"
proof -
  obtain t' where "print_s ([CHR ''A''] @ replicate 1 (CHR 0x08) @ [CHR 0x0A]) (length ''A'' + 1 + 1) blank_tty = Inr t'"
    using echo_blank_tty by (auto simp: eval_nat_numeral simp del: print_s.simps)
  from erased_text_remains [OF idle_keyboard_pending _ _ _ _ this, of 3 "''abc''" "\<lambda>_ _. 0" 0]
  show ?thesis by auto
qed

text \<open>
  The driver accepts exactly the scan codes 1 to 68 and maps code \<open>n\<close> to entry \<open>n - 1\<close> of its
  table of 69 keys, with Enter and Backspace made control characters; it never reads outside of
  the table, and no scan code reaches the last key.
\<close>

lemma keys_length: "length keys = 69" by (simp add: keys_def)

lemma keys_special:
  assumes "n < 68"
  shows "(kd_special_type (keys ! n) = Enter) = (n = 27) \<and> (kd_special_type (keys ! n) = Backspace) = (n = 13)"
proof -
  have "list_all (\<lambda>n. (kd_special_type (keys ! n) = Enter) = (n = 27)
      \<and> (kd_special_type (keys ! n) = Backspace) = (n = 13)) [0..<68]"
    by code_simp
  then show ?thesis using assms by (simp add: list_all_iff)
qed

lemma KeyboardSource_error: "ik_error (KeyboardSource junk code) = (code = 0 \<or> 69 \<le> unat code)"
  by (simp add: KeyboardSource_def keys_length Let_def word_gt_0 not_less)

theorem KeyboardSource_codes:
  "if code = 0 \<or> 69 \<le> unat code then ik_error (KeyboardSource junk code) \<and> pressed code = None
   else \<not> ik_error (KeyboardSource junk code) \<and> unat code - 1 < length keys - 1
     \<and> ik_character (KeyboardSource junk code) =
         (if code = 28 then 0x0A else if code = 14 then 0x08 else ucast (kd_value (keys ! (unat code - 1))))"
proof (cases "code = 0 \<or> 69 \<le> unat code")
  case True
  then show ?thesis using KeyboardSource_error [of junk code] KeyboardSource_error [of 0 code] by (simp add: pressed_def)
next
  case False
  then have n: "0 < unat code" "unat code - 1 < 68" by (auto simp: unat_gt_0)
  define ty where "ty = kd_special_type (keys ! (unat code - 1))"
  have ty: "(ty = Enter) = (code = 28)" "(ty = Backspace) = (code = 14)"
    using keys_special [OF n(2)] n(1) by (auto simp: ty_def word_unat_eq_iff)
  have "ik_character (KeyboardSource junk code) =
      (case ty of Enter \<Rightarrow> 0x0A | Backspace \<Rightarrow> 0x08 | _ \<Rightarrow> ucast (kd_value (keys ! (unat code - 1))))"
    using False by (simp add: KeyboardSource_def keys_length Let_def word_gt_0 not_le ty_def cong: SpecialCharacterType.case_cong)
  also have "\<dots> = (if code = 28 then 0x0A else if code = 14 then 0x08 else ucast (kd_value (keys ! (unat code - 1))))"
    using ty by (cases ty) auto
  finally show ?thesis using False n(2) KeyboardSource_error [of junk code] by (simp add: keys_length)
qed

end
