(* ===== verification/Dtables.thy ===== *)
theory Dtables
  imports Kuseful
begin

text \<open>
  The processor's tables and the two controllers the kernel programs at start-up: the segment
  table (\<^verbatim>\<open>gdt.cpp\<close>), the interrupt table (\<^verbatim>\<open>idt.cpp\<close>), the interrupt controller (\<^verbatim>\<open>pic.cpp\<close>) and the
  interval timer (\<^verbatim>\<open>pit.cpp\<close>). What the code does to the hardware is the list of its port accesses
  and privileged instructions, in order; what a port read returns is a function of that history
  and of the port, a parameter. Addresses the linker chooses, those of the tables and of the
  assembly stubs, are parameters too.
\<close>

section \<open>Ports and privileged instructions\<close>

datatype io =
    Outb u16 u8
  | Outw u16 u16
  | Inb u16
  | Inw u16
  | Sti
  | Cli
  | Gdt_Dump u32
  | Idt_Dump u32

type_synonym device = "io list \<Rightarrow> u16 \<Rightarrow> u16"

definition outb :: "u16 \<Rightarrow> u8 \<Rightarrow> io list \<Rightarrow> io list" where "outb port v h = h @ [Outb port v]"

definition inb :: "device \<Rightarrow> u16 \<Rightarrow> io list \<Rightarrow> u8 \<times> io list" where
  "inb dev port h = (ucast (dev h port), h @ [Inb port])"

definition inw :: "device \<Rightarrow> u16 \<Rightarrow> io list \<Rightarrow> u16 \<times> io list" where
  "inw dev port h = (dev h port, h @ [Inw port])"

definition EnableHardwareInterrupts :: "io list \<Rightarrow> io list" where "EnableHardwareInterrupts h = h @ [Sti]"

definition DisableHardwareInterrupts :: "io list \<Rightarrow> io list" where "DisableHardwareInterrupts h = h @ [Cli]"

text \<open>The bytes a port was sent, in order.\<close>

fun sent :: "u16 \<Rightarrow> io list \<Rightarrow> u8 list" where
  "sent port [] = []"
| "sent port (e # h) = (case e of Outb p v \<Rightarrow> if p = port then v # sent port h else sent port h | _ \<Rightarrow> sent port h)"

lemma sent_append [simp]: "sent port (h @ h') = sent port h @ sent port h'"
  by (induction h) (auto split: io.split)

section \<open>The segment table\<close>

datatype Segment_Access_Type = Kernel_Code | Kernel_Data | User_Code | User_Data

fun segment_access :: "Segment_Access_Type \<Rightarrow> u8" where
  "segment_access Kernel_Code = 0x9A"
| "segment_access Kernel_Data = 0x92"
| "segment_access User_Code = 0xFA"
| "segment_access User_Data = 0xF2"

record GdtEntry =
  g_limit_low :: u16
  g_base_low :: u16
  g_base_middle :: u8
  g_access :: u8
  g_granularity :: u8
  g_base_high :: u8

record PtrStruct =
  p_size :: u16
  p_base :: u32

definition zero_gdt_entry :: GdtEntry where
  "zero_gdt_entry = \<lparr>g_limit_low = 0, g_base_low = 0, g_base_middle = 0, g_access = 0, g_granularity = 0, g_base_high = 0\<rparr>"

definition Gdt_EditEntry :: "nat \<Rightarrow> u32 \<Rightarrow> u32 \<Rightarrow> u8 \<Rightarrow> u8 \<Rightarrow> GdtEntry list \<Rightarrow> GdtEntry list outcome" where
  "Gdt_EditEntry entry base limit access gran es =
     and_then (load_at es entry) (\<lambda>e.
       let e = e\<lparr>g_base_low := ucast (base AND 0xFFFF),
                 g_base_middle := ucast (drop_bit 16 base AND 0xFF),
                 g_base_high := ucast (drop_bit 24 base AND 0xFF)\<rparr>;
           e = e\<lparr>g_limit_low := ucast (limit AND 0xFFFF),
                 g_granularity := ucast (drop_bit 16 limit AND 0x0F)\<rparr>;
           e = e\<lparr>g_granularity := g_granularity e OR (gran AND 0xF0), g_access := access\<rparr>
       in store_at es entry e)"

record gdt =
  gdt_entries :: "GdtEntry list"
  gdt_ptr :: PtrStruct

definition SIZEOF_GDT_ENTRY :: u32 where "SIZEOF_GDT_ENTRY = 8"

definition Gdt_Init :: "u32 \<Rightarrow> u32 \<Rightarrow> gdt \<Rightarrow> io list \<Rightarrow> (gdt \<times> io list) outcome" where
  "Gdt_Init entries_at ptr_at g h =
     (let ptr = \<lparr>p_size = ucast (5 * SIZEOF_GDT_ENTRY - 1), p_base = entries_at\<rparr>
      in and_then (Gdt_EditEntry 0 0 0 0 0 (gdt_entries g)) (\<lambda>es.
         and_then (Gdt_EditEntry 1 0 0xFFFFFFFF (segment_access Kernel_Code) 0xCF es) (\<lambda>es.
         and_then (Gdt_EditEntry 2 0 0xFFFFFFFF (segment_access Kernel_Data) 0xCF es) (\<lambda>es.
         and_then (Gdt_EditEntry 3 0 0xFFFFFFFF (segment_access User_Code) 0xCF es) (\<lambda>es.
         and_then (Gdt_EditEntry 4 0 0xFFFFFFFF (segment_access User_Data) 0xCF es) (\<lambda>es.
           Inr (g\<lparr>gdt_entries := es, gdt_ptr := ptr\<rparr>, h @ [Gdt_Dump ptr_at])))))))"

definition Gdt_Initialize :: "u32 \<Rightarrow> u32 \<Rightarrow> gdt \<Rightarrow> io list \<Rightarrow> (gdt \<times> io list) outcome" where
  "Gdt_Initialize = Gdt_Init"

text \<open>What the processor takes an entry for: the base, the 20-bit limit and the flags.\<close>

definition segment_base :: "GdtEntry \<Rightarrow> u32" where
  "segment_base e = ucast (g_base_low e) OR push_bit 16 (ucast (g_base_middle e)) OR push_bit 24 (ucast (g_base_high e))"

definition segment_limit :: "GdtEntry \<Rightarrow> u32" where
  "segment_limit e = ucast (g_limit_low e) OR push_bit 16 (ucast (g_granularity e AND 0x0F))"

definition segment_flags :: "GdtEntry \<Rightarrow> u8" where "segment_flags e = g_granularity e AND 0xF0"

section \<open>The interrupt table and the controllers\<close>

record IdtEntry =
  i_base_low :: u16
  i_sel :: u16
  i_zero :: u8
  i_flags :: u8
  i_base_high :: u16

definition zero_idt_entry :: IdtEntry where
  "zero_idt_entry = \<lparr>i_base_low = 0, i_sel = 0, i_zero = 0, i_flags = 0, i_base_high = 0\<rparr>"

definition Idt_EditEntry :: "nat \<Rightarrow> u32 \<Rightarrow> u16 \<Rightarrow> u8 \<Rightarrow> IdtEntry list \<Rightarrow> IdtEntry list outcome" where
  "Idt_EditEntry entry base sel flags es =
     and_then (load_at es entry) (\<lambda>e.
       let e = e\<lparr>i_base_low := ucast (base AND 0xFFFF), i_base_high := ucast (drop_bit 16 base AND 0xFFFF)\<rparr>
       in store_at es entry (e\<lparr>i_sel := sel, i_flags := flags\<rparr>))"

definition gate_base :: "IdtEntry \<Rightarrow> u32" where
  "gate_base e = ucast (i_base_low e) OR push_bit 16 (ucast (i_base_high e))"

definition AddToIdt :: "nat \<Rightarrow> u32 \<Rightarrow> u16 \<Rightarrow> u8 \<Rightarrow> IdtEntry list \<Rightarrow> IdtEntry list outcome" where
  "AddToIdt entry base sel flags es = Idt_EditEntry entry base sel flags es"

text \<open>Entries \<open>i\<close>, \<open>i + 1\<close>, \<dots> for the stubs, one call each.\<close>

fun add_stubs :: "(nat \<Rightarrow> u32 \<Rightarrow> u16 \<Rightarrow> u8 \<Rightarrow> IdtEntry list \<Rightarrow> IdtEntry list outcome) \<Rightarrow> nat \<Rightarrow> u32 list \<Rightarrow> IdtEntry list
    \<Rightarrow> IdtEntry list outcome" where
  "add_stubs edit i [] es = Inr es"
| "add_stubs edit i (stub # stubs) es = and_then (edit i stub 0x08 0x8E es) (add_stubs edit (Suc i) stubs)"

definition set_all_interrupts :: "u32 list \<Rightarrow> IdtEntry list \<Rightarrow> IdtEntry list outcome" where
  "set_all_interrupts isr es = add_stubs Idt_EditEntry 0 (take 32 isr) es"

definition AddToInterruptTable :: "u32 list \<Rightarrow> IdtEntry list \<Rightarrow> IdtEntry list outcome" where
  "AddToInterruptTable irq es = add_stubs AddToIdt 32 (take 16 irq) es"

definition PIC1_COMMAND :: u16 where "PIC1_COMMAND = 0x20"
definition PIC1_DATA :: u16 where "PIC1_DATA = PIC1_COMMAND + 1"
definition PIC2_COMMAND :: u16 where "PIC2_COMMAND = 0xA0"
definition PIC2_DATA :: u16 where "PIC2_DATA = PIC2_COMMAND + 1"
definition ICW1_INIT :: u8 where "ICW1_INIT = 0x10"
definition ICW1_ICW4 :: u8 where "ICW1_ICW4 = 0x01"
definition ICW4_8086 :: u8 where "ICW4_8086 = 0x01"

definition PicRemap :: "device \<Rightarrow> u8 \<Rightarrow> u8 \<Rightarrow> io list \<Rightarrow> io list" where
  "PicRemap dev offset1 offset2 h =
     (let (a1, h) = inb dev PIC1_DATA h;
          (a2, h) = inb dev PIC2_DATA h;
          h = outb PIC1_COMMAND (ICW1_INIT OR ICW1_ICW4) h;
          h = outb PIC2_COMMAND (ICW1_INIT OR ICW1_ICW4) h;
          h = outb PIC1_DATA offset1 h;
          h = outb PIC2_DATA offset2 h;
          h = outb PIC1_DATA 4 h;
          h = outb PIC2_DATA 2 h;
          h = outb PIC1_DATA ICW4_8086 h;
          h = outb PIC2_DATA ICW4_8086 h;
          h = outb PIC1_DATA a1 h
      in outb PIC2_DATA a2 h)"

definition EnableDevices :: "u8 \<Rightarrow> u8 \<Rightarrow> io list \<Rightarrow> io list" where
  "EnableDevices master_dev slave_dev h =
     EnableHardwareInterrupts (outb 0xA1 slave_dev (outb 0x21 master_dev h))"

definition Pic_Initialize ::
    "device \<Rightarrow> u32 list \<Rightarrow> u32 \<Rightarrow> IdtEntry list \<Rightarrow> io list \<Rightarrow> (IdtEntry list \<times> io list) outcome" where
  "Pic_Initialize dev irq base es h =
     (let h = PicRemap dev (ucast base) (ucast (base + 8)) h;
          h = EnableDevices 0xFC 0xFF h
      in and_then (AddToInterruptTable irq es) (\<lambda>es. Inr (es, h)))"

record idt =
  idt_entries :: "IdtEntry list"
  idt_ptr :: PtrStruct

definition SIZEOF_IDT_ENTRY :: u32 where "SIZEOF_IDT_ENTRY = 8"

definition Idt_Init ::
    "device \<Rightarrow> u32 list \<Rightarrow> u32 list \<Rightarrow> u32 \<Rightarrow> u32 \<Rightarrow> idt \<Rightarrow> io list \<Rightarrow> (idt \<times> io list) outcome" where
  "Idt_Init dev isr irq entries_at ptr_at i h =
     (let ptr = \<lparr>p_size = ucast (SIZEOF_IDT_ENTRY * 256 - 1), p_base = entries_at\<rparr>
      in and_then (Pic_Initialize dev irq 0x20 (idt_entries i) h) (\<lambda>(es, h).
         and_then (set_all_interrupts isr es) (\<lambda>es.
           Inr (i\<lparr>idt_entries := es, idt_ptr := ptr\<rparr>, h @ [Idt_Dump ptr_at]))))"

definition Idt_Initialize ::
    "device \<Rightarrow> u32 list \<Rightarrow> u32 list \<Rightarrow> u32 \<Rightarrow> u32 \<Rightarrow> idt \<Rightarrow> io list \<Rightarrow> (idt \<times> io list) outcome" where
  "Idt_Initialize = Idt_Init"

section \<open>The interval timer\<close>

definition PIT_DPORT_1 :: u16 where "PIT_DPORT_1 = 0x40"
definition PIT_COMMAND_PORT :: u16 where "PIT_COMMAND_PORT = 0x43"
definition PIT_FREQ :: u32 where "PIT_FREQ = 1193180"
definition PIT_COMMAND_BYTE :: u8 where "PIT_COMMAND_BYTE = 0x36"

text \<open>A division by zero raises interrupt 0 and starts over.\<close>

definition Pit_Init :: "u32 \<Rightarrow> io list \<Rightarrow> io list outcome" where
  "Pit_Init clock_freq h =
     (if clock_freq = 0 then Inl No_Return
      else let divisor = PIT_FREQ div clock_freq;
               h = outb PIT_COMMAND_PORT PIT_COMMAND_BYTE h;
               h = outb PIT_DPORT_1 (ucast (divisor AND 0xFF)) h
           in Inr (outb PIT_DPORT_1 (ucast (drop_bit 8 divisor AND 0xFF)) h))"

definition Timer_Initialize :: "u32 \<Rightarrow> io list \<Rightarrow> io list outcome" where
  "Timer_Initialize clock_freq h = Pit_Init clock_freq h"

text \<open>The frequency divisor a 16-bit counter is loaded with, low byte first; 0 stands for 65536.\<close>

definition loaded_divisor :: "u8 list \<Rightarrow> nat" where
  "loaded_divisor bs = (case bs of [lo, hi] \<Rightarrow> (let d = unat lo + 256 * unat hi in if d = 0 then 65536 else d) | _ \<Rightarrow> 0)"

section \<open>Facts\<close>

lemma Gdt_EditEntry_decodes:
  assumes "n < length es"
  shows "\<exists>e. Gdt_EditEntry n base limit access gran es = Inr (es[n := e]) \<and> segment_base e = base
    \<and> segment_limit e = limit AND 0xFFFFF \<and> segment_flags e = gran AND 0xF0 \<and> g_access e = access"
proof -
  have masks: "0xFFFF = (mask 16 :: u32)" "0xFF = (mask 8 :: u32)" "0x0F = (mask 4 :: u32)" "0xFFFFF = (mask 20 :: u32)"
    "0x0F = (mask 4 :: u8)" "0xF0 = (push_bit 4 (mask 4) :: u8)"
    by (simp_all add: mask_eq_exp_minus_1)
  let ?g = "ucast (drop_bit 16 limit AND 0x0F) OR (gran AND 0xF0) :: u8"
  let ?e = "(es ! n)\<lparr>g_base_low := ucast (base AND 0xFFFF), g_base_middle := ucast (drop_bit 16 base AND 0xFF),
     g_base_high := ucast (drop_bit 24 base AND 0xFF), g_limit_low := ucast (limit AND 0xFFFF),
     g_granularity := ?g, g_access := access\<rparr>"
  have "segment_base ?e = base"
    unfolding segment_base_def masks
  proof (rule bit_word_eqI, goal_cases)
    case (1 n)
    then show ?case by (cases "24 \<le> n") (auto simp: bit_simps)
  qed
  moreover have "segment_limit ?e = limit AND 0xFFFFF"
    unfolding segment_limit_def masks
    by (rule bit_word_eqI) (auto simp: bit_simps)
  moreover have "segment_flags ?e = gran AND 0xF0"
    unfolding segment_flags_def masks
    by (rule bit_word_eqI) (auto simp: bit_simps)
  moreover have "Gdt_EditEntry n base limit access gran es = Inr (es[n := ?e])"
    using assms by (simp add: Gdt_EditEntry_def Let_def)
  ultimately show ?thesis by (intro exI [of _ ?e]) simp
qed

lemma Idt_EditEntry_decodes:
  assumes "n < length es"
  shows "\<exists>e. Idt_EditEntry n base sel flags es = Inr (es[n := e]) \<and> gate_base e = base
    \<and> i_sel e = sel \<and> i_flags e = flags \<and> i_zero e = i_zero (es ! n)"
proof -
  have m: "0xFFFF = (mask 16 :: u32)" by (simp add: mask_eq_exp_minus_1)
  let ?e = "(es ! n)\<lparr>i_base_low := ucast (base AND 0xFFFF), i_base_high := ucast (drop_bit 16 base AND 0xFFFF),
    i_sel := sel, i_flags := flags\<rparr>"
  have "gate_base ?e = base"
    unfolding gate_base_def m by (rule bit_word_eqI) (auto simp: bit_simps)
  then show ?thesis using assms by (intro exI [of _ ?e]) (simp add: Idt_EditEntry_def Let_def)
qed

lemma add_stubs_fill:
  assumes "i + length stubs \<le> length es"
    and edit: "\<And>n base es. n < length es \<Longrightarrow> edit n base 0x08 0x8E es = Idt_EditEntry n base 0x08 0x8E es"
  shows "\<exists>es'. add_stubs edit i stubs es = Inr es' \<and> length es' = length es
    \<and> (\<forall>n < length es. if i \<le> n \<and> n < i + length stubs
        then gate_base (es' ! n) = stubs ! (n - i) \<and> i_sel (es' ! n) = 0x08 \<and> i_flags (es' ! n) = 0x8E
          \<and> i_zero (es' ! n) = i_zero (es ! n)
        else es' ! n = es ! n)"
  using assms(1)
proof (induction stubs arbitrary: i es)
  case (Cons stub stubs)
  then have i: "i < length es" by simp
  obtain e where e: "Idt_EditEntry i stub 0x08 0x8E es = Inr (es[i := e])" "gate_base e = stub" "i_sel e = 0x08"
      "i_flags e = 0x8E" "i_zero e = i_zero (es ! i)"
    using Idt_EditEntry_decodes [OF i] by blast
  obtain es' where es': "add_stubs edit (Suc i) stubs (es[i := e]) = Inr es'" "length es' = length es"
      "\<forall>n < length es. if Suc i \<le> n \<and> n < Suc i + length stubs
        then gate_base (es' ! n) = stubs ! (n - Suc i) \<and> i_sel (es' ! n) = 0x08 \<and> i_flags (es' ! n) = 0x8E
          \<and> i_zero (es' ! n) = i_zero (es[i := e] ! n)
        else es' ! n = es[i := e] ! n"
    using Cons.IH [of "Suc i" "es[i := e]"] Cons.prems by auto
  have "add_stubs edit i (stub # stubs) es = Inr es'" using e(1) es'(1) edit [OF i] by simp
  moreover have "if i \<le> n \<and> n < i + length (stub # stubs)
        then gate_base (es' ! n) = (stub # stubs) ! (n - i) \<and> i_sel (es' ! n) = 0x08 \<and> i_flags (es' ! n) = 0x8E
          \<and> i_zero (es' ! n) = i_zero (es ! n)
        else es' ! n = es ! n" if "n < length es" for n
  proof (cases "n = i")
    case True
    then show ?thesis using es'(3) e i by (auto dest!: spec [of _ i])
  next
    case False
    then show ?thesis using es'(3) that by (auto simp: nth_Cons' dest!: spec [of _ n] split: if_splits)
  qed
  ultimately show ?case using es'(2) by blast
qed auto

lemma Idt_Initialize_result:
  assumes "length isr = 32" and "length irq = 16" and "length (idt_entries i) = 256"
  shows "\<exists>i' hs a1 a2. Idt_Initialize dev isr irq entries_at ptr_at i h = Inr (i', h @ hs)
    \<and> length (idt_entries i') = 256
    \<and> (\<forall>n < 256. if n < 48
         then gate_base (idt_entries i' ! n) = (isr @ irq) ! n \<and> i_sel (idt_entries i' ! n) = 8
           \<and> i_flags (idt_entries i' ! n) = 0x8E \<and> i_zero (idt_entries i' ! n) = i_zero (idt_entries i ! n)
         else idt_entries i' ! n = idt_entries i ! n)
    \<and> idt_ptr i' = \<lparr>p_size = 2047, p_base = entries_at\<rparr>
    \<and> sent 0x20 hs = [0x11] \<and> sent 0x21 hs = [0x20, 4, 1, a1, 0xFC]
    \<and> sent 0xA0 hs = [0x11] \<and> sent 0xA1 hs = [0x28, 2, 1, a2, 0xFF]
    \<and> filter (\<lambda>e. e \<in> {Sti, Cli, Idt_Dump ptr_at}) hs = [Sti, Idt_Dump ptr_at]
    \<and> sent 0x40 hs = [] \<and> sent 0x43 hs = []"
proof -
  obtain es1 where es1: "AddToInterruptTable irq (idt_entries i) = Inr es1" "length es1 = 256"
      "\<forall>n < 256. if 32 \<le> n \<and> n < 48
        then gate_base (es1 ! n) = irq ! (n - 32) \<and> i_sel (es1 ! n) = 0x08 \<and> i_flags (es1 ! n) = 0x8E
          \<and> i_zero (es1 ! n) = i_zero (idt_entries i ! n)
        else es1 ! n = idt_entries i ! n"
    using add_stubs_fill [of 32 irq "idt_entries i" AddToIdt] assms by (auto simp: AddToInterruptTable_def AddToIdt_def)
  obtain es2 where es2: "set_all_interrupts isr es1 = Inr es2" "length es2 = 256"
      "\<forall>n < 256. if n < 32
        then gate_base (es2 ! n) = isr ! n \<and> i_sel (es2 ! n) = 0x08 \<and> i_flags (es2 ! n) = 0x8E
          \<and> i_zero (es2 ! n) = i_zero (es1 ! n)
        else es2 ! n = es1 ! n"
    using add_stubs_fill [of 0 isr es1 Idt_EditEntry] assms es1(2) by (auto simp: set_all_interrupts_def)
  define a1 where "a1 = (ucast (dev h 0x21) :: u8)"
  define a2 where "a2 = (ucast (dev (h @ [Inb 0x21]) 0xA1) :: u8)"
  define hs where "hs = [Inb 0x21, Inb 0xA1, Outb 0x20 0x11, Outb 0xA0 0x11, Outb 0x21 0x20, Outb 0xA1 0x28, Outb 0x21 4,
    Outb 0xA1 2, Outb 0x21 1, Outb 0xA1 1, Outb 0x21 a1, Outb 0xA1 a2, Outb 0x21 0xFC, Outb 0xA1 0xFF, Sti, Idt_Dump ptr_at]"
  have run: "Idt_Initialize dev isr irq entries_at ptr_at i h
      = Inr (i\<lparr>idt_entries := es2, idt_ptr := \<lparr>p_size = 2047, p_base = entries_at\<rparr>\<rparr>, h @ hs)"
    using es1(1) es2(1)
    by (simp add: Idt_Initialize_def Idt_Init_def Pic_Initialize_def PicRemap_def EnableDevices_def inb_def outb_def
        PIC1_DATA_def PIC2_DATA_def PIC1_COMMAND_def PIC2_COMMAND_def ICW1_INIT_def ICW1_ICW4_def ICW4_8086_def
        EnableHardwareInterrupts_def SIZEOF_IDT_ENTRY_def hs_def a1_def a2_def Let_def)
  have entries: "if n < 48
         then gate_base (es2 ! n) = (isr @ irq) ! n \<and> i_sel (es2 ! n) = 8
           \<and> i_flags (es2 ! n) = 0x8E \<and> i_zero (es2 ! n) = i_zero (idt_entries i ! n)
         else es2 ! n = idt_entries i ! n" if "n < 256" for n
    using es1(3) es2(3) that assms(1) by (auto simp: nth_append dest!: spec [of _ n] split: if_splits)
  show ?thesis
    using es2(2) entries unfolding run
    by (intro exI [of _ "i\<lparr>idt_entries := es2, idt_ptr := \<lparr>p_size = 2047, p_base = entries_at\<rparr>\<rparr>"]
        exI [of _ hs] exI [of _ a1] exI [of _ a2]) (simp add: hs_def)
qed

lemma Gdt_Initialize_result:
  assumes "length (gdt_entries g) = 5"
  shows "\<exists>g'. Gdt_Initialize entries_at ptr_at g h = Inr (g', h @ [Gdt_Dump ptr_at]) \<and> length (gdt_entries g') = 5"
proof -
  have step: "\<exists>es'. Gdt_EditEntry n base limit access gran es = Inr es' \<and> length es' = 5" if "length es = 5" "n \<le> 4"
    for n base limit access gran es
    using Gdt_EditEntry_decodes [of n es base limit access gran] that by auto
  obtain e0 where 0: "Gdt_EditEntry 0 0 0 0 0 (gdt_entries g) = Inr e0" "length e0 = 5"
    using step [OF assms, of 0] by blast
  obtain e1 where 1: "Gdt_EditEntry 1 0 0xFFFFFFFF (segment_access Kernel_Code) 0xCF e0 = Inr e1" "length e1 = 5"
    using step [OF 0(2), of 1] by force
  obtain e2 where 2: "Gdt_EditEntry 2 0 0xFFFFFFFF (segment_access Kernel_Data) 0xCF e1 = Inr e2" "length e2 = 5"
    using step [OF 1(2), of 2] by force
  obtain e3 where 3: "Gdt_EditEntry 3 0 0xFFFFFFFF (segment_access User_Code) 0xCF e2 = Inr e3" "length e3 = 5"
    using step [OF 2(2), of 3] by force
  obtain e4 where 4: "Gdt_EditEntry 4 0 0xFFFFFFFF (segment_access User_Data) 0xCF e3 = Inr e4" "length e4 = 5"
    using step [OF 3(2), of 4] by force
  show ?thesis
    using 0(1) 1(1) 2(1) 3(1) 4 by (simp add: Gdt_Initialize_def Gdt_Init_def Let_def)
qed

section \<open>Properties\<close>

text \<open>
  The processor reads back from every entry \<^verbatim>\<open>Gdt::EditEntry\<close> writes the base, the low 20
  bits of the limit, the high half of the granularity byte and the access byte it was given, and
  no other entry changes; an index past the table is a store outside of it.
\<close>

theorem Gdt_EditEntry_roundtrip:
  "case Gdt_EditEntry n base limit access gran es of
     Inl e \<Rightarrow> e = Out_Of_Bounds \<and> length es \<le> n
   | Inr es' \<Rightarrow> n < length es \<and> length es' = length es \<and> segment_base (es' ! n) = base
       \<and> segment_limit (es' ! n) = limit AND 0xFFFFF \<and> segment_flags (es' ! n) = gran AND 0xF0
       \<and> g_access (es' ! n) = access \<and> take n es' = take n es \<and> drop (Suc n) es' = drop (Suc n) es"
proof (cases "n < length es")
  case True
  then obtain e where "Gdt_EditEntry n base limit access gran es = Inr (es[n := e])" "segment_base e = base"
      "segment_limit e = limit AND 0xFFFFF" "segment_flags e = gran AND 0xF0" "g_access e = access"
    using Gdt_EditEntry_decodes by blast
  then show ?thesis using True by simp
next
  case False
  then show ?thesis by (simp add: Gdt_EditEntry_def)
qed

text \<open>
  \<^verbatim>\<open>Idt::Initialize\<close> fills the interrupt table completely: vectors 0 to 31 go to the exception
  stubs and 32 to 47 to the stubs of the interrupt lines, each a present 32-bit interrupt gate of
  the kernel's code segment, the rest stays empty; both controllers get their four-word start
  sequence with the offsets 32 and 40, their old masks and then the masks that leave only timer
  and keyboard on. But interrupts are switched on before the table is loaded.
\<close>

theorem Idt_Initialize_fills:
  assumes "length isr = 32" and "length irq = 16" and "length (idt_entries i) = 256"
  shows "\<exists>i' hs a1 a2. Idt_Initialize dev isr irq entries_at ptr_at i h = Inr (i', h @ hs)
    \<and> length (idt_entries i') = 256
    \<and> (\<forall>n < 256. if n < 48
         then gate_base (idt_entries i' ! n) = (isr @ irq) ! n \<and> i_sel (idt_entries i' ! n) = 8
           \<and> i_flags (idt_entries i' ! n) = 0x8E \<and> i_zero (idt_entries i' ! n) = i_zero (idt_entries i ! n)
         else idt_entries i' ! n = idt_entries i ! n)
    \<and> idt_ptr i' = \<lparr>p_size = 2047, p_base = entries_at\<rparr>
    \<and> sent 0x20 hs = [0x11] \<and> sent 0x21 hs = [0x20, 4, 1, a1, 0xFC]
    \<and> sent 0xA0 hs = [0x11] \<and> sent 0xA1 hs = [0x28, 2, 1, a2, 0xFF]
    \<and> filter (\<lambda>e. e \<in> {Sti, Cli, Idt_Dump ptr_at}) hs = [Sti, Idt_Dump ptr_at]"
  using Idt_Initialize_result [OF assms, of dev entries_at ptr_at h] by blast

definition boot_idt :: idt where
  "boot_idt = \<lparr>idt_entries = replicate 256 zero_idt_entry, idt_ptr = \<lparr>p_size = 0, p_base = 0\<rparr>\<rparr>"

theorem Idt_Initialize_fills_witness:
  "\<exists>i' hs. Idt_Initialize (\<lambda>_ _. 0) (replicate 32 0x1000) (replicate 16 0x2000) 0x8000 0x9000 boot_idt []
     = Inr (i', hs) \<and> gate_base (idt_entries i' ! 33) = 0x2000 \<and> idt_entries i' ! 48 = zero_idt_entry"
proof -
  obtain i' hs where r: "Idt_Initialize (\<lambda>_ _. 0) (replicate 32 0x1000) (replicate 16 0x2000) 0x8000 0x9000 boot_idt []
       = Inr (i', [] @ hs)"
    and f: "\<forall>n < 256. if n < 48
         then gate_base (idt_entries i' ! n) = (replicate 32 0x1000 @ replicate 16 0x2000) ! n \<and> i_sel (idt_entries i' ! n) = 8
           \<and> i_flags (idt_entries i' ! n) = 0x8E \<and> i_zero (idt_entries i' ! n) = i_zero (idt_entries boot_idt ! n)
         else idt_entries i' ! n = idt_entries boot_idt ! n"
    using Idt_Initialize_fills [of "replicate 32 0x1000" "replicate 16 0x2000" boot_idt "\<lambda>_ _. 0" "0x8000" "0x9000" "[]"]
    by (auto simp: boot_idt_def)
  have "gate_base (idt_entries i' ! 33) = 0x2000" using f [rule_format, of 33] by (simp add: nth_append)
  moreover have "idt_entries i' ! 48 = zero_idt_entry" using f [rule_format, of 48] by (simp add: boot_idt_def)
  ultimately show ?thesis using r by auto
qed

lemma loaded_divisor_bytes:
  "loaded_divisor [ucast (d AND 0xFF :: u32), ucast (drop_bit 8 d AND 0xFF)] =
    (if unat d mod 65536 = 0 then 65536 else unat d mod 65536)"
proof -
  have m: "0xFF = (mask 8 :: u32)" by (simp add: mask_eq_exp_minus_1)
  have lo: "unat (ucast (d AND 0xFF :: u32) :: u8) = unat d mod 256"
    unfolding m by (simp add: unat_and_mask unsigned_ucast_eq take_bit_eq_mod)
  have hi: "unat (ucast (drop_bit 8 d AND 0xFF :: u32) :: u8) = unat d div 256 mod 256"
    unfolding m by (simp add: unat_and_mask unsigned_ucast_eq take_bit_eq_mod unsigned_drop_bit_eq drop_bit_eq_div unat_div)
  have "unat d mod 256 + 256 * (unat d div 256 mod 256) = unat d mod 65536"
    using mod_mult2_eq [of "unat d" 256 256] by simp
  then show ?thesis by (simp add: loaded_divisor_def lo hi Let_def)
qed

lemma slow_divisors:
  assumes "1 \<le> f" and "f < 19"
  shows "65536 \<le> 1193180 div f \<and> (1193180 div f) mod 65536 \<noteq> (0::nat)"
proof -
  have upt: "[1..<19] = [1, 2, 3, 4, 5, 6, 7, 8, 9, 10, 11, 12, 13, 14, 15, 16, 17, 18 :: nat]"
    by (simp add: upt_rec)
  have "f \<in> set [1..<19]" using assms by (simp only: set_upt atLeastLessThan_iff)
  then show ?thesis unfolding upt by (simp only: list.set) (elim insertE emptyE, simp_all)
qed

text \<open>
  C39: The interval timer is loaded with the quotient of its frequency and the asked one exactly
  when that quotient fits its 16-bit counter and is not 0, that is from 19 hertz up to its own
  frequency; a slower clock gets the remainder of the quotient by 65536, and a frequency of 0
  faults.
\<close>

theorem Pit_Init_divisor:
  "case Pit_Init clock_freq h of
     Inl e \<Rightarrow> clock_freq = 0 \<and> e = No_Return
   | Inr h' \<Rightarrow> (\<exists>bs. sent 0x43 h' = sent 0x43 h @ [0x36] \<and> sent 0x40 h' = sent 0x40 h @ bs
       \<and> (loaded_divisor bs = 1193180 div unat clock_freq) = (unat clock_freq \<in> {19..1193180})
       \<and> loaded_divisor bs =
           (if unat clock_freq \<le> 1193180 then (1193180 div unat clock_freq) mod 65536 else 65536))"
proof (cases "clock_freq = 0")
  case True
  then show ?thesis by (simp add: Pit_Init_def)
next
  case False
  define d where "d = PIT_FREQ div clock_freq"
  define f where "f = unat clock_freq"
  let ?bs = "[ucast (d AND 0xFF), ucast (drop_bit 8 d AND 0xFF)] :: u8 list"
  have f: "1 \<le> f" using False by (simp add: f_def unat_gt_0 Suc_le_eq)
  have d: "unat d = 1193180 div f" by (simp add: d_def PIT_FREQ_def f_def unat_div)
  have run: "Pit_Init clock_freq h = Inr (h @ [Outb 0x43 0x36, Outb 0x40 (?bs ! 0), Outb 0x40 (?bs ! 1)])"
    using False by (simp add: Pit_Init_def d_def outb_def Let_def PIT_COMMAND_PORT_def PIT_COMMAND_BYTE_def PIT_DPORT_1_def)
  have load: "loaded_divisor ?bs = (if (1193180 div f) mod 65536 = 0 then 65536 else (1193180 div f) mod 65536)"
    using loaded_divisor_bytes [of d] by (simp add: d)
  consider (slow) "f < 19" | (fine) "19 \<le> f" "f \<le> 1193180" | (fast) "1193180 < f" by linarith
  then have "(loaded_divisor ?bs = 1193180 div f) = (f \<in> {19..1193180})
       \<and> loaded_divisor ?bs = (if f \<le> 1193180 then (1193180 div f) mod 65536 else 65536)"
  proof cases
    case slow
    then have "(1193180 div f) mod 65536 \<noteq> 1193180 div f"
      using slow_divisors [OF f slow] mod_less_divisor [of 65536 "1193180 div f"] by linarith
    then show ?thesis using slow slow_divisors [OF f slow] unfolding load by simp
  next
    case fine
    have "1193180 div f \<le> 1193180 div 19" using fine(1) by (intro div_le_mono2) auto
    moreover have "0 < 1193180 div f" using fine f by (simp add: div_greater_zero_iff)
    ultimately show ?thesis using fine unfolding load by simp
  next
    case fast
    then show ?thesis unfolding load by simp
  qed
  then show ?thesis unfolding run f_def
    by (auto intro!: exI [of _ ?bs])
qed

end
