(* ===== verification/Interrupts.thy ===== *)
theory Interrupts
  imports Scheduler Dtables
begin

text \<open>
  Interrupt dispatch (\<^verbatim>\<open>interrupts.cpp\<close>): the table of 256 handlers, what it does with an interrupt
  nobody handles, and the acknowledgements to the two controllers. A handler is a name \<open>'h\<close>, and
  what running it does is a function \<open>run\<close> of the name, the saved registers and the rest of the
  kernel's state.
\<close>

section \<open>The table\<close>

definition I386_INTERRUPTS :: nat where "I386_INTERRUPTS = 256"
definition IRQ_8 :: u32 where "IRQ_8 = 40"
definition IRQ_15 :: u32 where "IRQ_15 = 47"

type_synonym 'h handlers = "'h option list"

definition interrupt_descriptions :: "string list" where
  "interrupt_descriptions =
    [''Divide by zero'', ''Single step'', ''Non-maskable'', ''Breakpoint'', ''Overflow trap'', ''Bound range exceeded'',
     ''Invalid opcode'', ''Co-processor not available'', ''Double fault'', ''Co-processor segment overrun'',
     ''Invalid TSS'', ''Segment not present'', ''Stack exception'', ''General protection exception'', ''Page fault'',
     ''Reserved'', ''Co-processor error'']"

definition Interrupts_Initialize :: "'h handlers \<Rightarrow> 'h handlers" where
  "Interrupts_Initialize hs = fold (\<lambda>i hs. hs[i := None]) [0..<I386_INTERRUPTS] hs"

definition set_handler :: "u32 \<Rightarrow> 'h \<Rightarrow> 'h handlers \<Rightarrow> 'h handlers outcome" where
  "set_handler interrupt_num handler hs = store_at hs (unat interrupt_num) (Some handler)"

section \<open>Dispatch\<close>

text \<open>The explanation an unhandled interrupt is logged with; the handlers' number is 16 bits wide.\<close>

definition interrupt_explanation :: "u16 \<Rightarrow> string" where
  "interrupt_explanation num =
     (if unat num < length interrupt_descriptions then interrupt_descriptions ! unat num else ''Unknown'')"

definition go_to_interrupt ::
    "('h \<Rightarrow> RegistersStruct_x86_32 \<Rightarrow> 's \<Rightarrow> 's outcome) \<Rightarrow> 'h handlers \<Rightarrow> RegistersStruct_x86_32 \<Rightarrow> 's
     \<Rightarrow> ('s \<times> (u16 \<times> string) option) outcome" where
  "go_to_interrupt run hs registers s =
     (let num = (ucast (r_int_no registers) :: u16)
      in and_then (load_at hs (unat num)) (\<lambda>h.
           case h of
             Some f \<Rightarrow> and_then (run f registers s) (\<lambda>s'. Inr (s', None))
           | None \<Rightarrow> Inr (s, Some (num, interrupt_explanation num))))"

definition PIC_ACK_MASTER :: "io list \<Rightarrow> io list" where "PIC_ACK_MASTER h = outb 0x20 0x20 h"

definition PIC_ACK_SLAVE :: "io list \<Rightarrow> io list" where "PIC_ACK_SLAVE h = outb 0xA0 0x20 (outb 0x20 0x20 h)"

definition PIC_IS_SLAVE :: "u32 \<Rightarrow> bool" where "PIC_IS_SLAVE num = IN_RANGE_C num IRQ_8 IRQ_15"

text \<open>The handler runs on the history that ends with the acknowledgements.\<close>

definition irq_handler ::
    "('h \<Rightarrow> RegistersStruct_x86_32 \<Rightarrow> io list \<times> 's \<Rightarrow> (io list \<times> 's) outcome) \<Rightarrow> 'h handlers \<Rightarrow> RegistersStruct_x86_32
     \<Rightarrow> io list \<times> 's \<Rightarrow> ((io list \<times> 's) \<times> (u16 \<times> string) option) outcome" where
  "irq_handler run hs registers st =
     (let h = (if PIC_IS_SLAVE (r_int_no registers) then PIC_ACK_SLAVE (fst st) else PIC_ACK_MASTER (fst st))
      in go_to_interrupt run hs registers (h, snd st))"

definition isr_handler ::
    "('h \<Rightarrow> RegistersStruct_x86_32 \<Rightarrow> 's \<Rightarrow> 's outcome) \<Rightarrow> 'h handlers \<Rightarrow> RegistersStruct_x86_32 \<Rightarrow> 's
     \<Rightarrow> ('s \<times> (u16 \<times> string) option) outcome" where
  "isr_handler run hs registers s = go_to_interrupt run hs registers s"

section \<open>Facts\<close>

text \<open>A run of registrations, and the handler it leaves for an interrupt.\<close>

fun register_all :: "(u32 \<times> 'h) list \<Rightarrow> 'h handlers \<Rightarrow> 'h handlers outcome" where
  "register_all [] hs = Inr hs"
| "register_all ((n, h) # rs) hs = and_then (set_handler n h hs) (register_all rs)"

definition last_registered :: "(u32 \<times> 'h) list \<Rightarrow> u32 \<Rightarrow> 'h option" where
  "last_registered rs n = map_of (rev rs) n"

lemma Interrupts_Initialize_eq: "length hs = 256 \<Longrightarrow> Interrupts_Initialize hs = replicate 256 None"
proof -
  have "fold (\<lambda>i hs. hs[i := None]) [0..<k] hs = replicate k None @ drop k hs" if "k \<le> length hs" for k
    using that
  proof (induction k)
    case (Suc k)
    then show ?case
      by (simp add: list_update_append Cons_nth_drop_Suc [symmetric] replicate_append_same [symmetric])
  qed simp
  then show "length hs = 256 \<Longrightarrow> Interrupts_Initialize hs = replicate 256 None"
    by (simp add: Interrupts_Initialize_def I386_INTERRUPTS_def)
qed

lemma register_all_table:
  assumes "length hs = 256" and "\<forall>(n, h) \<in> set rs. n < 256"
  shows "\<exists>hs'. register_all rs hs = Inr hs' \<and> length hs' = 256
    \<and> (\<forall>n < 256. hs' ! unat n = (case last_registered rs n of None \<Rightarrow> hs ! unat n | Some h \<Rightarrow> Some h))"
  using assms
proof (induction rs arbitrary: hs)
  case (Cons r rs)
  obtain n h where r: "r = (n, h)" by force
  have n: "unat n < 256" using Cons.prems(2) r by (simp add: word_less_nat_alt)
  obtain hs' where hs': "register_all rs (hs[unat n := Some h]) = Inr hs'" "length hs' = 256"
      "\<forall>m < 256. hs' ! unat m = (case last_registered rs m of None \<Rightarrow> hs[unat n := Some h] ! unat m | Some h \<Rightarrow> Some h)"
    using Cons.IH [of "hs[unat n := Some h]"] Cons.prems by auto
  have "hs' ! unat m = (case last_registered (r # rs) m of None \<Rightarrow> hs ! unat m | Some h \<Rightarrow> Some h)" if "m < 256" for m
    using hs'(3) that n Cons.prems(1) r
    by (auto simp: last_registered_def map_add_def nth_list_update word_unat_eq_iff split: option.splits)
  then show ?case
    using hs'(1,2) n Cons.prems(1) r by (simp add: set_handler_def)
qed (simp add: last_registered_def)

section \<open>Properties\<close>

text \<open>
  After \<^verbatim>\<open>Interrupts::Initialize\<close> and any registrations, an interrupt of a controller line is
  acknowledged to the master, and for lines 8 to 15 to the slave too, and then exactly the handler
  registered last for its number runs; with none the state stays as it is and the interrupt is
  logged under its name in the table, or as unknown beyond it.
\<close>

theorem irq_dispatched:
  assumes "length hs0 = 256" and "\<forall>(n, h) \<in> set rs. n < 256" and "r_int_no registers < 256"
  shows "\<exists>hs. register_all rs (Interrupts_Initialize hs0) = Inr hs
    \<and> irq_handler run hs registers (h, s) =
        (let acks = (if 40 \<le> r_int_no registers \<and> r_int_no registers \<le> 47 then [Outb 0x20 0x20, Outb 0xA0 0x20]
                     else [Outb 0x20 0x20])
         in case last_registered rs (r_int_no registers) of
              Some f \<Rightarrow> and_then (run f registers (h @ acks, s)) (\<lambda>st'. Inr (st', None))
            | None \<Rightarrow> Inr ((h @ acks, s),
                Some (ucast (r_int_no registers),
                      if r_int_no registers < 17 then interrupt_descriptions ! unat (r_int_no registers) else ''Unknown'')))"
proof -
  let ?n = "r_int_no registers"
  obtain hs where hs: "register_all rs (Interrupts_Initialize hs0) = Inr hs" "length hs = 256"
      "\<forall>n < 256. hs ! unat n = (case last_registered rs n of None \<Rightarrow> replicate 256 None ! unat n | Some h \<Rightarrow> Some h)"
    using register_all_table [OF _ assms(2), of "replicate 256 None"] Interrupts_Initialize_eq [OF assms(1)] by auto
  have n: "unat ?n < 256" using assms(3) by (simp add: word_less_nat_alt)
  have num: "unat (ucast ?n :: u16) = unat ?n"
    using n by (simp add: unsigned_ucast_eq take_bit_eq_mod)
  have name: "interrupt_explanation (ucast ?n) =
      (if ?n < 17 then interrupt_descriptions ! unat ?n else ''Unknown'')"
    by (simp add: interrupt_explanation_def num interrupt_descriptions_def word_less_nat_alt del: nth_Cons_numeral)
  have entry: "hs ! unat ?n = last_registered rs ?n"
    using hs(3) assms(3) n by (auto split: option.splits)
  have "irq_handler run hs registers (h, s) =
        (let acks = (if 40 \<le> ?n \<and> ?n \<le> 47 then [Outb 0x20 0x20, Outb 0xA0 0x20] else [Outb 0x20 0x20])
         in case last_registered rs ?n of
              Some f \<Rightarrow> and_then (run f registers (h @ acks, s)) (\<lambda>st'. Inr (st', None))
            | None \<Rightarrow> Inr ((h @ acks, s), Some (ucast ?n, if ?n < 17 then interrupt_descriptions ! unat ?n else ''Unknown'')))"
    using n hs(2) name
    by (auto simp: irq_handler_def go_to_interrupt_def num entry PIC_IS_SLAVE_def IN_RANGE_C_def IRQ_8_def IRQ_15_def
        PIC_ACK_SLAVE_def PIC_ACK_MASTER_def outb_def Let_def split: option.split)
  then show ?thesis using hs(1) by blast
qed

theorem irq_dispatched_witness:
  "\<exists>hs. register_all [(33, ''old''), (33, ''key'')] (Interrupts_Initialize (replicate 256 (Some ''x''))) = Inr hs
    \<and> irq_handler (\<lambda>f _ (h, s). Inr (h, s @ f)) hs (kp_registers (example_process 1)\<lparr>r_int_no := 33\<rparr>) ([], ''ran '') =
        Inr (([Outb 0x20 0x20], ''ran key''), None)"
  using irq_dispatched [of "replicate 256 (Some ''x'')" "[(33, ''old''), (33, ''key'')]"
      "kp_registers (example_process 1)\<lparr>r_int_no := 33\<rparr>" "\<lambda>f _ (h, s). Inr (h, s @ f)" "[]" "''ran ''"]
  by (simp add: last_registered_def Let_def)

end
