(* ===== verification/Stdlib.thy ===== *)
theory Stdlib
  imports Queue
begin

text \<open>
  The kernel's C++ library: \<^verbatim>\<open>static_stack.hpp\<close> and \<^verbatim>\<open>list.hpp\<close> with the allocator of
  \<^verbatim>\<open>allocator.hpp\<close>. List nodes live in a store like those of the queue and come from
  \<^verbatim>\<open>operator new\<close>.
\<close>

section \<open>The static stack\<close>

text \<open>\<^verbatim>\<open>m_size\<close> is not initialised by the constructor; \<open>n0\<close> is what it holds.\<close>

record 'a static_stack =
  m_arr :: "'a list"
  m_size :: u32
  m_top :: u32

definition static_stack_new :: "'a list \<Rightarrow> u32 \<Rightarrow> 'a static_stack" where
  "static_stack_new arr n0 = \<lparr>m_arr = arr, m_size = n0, m_top = - 1\<rparr>"

text \<open>
  \<^verbatim>\<open>m_top >= (Size - 1)\<close> compares an \<^verbatim>\<open>int\<close> with an \<^verbatim>\<open>unsigned int\<close>: both are taken as
  unsigned. The other comparisons are signed.
\<close>

definition stack_push :: "u32 \<Rightarrow> 'a \<Rightarrow> 'a static_stack \<Rightarrow> (bool \<times> 'a static_stack) outcome" where
  "stack_push Size item s =
     (if m_top s \<ge> Size - 1 then Inr (False, s)
      else and_then (store_at (m_arr s) (unat (m_top s + 1)) item) (\<lambda>arr.
             Inr (True, s\<lparr>m_size := m_size s + 1, m_top := m_top s + 1, m_arr := arr\<rparr>)))"

definition stack_is_empty :: "'a static_stack \<Rightarrow> bool" where
  "stack_is_empty s \<longleftrightarrow> m_top s <s 0"

definition stack_pop :: "'a \<Rightarrow> 'a static_stack \<Rightarrow> ('a \<times> 'a static_stack) outcome" where
  "stack_pop dflt s =
     (if m_top s <s 0 then Inr (dflt, s)
      else and_then (load_at (m_arr s) (unat (m_top s))) (\<lambda>x.
             Inr (x, s\<lparr>m_size := m_size s - 1, m_top := m_top s - 1\<rparr>)))"

definition stack_peek :: "'a \<Rightarrow> 'a static_stack \<Rightarrow> 'a outcome" where
  "stack_peek dflt s = (if m_top s <s 0 then Inr dflt else load_at (m_arr s) (unat (m_top s)))"

fun push_each :: "u32 \<Rightarrow> 'a list \<Rightarrow> 'a static_stack \<Rightarrow> (bool list \<times> 'a static_stack) outcome" where
  "push_each Size [] s = Inr ([], s)"
| "push_each Size (x # xs) s =
     and_then (stack_push Size x s) (\<lambda>(b, s'). and_then (push_each Size xs s') (\<lambda>(bs, s''). Inr (b # bs, s'')))"

text \<open>
  A static stack never holds anything: its top starts at -1, which the unsigned comparison
  of \<^verbatim>\<open>push\<close> takes for the largest number, so every push on a new stack is refused whatever its
  size, and the stack stays empty.
\<close>

theorem static_stack_refuses_all:
  "push_each Size xs (static_stack_new arr n0) = Inr (replicate (length xs) False, static_stack_new arr n0)
   \<and> stack_is_empty (static_stack_new arr n0) \<and> stack_pop dflt (static_stack_new arr n0) = Inr (dflt, static_stack_new arr n0)"
proof -
  have max: "Size - 1 \<le> (- 1 :: u32)" by simp
  have neg: "(- 1 :: u32) <s 0" by (simp add: word_sless_alt)
  have push: "stack_push Size x (static_stack_new arr n0) = Inr (False, static_stack_new arr n0)" for x
    using max by (simp add: stack_push_def static_stack_new_def)
  have "push_each Size xs (static_stack_new arr n0) = Inr (replicate (length xs) False, static_stack_new arr n0)"
    by (induction xs) (simp_all add: push)
  then show ?thesis
    using neg by (simp add: stack_is_empty_def stack_pop_def) (simp add: static_stack_new_def)
qed

section \<open>The list\<close>

record 'e lnode =
  l_val :: 'e
  l_next :: u32
  l_prev :: u32

record 'e lmem =
  l_mm :: mm_state
  l_nodes :: "u32 \<Rightarrow> 'e lnode option"

record dlist =
  m_list_size :: u32
  m_head :: u32
  m_tail :: u32

definition list_new :: dlist where "list_new = \<lparr>m_list_size = 0, m_head = 0, m_tail = 0\<rparr>"

definition lnode_at :: "u32 \<Rightarrow> 'e lmem \<Rightarrow> 'e lnode outcome" where
  "lnode_at p m = (case l_nodes m p of None \<Rightarrow> Inl Null_Pointer | Some n \<Rightarrow> Inr n)"

definition set_lnode :: "u32 \<Rightarrow> ('e lnode \<Rightarrow> 'e lnode) \<Rightarrow> 'e lmem \<Rightarrow> 'e lmem outcome" where
  "set_lnode p f m = and_then (lnode_at p m) (\<lambda>n. Inr (m\<lparr>l_nodes := (l_nodes m)(p \<mapsto> f n)\<rparr>))"

text \<open>\<^verbatim>\<open>allocate_single\<close> and \<^verbatim>\<open>construct\<close>: a node holding the item, its links null.\<close>

definition allocate_node :: "(u32 \<Rightarrow> u32 \<Rightarrow> u32) \<Rightarrow> u32 \<Rightarrow> 'e \<Rightarrow> 'e lmem \<Rightarrow> (u32 \<times> 'e lmem) outcome" where
  "allocate_node pdiff node_size item m =
     and_then (operator_new pdiff node_size (l_mm m)) (\<lambda>(p, mm).
       if p = 0 then Inl Null_Pointer
       else Inr (p, m\<lparr>l_mm := mm, l_nodes := (l_nodes m)(p \<mapsto> \<lparr>l_val = item, l_next = 0, l_prev = 0\<rparr>)\<rparr>))"

definition insert_internal ::
    "(u32 \<Rightarrow> u32 \<Rightarrow> u32) \<Rightarrow> u32 \<Rightarrow> 'e \<Rightarrow> u32 \<Rightarrow> dlist \<Rightarrow> 'e lmem \<Rightarrow> (u32 \<times> dlist \<times> 'e lmem) outcome" where
  "insert_internal pdiff node_size item pos l m =
     and_then (allocate_node pdiff node_size item m) (\<lambda>(n, m1).
     let l1 = l\<lparr>m_list_size := m_list_size l + 1\<rparr>
     in and_then (set_lnode n (\<lambda>k. k\<lparr>l_next := pos\<rparr>) m1) (\<lambda>m2.
        and_then (if pos \<noteq> 0
                  then and_then (lnode_at pos m2) (\<lambda>k.
                       and_then (set_lnode n (\<lambda>j. j\<lparr>l_prev := l_prev k\<rparr>) m2) (\<lambda>m3.
                       and_then (set_lnode pos (\<lambda>j. j\<lparr>l_prev := n\<rparr>) m3) (\<lambda>m4. Inr (l1, m4))))
                  else and_then (set_lnode n (\<lambda>j. j\<lparr>l_prev := m_tail l1\<rparr>) m2) (\<lambda>m3.
                       Inr (l1\<lparr>m_tail := n\<rparr>, m3))) (\<lambda>(l2, m5).
        and_then (lnode_at n m5) (\<lambda>k.
          if l_prev k \<noteq> 0
          then and_then (set_lnode (l_prev k) (\<lambda>j. j\<lparr>l_next := n\<rparr>) m5) (\<lambda>m6. Inr (n, l2, m6))
          else Inr (n, l2\<lparr>m_head := n\<rparr>, m5)))))"

definition list_push_back :: "(u32 \<Rightarrow> u32 \<Rightarrow> u32) \<Rightarrow> u32 \<Rightarrow> 'e \<Rightarrow> dlist \<Rightarrow> 'e lmem \<Rightarrow> (dlist \<times> 'e lmem) outcome" where
  "list_push_back pdiff node_size item l m =
     and_then (insert_internal pdiff node_size item 0 l m) (\<lambda>(_, l', m'). Inr (l', m'))"

text \<open>Iterating from \<^verbatim>\<open>begin()\<close> to \<^verbatim>\<open>end()\<close>; on a cyclic list it does not end.\<close>

partial_function (option) list_visit :: "u32 \<Rightarrow> 'e lmem \<Rightarrow> 'e list outcome option" where
  "list_visit p m =
     (if p = 0 then Some (Inr [])
      else (case lnode_at p m of
              Inl e \<Rightarrow> Some (Inl e)
            | Inr n \<Rightarrow> Option.bind (list_visit (l_next n) m)
                         (\<lambda>r. Some (and_then r (\<lambda>xs. Inr (l_val n # xs))))))"

text \<open>The nodes from \<open>p\<close> on, each linked back to the one before it.\<close>

fun dpath :: "(u32 \<Rightarrow> 'e lnode option) \<Rightarrow> u32 \<Rightarrow> u32 \<Rightarrow> u32 list \<Rightarrow> 'e list \<Rightarrow> bool" where
  "dpath N b p [] [] = (p = 0)"
| "dpath N b p (a # as) (x # xs) =
     (p = a \<and> a \<noteq> 0 \<and> (\<exists>n. N a = Some n \<and> l_val n = x \<and> l_prev n = b \<and> dpath N a (l_next n) as xs))"
| "dpath N b p _ _ = False"

definition list_rep :: "'e lmem \<Rightarrow> dlist \<Rightarrow> 'e list \<Rightarrow> bool" where
  "list_rep m l xs \<longleftrightarrow> bin_wf (l_mm m) \<and> dom (l_nodes m) \<subseteq> small_blocks (l_mm m)
     \<and> (\<exists>ps. dpath (l_nodes m) 0 (m_head l) ps xs \<and> distinct ps \<and> m_tail l = last (0 # ps))
     \<and> m_list_size l = of_nat (length xs)"

lemma dpath_length: "dpath N b p ps xs \<Longrightarrow> length ps = length xs"
  by (induction N b p ps xs rule: dpath.induct) auto

lemma dpath_dom: "dpath N b p ps xs \<Longrightarrow> a \<in> set ps \<Longrightarrow> a \<in> dom N \<and> a \<noteq> 0"
  by (induction N b p ps xs rule: dpath.induct) auto

lemma list_visit_dpath: "dpath (l_nodes m) b p ps xs \<Longrightarrow> list_visit p m = Some (Inr xs)"
proof (induction ps arbitrary: b p xs)
  case Nil
  then show ?case by (cases xs) (auto simp: list_visit.simps)
next
  case (Cons a as)
  then obtain x ys n where "xs = x # ys" "p = a" "a \<noteq> 0" "l_nodes m a = Some n" "l_val n = x"
      "dpath (l_nodes m) a (l_next n) as ys"
    by (cases xs) auto
  then show ?case
    using Cons.IH by (subst list_visit.simps) (simp add: lnode_at_def)
qed

lemma dpath_snoc:
  assumes "dpath N b p ps xs" and "ps \<noteq> []" and "distinct ps" and "q \<notin> set ps" and "q \<noteq> 0"
    and "N (last ps) = Some k"
    and "N' = N(q \<mapsto> \<lparr>l_val = y, l_next = 0, l_prev = last ps\<rparr>, last ps \<mapsto> k\<lparr>l_next := q\<rparr>)"
  shows "dpath N' b p (ps @ [q]) (xs @ [y])"
  using assms
proof (induction ps arbitrary: b p xs)
  case (Cons a as)
  obtain x ys n where xs: "xs = x # ys" "p = a" "a \<noteq> 0" "N a = Some n" "l_val n = x" "l_prev n = b"
      "dpath N a (l_next n) as ys"
    using Cons.prems(1) by (cases xs) auto
  show ?case
  proof (cases "as = []")
    case True
    then have "ys = []" "k = n" using xs Cons.prems by (auto dest: dpath_length)
    then show ?thesis
      using True xs Cons.prems(4,5,7) by simp
  next
    case False
    then have "last as \<in> set as" "a \<notin> set as" "a \<noteq> q" using Cons.prems(3,4) by auto
    then have "N' a = N a" using False Cons.prems(7) by auto
    moreover have "dpath N' a (l_next n) (as @ [q]) (ys @ [y])"
      using False Cons.prems xs(7) by (intro Cons.IH) auto
    ultimately show ?thesis using xs by simp
  qed
qed simp

text \<open>
  \<^verbatim>\<open>push_back\<close> on a list, while a small block is left, appends the item: iterating the new
  list gives the old items and then the new one, its back links lead from the new tail to the
  head, and its size counts the item.
\<close>

theorem list_push_back_appends:
  assumes "list_rep m l xs" and "card (small_blocks (l_mm m)) < 100" and "0 < node_size" and "node_size \<le> 64"
  shows "\<exists>l' m'. list_push_back pdiff node_size x l m = Inr (l', m') \<and> list_rep m' l' (xs @ [x])
    \<and> list_visit (m_head l') m' = Some (Inr (xs @ [x]))"
proof -
  obtain ps where wf: "bin_wf (l_mm m)" "dom (l_nodes m) \<subseteq> small_blocks (l_mm m)"
      and ps: "dpath (l_nodes m) 0 (m_head l) ps xs" "distinct ps" "m_tail l = last (0 # ps)"
      and size: "m_list_size l = of_nat (length xs)"
    using assms(1) by (auto simp: list_rep_def)
  obtain p mm where p: "malloc_fastbin (l_mm m) = Inr (p, mm)" "p \<noteq> 0" "p \<notin> small_blocks (l_mm m)"
      "small_blocks mm = insert p (small_blocks (l_mm m))" "bin_wf mm"
    using sb.get_fresh [OF wf(1) assms(2)] by blast
  have new: "operator_new pdiff node_size (l_mm m) = Inr (p, mm)"
    using operator_new_small [OF assms(3,4)] p(1) by simp
  have fresh: "p \<notin> set ps" using dpath_dom [OF ps(1)] wf(2) p(3) by blast
  show ?thesis
  proof (cases "ps = []")
    case True
    define m' where "m' = m\<lparr>l_mm := mm, l_nodes := (l_nodes m)(p \<mapsto> \<lparr>l_val = x, l_next = 0, l_prev = 0\<rparr>)\<rparr>"
    define l' where "l' = \<lparr>m_list_size = m_list_size l + 1, m_head = p, m_tail = p\<rparr>"
    have "xs = []" using True dpath_length [OF ps(1)] by simp
    have "list_push_back pdiff node_size x l m = Inr (l', m')"
      using True ps(3) p(2)
      by (simp add: list_push_back_def insert_internal_def allocate_node_def new set_lnode_def lnode_at_def
          m'_def l'_def Let_def)
    moreover have "dpath (l_nodes m') 0 p [p] [x]" using p(2) by (simp add: m'_def)
    moreover have "list_rep m' l' (xs @ [x])"
      using wf p size \<open>xs = []\<close>
      by (auto simp: list_rep_def l'_def m'_def intro!: exI [of _ "[p]"])
    ultimately show ?thesis using list_visit_dpath [of m' 0 p "[p]" "[x]"] \<open>xs = []\<close> by (auto simp: l'_def)
  next
    case False
    then have tail: "m_tail l = last ps" "last ps \<in> set ps" using ps(3) by auto
    obtain k where k: "l_nodes m (last ps) = Some k" and "last ps \<noteq> 0" using dpath_dom [OF ps(1) tail(2)] by blast
    have ne: "last ps \<noteq> p" using fresh tail(2) by auto
    define m' where "m' = m\<lparr>l_mm := mm, l_nodes := (l_nodes m)(p \<mapsto> \<lparr>l_val = x, l_next = 0, l_prev = last ps\<rparr>,
        last ps \<mapsto> k\<lparr>l_next := p\<rparr>)\<rparr>"
    define l' where "l' = \<lparr>m_list_size = m_list_size l + 1, m_head = m_head l, m_tail = p\<rparr>"
    have "list_push_back pdiff node_size x l m = Inr (l', m')"
      using tail(1) p(2) k ne \<open>last ps \<noteq> 0\<close>
      by (simp add: list_push_back_def insert_internal_def allocate_node_def new set_lnode_def lnode_at_def
          m'_def l'_def Let_def)
    moreover have path: "dpath (l_nodes m') 0 (m_head l) (ps @ [p]) (xs @ [x])"
      using ps(1) False ps(2) fresh p(2) k by (rule dpath_snoc) (simp add: m'_def)
    moreover have "list_rep m' l' (xs @ [x])"
      using wf p size path ps(2) fresh k
      by (auto simp: list_rep_def l'_def m'_def intro!: exI [of _ "ps @ [p]"])
    ultimately show ?thesis using list_visit_dpath [OF path] by (auto simp: l'_def)
  qed
qed

theorem list_push_back_appends_witness:
  "\<exists>l' m'. list_push_back (\<lambda>_ _. 0) 12 (5::nat) list_new \<lparr>l_mm = boot_heap, l_nodes = Map.empty\<rparr> = Inr (l', m')
    \<and> list_visit (m_head l') m' = Some (Inr [5])"
proof -
  have "list_rep \<lparr>l_mm = boot_heap, l_nodes = Map.empty\<rparr> list_new []"
    by (auto simp: list_rep_def list_new_def boot_heap_wf intro!: exI [of _ "[]"])
  from list_push_back_appends [OF this, of 12 "\<lambda>_ _. 0" "5::nat"] show ?thesis
    by (auto simp: boot_heap_wf)
qed

end
