(* ===== verification/Ata.thy ===== *)
theory Ata
  imports Dtables Kmm_Props Libc Printf
begin

text \<open>
  The disk driver (\<^verbatim>\<open>ata.cpp\<close>): the task file and the commands it writes to the controller's
  ports, the polling loops, identification, and reads and writes of bytes through one sector.
  The drive is the device of the port model; that it does what the standard of its interface documents is a
  hypothesis of the properties. A wait that does not end is \<open>None\<close>.
\<close>

section \<open>Registers and commands\<close>

definition PRIMARY_IO_BASE :: u32 where "PRIMARY_IO_BASE = 0x1F0"
definition PRIMARY_SELECT :: u32 where "PRIMARY_SELECT = 0xA0"
definition SECONDARY_IO_BASE :: u32 where "SECONDARY_IO_BASE = 0x170"
definition SECONDARY_SELECT :: u32 where "SECONDARY_SELECT = 0xB0"
definition SECTOR_SIZE_BYTES :: u32 where "SECTOR_SIZE_BYTES = 512"
definition INTERRUPT_REGISTER :: u32 where "INTERRUPT_REGISTER = 0x3F6"

datatype Bus = Primary | Secondary

datatype IoRegister =
    Data | Error | Features | SectorCount | SectorNumber | LBAlow | CylinderLow | LBAmid | CylinderHigh | LBAhigh
  | Head | Drive | Status | Command

fun register_offset :: "IoRegister \<Rightarrow> u32" where
  "register_offset Data = 0"
| "register_offset Error = 1"
| "register_offset Features = 1"
| "register_offset SectorCount = 2"
| "register_offset SectorNumber = 3"
| "register_offset LBAlow = 3"
| "register_offset CylinderLow = 4"
| "register_offset LBAmid = 4"
| "register_offset CylinderHigh = 5"
| "register_offset LBAhigh = 5"
| "register_offset Head = 6"
| "register_offset Drive = 6"
| "register_offset Status = 7"
| "register_offset Command = 7"

datatype AtaCommand =
    No_Command | Identify | ReadBuffer | WriteBuffer | ReadSectorsWithRetry | WriteSectorsWithRetry
  | ReadDMA28 | ReadDMA48 | WriteDMA28 | WriteDMA48 | CacheFlush | Standby | StandbyLBA28

fun command_byte :: "AtaCommand \<Rightarrow> u8" where
  "command_byte No_Command = 0"
| "command_byte Identify = 0xEC"
| "command_byte ReadBuffer = 0xE4"
| "command_byte WriteBuffer = 0xE8"
| "command_byte ReadSectorsWithRetry = 0x20"
| "command_byte WriteSectorsWithRetry = 0x30"
| "command_byte ReadDMA28 = 0xC8"
| "command_byte ReadDMA48 = 0x25"
| "command_byte WriteDMA28 = 0xCA"
| "command_byte WriteDMA48 = 0x35"
| "command_byte CacheFlush = 0xE7"
| "command_byte Standby = 0xE0"
| "command_byte StandbyLBA28 = 0xE0 OR 0x40"

record StatusFlags =
  Err :: bool  Idx :: bool  Corr :: bool  Drq :: bool  Srv :: bool  Df :: bool  Rdy :: bool  Bsy :: bool

definition flags :: "u8 \<Rightarrow> StatusFlags" where
  "flags v = \<lparr>Err = bit v 0, Idx = bit v 1, Corr = bit v 2, Drq = bit v 3, Srv = bit v 4, Df = bit v 5,
              Rdy = bit v 6, Bsy = bit v 7\<rparr>"

text \<open>The state of the driver is the selected bus \<open>sel\<close> and the history \<open>h\<close> of port accesses.\<close>

definition IO_REG_OFFSET :: "IoRegister \<Rightarrow> Bus \<Rightarrow> u32" where
  "IO_REG_OFFSET reg bus = register_offset reg + (if bus = Primary then PRIMARY_IO_BASE else SECONDARY_IO_BASE)"

definition IO_REG_SET :: "Bus \<Rightarrow> IoRegister \<Rightarrow> u8 \<Rightarrow> io list \<Rightarrow> io list" where
  "IO_REG_SET sel reg val h = outb (ucast (IO_REG_OFFSET reg sel)) val h"

definition SELECT :: "Bus \<Rightarrow> io list \<Rightarrow> Bus \<times> io list" where
  "SELECT bus h =
     (let port = (if bus = Primary then PRIMARY_IO_BASE else SECONDARY_IO_BASE);
          val = (if bus = Primary then PRIMARY_SELECT else SECONDARY_SELECT)
      in (bus, outb (ucast port) (ucast val) h))"

definition READ_BYTE :: "device \<Rightarrow> Bus \<Rightarrow> IoRegister \<Rightarrow> io list \<Rightarrow> u8 \<times> io list" where
  "READ_BYTE dev sel reg h = inb dev (ucast (IO_REG_OFFSET reg sel)) h"

definition READ_WORD :: "device \<Rightarrow> Bus \<Rightarrow> IoRegister \<Rightarrow> io list \<Rightarrow> u16 \<times> io list" where
  "READ_WORD dev sel reg h = inw dev (ucast (IO_REG_OFFSET reg sel)) h"

partial_function (option) WAIT_NO_BUSY :: "device \<Rightarrow> Bus \<Rightarrow> io list \<Rightarrow> io list option" where
  "WAIT_NO_BUSY dev sel h =
     (case READ_BYTE dev sel Status h of (v, h') \<Rightarrow> if Bsy (flags v) then WAIT_NO_BUSY dev sel h' else Some h')"

partial_function (option) WAIT_UNTIL_READY :: "device \<Rightarrow> Bus \<Rightarrow> io list \<Rightarrow> io list option" where
  "WAIT_UNTIL_READY dev sel h =
     (case READ_BYTE dev sel Status h of (v, h') \<Rightarrow> if \<not> Rdy (flags v) then WAIT_UNTIL_READY dev sel h' else Some h')"

definition COMMAND :: "device \<Rightarrow> Bus \<Rightarrow> AtaCommand \<Rightarrow> io list \<Rightarrow> (bool \<times> io list) option" where
  "COMMAND dev sel cmd h =
     Option.bind (WAIT_NO_BUSY dev sel h) (\<lambda>h.
     Option.bind (WAIT_UNTIL_READY dev sel h) (\<lambda>h.
       let port = (if sel = Primary then PRIMARY_IO_BASE else SECONDARY_IO_BASE) + register_offset Command;
           h = outb (ucast port) (command_byte cmd) h;
           (status, h) = READ_BYTE dev sel Status h
       in Some (status \<noteq> 0, h)))"

definition DISABLE_INTERRUPTS :: "io list \<Rightarrow> io list" where
  "DISABLE_INTERRUPTS h = outb (ucast INTERRUPT_REGISTER) 0x2 h"

definition RESET_COMMAND_REGISTER :: "device \<Rightarrow> Bus \<Rightarrow> io list \<Rightarrow> io list option" where
  "RESET_COMMAND_REGISTER dev sel h = map_option snd (COMMAND dev sel No_Command h)"

definition SET_HEAD :: "u32 \<Rightarrow> u32 \<Rightarrow> io list \<Rightarrow> io list" where
  "SET_HEAD lba slavebit h = outb 0x1F6 (ucast (0xE0 OR push_bit 4 slavebit OR (drop_bit 24 lba AND 0x0F))) h"

definition SET_SECTOR_COUNT :: "Bus \<Rightarrow> u32 \<Rightarrow> io list \<Rightarrow> io list" where
  "SET_SECTOR_COUNT sel count h = IO_REG_SET sel SectorCount (ucast count) h"

definition DELAY_400_NS :: "device \<Rightarrow> Bus \<Rightarrow> io list \<Rightarrow> io list" where
  "DELAY_400_NS dev sel h = fold (\<lambda>i h. snd (READ_BYTE dev sel Status h)) [0..<4] h"

definition SET_LBA :: "Bus \<Rightarrow> u32 \<Rightarrow> io list \<Rightarrow> io list" where
  "SET_LBA sel lba h =
     IO_REG_SET sel LBAhigh (ucast (drop_bit 16 lba))
       (IO_REG_SET sel LBAmid (ucast (drop_bit 8 lba)) (IO_REG_SET sel LBAlow (ucast lba) h))"

text \<open>The string instructions: words in memory are two bytes, the low one first.\<close>

fun rep_insw :: "device \<Rightarrow> u16 \<Rightarrow> nat \<Rightarrow> io list \<Rightarrow> u16 list \<times> io list" where
  "rep_insw dev port 0 h = ([], h)"
| "rep_insw dev port (Suc n) h =
     (let (w, h) = inw dev port h; (ws, h) = rep_insw dev port n h in (w # ws, h))"

definition rep_outsw :: "u16 \<Rightarrow> u16 list \<Rightarrow> io list \<Rightarrow> io list" where
  "rep_outsw port ws h = h @ map (Outw port) ws"

definition word_bytes :: "u16 list \<Rightarrow> u8 list" where
  "word_bytes ws = concat (map (\<lambda>w. [ucast w, ucast (drop_bit 8 w)]) ws)"

definition byte_words :: "u8 list \<Rightarrow> nat \<Rightarrow> u16 list" where
  "byte_words bs n = map (\<lambda>i. ucast (bs ! (2 * i)) OR push_bit 8 (ucast (bs ! (2 * i + 1)))) [0..<n]"

section \<open>Sectors\<close>

datatype DeviceType = Master | Slave

record AtaDevice =
  dv_device_type :: DeviceType
  dv_bus_type :: Bus
  dv_lba_28_sectors :: u32
  dv_lba_48_sectors :: u64

definition ReadSectors ::
    "device \<Rightarrow> AtaDevice \<Rightarrow> Bus \<Rightarrow> u8 list \<Rightarrow> u32 \<Rightarrow> u64 \<Rightarrow> io list \<Rightarrow> (bool \<times> u8 list \<times> io list) outcome option" where
  "ReadSectors dev d sel buffer LBA sectors h =
     (let h = DISABLE_INTERRUPTS h;
          h = SET_HEAD LBA 0 h;
          h = DELAY_400_NS dev sel h;
          h = SET_SECTOR_COUNT sel 1 h;
          h = SET_LBA sel LBA h
      in Option.bind (WAIT_NO_BUSY dev sel h) (\<lambda>h.
         Option.bind (WAIT_UNTIL_READY dev sel h) (\<lambda>h.
         Option.bind (COMMAND dev sel ReadSectorsWithRetry h) (\<lambda>(_, h).
         Option.bind (WAIT_NO_BUSY dev sel h) (\<lambda>h.
         Option.bind (WAIT_UNTIL_READY dev sel h) (\<lambda>h.
           let (ws, h) = rep_insw dev (ucast (IO_REG_OFFSET Data (dv_bus_type d))) 256 h
           in Some (if length buffer < 512 then Inl Out_Of_Bounds
                    else let (status, h) = READ_BYTE dev sel Status h
                         in Inr (status \<noteq> 0, word_bytes ws @ drop 512 buffer, h))))))))"

definition WriteSectors ::
    "device \<Rightarrow> AtaDevice \<Rightarrow> Bus \<Rightarrow> u8 list \<Rightarrow> u32 \<Rightarrow> u64 \<Rightarrow> io list \<Rightarrow> (bool \<times> io list) outcome option" where
  "WriteSectors dev d sel buffer LBA sectors h =
     (let h = DISABLE_INTERRUPTS h;
          h = SET_HEAD LBA 0 h;
          h = DELAY_400_NS dev sel h;
          h = SET_SECTOR_COUNT sel 1 h;
          h = SET_LBA sel LBA h
      in Option.bind (WAIT_NO_BUSY dev sel h) (\<lambda>h.
         Option.bind (WAIT_UNTIL_READY dev sel h) (\<lambda>h.
         Option.bind (COMMAND dev sel WriteSectorsWithRetry h) (\<lambda>(_, h).
         Option.bind (WAIT_NO_BUSY dev sel h) (\<lambda>h.
         Option.bind (WAIT_UNTIL_READY dev sel h) (\<lambda>h.
           let (_, h) = READ_BYTE dev sel Status h
           in if length buffer < 512 then Some (Inl Out_Of_Bounds)
              else let h = rep_outsw 0x1F0 (byte_words buffer 256) h
                   in Option.bind (COMMAND dev sel CacheFlush h) (\<lambda>(_, h).
                        let (status, h) = READ_BYTE dev sel Status h
                        in Some (Inr (status \<noteq> 0, h)))))))))"

text \<open>
  \<^verbatim>\<open>read_bytes\<close> and \<^verbatim>\<open>write_bytes\<close> through a buffer from the heap: \<open>junk\<close> is what the block holds.
  A null block is stored through.
\<close>

definition sector_count :: "u32 \<Rightarrow> u64" where
  "sector_count count = ALIGN_VAL (ucast count) (ucast SECTOR_SIZE_BYTES) div ucast SECTOR_SIZE_BYTES"

definition sector_offset :: "u32 \<Rightarrow> nat" where
  "sector_offset location = (if location = 0 then 0 else unat (location mod SECTOR_SIZE_BYTES))"

definition read_bytes ::
    "device \<Rightarrow> (u32 \<Rightarrow> u32 \<Rightarrow> u32) \<Rightarrow> (nat \<Rightarrow> u8) \<Rightarrow> AtaDevice \<Rightarrow> Bus \<Rightarrow> u8 list \<Rightarrow> u32 \<Rightarrow> u32 \<Rightarrow> io list \<Rightarrow> mm_state
     \<Rightarrow> (bool \<times> u8 list \<times> io list \<times> mm_state) outcome option" where
  "read_bytes dev pdiff junk d sel out location count h mm =
     (let sectors = sector_count count;
          lba = location div SECTOR_SIZE_BYTES;
          n = (ucast (sectors * ucast SECTOR_SIZE_BYTES) :: u32)
      in case operator_new pdiff n mm of
           Inl e \<Rightarrow> Some (Inl e)
         | Inr (buffer, mm) \<Rightarrow>
             if buffer = 0 then Some (Inl Null_Pointer)
             else map_option (\<lambda>r.
               and_then r (\<lambda>(success, bytes, h).
               and_then (memcpy out (drop (sector_offset location) bytes) count) (\<lambda>out.
               and_then (operator_delete buffer mm) (\<lambda>mm. Inr (success, out, h, mm)))))
               (ReadSectors dev d sel (map junk [0..<unat n]) lba sectors h))"

definition write_bytes ::
    "device \<Rightarrow> (u32 \<Rightarrow> u32 \<Rightarrow> u32) \<Rightarrow> (nat \<Rightarrow> u8) \<Rightarrow> AtaDevice \<Rightarrow> Bus \<Rightarrow> u8 list \<Rightarrow> u32 \<Rightarrow> u32 \<Rightarrow> io list \<Rightarrow> mm_state
     \<Rightarrow> (bool \<times> io list \<times> mm_state) outcome option" where
  "write_bytes dev pdiff junk d sel inp location count h mm =
     (let sectors = sector_count count;
          lba = location div SECTOR_SIZE_BYTES;
          n = (ucast (sectors * ucast SECTOR_SIZE_BYTES) :: u32);
          off = sector_offset location
      in case operator_new pdiff n mm of
           Inl e \<Rightarrow> Some (Inl e)
         | Inr (buffer, mm) \<Rightarrow>
             if buffer = 0 then Some (Inl Null_Pointer)
             else Option.bind (ReadSectors dev d sel (map junk [0..<unat n]) lba sectors h) (\<lambda>r.
               case and_then r (\<lambda>(_, bytes, h).
                      and_then (memcpy (drop off bytes) inp count) (\<lambda>patched. Inr (take off bytes @ patched, h))) of
                 Inl e \<Rightarrow> Some (Inl e)
               | Inr (bytes, h) \<Rightarrow>
                   map_option (\<lambda>r.
                     and_then r (\<lambda>(success, h).
                     and_then (operator_delete buffer mm) (\<lambda>mm. Inr (success, h, mm))))
                     (WriteSectors dev d sel bytes lba sectors h)))"

section \<open>Identification\<close>

record DeviceInfoResult =
  di_found :: bool
  di_not_ata :: bool
  di_is_hard_disk :: bool
  di_LBA48_supported :: bool
  di_supported_UDMA_modes :: u16
  di_conductor_cable_found :: bool
  di_LBA28_sectors :: u32
  di_LBA48_sectors :: u64

definition no_device :: DeviceInfoResult where
  "no_device = \<lparr>di_found = False, di_not_ata = False, di_is_hard_disk = False, di_LBA48_supported = False,
     di_supported_UDMA_modes = 0, di_conductor_cable_found = False, di_LBA28_sectors = 0, di_LBA48_sectors = 0\<rparr>"

text \<open>The two polling loops, the first of which prints every status it reads.\<close>

definition print_status :: "u8 \<Rightarrow> tty \<Rightarrow> tty outcome" where
  "print_status v t =
     and_then (printf (''%d %x %b'' @ [CHR 0x0A, NUL]) [Va_int (ucast v), Va_int (ucast v), Va_int (ucast v)] t) (\<lambda>(_, t). Inr t)"

partial_function (option) poll_busy ::
    "device \<Rightarrow> Bus \<Rightarrow> u8 \<Rightarrow> io list \<Rightarrow> tty \<Rightarrow> (u8 \<times> io list \<times> tty) outcome option" where
  "poll_busy dev sel status h t =
     (if Bsy (flags status)
      then (case READ_BYTE dev sel Status h of (v, h') \<Rightarrow>
             (case print_status v t of Inl e \<Rightarrow> Some (Inl e) | Inr t' \<Rightarrow> poll_busy dev sel v h' t'))
      else Some (Inr (status, h, t)))"

partial_function (option) poll_request :: "device \<Rightarrow> Bus \<Rightarrow> u8 \<Rightarrow> io list \<Rightarrow> io list option" where
  "poll_request dev sel status h =
     (if Drq (flags status) \<and> Err (flags status)
      then (case READ_BYTE dev sel Status h of (v, h') \<Rightarrow> poll_request dev sel v h')
      else Some h)"

definition device_properties :: "Bus \<Rightarrow> bool \<Rightarrow> u16 list \<Rightarrow> DeviceInfoResult outcome" where
  "device_properties bus not_ata ws =
     and_then (BIT_IS_CLEAR (ucast (ws ! 82)) 10) (\<lambda>lba48.
     and_then (BIT_IS_CLEAR (ucast (ws ! 93)) 11) (\<lambda>cable.
       Inr \<lparr>di_found = True, di_not_ata = not_ata, di_is_hard_disk = (ws ! 0 \<noteq> 0), di_LBA48_supported = lba48,
            di_supported_UDMA_modes = ws ! 88, di_conductor_cable_found = (bus = Primary \<and> cable),
            di_LBA28_sectors = ucast (ws ! 60) OR push_bit 16 (ucast (ws ! 61)),
            di_LBA48_sectors = ucast (ws ! 100) OR push_bit 16 (ucast (ws ! 101)) OR push_bit 32 (ucast (ws ! 102))
              OR push_bit 48 (ucast (ws ! 103))\<rparr>))"

definition get_device_info ::
    "device \<Rightarrow> Bus \<Rightarrow> io list \<Rightarrow> tty \<Rightarrow> (DeviceInfoResult \<times> Bus \<times> io list \<times> tty) outcome option" where
  "get_device_info dev bus h t =
     (let (sel, h) = SELECT bus h;
          h = IO_REG_SET sel LBAhigh 0 (IO_REG_SET sel LBAmid 0 (IO_REG_SET sel LBAlow 0 h))
      in Option.bind (COMMAND dev sel Identify h) (\<lambda>(_, h).
           let (status, h) = READ_BYTE dev sel Status h
           in if status \<noteq> 0
              then Option.bind (poll_busy dev sel status h t) (\<lambda>r.
                     case r of
                       Inl e \<Rightarrow> Some (Inl e)
                     | Inr (status, h, t) \<Rightarrow>
                         (let (mid, h) = READ_BYTE dev sel LBAmid h;
                              (high, h) = (if mid \<noteq> 0 then READ_BYTE dev sel LBAhigh h else (0, h));
                              device_not_ata = (mid \<noteq> 0 \<and> high \<noteq> 0)
                          in Option.bind (if device_not_ata then Some h else poll_request dev sel status h) (\<lambda>h.
                               let (ws, h) = rep_insw dev (ucast (IO_REG_OFFSET Data sel)) 256 h
                               in Some (and_then (device_properties bus device_not_ata ws) (\<lambda>info. Inr (info, sel, h, t))))))
              else Some (Inr (no_device, sel, h, t))))"

definition find_devices ::
    "device \<Rightarrow> io list \<Rightarrow> tty \<Rightarrow> ((DeviceInfoResult \<times> DeviceInfoResult) \<times> Bus \<times> io list \<times> tty) outcome option" where
  "find_devices dev h t =
     map_option (\<lambda>r. and_then r (\<lambda>(master, rest). Inr ((master, no_device), rest))) (get_device_info dev Primary h t)"

definition Device_new :: "DeviceType \<Rightarrow> DeviceInfoResult \<Rightarrow> AtaDevice" where
  "Device_new type res =
     \<lparr>dv_device_type = type, dv_bus_type = Primary, dv_lba_28_sectors = di_LBA28_sectors res,
      dv_lba_48_sectors = di_LBA48_sectors res\<rparr>"

definition SIZEOF_DEVICE :: u32 where "SIZEOF_DEVICE = 20"

definition create_device ::
    "device \<Rightarrow> (u32 \<Rightarrow> u32 \<Rightarrow> u32) \<Rightarrow> io list \<Rightarrow> tty \<Rightarrow> mm_state
     \<Rightarrow> (u32 \<times> AtaDevice \<times> Bus \<times> io list \<times> tty \<times> mm_state) outcome option" where
  "create_device dev pdiff h t mm =
     map_option (\<lambda>r. and_then r (\<lambda>((master, slave), sel, h, t).
       if \<not> di_found master \<and> \<not> di_found slave then Inl Kernel_Panic
       else if di_not_ata master \<and> di_not_ata slave then Inl Kernel_Panic
       else and_then (operator_new pdiff SIZEOF_DEVICE mm) (\<lambda>(p, mm).
              if p = 0 then Inl Null_Pointer
              else Inr (p, Device_new Master master, sel, h, t, mm))))
       (find_devices dev h t)"

section \<open>The drive\<close>

text \<open>
  A polling loop ends exactly when some poll is answered: the drive may take any number of them.
\<close>

definition answers :: "device \<Rightarrow> (StatusFlags \<Rightarrow> bool) \<Rightarrow> io list \<Rightarrow> bool" where
  "answers dev P h \<longleftrightarrow> (\<exists>k. P (flags (ucast (dev (h @ replicate k (Inb 0x1F7)) 0x1F7))))"

lemma poll_returns:
  assumes step: "\<And>h. f h = (if P (flags (ucast (dev h 0x1F7))) then Some (h @ [Inb 0x1F7]) else f (h @ [Inb 0x1F7]))"
    and "answers dev P h"
  shows "\<exists>k. f h = Some (h @ replicate (Suc k) (Inb 0x1F7)) \<and> P (flags (ucast (dev (h @ replicate k (Inb 0x1F7)) 0x1F7)))"
proof -
  have "\<exists>k. f h = Some (h @ replicate (Suc k) (Inb 0x1F7)) \<and> P (flags (ucast (dev (h @ replicate k (Inb 0x1F7)) 0x1F7)))"
    if "P (flags (ucast (dev (h @ replicate n (Inb 0x1F7)) 0x1F7)))" for n h
    using that
  proof (induction n arbitrary: h)
    case 0
    then have "f h = Some (h @ replicate (Suc 0) (Inb 0x1F7))" by (subst step) simp
    then show ?case using 0 by blast
  next
    case (Suc n)
    show ?case
    proof (cases "P (flags (ucast (dev h 0x1F7)))")
      case True
      then have "f h = Some (h @ replicate (Suc 0) (Inb 0x1F7))" by (subst step) simp
      then show ?thesis using True by (intro exI [of _ 0]) simp
    next
      case False
      have "P (flags (ucast (dev ((h @ [Inb 0x1F7]) @ replicate n (Inb 0x1F7)) 0x1F7)))" using Suc.prems by simp
      from Suc.IH [OF this] obtain k where "f (h @ [Inb 0x1F7]) = Some (h @ replicate (Suc (Suc k)) (Inb 0x1F7))"
        "P (flags (ucast (dev (h @ replicate (Suc k) (Inb 0x1F7)) 0x1F7)))" by auto
      then show ?thesis using False by (intro exI [of _ "Suc k"] conjI) (subst step, simp_all)
    qed
  qed
  then show ?thesis using assms(2) by (auto simp: answers_def)
qed

lemma status_port: "READ_BYTE dev Primary Status h = (ucast (dev h 0x1F7), h @ [Inb 0x1F7])"
  by (simp add: READ_BYTE_def IO_REG_OFFSET_def PRIMARY_IO_BASE_def inb_def)

lemma WAIT_NO_BUSY_step:
  "WAIT_NO_BUSY dev Primary h =
    (if \<not> Bsy (flags (ucast (dev h 0x1F7))) then Some (h @ [Inb 0x1F7]) else WAIT_NO_BUSY dev Primary (h @ [Inb 0x1F7]))"
  by (subst WAIT_NO_BUSY.simps) (simp add: status_port)

lemma WAIT_UNTIL_READY_step:
  "WAIT_UNTIL_READY dev Primary h =
    (if Rdy (flags (ucast (dev h 0x1F7))) then Some (h @ [Inb 0x1F7]) else WAIT_UNTIL_READY dev Primary (h @ [Inb 0x1F7]))"
  by (subst WAIT_UNTIL_READY.simps) (simp add: status_port)

text \<open>
  What the properties ask of a drive, in the terms of its documentation. The state of the drive
  is read off the accesses it has seen: the sectors, the transfer that is going on, and what the
  statuses read so far allow the driver to do. A status read is trusted from the second one after
  a command on, since a drive has 400 ns to raise its busy flag. An access the documentation
  leaves undefined, such as a command or a data word before the drive was seen ready for it, or
  a task file written while it may be busy, has no next state.
\<close>

definition last_sent :: "u16 \<Rightarrow> io list \<Rightarrow> nat" where
  "last_sent port h = (case rev (sent port h) of [] \<Rightarrow> 0 | v # _ \<Rightarrow> unat v)"

definition lba28 :: "io list \<Rightarrow> nat" where
  "lba28 h = last_sent 0x1F3 h + 256 * last_sent 0x1F4 h + 65536 * last_sent 0x1F5 h + 16777216 * (last_sent 0x1F6 h mod 16)"

text \<open>One sector of the master, by its logical address.\<close>

definition addressed :: "io list \<Rightarrow> bool" where
  "addressed h \<longleftrightarrow> last_sent 0x1F2 h = 1 \<and> last_sent 0x1F6 h div 16 = 14"

datatype transfer = No_Transfer | Data_In nat nat | Data_Out nat "u16 list"

record drive =
  dr_sectors :: "nat \<Rightarrow> u16 list"
  dr_transfer :: transfer
  dr_polls :: nat
  dr_free :: bool
  dr_ready :: bool

definition polled :: "StatusFlags \<Rightarrow> drive \<Rightarrow> drive" where
  "polled f s =
     (let free = (dr_free s \<or> 1 \<le> dr_polls s \<and> \<not> Bsy f \<and> (dr_transfer s = No_Transfer \<or> Drq f))
      in s\<lparr>dr_polls := Suc (dr_polls s), dr_free := free, dr_ready := (dr_ready s \<or> free \<and> Rdy f)\<rparr>)"

definition commanded :: "u8 \<Rightarrow> io list \<Rightarrow> drive \<Rightarrow> drive option" where
  "commanded v h s =
     (let s' = s\<lparr>dr_polls := 0, dr_free := False, dr_ready := False\<rparr>
      in if dr_transfer s \<noteq> No_Transfer \<or> \<not> dr_free s \<or> \<not> dr_ready s then None
         else if v = 0x20 \<and> addressed h then Some (s'\<lparr>dr_transfer := Data_In (lba28 h) 0\<rparr>)
         else if v = 0x30 \<and> addressed h then Some (s'\<lparr>dr_transfer := Data_Out (lba28 h) []\<rparr>)
         else if v = 0xE7 then Some s'
         else None)"

definition word_read :: "drive \<Rightarrow> drive option" where
  "word_read s =
     (case dr_transfer s of
        Data_In l n \<Rightarrow>
          if \<not> dr_free s then None
          else if Suc n = 256 then Some (s\<lparr>dr_transfer := No_Transfer, dr_ready := False\<rparr>)
          else Some (s\<lparr>dr_transfer := Data_In l (Suc n)\<rparr>)
      | _ \<Rightarrow> None)"

definition word_written :: "u16 \<Rightarrow> drive \<Rightarrow> drive option" where
  "word_written w s =
     (case dr_transfer s of
        Data_Out l ws \<Rightarrow>
          if \<not> dr_free s then None
          else if Suc (length ws) = 256
          then Some (s\<lparr>dr_sectors := (dr_sectors s)(l := ws @ [w]), dr_transfer := No_Transfer,
                       dr_free := False, dr_ready := False\<rparr>)
          else Some (s\<lparr>dr_transfer := Data_Out l (ws @ [w])\<rparr>)
      | _ \<Rightarrow> None)"

fun drive_step :: "u8 \<Rightarrow> io list \<Rightarrow> io \<Rightarrow> drive \<Rightarrow> drive option" where
  "drive_step status h (Inb p) s = (if p = 0x1F7 then Some (polled (flags status) s) else None)"
| "drive_step status h (Inw p) s = (if p = 0x1F0 then word_read s else None)"
| "drive_step status h (Outw p w) s = (if p = 0x1F0 then word_written w s else None)"
| "drive_step status h (Outb p v) s =
     (if p = 0x1F7 then commanded v h s
      else if p = 0x3F6 \<and> v = 2 then Some s
      else if p \<in> {0x1F2, 0x1F3, 0x1F4, 0x1F5, 0x1F6} \<and> dr_transfer s = No_Transfer \<and> dr_free s then Some s
      else None)"
| "drive_step status h _ s = None"

text \<open>The drive after the accesses \<open>t\<close> that follow the history \<open>h\<close>, given the statuses it shows.\<close>

fun drive_run :: "(io list \<Rightarrow> u8) \<Rightarrow> io list \<Rightarrow> drive \<Rightarrow> io list \<Rightarrow> drive option" where
  "drive_run st h s [] = Some s"
| "drive_run st h s (e # t) = Option.bind (drive_step (st h) h e s) (\<lambda>s. drive_run st (h @ [e]) s t)"

definition status_of :: "device \<Rightarrow> io list \<Rightarrow> u8" where
  "status_of dev h = ucast (dev h 0x1F7)"

text \<open>
  The drive \<open>dev\<close>, which is in the state \<open>s\<close> at the history \<open>h\<close>, does what it documents as long as
  it is used as documented: it becomes idle and ready again after any number of polls; when it
  is not busy in a transfer it asks for data or reports an error; and the data port holds the next
  word of the sector once the drive was seen to ask for it. What the port holds before that, or
  after an undefined access, is left open.
\<close>

definition obeys :: "device \<Rightarrow> io list \<Rightarrow> drive \<Rightarrow> bool" where
  "obeys dev h s \<longleftrightarrow> (\<forall>t s'. drive_run (status_of dev) h s t = Some s' \<longrightarrow>
     answers dev (\<lambda>f. \<not> Bsy f) (h @ t) \<and> answers dev Rdy (h @ t)
     \<and> (let f = flags (status_of dev (h @ t))
        in dr_transfer s' \<noteq> No_Transfer \<and> 1 \<le> dr_polls s' \<and> \<not> Bsy f \<longrightarrow> Drq f \<or> Err f)
     \<and> (\<forall>l n. dr_transfer s' = Data_In l n \<and> dr_free s' \<longrightarrow> dev (h @ t) 0x1F0 = dr_sectors s' l ! n))"

definition reports_no_error :: "device \<Rightarrow> bool" where
  "reports_no_error dev \<longleftrightarrow> (\<forall>h. \<not> Err (flags (status_of dev h)))"

text \<open>A drive between transfers that is not busy, with 256 words in every sector.\<close>

definition idle_drive :: "drive \<Rightarrow> bool" where
  "idle_drive s \<longleftrightarrow> dr_transfer s = No_Transfer \<and> dr_free s \<and> (\<forall>l. length (dr_sectors s l) = 256)"

section \<open>Facts\<close>

lemma drive_run_append [simp]:
  "drive_run st h s (t @ u) = Option.bind (drive_run st h s t) (\<lambda>s. drive_run st (h @ t) s u)"
  by (induction t arbitrary: h s) (auto split: bind_split)

lemma obeys_run:
  assumes "obeys dev h s" and "drive_run (status_of dev) h s t = Some s'"
  shows "obeys dev (h @ t) s'"
  unfolding obeys_def
proof (intro allI impI)
  fix u s2
  assume "drive_run (status_of dev) (h @ t) s' u = Some s2"
  then have "drive_run (status_of dev) h s (t @ u) = Some s2" using assms(2) by simp
  from assms(1) [unfolded obeys_def, rule_format, OF this]
  show "answers dev (\<lambda>f. \<not> Bsy f) ((h @ t) @ u) \<and> answers dev Rdy ((h @ t) @ u)
     \<and> (let f = flags (status_of dev ((h @ t) @ u))
        in dr_transfer s2 \<noteq> No_Transfer \<and> 1 \<le> dr_polls s2 \<and> \<not> Bsy f \<longrightarrow> Drq f \<or> Err f)
     \<and> (\<forall>l n. dr_transfer s2 = Data_In l n \<and> dr_free s2 \<longrightarrow> dev ((h @ t) @ u) 0x1F0 = dr_sectors s2 l ! n)"
    unfolding append_assoc .
qed

lemmas obeys_now = obeys_def [THEN iffD1, rule_format, where t = "[]", simplified]

text \<open>Polls change what the driver has seen of the drive, and nothing of the drive.\<close>

definition after_polls :: "drive \<Rightarrow> drive \<Rightarrow> bool" where
  "after_polls s s' \<longleftrightarrow> dr_sectors s' = dr_sectors s \<and> dr_transfer s' = dr_transfer s \<and> dr_polls s \<le> dr_polls s'
     \<and> (dr_free s \<longrightarrow> dr_free s') \<and> (dr_ready s \<longrightarrow> dr_ready s')"

lemma after_polls_trans [trans]: "after_polls s s1 \<Longrightarrow> after_polls s1 s2 \<Longrightarrow> after_polls s s2"
  by (auto simp: after_polls_def)

lemma after_polls_polled: "after_polls s (polled f s)" by (simp add: after_polls_def polled_def Let_def)

lemma drive_run_polls: "\<exists>s'. drive_run st h s (replicate k (Inb 0x1F7)) = Some s' \<and> after_polls s s'"
proof (induction k arbitrary: h s)
  case (Suc k)
  obtain s' where "drive_run st (h @ [Inb 0x1F7]) (polled (flags (st h)) s) (replicate k (Inb 0x1F7)) = Some s'"
      "after_polls (polled (flags (st h)) s) s'" using Suc by blast
  then show ?case using after_polls_trans [OF after_polls_polled] by auto
qed (simp add: after_polls_def)

text \<open>A wait ends, and what it waited for is what the last poll saw.\<close>

lemma wait_runs:
  assumes "\<And>h. f h = (if P (flags (ucast (dev h 0x1F7))) then Some (h @ [Inb 0x1F7]) else f (h @ [Inb 0x1F7]))"
    and "answers dev P h"
  obtains k s1 where "f h = Some (h @ replicate (Suc k) (Inb 0x1F7))"
    "drive_run (status_of dev) h s (replicate k (Inb 0x1F7)) = Some s1" "after_polls s s1"
    "P (flags (status_of dev (h @ replicate k (Inb 0x1F7))))"
    "drive_run (status_of dev) h s (replicate (Suc k) (Inb 0x1F7))
       = Some (polled (flags (status_of dev (h @ replicate k (Inb 0x1F7)))) s1)"
proof -
  obtain k where k: "f h = Some (h @ replicate (Suc k) (Inb 0x1F7))" "P (flags (status_of dev (h @ replicate k (Inb 0x1F7))))"
    using poll_returns [where f = f and P = P and dev = dev, OF assms] unfolding status_of_def by blast
  obtain s1 where s1: "drive_run (status_of dev) h s (replicate k (Inb 0x1F7)) = Some s1" "after_polls s s1"
    using drive_run_polls by blast
  have "replicate (Suc k) (Inb 0x1F7) = replicate k (Inb 0x1F7) @ [Inb 0x1F7]" by (simp add: replicate_append_same)
  then have "drive_run (status_of dev) h s (replicate (Suc k) (Inb 0x1F7))
       = Some (polled (flags (status_of dev (h @ replicate k (Inb 0x1F7)))) s1)"
    using s1(1) by (simp del: replicate_Suc)
  then show thesis using that k s1 by blast
qed

lemma wait_no_busy:
  assumes "obeys dev h s" and "reports_no_error dev" and "1 \<le> dr_polls s"
  obtains k s' where "WAIT_NO_BUSY dev Primary h = Some (h @ replicate k (Inb 0x1F7))"
    "drive_run (status_of dev) h s (replicate k (Inb 0x1F7)) = Some s'" "after_polls s s'" "dr_free s'"
proof -
  have "answers dev (\<lambda>f. \<not> Bsy f) h" using obeys_now [OF assms(1)] by simp
  then obtain k s1 where k: "WAIT_NO_BUSY dev Primary h = Some (h @ replicate (Suc k) (Inb 0x1F7))"
      "drive_run (status_of dev) h s (replicate k (Inb 0x1F7)) = Some s1" "after_polls s s1"
      "\<not> Bsy (flags (status_of dev (h @ replicate k (Inb 0x1F7))))"
      "drive_run (status_of dev) h s (replicate (Suc k) (Inb 0x1F7))
       = Some (polled (flags (status_of dev (h @ replicate k (Inb 0x1F7)))) s1)"
    using wait_runs [where f = "WAIT_NO_BUSY dev Primary" and P = "\<lambda>f. \<not> Bsy f" and dev = dev, OF WAIT_NO_BUSY_step] by metis
  let ?f = "flags (status_of dev (h @ replicate k (Inb 0x1F7)))"
  have "1 \<le> dr_polls s1" using k(3) assms(3) by (simp add: after_polls_def)
  moreover have "dr_transfer s1 \<noteq> No_Transfer \<longrightarrow> Drq ?f"
    using obeys_now [OF obeys_run [OF assms(1) k(2)]] k(4) assms(2) calculation
    by (simp add: Let_def reports_no_error_def)
  ultimately have "dr_free (polled ?f s1)" using k(4) by (auto simp: polled_def Let_def)
  then show thesis using that k(1,5) after_polls_trans [OF k(3) after_polls_polled] by blast
qed

lemma wait_until_ready:
  assumes "obeys dev h s" and "dr_free s"
  obtains k s' where "WAIT_UNTIL_READY dev Primary h = Some (h @ replicate k (Inb 0x1F7))"
    "drive_run (status_of dev) h s (replicate k (Inb 0x1F7)) = Some s'" "after_polls s s'" "dr_free s'" "dr_ready s'"
proof -
  have "answers dev Rdy h" using obeys_now [OF assms(1)] by simp
  then obtain k s1 where k: "WAIT_UNTIL_READY dev Primary h = Some (h @ replicate (Suc k) (Inb 0x1F7))"
      "drive_run (status_of dev) h s (replicate k (Inb 0x1F7)) = Some s1" "after_polls s s1"
      "Rdy (flags (status_of dev (h @ replicate k (Inb 0x1F7))))"
      "drive_run (status_of dev) h s (replicate (Suc k) (Inb 0x1F7))
       = Some (polled (flags (status_of dev (h @ replicate k (Inb 0x1F7)))) s1)"
    using wait_runs [where f = "WAIT_UNTIL_READY dev Primary" and P = Rdy and dev = dev, OF WAIT_UNTIL_READY_step] by metis
  let ?f = "flags (status_of dev (h @ replicate k (Inb 0x1F7)))"
  have "dr_free (polled ?f s1)" "dr_ready (polled ?f s1)"
    using k(3,4) assms(2) by (auto simp: polled_def Let_def after_polls_def)
  then show thesis using that k(1,5) after_polls_trans [OF k(3) after_polls_polled] by blast
qed

text \<open>The two waits together, before whatever follows them.\<close>

lemma wait_both:
  assumes "obeys dev h s" and "reports_no_error dev" and "1 \<le> dr_polls s"
  obtains k s' where "\<And>f. Option.bind (WAIT_NO_BUSY dev Primary h) (\<lambda>h. Option.bind (WAIT_UNTIL_READY dev Primary h) f)
      = f (h @ replicate k (Inb 0x1F7))"
    "drive_run (status_of dev) h s (replicate k (Inb 0x1F7)) = Some s'" "after_polls s s'" "dr_free s'" "dr_ready s'"
    "obeys dev (h @ replicate k (Inb 0x1F7)) s'"
proof -
  obtain a s1 where a: "WAIT_NO_BUSY dev Primary h = Some (h @ replicate a (Inb 0x1F7))"
    "drive_run (status_of dev) h s (replicate a (Inb 0x1F7)) = Some s1" "after_polls s s1" "dr_free s1"
    by (rule wait_no_busy [OF assms])
  obtain b s2 where b: "WAIT_UNTIL_READY dev Primary (h @ replicate a (Inb 0x1F7))
      = Some ((h @ replicate a (Inb 0x1F7)) @ replicate b (Inb 0x1F7))"
    "drive_run (status_of dev) (h @ replicate a (Inb 0x1F7)) s1 (replicate b (Inb 0x1F7)) = Some s2" "after_polls s1 s2"
    "dr_free s2" "dr_ready s2"
    by (rule wait_until_ready [OF obeys_run [OF assms(1) a(2)] a(4)])
  have run: "drive_run (status_of dev) h s (replicate (a + b) (Inb 0x1F7)) = Some s2" using a(2) b(2) by (simp add: replicate_add)
  have "Option.bind (WAIT_NO_BUSY dev Primary h) (\<lambda>h. Option.bind (WAIT_UNTIL_READY dev Primary h) f)
      = f (h @ replicate (a + b) (Inb 0x1F7))" for f
    using a(1) b(1) by (simp add: replicate_add)
  then show thesis using that run after_polls_trans [OF a(3) b(3)] b(4,5) obeys_run [OF assms(1) run] by blast
qed


lemma sent_polls [simp]: "sent p (replicate k (Inb q)) = []"
  by (induction k) simp_all

lemma polls_addressed [simp]:
  "addressed (h @ replicate k (Inb 0x1F7)) = addressed h" "lba28 (h @ replicate k (Inb 0x1F7)) = lba28 h"
  by (simp_all add: addressed_def lba28_def last_sent_def)

text \<open>A command sent after the waits is understood.\<close>

lemma COMMAND_sends:
  assumes "obeys dev h s" and "reports_no_error dev" and "1 \<le> dr_polls s" and "dr_transfer s = No_Transfer"
    and "command_byte cmd = 0x20 \<and> addressed h \<and> new = Data_In (lba28 h) 0
      \<or> command_byte cmd = 0x30 \<and> addressed h \<and> new = Data_Out (lba28 h) []
      \<or> command_byte cmd = 0xE7 \<and> new = No_Transfer"
  obtains t ok s' where "COMMAND dev Primary cmd h = Some (ok, h @ t)"
    "drive_run (status_of dev) h s t = Some s'" "dr_sectors s' = dr_sectors s" "dr_transfer s' = new" "1 \<le> dr_polls s'"
    "obeys dev (h @ t) s'"
proof -
  obtain k s1 where k: "\<And>f :: io list \<Rightarrow> (bool \<times> io list) option.
      Option.bind (WAIT_NO_BUSY dev Primary h) (\<lambda>h. Option.bind (WAIT_UNTIL_READY dev Primary h) f)
      = f (h @ replicate k (Inb 0x1F7))"
    "drive_run (status_of dev) h s (replicate k (Inb 0x1F7)) = Some s1" "after_polls s s1" "dr_free s1" "dr_ready s1"
    by (rule wait_both [OF assms(1-3)]) blast
  let ?t = "replicate k (Inb 0x1F7) @ [Outb 0x1F7 (command_byte cmd), Inb 0x1F7]"
  have "\<exists>ok. COMMAND dev Primary cmd h = Some (ok, h @ ?t)"
    using k(1) by (simp add: COMMAND_def status_port PRIMARY_IO_BASE_def outb_def)
  moreover obtain s' where "drive_run (status_of dev) h s ?t = Some s'" "dr_sectors s' = dr_sectors s"
      "dr_transfer s' = new" "1 \<le> dr_polls s'"
    using k(2-5) assms(4,5) by (auto simp: commanded_def polled_def Let_def after_polls_def)
  ultimately show thesis using that obeys_run [OF assms(1)] by blast
qed

lemma replicate_snoc: "m = Suc n \<Longrightarrow> replicate m x = replicate n x @ [x]"
  by (simp add: replicate_append_same)

lemma rep_insw_eq:
  "rep_insw dev port n h = (map (\<lambda>j. dev (h @ replicate j (Inw port)) port) [0..<n], h @ replicate n (Inw port))"
proof (induction n arbitrary: h)
  case (Suc n)
  have "map (\<lambda>j. dev (h @ replicate j (Inw port)) port) [0..<Suc n] =
      dev h port # map (\<lambda>j. dev ((h @ [Inw port]) @ replicate j (Inw port)) port) [0..<n]"
    by (simp add: upt_conv_Cons map_Suc_upt [symmetric] del: upt_Suc)
  then show ?case using Suc by (simp add: inw_def)
qed simp

text \<open>The data words, once the drive was seen to ask for them.\<close>

lemma drive_run_reads:
  assumes "dr_transfer s = Data_In l 0" and "dr_free s" and "n < 256"
  shows "drive_run st h s (replicate n (Inw 0x1F0)) = Some (s\<lparr>dr_transfer := Data_In l n\<rparr>)"
  using assms(3)
proof (induction n)
  case 0
  then show ?case using assms(1) by simp
next
  case (Suc n)
  have "replicate (Suc n) (Inw 0x1F0) = replicate n (Inw 0x1F0) @ [Inw 0x1F0]" by (simp add: replicate_append_same)
  then show ?case using Suc assms(2) by (simp add: word_read_def del: replicate_Suc)
qed

lemma rep_insw_reads:
  assumes "obeys dev h s" and "dr_transfer s = Data_In l 0" and "dr_free s" and "length (dr_sectors s l) = 256"
  shows "rep_insw dev 0x1F0 256 h = (dr_sectors s l, h @ replicate 256 (Inw 0x1F0))"
    and "drive_run (status_of dev) h s (replicate 256 (Inw 0x1F0))
      = Some (s\<lparr>dr_transfer := No_Transfer, dr_ready := False\<rparr>)"
proof -
  have "dev (h @ replicate n (Inw 0x1F0)) 0x1F0 = dr_sectors s l ! n" if "n < 256" for n
    using obeys_now [OF obeys_run [OF assms(1) drive_run_reads [OF assms(2,3) that]]] assms(3) by simp
  then have "map (\<lambda>n. dev (h @ replicate n (Inw 0x1F0)) 0x1F0) [0..<256] = dr_sectors s l"
    using assms(4) by (intro nth_equalityI) simp_all
  then show "rep_insw dev 0x1F0 256 h = (dr_sectors s l, h @ replicate 256 (Inw 0x1F0))" by (simp only: rep_insw_eq)
  have "replicate 256 (Inw 0x1F0) = replicate 255 (Inw 0x1F0) @ [Inw 0x1F0]"
    by (rule replicate_snoc) simp
  then show "drive_run (status_of dev) h s (replicate 256 (Inw 0x1F0))
      = Some (s\<lparr>dr_transfer := No_Transfer, dr_ready := False\<rparr>)"
    using drive_run_reads [OF assms(2,3), of 255] assms(3) by (simp add: word_read_def)
qed

lemma drive_run_writes:
  assumes "dr_transfer s = Data_Out l []" and "dr_free s" and "length ws < 256"
  shows "drive_run st h s (map (Outw 0x1F0) ws) = Some (s\<lparr>dr_transfer := Data_Out l ws\<rparr>)"
  using assms(3)
proof (induction ws rule: rev_induct)
  case Nil
  then show ?case using assms(1) by simp
next
  case (snoc w ws)
  then show ?case using assms(2) by (simp add: word_written_def)
qed

lemma rep_outsw_writes:
  assumes "dr_transfer s = Data_Out l []" and "dr_free s" and "length ws = 256"
  shows "drive_run st h s (map (Outw 0x1F0) ws) = Some (s\<lparr>dr_sectors := (dr_sectors s)(l := ws),
    dr_transfer := No_Transfer, dr_free := False, dr_ready := False\<rparr>)"
proof -
  obtain us w where ws: "ws = us @ [w]" using assms(3) by (cases ws rule: rev_cases) auto
  then have "length us < 256" using assms(3) by simp
  from drive_run_writes [OF assms(1,2) this] show ?thesis using assms(2,3) ws by (simp add: word_written_def)
qed

text \<open>The task file, and the address it stands for.\<close>

definition task_file :: "u32 \<Rightarrow> io list" where
  "task_file LBA = [Outb 0x3F6 2, Outb 0x1F6 (ucast (0xE0 OR (drop_bit 24 LBA AND 0x0F))),
     Inb 0x1F7, Inb 0x1F7, Inb 0x1F7, Inb 0x1F7, Outb 0x1F2 1,
     Outb 0x1F3 (ucast LBA), Outb 0x1F4 (ucast (drop_bit 8 LBA)), Outb 0x1F5 (ucast (drop_bit 16 LBA))]"

lemma task_file_sent:
  "SET_LBA Primary LBA (SET_SECTOR_COUNT Primary 1 (DELAY_400_NS dev Primary (SET_HEAD LBA 0 (DISABLE_INTERRUPTS h))))
    = h @ task_file LBA"
proof -
  have delay: "DELAY_400_NS dev Primary h' = h' @ [Inb 0x1F7, Inb 0x1F7, Inb 0x1F7, Inb 0x1F7]" for h'
    by (simp add: DELAY_400_NS_def status_port upt_rec)
  show ?thesis
    unfolding delay
    by (simp add: SET_LBA_def SET_SECTOR_COUNT_def SET_HEAD_def DISABLE_INTERRUPTS_def IO_REG_SET_def IO_REG_OFFSET_def
        PRIMARY_IO_BASE_def INTERRUPT_REGISTER_def outb_def task_file_def)
qed

lemma task_file_addressed: "addressed (h @ task_file LBA)" "lba28 (h @ task_file LBA) = unat LBA mod 2 ^ 28"
proof -
  have div: "unat (drop_bit n LBA) = unat LBA div 2 ^ n" for n
    by (subst unat_drop_bit_eq) (rule drop_bit_eq_div)
  have low: "unat (ucast (drop_bit n LBA) :: u8) = unat LBA div 2 ^ n mod 256" for n
    by (simp add: unsigned_ucast_eq take_bit_eq_mod div)
  have masks: "0xE0 = (push_bit 5 (mask 3) :: u32)" "0x0F = (mask 4 :: u32)" by (simp_all add: mask_eq_exp_minus_1)
  let ?head = "ucast (0xE0 OR (drop_bit 24 LBA AND 0x0F)) :: u8"
  have "?head AND mask 4 = ucast (drop_bit 24 LBA AND mask 4)"
    unfolding masks by (rule bit_word_eqI) (auto simp: bit_simps)
  then have "unat (?head AND mask 4) = unat LBA div 2 ^ 24 mod 16"
    by (simp add: unsigned_ucast_eq take_bit_eq_mod unat_and_mask div)
  then have head: "unat ?head mod 16 = unat LBA div 2 ^ 24 mod 16"
    by (simp add: unat_and_mask)
  have byte: "(0xE0 :: u8) = push_bit 5 (mask 3)" by (simp add: mask_eq_exp_minus_1)
  have "drop_bit 4 ?head = drop_bit 4 0xE0"
    unfolding masks byte by (intro bit_word_eqI) (auto simp: bit_simps)
  then have "unat (drop_bit 4 ?head) = 14" by simp
  then have upper: "unat ?head div 16 = 14" by (simp add: drop_bit_eq_div unat_div)
  define n where "n = unat LBA"
  have "n mod 256 + 256 * (n div 256 mod 256) + 65536 * (n div 65536 mod 256) + 16777216 * (n div 16777216 mod 16)
      = n mod 268435456"
    using mod_mult2_eq [of n 256 256] mod_mult2_eq [of n 65536 256] mod_mult2_eq [of n 16777216 16] by simp
  then show "lba28 (h @ task_file LBA) = unat LBA mod 2 ^ 28"
    using low [of 0] low [of 8] low [of 16] head
    by (simp add: lba28_def last_sent_def task_file_def n_def)
  show "addressed (h @ task_file LBA)" using upper by (simp add: addressed_def last_sent_def task_file_def)
qed

lemma task_file_runs:
  assumes "idle_drive s"
  obtains s' where "drive_run (status_of dev) h s (task_file LBA) = Some s'" "dr_sectors s' = dr_sectors s"
    "dr_transfer s' = No_Transfer" "1 \<le> dr_polls s'"
proof -
  have "\<exists>s'. drive_run (status_of dev) h s (task_file LBA) = Some s' \<and> dr_sectors s' = dr_sectors s
    \<and> dr_transfer s' = No_Transfer \<and> 1 \<le> dr_polls s'"
    using assms by (simp add: task_file_def idle_drive_def polled_def Let_def)
  then show thesis using that by blast
qed

text \<open>The protocol both transfers share: name the sector, wait, send the command, wait.\<close>

lemma run_command:
  assumes "obeys dev h s" and "reports_no_error dev" and "idle_drive s"
    and "command_byte cmd = 0x20 \<and> new = Data_In (unat LBA mod 2 ^ 28) 0
      \<or> command_byte cmd = 0x30 \<and> new = Data_Out (unat LBA mod 2 ^ 28) []"
  obtains t s' where
    "\<And>f :: io list \<Rightarrow> 'b option. (let h = DISABLE_INTERRUPTS h; h = SET_HEAD LBA 0 h; h = DELAY_400_NS dev Primary h;
          h = SET_SECTOR_COUNT Primary 1 h; h = SET_LBA Primary LBA h
      in Option.bind (WAIT_NO_BUSY dev Primary h) (\<lambda>h. Option.bind (WAIT_UNTIL_READY dev Primary h) (\<lambda>h.
       Option.bind (COMMAND dev Primary cmd h) (\<lambda>(_, h).
       Option.bind (WAIT_NO_BUSY dev Primary h) (\<lambda>h. Option.bind (WAIT_UNTIL_READY dev Primary h) f)))))
     = f (h @ t)"
    "drive_run (status_of dev) h s t = Some s'" "dr_sectors s' = dr_sectors s" "dr_transfer s' = new" "dr_free s'"
    "1 \<le> dr_polls s'" "obeys dev (h @ t) s'"
proof -
  let ?h1 = "h @ task_file LBA"
  obtain s1 where task: "drive_run (status_of dev) h s (task_file LBA) = Some s1" "dr_sectors s1 = dr_sectors s"
    "dr_transfer s1 = No_Transfer" "1 \<le> dr_polls s1"
    by (rule task_file_runs [OF assms(3)])
  note o1 = obeys_run [OF assms(1) task(1)]
  obtain a s2 where a: "\<And>f :: io list \<Rightarrow> 'b option. Option.bind (WAIT_NO_BUSY dev Primary ?h1) (\<lambda>h. Option.bind (WAIT_UNTIL_READY dev Primary h) f)
      = f (?h1 @ replicate a (Inb 0x1F7))"
    "drive_run (status_of dev) ?h1 s1 (replicate a (Inb 0x1F7)) = Some s2" "after_polls s1 s2"
    "obeys dev (?h1 @ replicate a (Inb 0x1F7)) s2"
    by (rule wait_both [OF o1 assms(2) task(4)]) blast
  let ?h2 = "?h1 @ replicate a (Inb 0x1F7)"
  have p2: "1 \<le> dr_polls s2" "dr_transfer s2 = No_Transfer" "dr_sectors s2 = dr_sectors s1"
    using a(3) task by (auto simp: after_polls_def)
  have "command_byte cmd = 0x20 \<and> addressed ?h2 \<and> new = Data_In (lba28 ?h2) 0
      \<or> command_byte cmd = 0x30 \<and> addressed ?h2 \<and> new = Data_Out (lba28 ?h2) []
      \<or> command_byte cmd = 0xE7 \<and> new = No_Transfer"
    using assms(4) unfolding polls_addressed by (auto simp only: task_file_addressed)
  then obtain u ok s3 where u: "COMMAND dev Primary cmd ?h2 = Some (ok, ?h2 @ u)"
    "drive_run (status_of dev) ?h2 s2 u = Some s3" "dr_sectors s3 = dr_sectors s2" "dr_transfer s3 = new" "1 \<le> dr_polls s3"
    "obeys dev (?h2 @ u) s3"
    by (rule COMMAND_sends [OF a(4) assms(2) p2(1,2)])
  obtain b s4 where b: "\<And>f :: io list \<Rightarrow> 'b option. Option.bind (WAIT_NO_BUSY dev Primary (?h2 @ u)) (\<lambda>h. Option.bind (WAIT_UNTIL_READY dev Primary h) f)
      = f ((?h2 @ u) @ replicate b (Inb 0x1F7))"
    "drive_run (status_of dev) (?h2 @ u) s3 (replicate b (Inb 0x1F7)) = Some s4" "after_polls s3 s4" "dr_free s4"
    by (rule wait_both [OF u(6) assms(2) u(5)]) blast
  let ?t = "task_file LBA @ replicate a (Inb 0x1F7) @ u @ replicate b (Inb 0x1F7)"
  have run: "drive_run (status_of dev) h s ?t = Some s4" using task(1) a(2) u(2) b(2) by simp
  show thesis
  proof (rule that [OF _ run])
    fix f :: "io list \<Rightarrow> 'b option"
    show "(let h = DISABLE_INTERRUPTS h; h = SET_HEAD LBA 0 h; h = DELAY_400_NS dev Primary h;
          h = SET_SECTOR_COUNT Primary 1 h; h = SET_LBA Primary LBA h
      in Option.bind (WAIT_NO_BUSY dev Primary h) (\<lambda>h. Option.bind (WAIT_UNTIL_READY dev Primary h) (\<lambda>h.
       Option.bind (COMMAND dev Primary cmd h) (\<lambda>(_, h).
       Option.bind (WAIT_NO_BUSY dev Primary h) (\<lambda>h. Option.bind (WAIT_UNTIL_READY dev Primary h) f)))))
     = f (h @ ?t)"
      using u(1) b(1) unfolding Let_def task_file_sent a(1) by simp
  qed (use task(2) p2(3) u(3-5) b(3,4) obeys_run [OF assms(1) run] in \<open>auto simp: after_polls_def\<close>)
qed

lemma word_bytes_length [simp]: "length (word_bytes ws) = 2 * length ws"
  by (induction ws) (simp_all add: word_bytes_def)

lemma ReadSectors_reads:
  assumes "obeys dev h s" and "reports_no_error dev" and "idle_drive s"
    and "dv_bus_type d = Primary" and "512 \<le> length buffer"
  obtains ok t s' where "ReadSectors dev d Primary buffer LBA sectors h
      = Some (Inr (ok, word_bytes (dr_sectors s (unat LBA mod 2 ^ 28)) @ drop 512 buffer, h @ t))"
    "drive_run (status_of dev) h s t = Some s'" "idle_drive s'" "dr_sectors s' = dr_sectors s"
proof -
  let ?l = "unat LBA mod 2 ^ 28"
  let ?f = "\<lambda>h. let (ws, h) = rep_insw dev (ucast (IO_REG_OFFSET Data (dv_bus_type d))) 256 h
           in Some (if length buffer < 512 then Inl Out_Of_Bounds
                    else let (status, h) = READ_BYTE dev Primary Status h
                         in Inr (status \<noteq> 0, word_bytes ws @ drop 512 buffer, h))"
  have "command_byte ReadSectorsWithRetry = 0x20 \<and> Data_In ?l 0 = Data_In ?l 0
      \<or> command_byte ReadSectorsWithRetry = 0x30 \<and> Data_In ?l 0 = Data_Out ?l []" by simp
  then obtain t s1 where t: "ReadSectors dev d Primary buffer LBA sectors h = ?f (h @ t)"
    "drive_run (status_of dev) h s t = Some s1" "dr_sectors s1 = dr_sectors s" "dr_transfer s1 = Data_In ?l 0" "dr_free s1"
    "obeys dev (h @ t) s1"
    unfolding ReadSectors_def by (rule run_command [OF assms(1-3)]) blast
  have "length (dr_sectors s1 ?l) = 256" using assms(3) t(3) by (simp add: idle_drive_def)
  note words = rep_insw_reads [OF t(6,4,5) this]
  let ?t = "t @ replicate 256 (Inw 0x1F0) @ [Inb 0x1F7]"
  have "\<exists>ok. ReadSectors dev d Primary buffer LBA sectors h
      = Some (Inr (ok, word_bytes (dr_sectors s ?l) @ drop 512 buffer, h @ ?t))"
    using assms(4,5) t(1,3) words(1) by (simp add: IO_REG_OFFSET_def PRIMARY_IO_BASE_def status_port)
  moreover obtain s' where "drive_run (status_of dev) h s ?t = Some s'" "idle_drive s'" "dr_sectors s' = dr_sectors s"
    using assms(3) t(2,3,5) words(2) by (auto simp: idle_drive_def polled_def Let_def)
  ultimately show thesis using that by blast
qed

lemma WriteSectors_writes:
  assumes "obeys dev h s" and "reports_no_error dev" and "idle_drive s" and "512 \<le> length buffer"
  obtains ok t s' where "WriteSectors dev d Primary buffer LBA sectors h = Some (Inr (ok, h @ t))"
    "drive_run (status_of dev) h s t = Some s'" "dr_transfer s' = No_Transfer"
    "dr_sectors s' = (dr_sectors s)(unat LBA mod 2 ^ 28 := byte_words buffer 256)"
proof -
  let ?l = "unat LBA mod 2 ^ 28" and ?ws = "byte_words buffer 256"
  let ?f = "\<lambda>h. let (_, h) = READ_BYTE dev Primary Status h
           in if length buffer < 512 then Some (Inl Out_Of_Bounds)
              else let h = rep_outsw 0x1F0 (byte_words buffer 256) h
                   in Option.bind (COMMAND dev Primary CacheFlush h) (\<lambda>(_, h).
                        let (status, h) = READ_BYTE dev Primary Status h
                        in Some (Inr (status \<noteq> 0, h)))"
  have "command_byte WriteSectorsWithRetry = 0x20 \<and> Data_Out ?l [] = Data_In ?l 0
      \<or> command_byte WriteSectorsWithRetry = 0x30 \<and> Data_Out ?l [] = Data_Out ?l []" by simp
  then obtain t s1 where t: "WriteSectors dev d Primary buffer LBA sectors h = ?f (h @ t)"
    "drive_run (status_of dev) h s t = Some s1" "dr_sectors s1 = dr_sectors s" "dr_transfer s1 = Data_Out ?l []" "dr_free s1"
    "1 \<le> dr_polls s1" "obeys dev (h @ t) s1"
    unfolding WriteSectors_def by (rule run_command [OF assms(1-3)]) blast
  let ?u = "[Inb 0x1F7] @ map (Outw 0x1F0) ?ws"
  have poll: "after_polls s1 (polled (flags (status_of dev (h @ t))) s1)" by (rule after_polls_polled)
  have "length ?ws = 256" by (simp add: byte_words_def)
  from rep_outsw_writes [OF _ _ this, of "polled (flags (status_of dev (h @ t))) s1" ?l]
  obtain s2 where s2: "drive_run (status_of dev) (h @ t) s1 ?u = Some s2" "dr_transfer s2 = No_Transfer"
    "dr_sectors s2 = (dr_sectors s)(?l := ?ws)" "1 \<le> dr_polls s2"
    using poll t(3-6) by (auto simp: after_polls_def)
  have "command_byte CacheFlush = 0x20 \<and> addressed ((h @ t) @ ?u) \<and> No_Transfer = Data_In (lba28 ((h @ t) @ ?u)) 0
      \<or> command_byte CacheFlush = 0x30 \<and> addressed ((h @ t) @ ?u) \<and> No_Transfer = Data_Out (lba28 ((h @ t) @ ?u)) []
      \<or> command_byte CacheFlush = 0xE7 \<and> No_Transfer = No_Transfer" by simp
  then obtain v ok s3 where v: "COMMAND dev Primary CacheFlush ((h @ t) @ ?u) = Some (ok, ((h @ t) @ ?u) @ v)"
    "drive_run (status_of dev) ((h @ t) @ ?u) s2 v = Some s3" "dr_sectors s3 = dr_sectors s2" "dr_transfer s3 = No_Transfer"
    by (rule COMMAND_sends [OF obeys_run [OF t(7) s2(1)] assms(2) s2(4,2)])
  let ?t = "t @ ?u @ v @ [Inb 0x1F7]"
  have "\<exists>ok. WriteSectors dev d Primary buffer LBA sectors h = Some (Inr (ok, h @ ?t))"
    using assms(4) t(1) v(1) by (simp add: status_port rep_outsw_def)
  moreover obtain s' where "drive_run (status_of dev) h s ?t = Some s'" "dr_transfer s' = No_Transfer"
      "dr_sectors s' = (dr_sectors s)(?l := ?ws)"
    using t(2) s2 v(2-4) by (auto simp: polled_def Let_def)
  ultimately show thesis using that by blast
qed

lemma word_bytes_of_bytes:
  assumes "2 * n \<le> length bs"
  shows "word_bytes (byte_words bs n) = take (2 * n) bs"
  using assms
proof (induction n)
  case (Suc n)
  have "word_bytes (byte_words bs (Suc n)) = word_bytes (byte_words bs n) @ [bs ! (2 * n), bs ! (2 * n + 1)]"
  proof -
    let ?w = "ucast (bs ! (2 * n)) OR push_bit 8 (ucast (bs ! (2 * n + 1))) :: u16"
    have "ucast ?w = bs ! (2 * n)" "ucast (drop_bit 8 ?w) = bs ! (2 * n + 1)"
      by (rule bit_word_eqI; auto simp: bit_simps dest: bit_imp_le_length)+
    then show ?thesis by (simp add: word_bytes_def byte_words_def)
  qed
  then show ?case using Suc by (simp add: take_Suc_conv_app_nth)
qed (simp add: word_bytes_def byte_words_def)

text \<open>The size of the buffer, and the block it gets.\<close>

lemma buffer_size:
  assumes "0 < count" and "unat count \<le> 2 ^ 30"
  shows "unat (ucast (sector_count count * ucast SECTOR_SIZE_BYTES) :: u32) = round_up (unat count) 512"
    and "512 \<le> round_up (unat count) 512" and "round_up (unat count) 512 \<le> 2 ^ 30 + 511"
proof -
  have pos: "0 < unat count" using assms(1) by (simp add: unat_gt_0 word_gt_0)
  define m where "m = (unat count + 511) div 512"
  have m: "round_up (unat count) 512 = m * 512" by (simp add: round_up_def m_def)
  have bounds: "1 \<le> m" "m * 512 \<le> 2 ^ 30 + 511"
    using pos assms(2) unfolding m_def by auto
  then show "512 \<le> round_up (unat count) 512" "round_up (unat count) 512 \<le> 2 ^ 30 + 511" unfolding m by simp_all
  have wide: "unat (ucast count :: u64) = unat count"
    using unat_u32_less [of count] by (simp add: unsigned_ucast_eq take_bit_eq_mod)
  have "unat (ALIGN_VAL (ucast count) (2 ^ 9)) = round_up (unat count) (2 ^ 9)"
    using assms(2) by (intro unat_ALIGN_VAL [THEN trans]) (simp_all add: wide)
  then have "unat (sector_count count) = m"
    by (simp add: sector_count_def SECTOR_SIZE_BYTES_def unat_div m)
  moreover have "m * 512 < 2 ^ 64" "m * 512 < 2 ^ 32" using bounds(2) by simp_all
  ultimately show "unat (ucast (sector_count count * ucast SECTOR_SIZE_BYTES) :: u32) = round_up (unat count) 512"
    by (simp add: unsigned_ucast_eq take_bit_eq_mod unat_word_ariths SECTOR_SIZE_BYTES_def m)
qed

lemma sector_offset_eq: "sector_offset location = unat location mod 512"
  by (simp add: sector_offset_def SECTOR_SIZE_BYTES_def unat_mod)

lemma sector_number: "unat (location div SECTOR_SIZE_BYTES) mod 2 ^ 28 = unat location div 512"
proof -
  have "unat location div 512 < 2 ^ 28" using unat_u32_less [of location] by simp
  then show ?thesis by (simp add: SECTOR_SIZE_BYTES_def unat_div)
qed

lemma buffer_block:
  assumes "big_wf mm cs live" and "can_serve mm cs (big_request n)" and "512 \<le> unat n" and "unat n \<le> 2 ^ 30 + 511"
  obtains buffer mm1 mm2 cs' where "operator_new pdiff n mm = Inr (buffer, mm1)" "buffer \<noteq> 0"
    "operator_delete buffer mm1 = Inr mm2" "big_wf mm2 cs' live"
proof -
  have n: "64 < n" "unat n + 20 < 2 ^ 32" using assms(3,4) by (simp_all add: word_less_nat_alt)
  obtain c mm1 cs1 where c: "malloc_big pdiff (big_request n) mm = Inr (c + 13, mm1)" "c \<notin> dom live"
      "big_wf mm1 cs1 (live(c \<mapsto> unat (big_request n)))"
    using malloc_big_wf [OF assms(1,2) malloc_big_sized(2) [OF n]] by metis
  have live: "(live(c \<mapsto> unat (big_request n))) c = Some (unat (big_request n))" by simp
  have "c \<in> set cs1" "tail_ok (chunk_at mm1) (live(c \<mapsto> unat (big_request n))) 0 cs1"
    using c(3) by (auto simp: big_wf_alt)
  then have "13 < unat (big_request n)" "unat c + unat (big_request n) \<le> 2 ^ 32"
    using tail_ok_live live by fastforce+
  then have "unat (c + 13) = unat c + 13" by (intro unat_plus_no_wrap [THEN trans]) simp_all
  then have "c + 13 \<noteq> 0" by (metis unat_0 add_is_0 zero_neq_numeral)
  moreover have "operator_new pdiff n mm = Inr (c + 13, mm1)"
    using c(1) malloc_big_sized(1) [OF n] by (simp add: operator_new_def)
  moreover have "operator_delete (c + 13) mm1 = Inr (free_big (c + 13) mm1)"
    using free_big_routed [OF c(3) live] by (simp add: operator_delete_def)
  moreover obtain cs2 where "big_wf (free_big (c + 13) mm1) cs2 ((live(c \<mapsto> unat (big_request n)))(c := None))"
    using free_big_wf(1) [OF c(3) live] by blast
  moreover have "(live(c \<mapsto> unat (big_request n)))(c := None) = live" using c(2) by (auto simp: domIff)
  ultimately show thesis using that by metis
qed

section \<open>Properties\<close>

text \<open>
  C36: \<^verbatim>\<open>read_bytes\<close> on an idle drive that does what it documents and reports no error returns the
  bytes the disk holds from \<^verbatim>\<open>location\<close> on, however long the drive is busy, when they lie in one
  sector; it uses the drive as documented, leaves the disk as it was and the drive idle, and gives its buffer
  back. It never asks for a second sector: bytes past the first come from what the buffer held before,
  and bytes past the buffer, which is as long as the count rounded up, are read outside of it.
\<close>

theorem read_bytes_correct:
  assumes "obeys dev h s" and "reports_no_error dev" and "idle_drive s" and "dv_bus_type d = Primary"
    and "big_wf mm cs live" and "can_serve mm cs (big_request (of_nat (round_up (unat count) 512)))"
    and "0 < count" and "unat count \<le> 2 ^ 30" and "unat count \<le> length out"
  shows "let n = round_up (unat count) 512; off = unat location mod 512;
      bytes = word_bytes (dr_sectors s (unat location div 512)) @ map junk [512..<n]
    in if off + unat count \<le> n
       then \<exists>ok t mm' cs' s'. read_bytes dev pdiff junk d Primary out location count h mm
           = Some (Inr (ok, take (unat count) (drop off bytes) @ drop (unat count) out, h @ t, mm')) \<and> big_wf mm' cs' live
         \<and> drive_run (status_of dev) h s t = Some s' \<and> idle_drive s' \<and> dr_sectors s' = dr_sectors s
       else read_bytes dev pdiff junk d Primary out location count h mm = Some (Inl Out_Of_Bounds)"
proof -
  define n where "n = (ucast (sector_count count * ucast SECTOR_SIZE_BYTES) :: u32)"
  note size = buffer_size [OF assms(7,8), folded n_def]
  have "big_request (of_nat (round_up (unat count) 512)) = big_request n" by (simp flip: size(1))
  then obtain buffer mm1 mm2 cs' where heap: "operator_new pdiff n mm = Inr (buffer, mm1)" "buffer \<noteq> 0"
      "operator_delete buffer mm1 = Inr mm2" "big_wf mm2 cs' live"
    using buffer_block [OF assms(5), of n pdiff] assms(6) size by metis
  let ?buf = "map junk [0..<unat n]"
  have len: "512 \<le> length ?buf" using size by simp
  obtain ok t s' where read: "ReadSectors dev d Primary ?buf (location div SECTOR_SIZE_BYTES) (sector_count count) h
      = Some (Inr (ok, word_bytes (dr_sectors s (unat location div 512)) @ map junk [512..<unat n], h @ t))"
    and run: "drive_run (status_of dev) h s t = Some s'" "idle_drive s'" "dr_sectors s' = dr_sectors s"
    using ReadSectors_reads [OF assms(1-4) len, of "location div SECTOR_SIZE_BYTES" "sector_count count"]
    unfolding sector_number by (auto simp: drop_map)
  have "length (dr_sectors s l) = 256" for l using assms(3) by (simp add: idle_drive_def)
  then have total: "length (word_bytes (dr_sectors s (unat location div 512)) @ map junk [512..<unat n]) = round_up (unat count) 512"
    using size by simp
  have fits: "(unat location mod 512 + unat count \<le> round_up (unat count) 512)
      = (unat count \<le> round_up (unat count) 512 - unat location mod 512)"
    using size(2) mod_less_divisor [of 512 "unat location"] by linarith
  have result: "read_bytes dev pdiff junk d Primary out location count h mm =
      (if unat location mod 512 + unat count \<le> round_up (unat count) 512
       then Some (Inr (ok, take (unat count) (drop (unat location mod 512) (word_bytes (dr_sectors s (unat location div 512))
         @ map junk [512..<round_up (unat count) 512])) @ drop (unat count) out, h @ t, mm2))
       else Some (Inl Out_Of_Bounds))"
    unfolding fits
    using heap read total assms(7,9)
    by (simp add: read_bytes_def Let_def n_def [symmetric] sector_offset_eq memcpy_eq size(1) word_gt_0)
  show ?thesis unfolding Let_def using result heap(4) run by auto
qed

text \<open>
  C37: \<^verbatim>\<open>write_bytes\<close> of bytes inside one sector, on an idle drive that does what it documents and
  reports no error: the disk afterwards is the disk before with exactly those bytes replaced, every other
  byte of the sector and every other sector as it was, whatever is polled in between; the drive is
  used as documented throughout.
\<close>

theorem write_bytes_patches:
  assumes "obeys dev h s" and "reports_no_error dev" and "idle_drive s" and "dv_bus_type d = Primary"
    and "big_wf mm cs live" and "can_serve mm cs (big_request (of_nat (round_up (unat count) 512)))"
    and "0 < count" and "unat location mod 512 + unat count \<le> 512" and "unat count \<le> length inp"
  shows "\<exists>ok t mm' cs' s' ws. write_bytes dev pdiff junk d Primary inp location count h mm = Some (Inr (ok, h @ t, mm'))
    \<and> big_wf mm' cs' live \<and> drive_run (status_of dev) h s t = Some s' \<and> dr_transfer s' = No_Transfer
    \<and> dr_sectors s' = (dr_sectors s)(unat location div 512 := ws)
    \<and> (let sector = word_bytes (dr_sectors s (unat location div 512)); off = unat location mod 512
       in word_bytes ws = take off sector @ take (unat count) inp @ drop (off + unat count) sector)"
proof -
  have count: "unat count \<le> 512" using assms(8) by simp
  define n where "n = (ucast (sector_count count * ucast SECTOR_SIZE_BYTES) :: u32)"
  have c30: "unat count \<le> 2 ^ 30" using count by simp
  note size = buffer_size [OF assms(7) c30, folded n_def]
  have "round_up (unat count) 512 < 1024" using count by (simp add: round_up_def)
  moreover have "512 dvd round_up (unat count) 512" by (simp add: round_up_def)
  ultimately have "round_up (unat count) 512 = 512" using size(2) by (auto elim!: dvdE)
  then have n: "unat n = 512" using size(1) by simp
  have "big_request (of_nat (round_up (unat count) 512)) = big_request n" by (simp flip: size(1))
  then obtain buffer mm1 mm2 cs' where heap: "operator_new pdiff n mm = Inr (buffer, mm1)" "buffer \<noteq> 0"
      "operator_delete buffer mm1 = Inr mm2" "big_wf mm2 cs' live"
    using buffer_block [OF assms(5), of n pdiff] assms(6) size by metis
  let ?lba = "location div SECTOR_SIZE_BYTES" and ?off = "unat location mod 512"
  define sector where "sector = word_bytes (dr_sectors s (unat location div 512))"
  have "length (dr_sectors s l) = 256" for l using assms(3) by (simp add: idle_drive_def)
  then have sector: "length sector = 512" by (simp add: sector_def)
  have len: "512 \<le> length (map junk [0..<unat n])" using n by simp
  obtain ok t s1 where read: "ReadSectors dev d Primary (map junk [0..<unat n]) ?lba (sector_count count) h
      = Some (Inr (ok, sector, h @ t))"
    and run: "drive_run (status_of dev) h s t = Some s1" "idle_drive s1" "dr_sectors s1 = dr_sectors s"
    using ReadSectors_reads [OF assms(1-4) len, of ?lba "sector_count count"]
    unfolding sector_number by (auto simp: n sector_def)
  let ?patched = "take ?off sector @ take (unat count) inp @ drop (?off + unat count) sector"
  have fits: "unat count \<le> 512 - ?off" using assms(8) by linarith
  have patch: "memcpy (drop ?off sector) inp count = Inr (take (unat count) inp @ drop (?off + unat count) sector)"
    using assms(9) sector fits by (simp add: memcpy_eq add.commute)
  have len: "length ?patched = 512" using assms(8,9) sector by simp
  then have long: "512 \<le> length ?patched" by (rule eq_refl [OF sym])
  obtain ok' u s2 where wr: "WriteSectors dev d Primary ?patched ?lba (sector_count count) (h @ t) = Some (Inr (ok', (h @ t) @ u))"
    and run2: "drive_run (status_of dev) (h @ t) s1 u = Some s2" "dr_transfer s2 = No_Transfer"
      "dr_sectors s2 = (dr_sectors s)(unat location div 512 := byte_words ?patched 256)"
    using WriteSectors_writes [OF obeys_run [OF assms(1) run(1)] assms(2) run(2) long, of d ?lba "sector_count count"]
    unfolding sector_number run(3) by blast
  have "write_bytes dev pdiff junk d Primary inp location count h mm = Some (Inr (ok', h @ (t @ u), mm2))"
    using heap(1-3) read patch wr
    by (simp add: write_bytes_def Let_def n_def [symmetric] sector_offset_eq)
  moreover have "drive_run (status_of dev) h s (t @ u) = Some s2" using run(1) run2(1) by simp
  moreover have "word_bytes (byte_words ?patched 256) = ?patched"
    using word_bytes_of_bytes [of 256 ?patched] take_all [of ?patched 512] len by (metis mult_2 numeral_Bit0 order_refl)
  ultimately show ?thesis using heap(4) run2(2,3) unfolding Let_def sector_def by blast
qed

text \<open>
  A drive with one pattern in every word that is busy for three polls after each command, has junk on its
  data port until it was seen to ask for data, and keeps what is written.
\<close>

definition example_polls :: "io list \<Rightarrow> nat" where
  "example_polls h = length (filter ((=) (Inb 0x1F7)) (takeWhile (\<lambda>e. case e of Outb p v \<Rightarrow> p \<noteq> 0x1F7 | _ \<Rightarrow> True) (rev h)))"

definition example_status :: "io list \<Rightarrow> u8" where
  "example_status h = (if sent 0x1F7 h \<noteq> [] \<and> example_polls h < 3 then 0x80 else 0x58)"

definition example_start :: drive where
  "example_start = \<lparr>dr_sectors = (\<lambda>_. replicate 256 0xABCD), dr_transfer = No_Transfer, dr_polls = 0,
     dr_free = True, dr_ready = False\<rparr>"

definition example_drive :: device where
  "example_drive h port =
     (if port = 0x1F7 then ucast (example_status h)
      else case drive_run example_status [] example_start h of
             Some s \<Rightarrow> (case dr_transfer s of Data_In l n \<Rightarrow> if dr_free s then dr_sectors s l ! n else 0xFFFF | _ \<Rightarrow> 0xFFFF)
           | None \<Rightarrow> 0xFFFF)"

definition example_device :: AtaDevice where
  "example_device = \<lparr>dv_device_type = Master, dv_bus_type = Primary, dv_lba_28_sectors = 1000, dv_lba_48_sectors = 0\<rparr>"

lemma example_flags: "flags 0x80 = \<lparr>Err = False, Idx = False, Corr = False, Drq = False, Srv = False, Df = False, Rdy = False, Bsy = True\<rparr>"
  "flags 0x58 = \<lparr>Err = False, Idx = False, Corr = False, Drq = True, Srv = True, Df = False, Rdy = True, Bsy = False\<rparr>"
  by code_simp+

lemma example_status_of: "status_of example_drive = example_status"
proof (rule ext)
  fix h
  have "(ucast (ucast v :: u16) :: u8) = v" for v
    by (rule bit_word_eqI) (auto simp: bit_simps dest: bit_imp_le_length)
  then show "status_of example_drive h = example_status h" by (simp add: status_of_def example_drive_def)
qed

lemma example_drive_works: "obeys example_drive [] example_start" "reports_no_error example_drive" "idle_drive example_start"
proof -
  have "3 \<le> example_polls (h @ replicate 3 (Inb 0x1F7))" for h by (simp add: example_polls_def numeral_3_eq_3)
  then have "example_status (h @ replicate 3 (Inb 0x1F7)) = 0x58" for h by (simp add: example_status_def not_less [symmetric])
  then have "status_of example_drive (h @ replicate 3 (Inb 0x1F7)) = 0x58" for h by (simp only: example_status_of)
  then have "answers example_drive (\<lambda>f. \<not> Bsy f) h" "answers example_drive Rdy h" for h
    unfolding answers_def status_of_def using example_flags by (metis StatusFlags.select_convs(7,8))+
  moreover have "flags (example_status h) = flags 0x80 \<or> flags (example_status h) = flags 0x58" for h
    by (simp add: example_status_def)
  then have "\<not> Bsy (flags (example_status h)) \<Longrightarrow> Drq (flags (example_status h))" "\<not> Err (flags (example_status h))" for h
    by (metis example_flags StatusFlags.select_convs)+
  moreover have "example_drive t 0x1F0 = dr_sectors s' l ! n"
    if "drive_run example_status [] example_start t = Some s'" "dr_transfer s' = Data_In l n" "dr_free s'" for t s' l n
    using that by (simp add: example_drive_def)
  ultimately show "obeys example_drive [] example_start" "reports_no_error example_drive"
    by (auto simp: obeys_def reports_no_error_def example_status_of Let_def)
  show "idle_drive example_start" by (simp add: idle_drive_def example_start_def)
qed

lemma sector_request: "can_serve boot_heap [0xC0001A90] (big_request (of_nat (round_up (unat (4 :: u32)) 512)))"
proof -
  have "big_request 512 = 528"
    by (simp add: big_request_def ALIGN_VAL_def CHUNK_SIZE_ALIGN_def SIZEOF_BIG_CHUNK_def)
  then show ?thesis by (simp add: round_up_def can_serve_def boot_heap_eq)
qed

theorem read_bytes_correct_witness:
  "\<exists>ok h' mm'. read_bytes example_drive (\<lambda>_ _. 0) (\<lambda>_. 0) example_device Primary [1, 2, 3, 4, 5] 1024 4 [] boot_heap
     = Some (Inr (ok, take 4 (word_bytes (replicate 256 0xABCD)) @ [5], h', mm'))"
proof -
  have pre: "dv_bus_type example_device = Primary" "(0 :: u32) < 4" "unat (4 :: u32) \<le> 2 ^ 30"
    "unat (4 :: u32) \<le> length [1, 2, 3, 4, 5 :: u8]" by (simp_all add: example_device_def)
  have "unat (1024 :: u32) mod 512 + unat (4 :: u32) \<le> round_up (unat (4 :: u32)) 512"
    "round_up (unat (4 :: u32)) 512 = 512" "unat (1024 :: u32) mod 512 = 0" by (simp_all add: round_up_def)
  then have "\<exists>ok h' mm'. read_bytes example_drive (\<lambda>_ _. 0) (\<lambda>_. 0) example_device Primary [1, 2, 3, 4, 5] 1024 4 [] boot_heap
     = Some (Inr (ok, take (unat (4 :: u32)) (drop 0 (word_bytes (dr_sectors example_start (unat (1024 :: u32) div 512))
         @ map (\<lambda>_. 0) [512..<512])) @ drop (unat (4 :: u32)) [1, 2, 3, 4, 5], h', mm'))"
    using read_bytes_correct [OF example_drive_works pre(1) boot_heap_wf(4) sector_request pre(2-4), of 1024 "\<lambda>_. 0" "\<lambda>_ _. 0"]
    unfolding Let_def by (metis (no_types, lifting))
  moreover have "unat (4 :: u32) = 4" "dr_sectors example_start l = replicate 256 0xABCD" for l
    by (simp_all add: example_start_def)
  ultimately show ?thesis by auto
qed

theorem write_bytes_patches_witness:
  "\<exists>ok t mm' s'. write_bytes example_drive (\<lambda>_ _. 0) (\<lambda>_. 0) example_device Primary [1, 2, 3, 4] 1026 4 [] boot_heap
      = Some (Inr (ok, t, mm'))
    \<and> drive_run example_status [] example_start t = Some s'
    \<and> take 8 (word_bytes (dr_sectors s' 2)) = [0xCD, 0xAB, 1, 2, 3, 4, 0xCD, 0xAB]"
proof -
  have pre: "dv_bus_type example_device = Primary" "(0 :: u32) < 4" "unat (1026 :: u32) mod 512 + unat (4 :: u32) \<le> 512"
    "unat (4 :: u32) \<le> length [1, 2, 3, 4 :: u8]" by (simp_all add: example_device_def)
  obtain ok t mm' s' ws where r: "write_bytes example_drive (\<lambda>_ _. 0) (\<lambda>_. 0) example_device Primary [1, 2, 3, 4] 1026 4 [] boot_heap
      = Some (Inr (ok, [] @ t, mm'))"
    "drive_run (status_of example_drive) [] example_start t = Some s'"
    "dr_sectors s' = (dr_sectors example_start)(unat (1026 :: u32) div 512 := ws)"
    "word_bytes ws = take (unat (1026 :: u32) mod 512) (word_bytes (dr_sectors example_start (unat (1026 :: u32) div 512)))
      @ take (unat (4 :: u32)) [1, 2, 3, 4]
      @ drop (unat (1026 :: u32) mod 512 + unat (4 :: u32)) (word_bytes (dr_sectors example_start (unat (1026 :: u32) div 512)))"
    using write_bytes_patches [OF example_drive_works pre(1) boot_heap_wf(4) sector_request pre(2-4), of "\<lambda>_ _. 0" "\<lambda>_. 0"]
    unfolding Let_def by blast
  have "(256 :: nat) = Suc (Suc (Suc (Suc 252)))" by simp
  then have bytes: "word_bytes (replicate 256 0xABCD) = [0xCD, 0xAB, 0xCD, 0xAB, 0xCD, 0xAB, 0xCD, 0xAB] @ word_bytes (replicate 252 0xABCD)"
    by (simp only: replicate_Suc) (simp add: word_bytes_def)
  have "dr_sectors example_start l = replicate 256 0xABCD" for l by (simp add: example_start_def)
  then have "take 8 (word_bytes ws) = [0xCD, 0xAB, 1, 2, 3, 4, 0xCD, 0xAB]"
    unfolding r(4) by (simp only: bytes) simp
  moreover have "dr_sectors s' 2 = ws" unfolding r(3) by simp
  ultimately show ?thesis using r(1,2) unfolding example_status_of by auto
qed

end
