(* ===== verification/Ext2.thy ===== *)
theory Ext2
  imports Kmm_Props Libc
begin

text \<open>
  The file system (\<^verbatim>\<open>ext2.cpp\<close>): its structures and their bytes on the disk, the super block, the
  block groups and the creation of files. The storage device the constructor is given reads and
  writes one sector per call, as the disk driver does whatever the count it is asked for (the file
  system asks for 0); the disk is its sectors. Objects come from the heap; \<open>junk\<close> is what a fresh
  array holds.
\<close>

section \<open>Structures\<close>

type_synonym u4 = "4 word"
type_synonym u2 = "2 word"
type_synonym u14 = "14 word"

definition EXT2_SECTOR_SIZE_BYTES :: u32 where "EXT2_SECTOR_SIZE_BYTES = 512"
definition EXT2_SIGN :: u16 where "EXT2_SIGN = 0xEF53"
definition FILENAME_LENGTH :: u32 where "FILENAME_LENGTH = 512"
definition MAX_FILES :: nat where "MAX_FILES = 1024"

datatype FsState = Clean | HasErrors
datatype ErrorHandleGuide = Ignore | RemountRO | Panic
datatype OsId = Linux | Gnu | Maxis | FreeBSD | Other

fun fs_state_value :: "FsState \<Rightarrow> u16" where
  "fs_state_value Clean = 0" | "fs_state_value HasErrors = 1"

fun err_value :: "ErrorHandleGuide \<Rightarrow> u16" where
  "err_value Ignore = 0" | "err_value RemountRO = 1" | "err_value Panic = 2"

fun os_id_value :: "OsId \<Rightarrow> u32" where
  "os_id_value Linux = 0" | "os_id_value Gnu = 1" | "os_id_value Maxis = 2" | "os_id_value FreeBSD = 3"
| "os_id_value Other = 4"

text \<open>The enumerations are kept as the numbers on the disk: a disk may hold any.\<close>

record SuperBlock =
  total_inodes :: u32
  total_blocks :: u32
  n_su_blocks :: u32
  unallocated_blocks :: u32
  unallocated_inodes :: u32
  sb_block :: u32
  block_size :: u32
  fragment_size :: u32
  group_block_size :: u32
  group_fragment_size :: u32
  group_inode_size :: u32
  last_mount_time :: u32
  last_written_time :: u32
  mount_since_last_ck :: u16
  n_mounts_before_ck :: u16
  ext2_sign :: u16
  fs_state :: u16
  err_handling :: u16
  version_minor :: u16
  last_ck_time :: u32
  forced_ck_interval :: u32
  os_id :: u32
  version_major :: u32
  uid_can_reserve :: u16
  gid_can_reserve :: u16

record BlockGroupDescriptor =
  block_bitmap_block :: u4
  inode_bitmap_block :: u4
  inode_table_start_block :: u4
  group_n_unalloc_blocks :: u2
  group_n_unalloc_inodes :: u2
  n_dirs_in_group :: u2
  bgd_unused :: u14

record Inode =
  type_permission :: u16
  user_id :: u16
  size_lower :: u16
  last_access_time :: u32
  creation_time :: u32
  last_mod_time :: u32
  deletion_time :: u32
  group_id :: u16
  n_hard_links :: u16
  n_disk_sectors :: u32
  inode_flags :: u32
  os_specific_1 :: u32
  block_ptrs :: "u32 list"
  indirect_ptr_1 :: u32
  indirect_ptr_2 :: u32
  indirect_ptr_3 :: u32
  generation_number :: u32
  extended_attr_blk :: u32
  file_size_upper :: u32
  fragment_block_addr :: u32
  os_specific_2 :: "u32 list"

definition SIZEOF_SUPER_BLOCK :: u32 where "SIZEOF_SUPER_BLOCK = 84"
definition SIZEOF_BLOCK_GROUP_DESCRIPTOR :: u32 where "SIZEOF_BLOCK_GROUP_DESCRIPTOR = 4"
definition SIZEOF_INODE :: u32 where "SIZEOF_INODE = 128"
definition SIZEOF_BLOCK_GROUP_TABLE :: u32 where "SIZEOF_BLOCK_GROUP_TABLE = 16"

section \<open>Bytes\<close>

definition le16 :: "u16 \<Rightarrow> u8 list" where "le16 w = [ucast w, ucast (drop_bit 8 w)]"

definition le32 :: "u32 \<Rightarrow> u8 list" where
  "le32 w = [ucast w, ucast (drop_bit 8 w), ucast (drop_bit 16 w), ucast (drop_bit 24 w)]"

definition get16 :: "u8 list \<Rightarrow> u16 \<times> u8 list" where
  "get16 bs = (ucast (bs ! 0) OR push_bit 8 (ucast (bs ! 1)), drop 2 bs)"

definition get32 :: "u8 list \<Rightarrow> u32 \<times> u8 list" where
  "get32 bs = (ucast (bs ! 0) OR push_bit 8 (ucast (bs ! 1)) OR push_bit 16 (ucast (bs ! 2)) OR push_bit 24 (ucast (bs ! 3)),
     drop 4 bs)"

definition super_block_bytes :: "SuperBlock \<Rightarrow> u8 list" where
  "super_block_bytes s =
     concat (map le32 [total_inodes s, total_blocks s, n_su_blocks s, unallocated_blocks s, unallocated_inodes s, sb_block s,
       block_size s, fragment_size s, group_block_size s, group_fragment_size s, group_inode_size s, last_mount_time s,
       last_written_time s])
     @ concat (map le16 [mount_since_last_ck s, n_mounts_before_ck s, ext2_sign s, fs_state s, err_handling s, version_minor s])
     @ concat (map le32 [last_ck_time s, forced_ck_interval s, os_id s, version_major s])
     @ concat (map le16 [uid_can_reserve s, gid_can_reserve s])"

definition super_block_of_bytes :: "u8 list \<Rightarrow> SuperBlock" where
  "super_block_of_bytes bs =
     (let (f0, bs) = get32 bs; (f1, bs) = get32 bs; (f2, bs) = get32 bs; (f3, bs) = get32 bs; (f4, bs) = get32 bs;
          (f5, bs) = get32 bs; (f6, bs) = get32 bs; (f7, bs) = get32 bs; (f8, bs) = get32 bs; (f9, bs) = get32 bs;
          (f10, bs) = get32 bs; (f11, bs) = get32 bs; (f12, bs) = get32 bs; (f13, bs) = get16 bs; (f14, bs) = get16 bs;
          (f15, bs) = get16 bs; (f16, bs) = get16 bs; (f17, bs) = get16 bs; (f18, bs) = get16 bs; (f19, bs) = get32 bs;
          (f20, bs) = get32 bs; (f21, bs) = get32 bs; (f22, bs) = get32 bs; (f23, bs) = get16 bs; (f24, bs) = get16 bs
      in \<lparr>total_inodes = f0, total_blocks = f1, n_su_blocks = f2, unallocated_blocks = f3, unallocated_inodes = f4,
          sb_block = f5, block_size = f6, fragment_size = f7, group_block_size = f8, group_fragment_size = f9,
          group_inode_size = f10, last_mount_time = f11, last_written_time = f12, mount_since_last_ck = f13,
          n_mounts_before_ck = f14, ext2_sign = f15, fs_state = f16, err_handling = f17, version_minor = f18,
          last_ck_time = f19, forced_ck_interval = f20, os_id = f21, version_major = f22, uid_can_reserve = f23,
          gid_can_reserve = f24\<rparr>)"

text \<open>The bit fields fill one word from its low end.\<close>

definition descriptor_word :: "BlockGroupDescriptor \<Rightarrow> u32" where
  "descriptor_word d = ucast (block_bitmap_block d) OR push_bit 4 (ucast (inode_bitmap_block d))
     OR push_bit 8 (ucast (inode_table_start_block d)) OR push_bit 12 (ucast (group_n_unalloc_blocks d))
     OR push_bit 14 (ucast (group_n_unalloc_inodes d)) OR push_bit 16 (ucast (n_dirs_in_group d))
     OR push_bit 18 (ucast (bgd_unused d))"

definition descriptor_of_word :: "u32 \<Rightarrow> BlockGroupDescriptor" where
  "descriptor_of_word w =
     \<lparr>block_bitmap_block = ucast w, inode_bitmap_block = ucast (drop_bit 4 w), inode_table_start_block = ucast (drop_bit 8 w),
      group_n_unalloc_blocks = ucast (drop_bit 12 w), group_n_unalloc_inodes = ucast (drop_bit 14 w),
      n_dirs_in_group = ucast (drop_bit 16 w), bgd_unused = ucast (drop_bit 18 w)\<rparr>"

definition inode_bytes :: "Inode \<Rightarrow> u8 list" where
  "inode_bytes i =
     concat (map le16 [type_permission i, user_id i, size_lower i, 0])
     @ concat (map le32 [last_access_time i, creation_time i, last_mod_time i, deletion_time i])
     @ concat (map le16 [group_id i, n_hard_links i])
     @ concat (map le32 ([n_disk_sectors i, inode_flags i, os_specific_1 i] @ block_ptrs i
         @ [indirect_ptr_1 i, indirect_ptr_2 i, indirect_ptr_3 i, generation_number i, extended_attr_blk i,
            file_size_upper i, fragment_block_addr i] @ os_specific_2 i))"

definition zero_inode :: Inode where
  "zero_inode = \<lparr>type_permission = 0, user_id = 0, size_lower = 0, last_access_time = 0, creation_time = 0,
     last_mod_time = 0, deletion_time = 0, group_id = 0, n_hard_links = 0, n_disk_sectors = 0, inode_flags = 0,
     os_specific_1 = 0, block_ptrs = replicate 12 0, indirect_ptr_1 = 0, indirect_ptr_2 = 0, indirect_ptr_3 = 0,
     generation_number = 0, extended_attr_blk = 0, file_size_upper = 0, fragment_block_addr = 0,
     os_specific_2 = replicate 3 0\<rparr>"

section \<open>The state\<close>

record FsDescriptor =
  fd_block_size :: u32
  fd_super_block_idx :: u32

record FileInode =
  fi_name :: "u8 list"
  fi_inode_idx :: u32

text \<open>The bitmaps of a table made by the creating branch are pointers nothing was stored in.\<close>

record BlockGroupTable =
  group_descriptor :: BlockGroupDescriptor
  block_bitmap :: "(u32 \<times> u8 list) option"
  inode_bitmap :: "(u32 \<times> u8 list) option"
  inode_table_block_size :: u8
  bg_read :: bool

datatype GetObjectOptions = NoCreate | CreateIfNotFound | ForceCreate

record ext2 =
  x_disk :: "u32 \<Rightarrow> u8 list"
  x_mm :: mm_state
  x_super :: SuperBlock
  x_buffer :: "u8 list"
  x_buffer_at :: u32
  x_sectors_per_block :: u32
  x_super_block_idx :: u32
  x_info :: FsDescriptor
  x_cache :: "FileInode list"

definition new_block :: "(u32 \<Rightarrow> u32 \<Rightarrow> u32) \<Rightarrow> u32 \<Rightarrow> ext2 \<Rightarrow> (u32 \<times> ext2) outcome" where
  "new_block pdiff n st =
     and_then (operator_new pdiff n (x_mm st)) (\<lambda>(p, mm).
       if p = 0 then Inl Null_Pointer else Inr (p, st\<lparr>x_mm := mm\<rparr>))"

definition delete_block :: "u32 \<Rightarrow> ext2 \<Rightarrow> ext2 outcome" where
  "delete_block p st = and_then (operator_delete p (x_mm st)) (\<lambda>mm. Inr (st\<lparr>x_mm := mm\<rparr>))"

text \<open>Division as the processor does it: by zero it raises an interrupt and starts over.\<close>

definition quotient :: "u32 \<Rightarrow> u32 \<Rightarrow> u32 outcome" where
  "quotient a b = (if b = 0 then Inl No_Return else Inr (a div b))"

definition remainder :: "u32 \<Rightarrow> u32 \<Rightarrow> u32 outcome" where
  "remainder a b = (if b = 0 then Inl No_Return else Inr (a mod b))"

definition BLOCK_TO_SECTOR :: "u32 \<Rightarrow> u32 \<Rightarrow> u32" where
  "BLOCK_TO_SECTOR block bsize = block * (bsize div EXT2_SECTOR_SIZE_BYTES)"

definition ZERO_BUFFER :: "u8 list \<Rightarrow> u32 \<Rightarrow> u8 list outcome" where
  "ZERO_BUFFER buffer sz = memset buffer 0 sz"

definition BYTES_TO_BLOCKS :: "ext2 \<Rightarrow> u32 \<Rightarrow> u32 outcome" where
  "BYTES_TO_BLOCKS st bytes = quotient bytes (block_size (x_super st))"

definition INODE_IDX_TO_BLOCK_GROUP :: "ext2 \<Rightarrow> u32 \<Rightarrow> u32 outcome" where
  "INODE_IDX_TO_BLOCK_GROUP st idx =
     and_then (quotient (idx - 1) (group_inode_size (x_super st))) (\<lambda>q. Inr (q + x_super_block_idx st + 1))"

definition INODE_IDX_IN_BLOCK_GROUP :: "ext2 \<Rightarrow> u32 \<Rightarrow> u32 outcome" where
  "INODE_IDX_IN_BLOCK_GROUP st idx = remainder (idx - 1) (group_inode_size (x_super st))"

definition INODE_IDX_CONTAINING_BLOCK :: "ext2 \<Rightarrow> u32 \<Rightarrow> u32 outcome" where
  "INODE_IDX_CONTAINING_BLOCK st idx = quotient (idx * SIZEOF_INODE) (block_size (x_super st))"

section \<open>Blocks\<close>

definition store_bytes :: "u8 list \<Rightarrow> nat \<Rightarrow> u8 list \<Rightarrow> u8 list outcome" where
  "store_bytes buf off bs =
     (if off + length bs \<le> length buf then Inr (take off buf @ bs @ drop (off + length bs) buf) else Inl Out_Of_Bounds)"

definition load_bytes :: "u8 list \<Rightarrow> nat \<Rightarrow> nat \<Rightarrow> u8 list outcome" where
  "load_bytes buf off n = (if off + n \<le> length buf then Inr (take n (drop off buf)) else Inl Out_Of_Bounds)"

fun read_sectors :: "(u32 \<Rightarrow> u8 list) \<Rightarrow> u32 \<Rightarrow> nat list \<Rightarrow> u8 list \<Rightarrow> u8 list outcome" where
  "read_sectors disk sector_start [] buffer = Inr buffer"
| "read_sectors disk sector_start (i # is) buffer =
     and_then (store_bytes buffer (i * 512) (disk (sector_start + of_nat i))) (read_sectors disk sector_start is)"

fun write_sectors :: "u8 list \<Rightarrow> u32 \<Rightarrow> nat list \<Rightarrow> (u32 \<Rightarrow> u8 list) \<Rightarrow> (u32 \<Rightarrow> u8 list) outcome" where
  "write_sectors buffer sector_start [] disk = Inr disk"
| "write_sectors buffer sector_start (i # is) disk =
     and_then (load_bytes buffer (i * 512) 512) (\<lambda>bs.
       write_sectors buffer sector_start is (disk(sector_start + of_nat i := bs)))"

definition read_storage :: "u8 list \<Rightarrow> u32 \<Rightarrow> u32 \<Rightarrow> ext2 \<Rightarrow> u8 list outcome" where
  "read_storage buffer block n_blocks st =
     (let n_sectors = x_sectors_per_block st * n_blocks;
          sector_start = BLOCK_TO_SECTOR block (fd_block_size (x_info st))
      in read_sectors (x_disk st) sector_start [0..<unat n_sectors] buffer)"

definition write_storage :: "u8 list \<Rightarrow> u32 \<Rightarrow> u32 \<Rightarrow> ext2 \<Rightarrow> ext2 outcome" where
  "write_storage buffer block n_blocks st =
     (let n_sectors = x_sectors_per_block st * n_blocks;
          sector_start = BLOCK_TO_SECTOR block (fd_block_size (x_info st))
      in and_then (write_sectors buffer sector_start [0..<unat n_sectors] (x_disk st)) (\<lambda>disk.
           Inr (st\<lparr>x_disk := disk\<rparr>)))"

definition write_object_to_block :: "u8 list \<Rightarrow> u32 \<Rightarrow> u32 \<Rightarrow> ext2 \<Rightarrow> ext2 outcome" where
  "write_object_to_block obj block obj_size st =
     and_then (ZERO_BUFFER (x_buffer st) (fd_block_size (x_info st))) (\<lambda>b.
     and_then (memcpy b obj obj_size) (\<lambda>b. write_storage b block 1 (st\<lparr>x_buffer := b\<rparr>)))"

definition read_object_from_block :: "u32 \<Rightarrow> u32 \<Rightarrow> ext2 \<Rightarrow> (u8 list \<times> ext2) outcome" where
  "read_object_from_block block obj_size st =
     and_then (ZERO_BUFFER (x_buffer st) (fd_block_size (x_info st))) (\<lambda>b.
     and_then (read_storage b block 1 st) (\<lambda>b.
     and_then (memcpy (replicate (unat obj_size) 0) b obj_size) (\<lambda>obj. Inr (obj, st\<lparr>x_buffer := b\<rparr>))))"

definition zero_block :: "u32 \<Rightarrow> ext2 \<Rightarrow> ext2 outcome" where
  "zero_block block st =
     and_then (ZERO_BUFFER (x_buffer st) (fd_block_size (x_info st))) (\<lambda>b. write_storage b block 1 (st\<lparr>x_buffer := b\<rparr>))"

section \<open>The super block\<close>

definition fresh_super_block :: "u32 \<Rightarrow> FsDescriptor \<Rightarrow> SuperBlock" where
  "fresh_super_block sb_block_idx descriptor =
     \<lparr>total_inodes = 0, total_blocks = 0, n_su_blocks = 0, unallocated_blocks = 0, unallocated_inodes = 0,
      sb_block = sb_block_idx, block_size = fd_block_size descriptor, fragment_size = - 1,
      group_block_size = fd_block_size descriptor, group_fragment_size = - 1,
      group_inode_size = fd_block_size descriptor, last_mount_time = - 1, last_written_time = - 1,
      mount_since_last_ck = - 1, n_mounts_before_ck = - 1, ext2_sign = EXT2_SIGN, fs_state = fs_state_value Clean,
      err_handling = err_value Panic, version_minor = 0x69, last_ck_time = - 1, forced_ck_interval = - 1,
      os_id = os_id_value Other, version_major = 0x420, uid_can_reserve = - 1, gid_can_reserve = - 1\<rparr>"

definition create_super_block :: "u32 \<Rightarrow> FsDescriptor option \<Rightarrow> ext2 \<Rightarrow> (SuperBlock \<times> ext2) outcome" where
  "create_super_block sb_block_idx descriptor st =
     (case descriptor of
        None \<Rightarrow> Inl Assertion_Failed
      | Some d \<Rightarrow>
          (let super_block = fresh_super_block sb_block_idx d
           in and_then (write_object_to_block (super_block_bytes super_block) 1 SIZEOF_SUPER_BLOCK st) (\<lambda>st.
                Inr (super_block, st))))"

definition get_super_block ::
    "u32 \<Rightarrow> GetObjectOptions \<Rightarrow> FsDescriptor option \<Rightarrow> ext2 \<Rightarrow> (SuperBlock \<times> ext2) outcome" where
  "get_super_block sb_block_idx opt descriptor st =
     (if opt = ForceCreate then create_super_block sb_block_idx descriptor st
      else and_then (read_object_from_block 1 SIZEOF_SUPER_BLOCK st) (\<lambda>(bs, st).
             let super_block = super_block_of_bytes bs
             in if opt = NoCreate
                then if ext2_sign super_block \<noteq> 0 then Inr (super_block, st) else Inl Assertion_Failed
                else create_super_block sb_block_idx descriptor st))"

section \<open>Block groups\<close>

definition create_block_group ::
    "(u32 \<Rightarrow> u32 \<Rightarrow> u32) \<Rightarrow> BlockGroupTable \<Rightarrow> u32 \<Rightarrow> ext2 \<Rightarrow> (u32 \<times> BlockGroupTable \<times> ext2) outcome" where
  "create_block_group pdiff bg_junk block_idx st =
     and_then (new_block pdiff SIZEOF_BLOCK_GROUP_TABLE st) (\<lambda>(p, st).
       let d = (group_descriptor bg_junk)\<lparr>block_bitmap_block := ucast (block_idx + 1),
                 inode_bitmap_block := ucast (block_idx + 2), inode_table_start_block := ucast (block_idx + 3),
                 group_n_unalloc_blocks := ucast (fd_block_size (x_info st)),
                 group_n_unalloc_inodes := ucast (fd_block_size (x_info st)), n_dirs_in_group := 0\<rparr>;
           bg = bg_junk\<lparr>group_descriptor := d, block_bitmap := None, inode_bitmap := None, bg_read := False\<rparr>
       in and_then (write_object_to_block (le32 (descriptor_word d)) block_idx SIZEOF_BLOCK_GROUP_DESCRIPTOR st) (\<lambda>st.
          and_then (zero_block (ucast (block_bitmap_block d)) st) (\<lambda>st.
          and_then (zero_block (ucast (inode_bitmap_block d)) st) (\<lambda>st.
          and_then (zero_block (ucast (inode_table_start_block d)) st) (\<lambda>st. Inr (p, bg, st))))))"

definition read_bitmap ::
    "(u32 \<Rightarrow> u32 \<Rightarrow> u32) \<Rightarrow> (nat \<Rightarrow> u8) \<Rightarrow> u32 \<Rightarrow> ext2 \<Rightarrow> u8 list outcome" where
  "read_bitmap pdiff junk block st = read_storage (map junk [0..<unat (fd_block_size (x_info st))]) block 1 st"

definition get_block_group ::
    "(u32 \<Rightarrow> u32 \<Rightarrow> u32) \<Rightarrow> (nat \<Rightarrow> u8) \<Rightarrow> BlockGroupTable \<Rightarrow> u32 \<Rightarrow> GetObjectOptions \<Rightarrow> ext2
     \<Rightarrow> (u32 \<times> BlockGroupTable \<times> ext2) outcome" where
  "get_block_group pdiff junk bg_junk block_idx opt st =
     (if opt = ForceCreate then create_block_group pdiff bg_junk block_idx st
      else
        and_then (new_block pdiff SIZEOF_BLOCK_GROUP_TABLE st) (\<lambda>(p, st).
        and_then (read_object_from_block block_idx SIZEOF_BLOCK_GROUP_DESCRIPTOR st) (\<lambda>(bs, st).
          let d = descriptor_of_word (fst (get32 bs));
              bg = bg_junk\<lparr>group_descriptor := d, block_bitmap := None, inode_bitmap := None, bg_read := True\<rparr>
          in if opt = NoCreate \<and> (block_bitmap_block d = 0 \<or> inode_bitmap_block d = 0) then Inl Assertion_Failed
             else and_then (if opt = CreateIfNotFound \<and> (block_bitmap_block d = 0 \<or> inode_bitmap_block d = 0)
                            then create_block_group pdiff bg_junk block_idx st
                            else Inr (p, bg, st)) (\<lambda>(p, bg, st).
                  and_then (new_block pdiff (fd_block_size (x_info st)) st) (\<lambda>(p1, st).
                  and_then (new_block pdiff (fd_block_size (x_info st)) st) (\<lambda>(p2, st).
                  and_then (read_bitmap pdiff junk (ucast (block_bitmap_block (group_descriptor bg))) st) (\<lambda>bm.
                  and_then (read_bitmap pdiff junk (ucast (inode_bitmap_block (group_descriptor bg))) st) (\<lambda>im.
                  and_then (quotient (group_inode_size (x_super st) * SIZEOF_INODE) (fd_block_size (x_info st))) (\<lambda>n.
                    Inr (p, bg\<lparr>block_bitmap := Some (p1, bm), inode_bitmap := Some (p2, im),
                               inode_table_block_size := ucast n\<rparr>, st)))))))))) "

definition delete_block_group :: "u32 \<Rightarrow> BlockGroupTable \<Rightarrow> ext2 \<Rightarrow> ext2 outcome" where
  "delete_block_group p bg st =
     and_then (if bg_read bg
               then and_then (case block_bitmap bg of None \<Rightarrow> Inl Uninitialised | Some (q, _) \<Rightarrow> delete_block q st)
                      (\<lambda>st. case inode_bitmap bg of None \<Rightarrow> Inl Uninitialised | Some (q, _) \<Rightarrow> delete_block q st)
               else Inr st) (delete_block p)"

definition bitmap_bytes :: "(u32 \<times> u8 list) option \<Rightarrow> u8 list outcome" where
  "bitmap_bytes b = (case b of None \<Rightarrow> Inl Uninitialised | Some (_, bs) \<Rightarrow> Inr bs)"

text \<open>Where an inode goes: the block within the inode table and the offset within the block.\<close>

definition inode_slot :: "ext2 \<Rightarrow> u32 \<Rightarrow> (u32 \<times> u32) outcome" where
  "inode_slot st inode_idx =
     and_then (INODE_IDX_CONTAINING_BLOCK st inode_idx) (\<lambda>k. Inr (k, SIZEOF_INODE * (inode_idx mod 4)))"

definition write_block_group :: "BlockGroupTable \<Rightarrow> u32 \<Rightarrow> Inode \<Rightarrow> u32 \<Rightarrow> ext2 \<Rightarrow> ext2 outcome" where
  "write_block_group bg block_idx inode inode_idx st =
     (let d = group_descriptor bg
      in and_then (write_object_to_block (le32 (descriptor_word d)) block_idx SIZEOF_BLOCK_GROUP_DESCRIPTOR st) (\<lambda>st.
         and_then (bitmap_bytes (block_bitmap bg)) (\<lambda>bm.
         and_then (BYTES_TO_BLOCKS st (fd_block_size (x_info st))) (\<lambda>n.
         and_then (write_storage bm (ucast (block_bitmap_block d)) n st) (\<lambda>st.
         and_then (bitmap_bytes (inode_bitmap bg)) (\<lambda>im.
         and_then (write_storage im (ucast (inode_bitmap_block d)) n st) (\<lambda>st.
         and_then (inode_slot st inode_idx) (\<lambda>(k, offset).
           let inode_block = ucast (inode_table_start_block d) + k
           in and_then (read_storage (x_buffer st) inode_block 1 st) (\<lambda>b.
              and_then (store_bytes b (unat offset) (replicate 128 0)) (\<lambda>b.
              and_then (store_bytes b (unat offset) (inode_bytes inode)) (\<lambda>b.
                write_storage b inode_block 1 (st\<lparr>x_buffer := b\<rparr>)))))))))))) "

section \<open>The file system\<close>

fun available_from :: "nat \<Rightarrow> FileInode list \<Rightarrow> u32" where
  "available_from i [] = - 1"
| "available_from i (f # fs) = (if fi_inode_idx f = 0 then of_nat i + 1 else available_from (Suc i) fs)"

definition get_available_inode_idx :: "ext2 \<Rightarrow> u32" where
  "get_available_inode_idx st = available_from 0 (take MAX_FILES (x_cache st))"

definition empty_file :: FileInode where "empty_file = \<lparr>fi_name = replicate 256 0, fi_inode_idx = 0\<rparr>"

definition set_file :: "nat \<Rightarrow> u32 \<Rightarrow> u8 list \<Rightarrow> u32 \<Rightarrow> ext2 \<Rightarrow> ext2 outcome" where
  "set_file i inode_idx name n st =
     and_then (load_at (x_cache st) i) (\<lambda>f.
     and_then (memcpy (fi_name f) name n) (\<lambda>nm.
     and_then (store_at (x_cache st) i (f\<lparr>fi_inode_idx := inode_idx, fi_name := nm\<rparr>)) (\<lambda>c.
       Inr (st\<lparr>x_cache := c\<rparr>))))"

text \<open>\<open>new_storage\<close> is the compile-time option \<^verbatim>\<open>K_NEW_STORAGE\<close>.\<close>

definition Fs_new ::
    "bool \<Rightarrow> (u32 \<Rightarrow> u32 \<Rightarrow> u32) \<Rightarrow> (nat \<Rightarrow> u8) \<Rightarrow> BlockGroupTable \<Rightarrow> FsDescriptor \<Rightarrow> ext2 \<Rightarrow> ext2 outcome" where
  "Fs_new new_storage pdiff junk bg_junk descriptor st =
     (if fd_block_size descriptor mod EXT2_SECTOR_SIZE_BYTES \<noteq> 0 then Inl Assertion_Failed
      else
        and_then (new_block pdiff (fd_block_size descriptor) (st\<lparr>x_info := descriptor\<rparr>)) (\<lambda>(p, st).
          let st = st\<lparr>x_buffer := map junk [0..<unat (fd_block_size descriptor)], x_buffer_at := p,
                      x_cache := replicate MAX_FILES empty_file,
                      x_sectors_per_block := fd_block_size descriptor div EXT2_SECTOR_SIZE_BYTES,
                      x_super_block_idx := fd_super_block_idx descriptor\<rparr>;
              opts = (if new_storage then ForceCreate else CreateIfNotFound)
          in and_then (get_super_block (x_super_block_idx st) opts (Some descriptor) st) (\<lambda>(sb, st).
             let st = st\<lparr>x_super := sb\<rparr>
             in and_then (get_block_group pdiff junk bg_junk (x_super_block_idx st + 1) opts st) (\<lambda>(q, bg, st).
                and_then (set_file 0 1 (map of_char (''root'' @ [NUL])) 5 st) (\<lambda>st.
                  delete_block_group q bg st)))))"

definition CreateFile ::
    "(u32 \<Rightarrow> u32 \<Rightarrow> u32) \<Rightarrow> (nat \<Rightarrow> u8) \<Rightarrow> BlockGroupTable \<Rightarrow> char list \<Rightarrow> ext2 \<Rightarrow> ext2 outcome" where
  "CreateFile pdiff junk bg_junk filename st =
     (let inode_idx = get_available_inode_idx st
      in and_then (strlen filename) (\<lambda>file_name_len.
           if inode_idx = - 1 then Inl Assertion_Failed
           else if \<not> file_name_len < FILENAME_LENGTH then Inl Assertion_Failed
           else and_then (INODE_IDX_TO_BLOCK_GROUP st inode_idx) (\<lambda>bg_idx.
                and_then (get_block_group pdiff junk bg_junk bg_idx CreateIfNotFound st) (\<lambda>(_, bg, st).
                and_then (INODE_IDX_IN_BLOCK_GROUP st inode_idx) (\<lambda>k.
                and_then (case inode_bitmap bg of
                            None \<Rightarrow> Inl Uninitialised
                          | Some (q, bs) \<Rightarrow> and_then (store_at bs (unat k) 1) (\<lambda>bs. Inr (bg\<lparr>inode_bitmap := Some (q, bs)\<rparr>))) (\<lambda>bg.
                and_then (set_file (unat (inode_idx - 1)) inode_idx (map of_char filename) file_name_len st) (\<lambda>st.
                  write_block_group bg bg_idx (zero_inode\<lparr>os_specific_1 := 0x9999\<rparr>) inode_idx st)))))))"

definition DeleteFile :: "char list \<Rightarrow> ext2 \<Rightarrow> ext2" where "DeleteFile filename st = st"

definition Fs_destroy :: "ext2 \<Rightarrow> ext2 outcome" where "Fs_destroy st = delete_block (x_buffer_at st) st"

section \<open>Facts\<close>

text \<open>A file system on a disk of whole sectors, and the sectors of a block.\<close>

definition sectors :: "ext2 \<Rightarrow> nat" where "sectors st = unat (x_sectors_per_block st)"

definition fs_ok :: "ext2 \<Rightarrow> bool" where
  "fs_ok st \<longleftrightarrow> 0 < sectors st \<and> unat (fd_block_size (x_info st)) = sectors st * 512
     \<and> length (x_buffer st) = sectors st * 512 \<and> (\<forall>s. length (x_disk st s) = 512)"

definition on_disk :: "ext2 \<Rightarrow> u32 \<Rightarrow> bool" where
  "on_disk st block \<longleftrightarrow> (unat block + 1) * sectors st < 2 ^ 32"

definition block_sector :: "ext2 \<Rightarrow> u32 \<Rightarrow> nat \<Rightarrow> u32" where
  "block_sector st block i = of_nat (unat block * sectors st + i)"

definition block_of :: "ext2 \<Rightarrow> u32 \<Rightarrow> u8 list" where
  "block_of st block = concat (map (\<lambda>i. x_disk st (block_sector st block i)) [0..<sectors st])"

definition set_block :: "u32 \<Rightarrow> u8 list \<Rightarrow> ext2 \<Rightarrow> ext2" where
  "set_block block bs st = st\<lparr>x_disk := (\<lambda>s.
     if unat block * sectors st \<le> unat s \<and> unat s < (unat block + 1) * sectors st
     then take 512 (drop ((unat s - unat block * sectors st) * 512) bs) else x_disk st s)\<rparr>"

lemma read_sectors_eq:
  assumes "\<forall>s. length (disk s) = 512" and "n * 512 \<le> length buf"
  shows "read_sectors disk start [0..<n] buf = Inr (concat (map (\<lambda>i. disk (start + of_nat i)) [0..<n]) @ drop (n * 512) buf)"
proof -
  have "read_sectors disk start [k..<n] (concat (map (\<lambda>i. disk (start + of_nat i)) [0..<k]) @ drop (k * 512) buf)
      = Inr (concat (map (\<lambda>i. disk (start + of_nat i)) [0..<n]) @ drop (n * 512) buf)" if "k \<le> n" for k
    using that
  proof (induction "n - k" arbitrary: k)
    case (Suc m)
    then have k: "k < n" "m = n - Suc k" by simp_all
    have len: "length (concat (map (\<lambda>i. disk (start + of_nat i)) [0..<k])) = k * 512"
      using assms(1) by (simp add: length_concat comp_def sum_list_triv)
    have "store_bytes (concat (map (\<lambda>i. disk (start + of_nat i)) [0..<k]) @ drop (k * 512) buf) (k * 512) (disk (start + of_nat k))
        = Inr (concat (map (\<lambda>i. disk (start + of_nat i)) [0..<Suc k]) @ drop (Suc k * 512) buf)"
      using assms k(1) len by (simp add: store_bytes_def add.commute)
    then show ?case using Suc.hyps(1) [of "Suc k"] k by (simp add: upt_conv_Cons)
  qed simp
  from this [of 0] show ?thesis by simp
qed

lemma write_sectors_eq:
  assumes "n * 512 \<le> length buf" and "n < 2 ^ 32"
  shows "write_sectors buf start [0..<n] disk =
    Inr (\<lambda>s. if unat (s - start) < n then take 512 (drop (unat (s - start) * 512) buf) else disk s)"
proof -
  have "write_sectors buf start [k..<n] disk =
    Inr (\<lambda>s. if k \<le> unat (s - start) \<and> unat (s - start) < n then take 512 (drop (unat (s - start) * 512) buf) else disk s)"
    if "k \<le> n" for k disk
    using that
  proof (induction "n - k" arbitrary: k disk)
    case (Suc m)
    then have k: "k < n" "m = n - Suc k" by simp_all
    have at: "(s = start + of_nat k) = (unat (s - start) = k)" for s
    proof -
      have "(s - start = of_nat k) = (unat (s - start) = k)"
        using k assms(2) unat_of_nat_no_wrap [of k, where 'a = 32] by (auto simp: word_unat_eq_iff)
      then show ?thesis by (metis add_diff_cancel_left' diff_add_cancel add.commute)
    qed
    have "(disk(start + of_nat k := take 512 (drop (k * 512) buf))) s
        = (if unat (s - start) = k then take 512 (drop (k * 512) buf) else disk s)" for s
      using at by simp
    then show ?case
      using Suc.hyps(1) [of "Suc k" "disk(start + of_nat k := take 512 (drop (k * 512) buf))"] k assms(1)
      by (auto simp: upt_conv_Cons load_bytes_def fun_eq_iff)
  qed (auto simp: fun_eq_iff)
  from this [of 0] show ?thesis by simp
qed

lemma fs_ok_sectors:
  assumes "fs_ok st"
  shows "BLOCK_TO_SECTOR block (fd_block_size (x_info st)) = of_nat (unat block * sectors st)"
    and "unat (x_sectors_per_block st * 1) = sectors st" and "sectors st < 2 ^ 32"
proof -
  have "fd_block_size (x_info st) div 512 = of_nat (sectors st)"
    using assms unfolding fs_ok_def by (simp add: word_unat_eq_iff unat_div flip: unat_of_nat_no_wrap) (simp add: sectors_def)
  then show "BLOCK_TO_SECTOR block (fd_block_size (x_info st)) = of_nat (unat block * sectors st)"
    by (simp add: BLOCK_TO_SECTOR_def EXT2_SECTOR_SIZE_BYTES_def)
  show "unat (x_sectors_per_block st * 1) = sectors st" by (simp add: sectors_def)
  show "sectors st < 2 ^ 32" using unat_u32_less [of "x_sectors_per_block st"] by (simp add: sectors_def)
qed

lemma read_storage_block:
  assumes "fs_ok st" and "sectors st * 512 \<le> length buf"
  shows "read_storage buf block 1 st = Inr (block_of st block @ drop (sectors st * 512) buf)"
  using read_sectors_eq [of "x_disk st" "sectors st" buf] assms fs_ok_sectors [OF assms(1)]
  by (simp add: read_storage_def Let_def fs_ok_def block_of_def block_sector_def)

lemma write_storage_block:
  assumes "fs_ok st" and "on_disk st block" and "sectors st * 512 \<le> length buf"
  shows "write_storage buf block 1 st = Inr (set_block block buf st)"
proof -
  let ?b = "unat block * sectors st"
  have lim: "?b + sectors st < 2 ^ 32" using assms(2) by (simp add: on_disk_def)
  then have start: "unat (of_nat ?b :: u32) = ?b" by (intro unat_of_nat_no_wrap) simp
  have near: "(unat (s - of_nat ?b) < sectors st) = (?b \<le> unat s \<and> unat s < (unat block + 1) * sectors st)"
    and off: "?b \<le> unat s \<Longrightarrow> unat (s - of_nat ?b) = unat s - ?b" for s :: u32
  proof -
    show off: "?b \<le> unat s \<Longrightarrow> unat (s - of_nat ?b) = unat s - ?b"
      using start by (intro unat_minus_no_wrap [THEN trans]) simp_all
    have "unat (s - of_nat ?b) = 2 ^ 32 + unat s - ?b" if "\<not> ?b \<le> unat s"
      using that start lim by (simp add: unat_sub_if')
    then show "(unat (s - of_nat ?b) < sectors st) = (?b \<le> unat s \<and> unat s < (unat block + 1) * sectors st)"
      using off lim by (cases "?b \<le> unat s") auto
  qed
  have "write_storage buf block 1 st = Inr (st\<lparr>x_disk := (\<lambda>s. if unat (s - of_nat ?b) < sectors st
      then take 512 (drop (unat (s - of_nat ?b) * 512) buf) else x_disk st s)\<rparr>)"
    using write_sectors_eq [of "sectors st" buf "of_nat ?b" "x_disk st"] assms(3) fs_ok_sectors [OF assms(1)]
    by (simp add: write_storage_def Let_def)
  also have "(\<lambda>s. if unat (s - of_nat ?b) < sectors st then take 512 (drop (unat (s - of_nat ?b) * 512) buf) else x_disk st s)
      = (\<lambda>s. if ?b \<le> unat s \<and> unat s < (unat block + 1) * sectors st
             then take 512 (drop ((unat s - ?b) * 512) buf) else x_disk st s)"
    using near off by (intro ext) auto
  finally show ?thesis by (simp add: set_block_def)
qed

lemma set_block_fields [simp]:
  "sectors (set_block block bs st) = sectors st" "x_info (set_block block bs st) = x_info st"
  "x_buffer (set_block block bs st) = x_buffer st" "x_super (set_block block bs st) = x_super st"
  "x_cache (set_block block bs st) = x_cache st" "x_mm (set_block block bs st) = x_mm st"
  "on_disk (set_block block bs st) = on_disk st"
  by (simp_all add: set_block_def sectors_def on_disk_def fun_eq_iff)

lemma block_of_set_block:
  assumes "fs_ok st" and "on_disk st block" and "on_disk st block'" and "length bs = sectors st * 512"
  shows "block_of (set_block block bs st) block' = (if block' = block then bs else block_of st block')"
    and "fs_ok (set_block block bs st)"
proof -
  let ?n = "sectors st"
  have "unat block' * ?n + ?n < 2 ^ 32" using assms(3) by (simp add: on_disk_def)
  then have at: "unat (block_sector st block' i) = unat block' * ?n + i" if "i < ?n" for i
    using that unfolding block_sector_def by (intro unat_of_nat_no_wrap) simp
  have sector: "x_disk (set_block block bs st) (block_sector st block' i) =
      (if block' = block then take 512 (drop (i * 512) bs) else x_disk st (block_sector st block' i))" if "i < ?n" for i
  proof -
    have "(unat block * ?n \<le> unat block' * ?n + i \<and> unat block' * ?n + i < (unat block + 1) * ?n) = (block' = block)"
    proof (cases "block' = block")
      case False
      then consider "unat block + 1 \<le> unat block'" | "unat block' + 1 \<le> unat block"
        by (metis Suc_eq_plus1 Suc_leI linorder_neqE_nat word_unat_eq_iff)
      then show ?thesis
      proof cases
        case 1
        then have "(unat block + 1) * ?n \<le> unat block' * ?n" by (rule mult_le_mono1)
        then show ?thesis using False by simp
      next
        case 2
        then have "(unat block' + 1) * ?n \<le> unat block * ?n" by (rule mult_le_mono1)
        then show ?thesis using False that by simp
      qed
    qed (use that in simp)

    then show ?thesis using at [OF that] by (auto simp: set_block_def)
  qed
  have "concat (map (\<lambda>i. take 512 (drop (i * 512) bs)) [0..<m]) = take (m * 512) bs" for m
    by (induction m) (simp_all add: add.commute flip: take_add)
  then have whole: "concat (map (\<lambda>i. take 512 (drop (i * 512) bs)) [0..<?n]) = bs" using assms(4) by simp
  have same: "block_sector (set_block block bs st) = block_sector st" by (simp add: block_sector_def fun_eq_iff)
  show "block_of (set_block block bs st) block' = (if block' = block then bs else block_of st block')"
  proof -
    have "map (\<lambda>i. x_disk (set_block block bs st) (block_sector st block' i)) [0..<?n] =
        map (\<lambda>i. if block' = block then take 512 (drop (i * 512) bs) else x_disk st (block_sector st block' i)) [0..<?n]"
      by (intro map_cong) (simp_all add: sector)
    then have "block_of (set_block block bs st) block' = concat (map (\<lambda>i. if block' = block
        then take 512 (drop (i * 512) bs) else x_disk st (block_sector st block' i)) [0..<?n])"
      by (simp only: block_of_def same set_block_fields)
    then show ?thesis using whole by (cases "block' = block") (simp_all add: block_of_def)
  qed
  show "fs_ok (set_block block bs st)"
    using assms(1,4) by (auto simp: fs_ok_def sectors_def set_block_def)
qed

lemma block_of_length: "fs_ok st \<Longrightarrow> length (block_of st block) = sectors st * 512"
  by (simp add: block_of_def fs_ok_def length_concat comp_def sum_list_triv)

lemma fs_ok_buffer: "fs_ok st \<Longrightarrow> length b = sectors st * 512 \<Longrightarrow> fs_ok (st\<lparr>x_buffer := b\<rparr>)"
  by (simp add: fs_ok_def sectors_def)

lemma buffer_fields [simp]:
  "sectors (st\<lparr>x_buffer := b\<rparr>) = sectors st" "on_disk (st\<lparr>x_buffer := b\<rparr>) = on_disk st"
  "block_of (st\<lparr>x_buffer := b\<rparr>) = block_of st"
  by (simp_all add: sectors_def on_disk_def block_of_def block_sector_def fun_eq_iff)

lemma zeroed_buffer:
  assumes "fs_ok st"
  shows "ZERO_BUFFER (x_buffer st) (fd_block_size (x_info st)) = Inr (replicate (sectors st * 512) 0)"
  using assms by (simp add: ZERO_BUFFER_def memset_eq fs_ok_def)

definition padded :: "u8 list \<Rightarrow> ext2 \<Rightarrow> u8 list" where
  "padded obj st = obj @ replicate (sectors st * 512 - length obj) 0"

lemma write_object_block:
  assumes "fs_ok st" and "on_disk st block" and "length obj = unat n" and "unat n \<le> 512"
  shows "write_object_to_block obj block n st = Inr (set_block block (padded obj st) (st\<lparr>x_buffer := padded obj st\<rparr>))"
    and "length (padded obj st) = sectors st * 512"
proof -
  have "0 < sectors st" using assms(1) by (simp add: fs_ok_def)
  then have n: "length obj \<le> sectors st * 512" using assms(3,4) by (cases "sectors st") auto
  then show len: "length (padded obj st) = sectors st * 512" by (simp add: padded_def)
  have "memcpy (replicate (sectors st * 512) 0) obj n = Inr (padded obj st)"
    using n assms(3) by (simp add: memcpy_eq padded_def)
  moreover have "write_storage (padded obj st) block 1 (st\<lparr>x_buffer := padded obj st\<rparr>)
      = Inr (set_block block (padded obj st) (st\<lparr>x_buffer := padded obj st\<rparr>))"
    using write_storage_block [OF fs_ok_buffer [OF assms(1) len], of block "padded obj st"] assms(2) len by simp
  ultimately show "write_object_to_block obj block n st = Inr (set_block block (padded obj st) (st\<lparr>x_buffer := padded obj st\<rparr>))"
    by (simp add: write_object_to_block_def zeroed_buffer [OF assms(1)])
qed

lemma read_object_block:
  assumes "fs_ok st" and "unat n \<le> 512"
  shows "read_object_from_block block n st = Inr (take (unat n) (block_of st block), st\<lparr>x_buffer := block_of st block\<rparr>)"
proof -
  have "0 < sectors st" using assms(1) by (simp add: fs_ok_def)
  then have n: "unat n \<le> sectors st * 512" using assms(2) by (cases "sectors st") auto
  have "read_storage (replicate (sectors st * 512) 0) block 1 st = Inr (block_of st block)"
    using read_storage_block [OF assms(1), of "replicate (sectors st * 512) 0" block] by simp
  then show ?thesis
    using n block_of_length [OF assms(1), of block]
    by (simp add: read_object_from_block_def zeroed_buffer [OF assms(1)] memcpy_eq)
qed

text \<open>Bytes and words.\<close>

lemma get16_le16 [simp]: "get16 (le16 w @ bs) = (w, bs)"
proof -
  have "ucast (ucast w :: u8) OR push_bit 8 (ucast (ucast (drop_bit 8 w) :: u8)) = w"
  proof (rule bit_word_eqI, goal_cases)
    case (1 n)
    then show ?case by (cases "n < 8") (auto simp: bit_simps)
  qed
  then show ?thesis by (simp add: get16_def le16_def)
qed

lemma get32_le32 [simp]: "get32 (le32 w @ bs) = (w, bs)"
proof -
  have "ucast (ucast w :: u8) OR push_bit 8 (ucast (ucast (drop_bit 8 w) :: u8))
      OR push_bit 16 (ucast (ucast (drop_bit 16 w) :: u8)) OR push_bit 24 (ucast (ucast (drop_bit 24 w) :: u8)) = w"
  proof (rule bit_word_eqI, goal_cases)
    case (1 n)
    consider "n < 8" | "8 \<le> n" "n < 16" | "16 \<le> n" "n < 24" | "24 \<le> n" by linarith
    then show ?case using 1 by cases (auto simp: bit_simps)
  qed
  then show ?thesis by (simp add: get32_def le32_def)
qed

lemma le_length [simp]: "length (le16 v) = 2" "length (le32 w) = 4" by (simp_all add: le16_def le32_def)

lemma super_block_bytes_length: "length (super_block_bytes s) = 84"
  by (simp add: super_block_bytes_def)

lemma super_block_roundtrip: "super_block_of_bytes (super_block_bytes s @ bs) = s"
  by (simp add: super_block_of_bytes_def super_block_bytes_def)

lemma descriptor_roundtrip: "descriptor_of_word (descriptor_word d) = d"
proof -
  let ?w = "descriptor_word d"
  have "ucast ?w = block_bitmap_block d" "ucast (drop_bit 4 ?w) = inode_bitmap_block d"
    "ucast (drop_bit 8 ?w) = inode_table_start_block d" "ucast (drop_bit 12 ?w) = group_n_unalloc_blocks d"
    "ucast (drop_bit 14 ?w) = group_n_unalloc_inodes d" "ucast (drop_bit 16 ?w) = n_dirs_in_group d"
    "ucast (drop_bit 18 ?w) = bgd_unused d"
    unfolding descriptor_word_def
    by (rule bit_word_eqI; auto simp: bit_simps dest: bit_imp_le_length)+
  then show ?thesis by (simp add: descriptor_of_word_def)
qed

lemma create_super_block_eq:
  assumes "fs_ok st" and "on_disk st 1"
  shows "create_super_block idx (Some d) st = Inr (fresh_super_block idx d,
     set_block 1 (padded (super_block_bytes (fresh_super_block idx d)) st)
       (st\<lparr>x_buffer := padded (super_block_bytes (fresh_super_block idx d)) st\<rparr>))"
    and "length (padded (super_block_bytes (fresh_super_block idx d)) st) = sectors st * 512"
  using write_object_block [OF assms, of "super_block_bytes (fresh_super_block idx d)" SIZEOF_SUPER_BLOCK]
  by (simp_all add: create_super_block_def super_block_bytes_length SIZEOF_SUPER_BLOCK_def Let_def)

lemma written_block:
  assumes "fs_ok st" and "on_disk st block" and "length bs = sectors st * 512"
  shows "fs_ok (set_block block bs (st\<lparr>x_buffer := bs\<rparr>))"
    and "on_disk st block' \<Longrightarrow>
      block_of (set_block block bs (st\<lparr>x_buffer := bs\<rparr>)) block' = (if block' = block then bs else block_of st block')"
  using block_of_set_block [OF fs_ok_buffer [OF assms(1,3)], of block _ bs] assms(2,3) by auto

lemma zero_block_eq:
  assumes "fs_ok st" and "on_disk st block"
  shows "zero_block block st = Inr (set_block block (replicate (sectors st * 512) 0)
    (st\<lparr>x_buffer := replicate (sectors st * 512) 0\<rparr>))"
proof -
  let ?z = "replicate (sectors st * 512) 0"
  have "fs_ok (st\<lparr>x_buffer := ?z\<rparr>)" by (rule fs_ok_buffer [OF assms(1)]) simp
  from write_storage_block [OF this, of block ?z] show ?thesis
    using assms(2) by (simp add: zero_block_def zeroed_buffer [OF assms(1)])
qed

text \<open>What the two ways of writing a block do to a file system, in one relation.\<close>

definition writes :: "ext2 \<Rightarrow> u32 \<Rightarrow> u8 list \<Rightarrow> ext2 \<Rightarrow> bool" where
  "writes st block bs st' \<longleftrightarrow> fs_ok st' \<and> on_disk st' = on_disk st \<and> sectors st' = sectors st
     \<and> x_info st' = x_info st \<and> x_super st' = x_super st \<and> x_cache st' = x_cache st \<and> x_mm st' = x_mm st
     \<and> (\<forall>b. on_disk st b \<longrightarrow> block_of st' b = (if b = block then bs else block_of st b))"

lemma write_object_writes:
  assumes "fs_ok st" and "on_disk st block" and "length obj = unat n" and "unat n \<le> 512"
  shows "\<exists>st'. write_object_to_block obj block n st = Inr st' \<and> writes st block (padded obj st) st'"
  using write_object_block [OF assms] written_block [OF assms(1,2)] by (auto simp: writes_def)

lemma zero_block_writes:
  assumes "fs_ok st" and "on_disk st block"
  shows "\<exists>st'. zero_block block st = Inr st' \<and> writes st block (replicate (sectors st * 512) 0) st'"
  using zero_block_eq [OF assms] written_block [OF assms, of "replicate (sectors st * 512) 0"] by (auto simp: writes_def)

lemma write_storage_writes:
  assumes "fs_ok st" and "on_disk st block" and "length buf = sectors st * 512"
  shows "\<exists>st'. write_storage buf block 1 st = Inr st' \<and> writes st block buf st'"
  using write_storage_block [OF assms(1,2), of buf] block_of_set_block [OF assms(1,2) _ assms(3)] assms(2,3)
  by (auto simp: writes_def)

lemma on_disk_le: "on_disk st b \<Longrightarrow> unat b' \<le> unat b \<Longrightarrow> on_disk st b'"
  unfolding on_disk_def by (meson add_le_mono1 le_less_trans mult_le_mono1)

lemma small_address:
  shows "unat (ucast (block_idx + k :: u32) :: u4) = (unat block_idx + unat k) mod 16"
    and "unat (ucast (a :: u4) :: u32) = unat a" and "unat (a :: u4) \<le> 15"
proof -
  have "(2 :: nat) ^ 4 dvd 2 ^ 32" by (rule le_imp_power_dvd) simp
  then show "unat (ucast (block_idx + k :: u32) :: u4) = (unat block_idx + unat k) mod 16"
    by (simp add: unsigned_ucast_eq take_bit_eq_mod unat_word_ariths mod_mod_cancel)
  have "unat a < 2 ^ 4" using unsigned_less [of a, where ?'a = nat] by simp
  then show "unat (ucast a :: u32) = unat a" "unat a \<le> 15" by (simp_all add: unsigned_ucast_eq take_bit_eq_mod)
qed

lemma inode_slot_eq:
  assumes "unat (block_size (x_super st)) = 512 * m" and "0 < m" and "unat i < 2 ^ 25"
  shows "\<exists>k off. inode_slot st i = Inr (k, off) \<and> unat k = unat i div (4 * m) \<and> unat off = 128 * (unat i mod 4)"
proof -
  have nz: "block_size (x_super st) \<noteq> 0" using assms(1,2) by (metis mult_eq_0_iff neq0_conv unat_0 zero_neq_numeral)
  have "unat (i * 128) = unat i * 128" using assms(3) by (simp add: unat_word_ariths)
  moreover have "unat i * 128 div (512 * m) = unat i div (4 * m)"
    using div_mult_mult2 [of 128 "unat i" "4 * m"] by (simp add: ac_simps)
  ultimately have "unat (i * 128 div block_size (x_super st)) = unat i div (4 * m)"
    by (simp add: unat_div assms(1))
  moreover have "unat (128 * (i mod 4)) = 128 * (unat i mod 4)"
    by (simp add: unat_word_ariths unat_mod)
  ultimately show ?thesis
    using nz by (simp add: inode_slot_def INODE_IDX_CONTAINING_BLOCK_def quotient_def SIZEOF_INODE_def)
qed

lemma concat_map_length: "\<forall>x \<in> set xs. length (f x) = n \<Longrightarrow> length (concat (map f xs)) = n * length xs"
  by (induction xs) auto

lemma inode_bytes_length:
  assumes "length (block_ptrs i) = 12" and "length (os_specific_2 i) = 3"
  shows "length (inode_bytes i) = 128"
  using assms by (simp add: inode_bytes_def concat_map_length [where n = 4])

section \<open>Properties\<close>

text \<open>
  C38: The super block survives the disk: creating it and then mounting with the option that
  creates nothing returns the same super block, whatever was on the disk, and no other block
  changes; a disk whose block 1 is all zero is refused by that option.
\<close>

theorem super_block_survives:
  assumes "fs_ok st" and "on_disk st 1"
  shows "(\<exists>st' st''. get_super_block idx ForceCreate (Some d) st = Inr (fresh_super_block idx d, st')
      \<and> get_super_block idx NoCreate None st' = Inr (fresh_super_block idx d, st'')
      \<and> x_disk st'' = x_disk st' \<and> (\<forall>b. on_disk st b \<and> b \<noteq> 1 \<longrightarrow> block_of st' b = block_of st b))
    \<and> (block_of st 1 = replicate (sectors st * 512) 0 \<longrightarrow>
         get_super_block idx NoCreate None st = Inl Assertion_Failed)"
proof -
  define bs where "bs = padded (super_block_bytes (fresh_super_block idx d)) st"
  define st' where "st' = set_block 1 bs (st\<lparr>x_buffer := bs\<rparr>)"
  note created = create_super_block_eq [OF assms, of idx d, folded bs_def, folded st'_def]
  have ok: "fs_ok st'" and block: "\<And>b. on_disk st b \<Longrightarrow> block_of st' b = (if b = 1 then bs else block_of st b)"
    using written_block [OF assms created(2)] by (simp_all add: st'_def)
  have sizes: "unat SIZEOF_SUPER_BLOCK = 84" by (simp add: SIZEOF_SUPER_BLOCK_def)
  have "super_block_of_bytes (take 84 bs) = fresh_super_block idx d"
    using super_block_roundtrip [of "fresh_super_block idx d" "[]"]
    by (simp add: bs_def padded_def super_block_bytes_length)
  then have mount: "get_super_block idx NoCreate None st' = Inr (fresh_super_block idx d, st'\<lparr>x_buffer := bs\<rparr>)"
    using read_object_block [OF ok, of SIZEOF_SUPER_BLOCK 1] block [of 1] assms(2)
    by (simp add: get_super_block_def sizes fresh_super_block_def EXT2_SIGN_def)
  have "get_super_block idx NoCreate None st = Inl Assertion_Failed" if "block_of st 1 = replicate (sectors st * 512) 0"
  proof -
    have "0 < sectors st" using assms(1) by (simp add: fs_ok_def)
    then have "take 84 (block_of st 1) = replicate 84 0" using that by (cases "sectors st") auto
    moreover have "ext2_sign (super_block_of_bytes (replicate 84 0)) = 0"
      by (simp add: super_block_of_bytes_def get32_def get16_def Let_def)
    ultimately show ?thesis
      using read_object_block [OF assms(1), of SIZEOF_SUPER_BLOCK 1] by (simp add: get_super_block_def sizes)
  qed
  then show ?thesis
    using created(1) mount block by (auto simp: get_super_block_def)
qed

text \<open>
  Mounting with the option to create what is not found never keeps what it finds: for every
  disk, one with a valid super block included, the super block of block 1 is replaced by a fresh
  one, the same as with the option to create by force.
\<close>

theorem mount_reformats:
  assumes "fs_ok st" and "on_disk st 1"
  shows "\<exists>st'. get_super_block idx CreateIfNotFound (Some d) st = Inr (fresh_super_block idx d, st')
    \<and> super_block_of_bytes (take 84 (block_of st' 1)) = fresh_super_block idx d
    \<and> (\<forall>b. on_disk st b \<and> b \<noteq> 1 \<longrightarrow> block_of st' b = block_of st b)"
proof -
  let ?st = "st\<lparr>x_buffer := block_of st 1\<rparr>"
  have ok: "fs_ok ?st" by (rule fs_ok_buffer [OF assms(1) block_of_length [OF assms(1)]])
  have disk: "on_disk ?st 1" using assms(2) by simp
  define bs where "bs = padded (super_block_bytes (fresh_super_block idx d)) ?st"
  note created = create_super_block_eq [OF ok disk, of idx d, folded bs_def]
  define st' where "st' = set_block 1 bs (?st\<lparr>x_buffer := bs\<rparr>)"
  have "get_super_block idx CreateIfNotFound (Some d) st = Inr (fresh_super_block idx d, st')"
    using created(1) read_object_block [OF assms(1), of SIZEOF_SUPER_BLOCK 1]
    by (simp add: get_super_block_def st'_def SIZEOF_SUPER_BLOCK_def)
  moreover have block: "block_of st' b = (if b = 1 then bs else block_of st b)" if "on_disk st b" for b
    using written_block(2) [OF ok disk created(2), of b] that by (simp add: st'_def)
  moreover have "super_block_of_bytes (take 84 bs) = fresh_super_block idx d"
    using super_block_roundtrip [of "fresh_super_block idx d" "[]"]
    by (simp add: bs_def padded_def super_block_bytes_length)
  ultimately show ?thesis using assms(2) by auto
qed

definition example_super :: SuperBlock where
  "example_super = fresh_super_block 1 \<lparr>fd_block_size = 512, fd_super_block_idx = 1\<rparr>"

definition example_fs :: ext2 where
  "example_fs = \<lparr>x_disk = (\<lambda>_. replicate 512 0), x_mm = boot_heap, x_super = example_super,
     x_buffer = replicate 512 0, x_buffer_at = 0xC0001A9D, x_sectors_per_block = 1, x_super_block_idx = 1,
     x_info = \<lparr>fd_block_size = 512, fd_super_block_idx = 1\<rparr>, x_cache = replicate MAX_FILES empty_file\<rparr>"

lemma example_fs_ok: "fs_ok example_fs" and example_on_disk: "on_disk example_fs b = (unat b < 4294967295)"
  by (auto simp: fs_ok_def on_disk_def sectors_def example_fs_def)

lemma example_block: "block_of example_fs b = replicate 512 0"
  by (simp add: block_of_def sectors_def example_fs_def)

theorem super_block_survives_witness:
  "get_super_block 1 NoCreate None example_fs = Inl Assertion_Failed
   \<and> (\<exists>st'. get_super_block 1 ForceCreate (Some \<lparr>fd_block_size = 512, fd_super_block_idx = 1\<rparr>) example_fs
        = Inr (fresh_super_block 1 \<lparr>fd_block_size = 512, fd_super_block_idx = 1\<rparr>, st'))"
proof -
  have "on_disk example_fs 1" "block_of example_fs 1 = replicate (sectors example_fs * 512) 0"
    by (simp_all add: example_on_disk example_block) (simp add: sectors_def example_fs_def)
  then show ?thesis
    using super_block_survives [OF example_fs_ok, of 1 "\<lparr>fd_block_size = 512, fd_super_block_idx = 1\<rparr>"] by blast
qed

theorem mount_reformats_witness:
  "\<exists>st'. get_super_block 7 CreateIfNotFound (Some \<lparr>fd_block_size = 512, fd_super_block_idx = 7\<rparr>) example_fs
     = Inr (fresh_super_block 7 \<lparr>fd_block_size = 512, fd_super_block_idx = 7\<rparr>, st')"
  using mount_reformats [OF example_fs_ok, of 7] by (auto simp: example_on_disk)

text \<open>
  A block group made at block \<open>n\<close> keeps the addresses of its three parts in fields of four
  bits: they are \<open>n + 1\<close>, \<open>n + 2\<close> and \<open>n + 3\<close> modulo 16, and these are the blocks that are zeroed.
  Up to block 12 the descriptor can be read back from its block and nothing else changes; from
  block 13 on some part lies in the first blocks of the disk, which are lost.
\<close>

theorem create_block_group_layout:
  assumes "fs_ok st" and "on_disk st block_idx" and "on_disk st 15"
    and "new_block pdiff SIZEOF_BLOCK_GROUP_TABLE st = Inr (p, st\<lparr>x_mm := mm\<rparr>)"
  shows "\<exists>bg st'. create_block_group pdiff bg_junk block_idx st = Inr (p, bg, st')
    \<and> (let d = group_descriptor bg; part = (\<lambda>k. (unat block_idx + k) mod 16)
       in unat (block_bitmap_block d) = part 1 \<and> unat (inode_bitmap_block d) = part 2
          \<and> unat (inode_table_start_block d) = part 3
          \<and> (\<forall>b. on_disk st b \<longrightarrow> block_of st' b =
               (if unat b \<in> {part 1, part 2, part 3} then replicate (sectors st * 512) 0
                else if b = block_idx then padded (le32 (descriptor_word d)) st else block_of st b))
          \<and> (unat block_idx \<le> 12 \<longrightarrow> descriptor_of_word (fst (get32 (block_of st' block_idx))) = d))"
proof -
  let ?st = "st\<lparr>x_mm := mm\<rparr>"
  have ok: "fs_ok ?st" and same: "on_disk ?st = on_disk st" "block_of ?st = block_of st" "sectors ?st = sectors st"
      "x_info ?st = x_info st" "padded obj ?st = padded obj st" for obj
    using assms(1) by (simp_all add: fs_ok_def sectors_def on_disk_def block_of_def block_sector_def padded_def fun_eq_iff)
  define d where "d = (group_descriptor bg_junk)\<lparr>block_bitmap_block := ucast (block_idx + 1),
                 inode_bitmap_block := ucast (block_idx + 2), inode_table_start_block := ucast (block_idx + 3),
                 group_n_unalloc_blocks := ucast (fd_block_size (x_info st)),
                 group_n_unalloc_inodes := ucast (fd_block_size (x_info st)), n_dirs_in_group := 0\<rparr>"
  define bg where "bg = bg_junk\<lparr>group_descriptor := d, block_bitmap := None, inode_bitmap := None, bg_read := False\<rparr>"
  let ?bm = "ucast (block_bitmap_block d) :: u32" and ?im = "ucast (inode_bitmap_block d) :: u32"
    and ?it = "ucast (inode_table_start_block d) :: u32" and ?z = "replicate (sectors st * 512) 0"
  have fields: "block_bitmap_block d = ucast (block_idx + 1)" "inode_bitmap_block d = ucast (block_idx + 2)"
      "inode_table_start_block d = ucast (block_idx + 3)"
    by (simp_all add: d_def)
  have parts: "unat (block_bitmap_block d) = (unat block_idx + 1) mod 16"
      "unat (inode_bitmap_block d) = (unat block_idx + 2) mod 16"
      "unat (inode_table_start_block d) = (unat block_idx + 3) mod 16"
    by (simp_all add: fields small_address(1))
  have low: "on_disk st (ucast (a :: u4))" for a
    using on_disk_le [OF assms(3), of "ucast a"] small_address(2,3) [of a] by simp
  have "unat SIZEOF_BLOCK_GROUP_DESCRIPTOR = 4" by (simp add: SIZEOF_BLOCK_GROUP_DESCRIPTOR_def)
  then obtain st1 where 1: "write_object_to_block (le32 (descriptor_word d)) block_idx SIZEOF_BLOCK_GROUP_DESCRIPTOR ?st = Inr st1"
      "writes ?st block_idx (padded (le32 (descriptor_word d)) st) st1"
    using write_object_writes [OF ok, of block_idx "le32 (descriptor_word d)" SIZEOF_BLOCK_GROUP_DESCRIPTOR] assms(2) same
    by auto
  obtain st2 where 2: "zero_block ?bm st1 = Inr st2" "writes st1 ?bm ?z st2"
    using zero_block_writes [of st1 ?bm] 1(2) low same by (auto simp: writes_def)
  obtain st3 where 3: "zero_block ?im st2 = Inr st3" "writes st2 ?im ?z st3"
    using zero_block_writes [of st2 ?im] 1(2) 2(2) low same by (auto simp: writes_def)
  obtain st4 where 4: "zero_block ?it st3 = Inr st4" "writes st3 ?it ?z st4"
    using zero_block_writes [of st3 ?it] 1(2) 2(2) 3(2) low same by (auto simp: writes_def)
  have run: "create_block_group pdiff bg_junk block_idx st = Inr (p, bg, st4)"
    using assms(4) 1(1) 2(1) 3(1) 4(1) by (simp add: create_block_group_def Let_def d_def [symmetric] bg_def fields)
  have eq: "(b = ucast (a :: u4)) = (unat b = unat a)" for b :: u32 and a
    using small_address(2) [of a] by (metis word_unat_eq_iff)
  have blocks: "block_of st4 b = (if unat b \<in> {(unat block_idx + 1) mod 16, (unat block_idx + 2) mod 16, (unat block_idx + 3) mod 16}
      then ?z else if b = block_idx then padded (le32 (descriptor_word d)) st else block_of st b)" if "on_disk st b" for b
    using 1(2) 2(2) 3(2) 4(2) that same(1,2) by (auto simp: writes_def eq parts)
  have reread: "descriptor_of_word (fst (get32 (block_of st4 block_idx))) = d" if "unat block_idx \<le> 12"
  proof -
    have "unat block_idx \<notin> {(unat block_idx + 1) mod 16, (unat block_idx + 2) mod 16, (unat block_idx + 3) mod 16}"
      using that by auto
    then have "block_of st4 block_idx = le32 (descriptor_word d) @ replicate (sectors st * 512 - 4) 0"
      using blocks [OF assms(2)] by (simp add: padded_def)
    then show ?thesis by (simp add: descriptor_roundtrip)
  qed
  show ?thesis
    using run parts blocks reread by (intro exI [of _ bg] exI [of _ st4]) (simp add: Let_def bg_def)
qed

theorem create_block_group_layout_witness:
  "\<exists>bg0 p bg st'. create_block_group (\<lambda>_ _. 0) bg0 13 example_fs = Inr (p, bg, st')
    \<and> block_of st' 0 = replicate 512 0 \<and> inode_table_start_block (group_descriptor bg) = 0"
proof -
  fix bg0 :: BlockGroupTable
  obtain p mm where p: "malloc_fastbin boot_heap = Inr (p, mm)" "p \<noteq> 0"
    using sb.get_fresh [OF boot_heap_wf(1)] boot_heap_wf(3) by auto
  then have "new_block (\<lambda>_ _. 0) SIZEOF_BLOCK_GROUP_TABLE example_fs = Inr (p, example_fs\<lparr>x_mm := mm\<rparr>)"
    by (simp add: new_block_def operator_new_def malloc_def FASTBIN_THRESHOLD_def SIZEOF_BLOCK_GROUP_TABLE_def example_fs_def)
  from create_block_group_layout [OF example_fs_ok _ _ this, of 13 bg0]
  obtain bg st' where g: "create_block_group (\<lambda>_ _. 0) bg0 13 example_fs = Inr (p, bg, st')"
    "unat (inode_table_start_block (group_descriptor bg)) = 16 mod 16"
    "\<forall>b. on_disk example_fs b \<longrightarrow> block_of st' b =
       (if unat b \<in> {14 mod 16, 15 mod 16, 16 mod 16} then replicate (sectors example_fs * 512) 0
        else if b = 13 then padded (le32 (descriptor_word (group_descriptor bg))) example_fs else block_of example_fs b)"
    unfolding Let_def by (auto simp: example_on_disk)
  have "block_of st' 0 = replicate 512 0"
    using g(3) [rule_format, of 0] by (simp add: example_on_disk) (simp add: sectors_def example_fs_def)
  moreover have "inode_table_start_block (group_descriptor bg) = 0" using g(2) by (simp add: word_unat_eq_iff)
  ultimately show ?thesis using g(1) by blast
qed

text \<open>
  Two inodes are kept apart on the disk exactly for blocks of one sector: with larger blocks
  those whose numbers differ by a multiple of 4 within a block of the table have the same place,
  so writing the inode of file 5 replaces that of file 1, the root.
\<close>

theorem inode_slots_collide:
  assumes "unat (block_size (x_super st)) = 512 * m" and "0 < m" and "unat i < 2 ^ 25" and "unat j < 2 ^ 25"
  shows "(inode_slot st i = inode_slot st j) = (unat i div (4 * m) = unat j div (4 * m) \<and> unat i mod 4 = unat j mod 4)
    \<and> (m = 1 \<longrightarrow> (inode_slot st i = inode_slot st j) = (i = j))
    \<and> (2 \<le> m \<longrightarrow> inode_slot st 1 = inode_slot st 5)"
proof -
  have eq: "(inode_slot st i = inode_slot st j) = (unat i div (4 * m) = unat j div (4 * m) \<and> unat i mod 4 = unat j mod 4)"
    if "unat i < 2 ^ 25" "unat j < 2 ^ 25" for i j
    using inode_slot_eq [OF assms(1,2) that(1)] inode_slot_eq [OF assms(1,2) that(2)]
    by (auto simp: word_unat_eq_iff)
  have "(unat i div 4 = unat j div 4 \<and> unat i mod 4 = unat j mod 4) = (i = j)"
    by (metis div_mult_mod_eq word_unat_eq_iff)
  moreover have "inode_slot st 1 = inode_slot st 5" if "2 \<le> m" using eq [of 1 5] that by simp
  ultimately show ?thesis using eq [OF assms(3,4)] by simp
qed

theorem inode_slots_collide_witness:
  "inode_slot (example_fs\<lparr>x_super := example_super\<lparr>block_size := 1024\<rparr>\<rparr>) 1
   = inode_slot (example_fs\<lparr>x_super := example_super\<lparr>block_size := 1024\<rparr>\<rparr>) 5"
  using inode_slots_collide [of "example_fs\<lparr>x_super := example_super\<lparr>block_size := 1024\<rparr>\<rparr>" 2 1 1] by simp

text \<open>
  Writing a block group stores the descriptor, the two bitmaps and the one inode, each in its
  own block, when these blocks are distinct: in the block of the inode only its 128 bytes change,
  and no other block of the disk does.
\<close>

theorem write_block_group_places:
  assumes "fs_ok st" and "on_disk st block_idx" and "on_disk st 15" and "on_disk st inode_block"
    and "block_size (x_super st) = fd_block_size (x_info st)"
    and "block_bitmap bg = Some (p1, bm)" and "inode_bitmap bg = Some (p2, im)"
    and "length bm = sectors st * 512" and "length im = sectors st * 512"
    and "length (block_ptrs inode) = 12" and "length (os_specific_2 inode) = 3"
    and "inode_slot st idx = Inr (k, off)" and "inode_block = ucast (inode_table_start_block (group_descriptor bg)) + k"
    and "distinct [block_idx, ucast (block_bitmap_block (group_descriptor bg)), ucast (inode_bitmap_block (group_descriptor bg)),
           inode_block]"
  shows "\<exists>st'. write_block_group bg block_idx inode idx st = Inr st' \<and> (\<forall>b. on_disk st b \<longrightarrow> block_of st' b =
      (if b = block_idx then padded (le32 (descriptor_word (group_descriptor bg))) st
       else if b = ucast (block_bitmap_block (group_descriptor bg)) then bm
       else if b = ucast (inode_bitmap_block (group_descriptor bg)) then im
       else if b = inode_block
       then take (unat off) (block_of st b) @ inode_bytes inode @ drop (unat off + 128) (block_of st b)
       else block_of st b))"
proof -
  let ?d = "group_descriptor bg" and ?n = "sectors st * 512"
  let ?b1 = "ucast (block_bitmap_block ?d) :: u32" and ?b2 = "ucast (inode_bitmap_block ?d) :: u32"
  have n: "512 \<le> ?n" "0 < sectors st" "unat (fd_block_size (x_info st)) = ?n" using assms(1) by (auto simp: fs_ok_def)
  then have bs: "fd_block_size (x_info st) \<noteq> 0" by auto
  have off: "unat off + 128 \<le> ?n"
  proof -
    have "off = 128 * (idx mod 4)" using assms(12) by (auto simp: inode_slot_def and_then_Inr_iff SIZEOF_INODE_def)
    then have "unat off = 128 * (unat idx mod 4)" by (simp add: unat_word_ariths unat_mod)
    then show ?thesis using n(1) mod_less_divisor [of 4 "unat idx"] by linarith
  qed
  have low: "on_disk st (ucast (a :: u4))" for a
    using on_disk_le [OF assms(3), of "ucast a"] small_address(2,3) [of a] by simp
  have "unat SIZEOF_BLOCK_GROUP_DESCRIPTOR = 4" by (simp add: SIZEOF_BLOCK_GROUP_DESCRIPTOR_def)
  then obtain st1 where 1: "write_object_to_block (le32 (descriptor_word ?d)) block_idx SIZEOF_BLOCK_GROUP_DESCRIPTOR st = Inr st1"
      "writes st block_idx (padded (le32 (descriptor_word ?d)) st) st1"
    using write_object_writes [OF assms(1,2), of "le32 (descriptor_word ?d)" SIZEOF_BLOCK_GROUP_DESCRIPTOR] by auto
  obtain st2 where 2: "write_storage bm ?b1 1 st1 = Inr st2" "writes st1 ?b1 bm st2"
    using write_storage_writes [of st1 ?b1 bm] 1(2) low assms(8) by (auto simp: writes_def)
  obtain st3 where 3: "write_storage im ?b2 1 st2 = Inr st3" "writes st2 ?b2 im st3"
    using write_storage_writes [of st2 ?b2 im] 1(2) 2(2) low assms(9) by (auto simp: writes_def)
  have st3: "fs_ok st3" "on_disk st3 = on_disk st" "sectors st3 = sectors st" "x_super st3 = x_super st"
      "length (x_buffer st3) = ?n"
    using 1(2) 2(2) 3(2) by (auto simp: writes_def fs_ok_def)
  have old: "block_of st3 inode_block = block_of st inode_block"
    using 1(2) 2(2) 3(2) assms(4,14) by (auto simp: writes_def)
  let ?old = "block_of st inode_block"
  let ?new = "take (unat off) ?old @ inode_bytes inode @ drop (unat off + 128) ?old"
  have len: "length ?old = ?n" "length (inode_bytes inode) = 128"
    using block_of_length [OF assms(1)] inode_bytes_length [OF assms(10,11)] by simp_all
  have new: "length ?new = sectors st3 * 512" using len off st3(3) by simp
  have read: "read_storage (x_buffer st3) inode_block 1 st3 = Inr ?old"
    using read_storage_block [OF st3(1), of "x_buffer st3" inode_block] st3(3,5) old by simp
  have patch: "store_bytes ?old (unat off) (replicate 128 0) = Inr (take (unat off) ?old @ replicate 128 0 @ drop (unat off + 128) ?old)"
    "store_bytes (take (unat off) ?old @ replicate 128 0 @ drop (unat off + 128) ?old) (unat off) (inode_bytes inode) = Inr ?new"
    using off len by (simp_all add: store_bytes_def)
  have ok: "fs_ok (st3\<lparr>x_buffer := ?new\<rparr>)" by (rule fs_ok_buffer [OF st3(1) new])
  obtain st4 where 4: "write_storage ?new inode_block 1 (st3\<lparr>x_buffer := ?new\<rparr>) = Inr st4"
      "writes (st3\<lparr>x_buffer := ?new\<rparr>) inode_block ?new st4"
    using write_storage_writes [OF ok, of inode_block ?new] new st3(2) assms(4) by auto
  have slot: "inode_slot st3 idx = Inr (k, off)"
    using assms(12) st3(4) by (simp add: inode_slot_def INODE_IDX_CONTAINING_BLOCK_def)
  have one: "BYTES_TO_BLOCKS st1 (fd_block_size (x_info st1)) = Inr 1"
  proof -
    have "fd_block_size (x_info st) div fd_block_size (x_info st) = 1"
      using bs by (intro word_unat_eq_iff [THEN iffD2]) (simp add: unat_div unat_eq_zero)
    then show ?thesis using 1(2) assms(5) bs by (simp add: writes_def BYTES_TO_BLOCKS_def quotient_def)
  qed
  have "write_block_group bg block_idx inode idx st = Inr st4"
    using 1(1) 2(1) 3(1) 4(1) assms(6,7) slot one read patch
    by (simp add: write_block_group_def Let_def bitmap_bytes_def assms(13) [symmetric])
  moreover have "block_of st4 b = (if b = block_idx then padded (le32 (descriptor_word ?d)) st
       else if b = ?b1 then bm else if b = ?b2 then im
       else if b = inode_block then take (unat off) (block_of st b) @ inode_bytes inode @ drop (unat off + 128) (block_of st b)
       else block_of st b)" if "on_disk st b" for b
    using 1(2) 2(2) 3(2) 4(2) that assms(14) st3(2) by (auto simp: writes_def)
  ultimately show ?thesis by blast
qed

theorem write_block_group_places_witness:
  "\<exists>bg0 st'. write_block_group (bg0\<lparr>group_descriptor := \<lparr>block_bitmap_block = 3, inode_bitmap_block = 4, inode_table_start_block = 5,
       group_n_unalloc_blocks = 0, group_n_unalloc_inodes = 0, n_dirs_in_group = 0, bgd_unused = 0\<rparr>,
     block_bitmap := Some (1, replicate 512 0), inode_bitmap := Some (1, replicate 512 1)\<rparr>) 2 zero_inode 2 example_fs = Inr st'
   \<and> block_of st' 4 = replicate 512 1"
proof -
  fix bg0 :: BlockGroupTable
  let ?bg = "bg0\<lparr>group_descriptor := \<lparr>block_bitmap_block = 3, inode_bitmap_block = 4, inode_table_start_block = 5,
       group_n_unalloc_blocks = 0, group_n_unalloc_inodes = 0, n_dirs_in_group = 0, bgd_unused = 0\<rparr>,
     block_bitmap := Some (1, replicate 512 0), inode_bitmap := Some (1, replicate 512 1)\<rparr>"
  have pre: "on_disk example_fs 2" "on_disk example_fs 15" "on_disk example_fs 5"
    "block_size (x_super example_fs) = fd_block_size (x_info example_fs)"
    "block_bitmap ?bg = Some (1, replicate 512 0)" "inode_bitmap ?bg = Some (1, replicate 512 1)"
    "length (replicate 512 0 :: u8 list) = sectors example_fs * 512" "length (replicate 512 1 :: u8 list) = sectors example_fs * 512"
    "length (block_ptrs zero_inode) = 12" "length (os_specific_2 zero_inode) = 3" "inode_slot example_fs 2 = Inr (0, 256)"
    "5 = ucast (inode_table_start_block (group_descriptor ?bg)) + (0 :: u32)"
    "distinct [2, ucast (block_bitmap_block (group_descriptor ?bg)), ucast (inode_bitmap_block (group_descriptor ?bg)), 5 :: u32]"
    by (simp_all add: example_on_disk zero_inode_def inode_slot_def INODE_IDX_CONTAINING_BLOCK_def quotient_def SIZEOF_INODE_def
        example_super_def fresh_super_block_def) (simp_all add: sectors_def example_fs_def example_super_def fresh_super_block_def)
  from write_block_group_places [OF example_fs_ok pre] obtain st' where
    st': "write_block_group ?bg 2 zero_inode 2 example_fs = Inr st'"
    and blocks: "\<forall>b. on_disk example_fs b \<longrightarrow> block_of st' b =
      (if b = 2 then padded (le32 (descriptor_word (group_descriptor ?bg))) example_fs
       else if b = ucast (block_bitmap_block (group_descriptor ?bg)) then replicate 512 0
       else if b = ucast (inode_bitmap_block (group_descriptor ?bg)) then replicate 512 1
       else if b = 5 then take (unat (256 :: u32)) (block_of example_fs b) @ inode_bytes zero_inode @ drop (unat (256 :: u32) + 128) (block_of example_fs b)
       else block_of example_fs b)" by blast
  have "block_of st' 4 = replicate 512 1" using blocks [rule_format, of 4] by (simp add: example_on_disk)
  then show ?thesis using st' by blast
qed

end
