(* ===== verification/Kernel.thy ===== *)
theory Kernel
  imports Timer Keyboard Interrupts
begin

text \<open>
  The kernel's entry and the processes it ships (\<^verbatim>\<open>kernel.cpp\<close>): the order in which \<^verbatim>\<open>kernel_main\<close>
  initialises the components, its second stage, the shell and the program it starts. What the
  linker decides, the addresses of tables, stubs and functions, is the record \<open>image\<close>; \<open>g\<close>,
  \<open>beyond\<close> and \<open>junk\<close> are what uninitialised memory holds, as in the components.
\<close>

section \<open>The loop program\<close>

text \<open>One round of the loop: what it prints, if anything, and the counter.\<close>

definition loop2_round :: "u32 \<Rightarrow> u32 \<Rightarrow> tty \<Rightarrow> (u32 \<times> tty) outcome" where
  "loop2_round pid counter t =
     (if counter mod 100 = 0
      then and_then (printf (''Hello from process %d :) loop #%d'' @ [CHR 0x0A, NUL]) [Va_int pid, Va_int counter] t)
             (\<lambda>(_, t). Inr (counter + 1, t))
      else Inr (counter, t))"

fun loop2 :: "nat \<Rightarrow> u32 \<Rightarrow> u32 \<Rightarrow> tty \<Rightarrow> (u32 \<times> tty) outcome" where
  "loop2 0 pid counter t = Inr (counter, t)"
| "loop2 (Suc n) pid counter t = and_then (loop2_round pid counter t) (\<lambda>(counter, t). loop2 n pid counter t)"

section \<open>The shell\<close>

record shell =
  sh_proc :: processing
  sh_tty :: tty
  sh_running :: u32
  sh_last_pid :: "u32 option"

definition literal :: "(nat \<Rightarrow> char) \<Rightarrow> string \<Rightarrow> kstring outcome" where
  "literal g s = String_from g (s @ [NUL])"

definition shell_start ::
    "(u32 \<Rightarrow> u32 \<Rightarrow> u32) \<Rightarrow> (nat \<Rightarrow> char) \<Rightarrow> char list \<Rightarrow> KernelProcess \<Rightarrow> shell \<Rightarrow> shell outcome" where
  "shell_start pdiff g beyond junk sh =
     and_then (literal g ''loop2'') (\<lambda>name.
     and_then (Start_Process pdiff g beyond junk name High (sh_proc sh)) (\<lambda>(pid, st).
     and_then (printf (''Launched procesess pid #%d'' @ [CHR 0x0A, NUL]) [Va_int pid] (sh_tty sh)) (\<lambda>(_, t).
       Inr (sh\<lparr>sh_proc := st, sh_tty := t, sh_running := sh_running sh + 1, sh_last_pid := Some pid\<rparr>))))"

definition shell_end :: "shell \<Rightarrow> shell outcome" where
  "shell_end sh =
     (case sh_last_pid sh of
        None \<Rightarrow> Inl Uninitialised
      | Some pid \<Rightarrow>
          and_then (End_Process pid (sh_proc sh)) (\<lambda>st.
          and_then (printf (''Stopped proccess %d'' @ [CHR 0x0A, NUL]) [Va_int pid] (sh_tty sh)) (\<lambda>(_, t).
            Inr (sh\<lparr>sh_proc := st, sh_tty := t, sh_running := sh_running sh - 1\<rparr>))))"

definition shell_command ::
    "(u32 \<Rightarrow> u32 \<Rightarrow> u32) \<Rightarrow> (nat \<Rightarrow> char) \<Rightarrow> char list \<Rightarrow> KernelProcess \<Rightarrow> char list \<Rightarrow> shell \<Rightarrow> shell outcome" where
  "shell_command pdiff g beyond junk buffer sh =
     and_then (String_from g buffer) (\<lambda>str.
     and_then (literal g ''START'') (\<lambda>start.
     and_then (String_compare str start) (\<lambda>is_start.
       if is_start then shell_start pdiff g beyond junk sh
       else
         and_then (literal g ''END'') (\<lambda>stop.
         and_then (String_compare str stop) (\<lambda>is_end.
           if is_end then shell_end sh else Inr sh)))))"

text \<open>One round of the shell's loop: the prompt, a line from the keyboard, the command.\<close>

definition shell_round ::
    "(u32 \<Rightarrow> u32 \<Rightarrow> u32) \<Rightarrow> (nat \<Rightarrow> char) \<Rightarrow> char list \<Rightarrow> KernelProcess \<Rightarrow> u32 \<Rightarrow> char list \<Rightarrow> u8 list \<Rightarrow> keyboard \<Rightarrow> shell
     \<Rightarrow> (u8 list \<times> keyboard \<times> shell) outcome option" where
  "shell_round pdiff g beyond junk kjunk buffer codes kb sh =
     (case and_then (printf (''(%d processes) >>> '' @ [NUL]) [Va_int (sh_running sh)] (sh_tty sh)) (\<lambda>(_, t).
           and_then (memset buffer NUL 100) (\<lambda>b. Inr (b, t))) of
        Inl e \<Rightarrow> Some (Inl e)
      | Inr (b, t) \<Rightarrow>
          map_option (\<lambda>r. and_then r (\<lambda>(b, codes, kb, t).
            and_then (shell_command pdiff g beyond junk b (sh\<lparr>sh_tty := t\<rparr>)) (\<lambda>sh. Inr (codes, kb, sh))))
            (GetString pdiff kjunk b 99 codes kb t))"

text \<open>The shell from its entry: its input buffer and locals, then \<open>n\<close> rounds of the endless loop.\<close>

definition shell_entry :: "(u32 \<Rightarrow> u32 \<Rightarrow> u32) \<Rightarrow> tty \<Rightarrow> processing \<Rightarrow> shell outcome" where
  "shell_entry pdiff t st =
     and_then (SelfProcessInit pdiff st) (\<lambda>st. Inr \<lparr>sh_proc = st, sh_tty = t, sh_running = 0, sh_last_pid = None\<rparr>)"

fun shell_rounds ::
    "nat \<Rightarrow> (u32 \<Rightarrow> u32 \<Rightarrow> u32) \<Rightarrow> (nat \<Rightarrow> char) \<Rightarrow> char list \<Rightarrow> KernelProcess \<Rightarrow> u32 \<Rightarrow> char list \<Rightarrow> u8 list \<Rightarrow> keyboard \<Rightarrow> shell
     \<Rightarrow> (u8 list \<times> keyboard \<times> shell) outcome option" where
  "shell_rounds 0 pdiff g beyond junk kjunk buffer codes kb sh = Some (Inr (codes, kb, sh))"
| "shell_rounds (Suc n) pdiff g beyond junk kjunk buffer codes kb sh =
     (case shell_round pdiff g beyond junk kjunk buffer codes kb sh of
        None \<Rightarrow> None
      | Some (Inl e) \<Rightarrow> Some (Inl e)
      | Some (Inr (codes, kb, sh)) \<Rightarrow> shell_rounds n pdiff g beyond junk kjunk buffer codes kb sh)"

section \<open>The second stage\<close>

record image =
  im_isr :: "u32 list"
  im_irq :: "u32 list"
  im_gdt_at :: u32
  im_gdt_ptr_at :: u32
  im_idt_at :: u32
  im_idt_ptr_at :: u32
  im_stage_2 :: u32
  im_shell :: u32
  im_loop2 :: u32

text \<open>
  \<^verbatim>\<open>kernel_stage_2\<close> with its flag \<open>loop_finished\<close>; called again it halts for ever.
\<close>

definition kernel_stage_2 ::
    "(u32 \<Rightarrow> u32 \<Rightarrow> u32) \<Rightarrow> (nat \<Rightarrow> char) \<Rightarrow> char list \<Rightarrow> KernelProcess \<Rightarrow> image \<Rightarrow> bool \<Rightarrow> cpu \<Rightarrow> processing
     \<Rightarrow> (bool \<times> cpu \<times> processing) outcome" where
  "kernel_stage_2 pdiff g beyond junk im loop_finished c st =
     and_then (SelfProcessInit pdiff st) (\<lambda>st.
       if loop_finished then Inl No_Return
       else
         let c = c\<lparr>cpu_interrupts := False\<rparr>
         in and_then (and_then (literal g ''shell'') (\<lambda>n. RegisterProcess g n (im_shell im) st)) (\<lambda>st.
            and_then (and_then (literal g ''loop2'') (\<lambda>n. RegisterProcess g n (im_loop2 im) st)) (\<lambda>st.
            and_then (and_then (literal g ''shell'') (\<lambda>n. Start_Process pdiff g beyond junk n High st)) (\<lambda>(_, st).
            and_then (End_Process (GetPid st) st) (\<lambda>st.
              Inr (True, c\<lparr>cpu_interrupts := True\<rparr>, st))))))"

section \<open>The boot sequence\<close>

datatype Handler = Page_Fault | Tick | Key

record kernel =
  k_tty :: tty
  k_gdt :: gdt
  k_idt :: idt
  k_io :: "io list"
  k_handlers :: "Handler handlers"
  k_proc :: processing
  k_cpu :: cpu
  k_bytes :: "u32 \<Rightarrow> u8"
  k_key_source :: "(u32 \<Rightarrow> u8 \<Rightarrow> InputKeyType) option"
  k_key_nodes :: "u32 \<Rightarrow> InputKeyType qnode option"
  k_queues :: "u32 \<Rightarrow> queue option"

definition K_INTERNAL_CLOCK_TICK_RATE :: u32 where "K_INTERNAL_CLOCK_TICK_RATE = 20"
definition SIZEOF_PROCESS_SCHEDULER :: u32 where "SIZEOF_PROCESS_SCHEDULER = 40"

definition InitializeKeyboard :: "device \<Rightarrow> (u32 \<Rightarrow> u8 \<Rightarrow> InputKeyType) \<Rightarrow> kernel \<Rightarrow> kernel outcome" where
  "InitializeKeyboard dev source k =
     (let (_, h) = inb dev 0x60 (k_io k)
      in and_then (set_handler 33 Key (k_handlers k)) (\<lambda>hs.
           Inr (k\<lparr>k_io := h, k_key_source := Some source, k_handlers := hs\<rparr>)))"

definition Timer_start :: "u32 \<Rightarrow> kernel \<Rightarrow> kernel outcome" where
  "Timer_start clock_freq k =
     and_then (set_handler (ucast TIMER_PORT) Tick (k_handlers k)) (\<lambda>hs.
     and_then (Timer_Initialize clock_freq (k_io k)) (\<lambda>h. Inr (k\<lparr>k_handlers := hs, k_io := h\<rparr>)))"

text \<open>\<^verbatim>\<open>MemoryManager::Initialize\<close> with the call of \<^verbatim>\<open>paging::Initialize\<close> that ends it.\<close>

definition boot_memory :: "u32 list \<Rightarrow> (u32 \<Rightarrow> BigChunk) \<Rightarrow> kernel \<Rightarrow> kernel outcome" where
  "boot_memory bin_mem chunks0 k =
     and_then (mm_Initialize K_HEAP_START (K_HEAP_START + K_HEAP_INITIAL_SIZE) 0xCFFFF000 False True bin_mem chunks0
                 (primitive_heap (pr_paging (k_proc k)))) (\<lambda>(mm, heap).
     and_then (paging_Initialize True ((pr_paging (k_proc k))\<lparr>primitive_heap := heap\<rparr>)) (\<lambda>(_, pag).
     and_then (set_handler 14 Page_Fault (k_handlers k)) (\<lambda>hs.
       Inr (k\<lparr>k_proc := (set_mm mm (k_proc k))\<lparr>pr_paging := pag\<rparr>, k_handlers := hs\<rparr>))))"

definition new_scheduler :: "(u32 \<Rightarrow> u32 \<Rightarrow> u32) \<Rightarrow> processing \<Rightarrow> (sched \<times> processing) outcome" where
  "new_scheduler pdiff st =
     and_then (new_object pdiff SIZEOF_PROCESS_SCHEDULER st) (\<lambda>(_, st).
       Inr (ProcessScheduler_new (s_mem (pr_sched st)) (s_procs (pr_sched st)), st))"

definition kernel_main ::
    "(u32 \<Rightarrow> u32 \<Rightarrow> u32) \<Rightarrow> KernelProcess \<Rightarrow> image \<Rightarrow> device \<Rightarrow> u16 list \<Rightarrow> u32 list \<Rightarrow> (u32 \<Rightarrow> BigChunk) \<Rightarrow> u32 \<Rightarrow> kernel
     \<Rightarrow> kernel outcome" where
  "kernel_main pdiff junk im dev vga bin_mem chunks0 stack_top k =
     (let k = k\<lparr>k_tty := Tty_Initialize vga\<rparr>
      in and_then (Gdt_Initialize (im_gdt_at im) (im_gdt_ptr_at im) (k_gdt k) (k_io k)) (\<lambda>(gdt, h).
         and_then (Idt_Initialize dev (im_isr im) (im_irq im) (im_idt_at im) (im_idt_ptr_at im) (k_idt k) h) (\<lambda>(idt, h).
         and_then (boot_memory bin_mem chunks0 (k\<lparr>k_gdt := gdt, k_idt := idt, k_io := h\<rparr>)) (\<lambda>k.
         and_then (new_scheduler pdiff (k_proc k)) (\<lambda>(scheduler, st).
         and_then (Processing_Initialize pdiff junk (im_stage_2 im) (\<lambda>_. run_process_scheduler pdiff) scheduler stack_top
                     (k_cpu k) (k_bytes k) st) (\<lambda>(_, c, bytes, st).
           let k = k\<lparr>k_cpu := c, k_bytes := bytes, k_proc := st, k_handlers := Interrupts_Initialize (k_handlers k)\<rparr>
           in and_then (InitializeKeyboard dev KeyboardSource k) (Timer_start K_INTERNAL_CLOCK_TICK_RATE)))))))"

end
