(* ===== verification/Kernel_Boot.thy ===== *)
theory Kernel_Boot
  imports Kernel
begin

text \<open>
  The boot sequence: \<^verbatim>\<open>kernel_main\<close> composes the initialisation of every component, and the state it
  leaves is one the clock can run from.
\<close>

section \<open>Facts on the boot sequence\<close>

text \<open>What paging looks like once memory is set up: the walk is that of \<open>boot_walk\<close>.\<close>

definition directories_below :: "paging_state \<Rightarrow> bool" where
  "directories_below pag \<longleftrightarrow> unat (current_directory pag) < unat (primitive_heap pag)
     \<and> unat (kernel_directory pag) < unat (primitive_heap pag)"

definition boot_pages :: "paging_state \<Rightarrow> bool" where
  "boot_pages pag \<longleftrightarrow> paging_wf pag (kernel_directory pag) \<and> kernel_directory pag \<noteq> 0 \<and> paging_enabled pag
     \<and> taken (frame_table pag) = {..< 4608} \<and> unat (ft_length (frame_table pag)) = 40960
     \<and> unat (primitive_heap pag) \<le> 0x30000000 \<and> directories_below pag \<and> base_kernel_tables_size pag = 1
     \<and> current_directory pag \<noteq> kernel_directory pag
     \<and> directories pag (current_directory pag) = directories pag (kernel_directory pag)
     \<and> (\<forall>q < 2 ^ 20. mmu_walk pag (kernel_directory pag) q = boot_walk q)"

lemma boot_memory_result:
  assumes "length bin_mem = 1700" and "length (k_handlers k) = 256"
    and "0 < unat (primitive_heap (pr_paging (k_proc k)))" and "unat (primitive_heap (pr_paging (k_proc k))) \<le> 0xF000000"
  shows "\<exists>mm pag. boot_memory bin_mem chunks0 k =
      Inr (k\<lparr>k_proc := (set_mm mm (k_proc k))\<lparr>pr_paging := pag\<rparr>, k_handlers := (k_handlers k)[14 := Some Page_Fault]\<rparr>)
    \<and> bin_wf mm \<and> small_blocks mm = {} \<and> big_wf mm [0xC0001A90] Map.empty \<and> hp_allocated_chunks (mapped_heap mm) = 0
    \<and> boot_pages pag"
proof -
  let ?h = "primitive_heap (pr_paging (k_proc k))"
  have al: "IS_ALIGNED K_HEAP_START" "IS_ALIGNED (K_HEAP_START + K_HEAP_INITIAL_SIZE)"
    by (simp_all add: IS_ALIGNED_def K_HEAP_START_def K_HEAP_INITIAL_SIZE_def HEAP_ALIGNMENT_def)
  obtain mm heap where init: "mm_Initialize K_HEAP_START (K_HEAP_START + K_HEAP_INITIAL_SIZE) 0xCFFFF000 False True bin_mem chunks0 ?h
        = Inr (mm, heap)"
      and mm: "fast_bin mm = \<lparr>fb_chunks = replicate 100 0 @ drop 100 bin_mem, fb_chunk_size = 64,
             fb_bin_size = 100, fb_start_addr = K_HEAP_START, fb_end_addr = K_HEAP_START + 6800\<rparr>"
        "hp_fast_bins (mapped_heap mm) = K_HEAP_START" "hp_big_chunks (mapped_heap mm) = K_HEAP_START + 6800"
        "hp_allocated_chunks (mapped_heap mm) = 0" "chunk_at mm (K_HEAP_START + 6800) = zero_chunk"
    using mm_Initialize_result [OF al, of "0xCFFFF000" False True bin_mem chunks0 ?h] by force
  have low: "0 < K_HEAP_START" "unat K_HEAP_START + 6800 < 2 ^ 32" by (simp_all add: K_HEAP_START_def)
  have heap: "0 < unat heap" "unat heap \<le> 0x10000000"
    using mm_Initialize_heap [OF init] assms(3,4) by simp_all
  let ?pag = "(pr_paging (k_proc k))\<lparr>primitive_heap := heap\<rparr>"
  obtain pag where pag: "paging_Initialize True ?pag = Inr (4608, pag)" "boot_pages pag"
    using paging_Initialize_state [of ?pag] heap by (auto simp: boot_pages_def directories_below_def)
  have "set_handler 14 Page_Fault (k_handlers k) = Inr ((k_handlers k)[14 := Some Page_Fault])"
    using assms(2) by (simp add: set_handler_def)
  then have "boot_memory bin_mem chunks0 k =
      Inr (k\<lparr>k_proc := (set_mm mm (k_proc k))\<lparr>pr_paging := pag\<rparr>, k_handlers := (k_handlers k)[14 := Some Page_Fault]\<rparr>)"
    using init pag(1) by (simp add: boot_memory_def)
  moreover have "bin_wf mm" "small_blocks mm = {}" "big_wf mm [0xC0001A90] Map.empty"
    using fresh_heap_bins [OF assms(1) low mm(1-3)] fresh_heap_chunks [OF low(2) mm(3-5)]
    by (simp_all add: small_blocks_def K_HEAP_START_def)
  ultimately show ?thesis using mm(4) pag(2) by blast
qed

text \<open>The region of the kernel stack comes on top of the pages of boot.\<close>

definition kernel_walk :: "nat \<Rightarrow> nat option" where
  "kernel_walk q = (if 0xA0000 \<le> q \<and> q < 0xA1000 then Some (4608 + (q - 0xA0000)) else boot_walk q)"

text \<open>What paging looks like from then on, for a process that asks for a directory of its own.\<close>

definition kernel_pages :: "paging_state \<Rightarrow> bool" where
  "kernel_pages pag \<longleftrightarrow> paging_wf pag (kernel_directory pag) \<and> paging_enabled pag \<and> base_kernel_tables_size pag = 1
     \<and> taken (frame_table pag) = {..< 8704} \<and> unat (ft_length (frame_table pag)) = 40960
     \<and> unat (primitive_heap pag) \<le> 0x32000000 \<and> directories_below pag
     \<and> (\<exists>d. directories pag (current_directory pag) = Some d \<and> directory_wf pag d)
     \<and> (\<forall>q < 1024. mmu_walk pag (current_directory pag) q = kernel_walk q)
     \<and> (\<forall>q < 2 ^ 20. mmu_walk pag (kernel_directory pag) q = kernel_walk q)"

lemma kernel_pages_cr3: "kernel_pages (pag\<lparr>cr3 := v\<rparr>) = kernel_pages pag"
proof -
  have "mmu_walk (pag\<lparr>cr3 := v\<rparr>) d = mmu_walk pag d" for d by (rule mmu_walk_cong) simp_all
  moreover have "paging_wf (pag\<lparr>cr3 := v\<rparr>) d = paging_wf pag d" for d by (rule paging_wf_cong) simp_all
  moreover have "directory_wf (pag\<lparr>cr3 := v\<rparr>) d = directory_wf pag d" for d by (simp add: directory_wf_def slot_ok_def)
  ultimately show ?thesis by (simp add: kernel_pages_def directories_below_def)
qed

lemma map_kernel_stack:
  assumes "boot_pages pag"
  shows "\<exists>pag'. map_region KERNEL_STACK_BEGIN (KERNEL_STACK_BEGIN + KERNEL_STACK_SIZE) StandartAllocator (kernel_directory pag) pag
      = Inr (4096, pag') \<and> kernel_directory pag' = kernel_directory pag \<and> kernel_pages pag'"
proof -
  let ?ker = "kernel_directory pag"
  have eqs: "unat KERNEL_STACK_BEGIN = 0xA0000000" "unat (KERNEL_STACK_BEGIN + KERNEL_STACK_SIZE) = 0xA1000000"
      "page_no KERNEL_STACK_BEGIN = 0xA0000"
    by (simp_all add: KERNEL_STACK_BEGIN_def KERNEL_STACK_SIZE_def page_no_def)
  have wf: "paging_wf pag ?ker" "?ker \<noteq> 0" using assms by (simp_all add: boot_pages_def)
  obtain pag' where m: "map_region KERNEL_STACK_BEGIN (KERNEL_STACK_BEGIN + KERNEL_STACK_SIZE) StandartAllocator ?ker pag
        = Inr (of_nat 4096, pag')" and wf': "paging_wf pag' ?ker"
      and tk: "taken (frame_table pag') = {..< 4608 + 4096}" "ft_length (frame_table pag') = ft_length (frame_table pag)"
      and heap: "unat (primitive_heap pag') \<le> unat (primitive_heap pag) + 4096 * 0x2000"
        "unat (primitive_heap pag) \<le> unat (primitive_heap pag')"
      and walk: "\<forall>q < 2 ^ 20. mmu_walk pag' ?ker q =
          (if 0xA0000 \<le> q \<and> q < 0xA0000 + 4096 then Some (4608 + (q - 0xA0000)) else mmu_walk pag ?ker q)"
    using map_region_in_order [OF wf, of KERNEL_STACK_BEGIN "KERNEL_STACK_BEGIN + KERNEL_STACK_SIZE" 4096 4608] assms
    by (auto simp: eqs boot_pages_def)
  note frame = map_virt_to_phys_frame [OF m [unfolded map_region_eq [OF wf(2)]]]
  obtain d where d: "directories pag ?ker = Some d" "directories pag (current_directory pag) = Some d" "directory_wf pag d"
    using assms by (auto simp: boot_pages_def paging_wf_def)
  have "slot_ok pag' t e" if "slot_ok pag t e" for t e
    using that frame heap(2) by (auto simp: slot_ok_def split: if_splits)
  then have dwf: "directory_wf pag' d" using d(3) by (simp add: directory_wf_def)
  have "mmu_walk pag ?ker 0 = Some 0" using assms by (simp add: boot_pages_def boot_walk_def)
  then have "pd_tables d ! 0 \<noteq> 0"
    using d(1,3) by (auto simp: mmu_walk_def directory_wf_def slot_ok_def)
  then obtain d' where d': "directories pag' ?ker = Some d'" "pd_table_addresses d' ! 0 = pd_table_addresses d ! 0"
    using map_virt_to_phys_tables [OF m [unfolded map_region_eq [OF wf(2)]] d(1)] by blast
  have cur: "directories pag' (current_directory pag') = Some d"
    using frame d(2) assms by (simp add: boot_pages_def)
  have low: "mmu_walk pag' (current_directory pag') q = kernel_walk q" if "q < 1024" for q
  proof -
    have "mmu_walk pag' (current_directory pag') q = mmu_walk pag' ?ker q"
      using that cur d' by (simp add: mmu_walk_def)
    then show ?thesis using that walk assms by (simp add: boot_pages_def kernel_walk_def)
  qed
  have "kernel_pages pag'"
    using frame wf' tk heap walk cur dwf low assms by (auto simp: kernel_pages_def boot_pages_def kernel_walk_def directories_below_def)
  then show ?thesis using m frame by (intro exI [of _ pag']) simp
qed

lemma new_scheduler_result:
  assumes "bin_wf (q_mm (s_mem (pr_sched st)))" and "small_blocks (q_mm (s_mem (pr_sched st))) = {}"
    and "big_wf (q_mm (s_mem (pr_sched st))) [0xC0001A90] Map.empty"
    and "hp_allocated_chunks (mapped_heap (q_mm (s_mem (pr_sched st)))) = 0"
    and "s_procs (pr_sched st) = Map.empty" and "q_nodes (s_mem (pr_sched st)) = Map.empty"
  shows "\<exists>s mm. new_scheduler pdiff st = Inr (s, set_mm mm st) \<and> proc_inv ((set_mm mm st)\<lparr>pr_sched := s\<rparr>) [] [] [] Map.empty
    \<and> has_room 99 ((set_mm mm st)\<lparr>pr_sched := s\<rparr>) Map.empty \<and> room_for 99 99 ((set_mm mm st)\<lparr>pr_sched := s\<rparr>) Map.empty
    \<and> s_procs s = Map.empty \<and> s_current s = 0"
proof -
  let ?m = "s_mem (pr_sched st)"
  let ?st0 = "st\<lparr>pr_sched := ProcessScheduler_new ?m Map.empty\<rparr>"
  have rep: "queue_rep ?m Queue_new {} []"
    using assms(1,2,6) by (simp add: queue_rep_def qmem_wf_def queue_nodes_def Queue_new_def)
  have "sched_rep (ProcessScheduler_new ?m Map.empty) [] [] []"
    using rep by (auto simp: ProcessScheduler_new_def sched_rep_def known_def)
  then have "ready (ProcessScheduler_new ?m Map.empty) [] [] []" by (rule readyI) simp_all
  then have inv: "proc_inv ?st0 [] [] [] Map.empty"
    using assms(3) by (auto simp: proc_inv_def ProcessScheduler_new_def)
  have "big_room 0xC0001A90 (q_mm ?m) ks" if "big_wf (q_mm ?m) ks Map.empty" for ks
    using big_wf_unique [OF assms(3) that] assms(4) by (auto simp: big_room_def)
  then have rooms: "room_for 99 100 ?st0 Map.empty"
    using assms(2) by (auto simp: room_for_def ProcessScheduler_new_def bin_room_def intro!: exI [of _ "0xC0001A90"])
  then have room: "has_room (Suc 99) ?st0 Map.empty"
    using room_for_has_room [of 98 100] by simp
  obtain p mm where p: "new_object pdiff SIZEOF_PROCESS_SCHEDULER ?st0 = Inr (p, set_mm mm ?st0)" "p \<noteq> 0"
      "proc_inv (set_mm mm ?st0) [] [] [] Map.empty" "has_room 99 (set_mm mm ?st0) Map.empty"
      "same_big (q_mm ?m) mm" "bin_room (s_mem (pr_sched ?st0)) \<le> Suc (bin_room (s_mem (pr_sched (set_mm mm ?st0))))"
    using new_small_object [OF inv room, of SIZEOF_PROCESS_SCHEDULER pdiff] by (auto simp: SIZEOF_PROCESS_SCHEDULER_def ProcessScheduler_new_def)
  have "room_for 99 99 (set_mm mm ?st0) Map.empty"
    using room_for_frame [OF rooms, of "set_mm mm ?st0" 99] p(5,6) by (simp add: ProcessScheduler_new_def)
  note p = p(1-4) this
  have "operator_new pdiff SIZEOF_PROCESS_SCHEDULER (q_mm ?m) = Inr (p, mm)"
    using p(1,2) by (auto simp: new_object_def ProcessScheduler_new_def and_then_Inr_iff set_mm_def split: if_splits
        dest!: arg_cong [where f = "\<lambda>st. q_mm (s_mem (pr_sched st))"])
  then have "new_object pdiff SIZEOF_PROCESS_SCHEDULER st = Inr (p, set_mm mm st)"
    using p(2) by (simp add: new_object_def)
  then have "new_scheduler pdiff st = Inr (ProcessScheduler_new (?m\<lparr>q_mm := mm\<rparr>) Map.empty, set_mm mm st)"
    using assms(5) by (simp add: new_scheduler_def set_mm_def)
  moreover have "(set_mm mm st)\<lparr>pr_sched := ProcessScheduler_new (?m\<lparr>q_mm := mm\<rparr>) Map.empty\<rparr> = set_mm mm ?st0"
    by (simp add: set_mm_def ProcessScheduler_new_def)
  ultimately show ?thesis
    using p(3-5) by (intro exI [of _ "ProcessScheduler_new (?m\<lparr>q_mm := mm\<rparr>) Map.empty"] exI [of _ mm])
      (simp add: ProcessScheduler_new_def)
qed

lemma Processing_Initialize_result:
  assumes inv: "proc_inv (st\<lparr>pr_sched := s\<rparr>) [] [] [] live" and room: "has_room (Suc n) (st\<lparr>pr_sched := s\<rparr>) live"
    and fresh: "s_procs s = Map.empty" "s_current s = 0" "pr_functions st = Vector_new" and pag: "boot_pages (pr_paging st)"
  shows "\<exists>p c' mem' st' k live'. Processing_Initialize pdiff junk start callback s stack_top c mem st = Inr (p, c', mem', st')
    \<and> cpu_interrupts c' \<and> proc_inv st' [] [p] [] live' \<and> s_procs (pr_sched st') = [p \<mapsto> k] \<and> s_current (pr_sched st') = 0
    \<and> kp_pid k = pr_pid_seq st \<and> r_eip (kp_registers k) = start \<and> r_esp (kp_registers k) = 0xA0001000
    \<and> kp_times_ran k = 0 \<and> kp_directory k = kernel_directory (pr_paging st') \<and> elements (pr_functions st') = Inr [callback]
    \<and> kernel_pages (pr_paging st') \<and> pr_registered st' = pr_registered st \<and> pr_pid_seq st' = pr_pid_seq st + 1
    \<and> kp_input_buffer k = 0 \<and> kp_input_buffer_lock k = kp_input_buffer_lock junk
    \<and> (\<forall>m n. room_for (Suc m) (Suc n) (st\<lparr>pr_sched := s\<rparr>) live \<longrightarrow> room_for m n st' live')"
proof -
  let ?st0 = "st\<lparr>pr_sched := s\<rparr>" and ?ker = "kernel_directory (pr_paging st)"
  obtain p st1 k live' where p: "NewProcess pdiff junk start System None ?st0 = Inr (p, st1)" "proc_inv st1 [] [] [] live'"
      "Suc n \<le> bin_room (s_mem (pr_sched st1))" "s_procs (pr_sched st1) = [p \<mapsto> k]" "kp_pid k = pr_pid_seq st"
      "kp_priority k = System" "r_eip (kp_registers k) = start" "r_esp (kp_registers k) = 0xA0001000" "kp_times_ran k = 0"
      "pr_paging st1 = pr_paging st" "pr_functions st1 = Vector_new"
      "pr_registered st1 = pr_registered st" "pr_pid_seq st1 = pr_pid_seq st + 1"
      "kp_input_buffer k = 0" "kp_input_buffer_lock k = kp_input_buffer_lock junk"
      "\<forall>m n. room_for (Suc m) n ?st0 live \<longrightarrow> room_for m n st1 live'"
    using NewProcess_inv [OF inv room, of 0 "pr_paging st" None pdiff junk start System] fresh by simp blast
  define k' where "k' = k\<lparr>kp_directory := ?ker\<rparr>"
  have k': "kp_pid k' = kp_pid k" "kp_priority k' = System" "kp_registers k' = kp_registers k" "kp_times_ran k' = 0"
      "kp_directory k' = ?ker" "kp_input_buffer k' = 0" "kp_input_buffer_lock k' = kp_input_buffer_lock junk"
    by (simp_all add: k'_def p(6,9,14,15))
  define st2 where "st2 = set_proc p k' st1"
  have st2: "proc_inv st2 [] [] [] live'" "s_procs (pr_sched st2) = [p \<mapsto> k']" "bin_room (s_mem (pr_sched st2)) > 0"
      "pr_paging st2 = pr_paging st" "pr_functions st2 = Vector_new" "pr_registered st2 = pr_registered st"
      "pr_pid_seq st2 = pr_pid_seq st + 1" "s_mem (pr_sched st2) = s_mem (pr_sched st1)"
    using proc_inv_set_proc [OF p(2), of p k k'] p(3,4,10-13) k'(1) by (simp_all add: st2_def)
  obtain pag' where m: "map_region KERNEL_STACK_BEGIN (KERNEL_STACK_BEGIN + KERNEL_STACK_SIZE) StandartAllocator ?ker (pr_paging st)
        = Inr (4096, pag')" and pag': "kernel_directory pag' = ?ker" "kernel_pages pag'"
    using map_kernel_stack [OF pag] by blast
  define st3 where "st3 = st2\<lparr>pr_paging := SetDirectory ?ker pag'\<rparr>"
  have inv3: "proc_inv st3 [] [] [] live'" using st2(1) by (simp add: st3_def proc_inv_def)
  have procs3: "s_procs (pr_sched st3) p = Some k'" "bin_room (s_mem (pr_sched st3)) > 0" using st2(2,3) by (simp_all add: st3_def)
  obtain s' where s': "AddItem pdiff p (pr_sched st3) = Inr s'" "s_procs s' = s_procs (pr_sched st3)"
      "proc_inv (st3\<lparr>pr_sched := s'\<rparr>) [] [p] [] live'"
      "same_big (q_mm (s_mem (pr_sched st1))) (q_mm (s_mem s'))" "bin_room (s_mem (pr_sched st1)) = Suc (bin_room (s_mem s'))"
    using AddItem_inv [OF inv3 procs3 _ refl refl, of pdiff] k'(2) st2(8) by (auto simp: st3_def)
  have fns: "vector_wf (pr_functions st2)" "elements (pr_functions st2) = Inr []" using st2(5) by simp_all
  obtain v where v: "push_back (\<lambda>_ _. Inl Null_Pointer) callback (pr_functions st2) = Inr v" "elements v = Inr [callback]"
    using push_back_appends [OF fns, of "\<lambda>_ _. Inl Null_Pointer" callback] by auto
  define st4 where "st4 = st3\<lparr>pr_sched := s', pr_functions := v\<rparr>"
  obtain c' mem' where reloc: "relocate_stack stack_top (c\<lparr>cpu_interrupts := False\<rparr>) mem = (c', mem')" by force
  have same: "pr_functions st1 = pr_functions st2" using p(11) st2(5) by simp
  have pages: "kernel_pages (SetDirectory ?ker pag')" using pag'(2) by (simp add: SetDirectory_def kernel_pages_cr3)
  have room': "room_for m n st4 live'" if "room_for (Suc m) (Suc n) ?st0 live" for m n
  proof -
    have "room_for m (Suc n) st1 live'" using that p(16) by blast
    then show ?thesis using room_for_frame [of m "Suc n" st1 live' st4 n] s'(4,5) by (simp add: st4_def)
  qed
  have run: "Processing_Initialize pdiff junk start callback s stack_top c mem st = Inr (p, c'\<lparr>cpu_interrupts := True\<rparr>, mem', st4)"
    using p(1,4,10) m reloc s'(1) v(1) st2(4) same
    by (simp add: Processing_Initialize_def Let_def GetKernelDirectory_def k'_def [symmetric] st2_def [symmetric]
        st3_def [symmetric] add_callable_function_def) (simp add: st4_def st3_def)
  moreover have "s_current s' = 0"
    using AddItem_current [OF s'(1)] NewProcess_keeps [OF p(1)] fresh(2) by (simp add: st3_def st2_def set_proc_def keeps_clock_def)
  moreover have "s_procs s' = [p \<mapsto> k']" using s'(2) st2(2) by (simp add: st3_def)
  moreover have "proc_inv st4 [] [p] [] live'" using s'(3) by (simp add: st4_def proc_inv_def)
  ultimately show ?thesis
    using v(2) pag' pages room' k' p(5,7,8) st2(6,7)
    by (intro exI [of _ p] exI [of _ "c'\<lparr>cpu_interrupts := True\<rparr>"] exI [of _ mem'] exI [of _ st4]
        exI [of _ k'] exI [of _ live'] conjI) (simp_all add: st4_def st3_def SetDirectory_def)
qed

lemma fresh_timer:
  "Timer_Initialize K_INTERNAL_CLOCK_TICK_RATE h = Inr (h @ [Outb 0x43 0x36, Outb 0x40 0x0B, Outb 0x40 0xE9])"
proof -
  have "PIT_FREQ div 20 = 59659" by (simp add: PIT_FREQ_def)
  then show ?thesis
    by (simp add: Timer_Initialize_def Pit_Init_def K_INTERNAL_CLOCK_TICK_RATE_def outb_def Let_def PIT_COMMAND_PORT_def
        PIT_COMMAND_BYTE_def PIT_DPORT_1_def)
qed

text \<open>What the boot sequence relies on: tables of their sizes, a low heap, and no object made yet.\<close>

definition boot_ok :: "image \<Rightarrow> u32 list \<Rightarrow> kernel \<Rightarrow> bool" where
  "boot_ok im bin_mem k \<longleftrightarrow> length (im_isr im) = 32 \<and> length (im_irq im) = 16
     \<and> length (gdt_entries (k_gdt k)) = 5 \<and> length (idt_entries (k_idt k)) = 256 \<and> length (k_handlers k) = 256
     \<and> length bin_mem = 1700
     \<and> 0 < unat (primitive_heap (pr_paging (k_proc k))) \<and> unat (primitive_heap (pr_paging (k_proc k))) \<le> 0xF000000
     \<and> s_procs (pr_sched (k_proc k)) = Map.empty \<and> q_nodes (s_mem (pr_sched (k_proc k))) = Map.empty
     \<and> pr_functions (k_proc k) = Vector_new \<and> pr_registered (k_proc k) = Vector_new \<and> pr_pid_seq (k_proc k) = 1"

lemma kernel_main_result:
  assumes ok: "boot_ok im bin_mem k"
  shows "\<exists>p j k' live. kernel_main pdiff junk im dev vga bin_mem chunks0 stack_top k = Inr k'
    \<and> proc_inv (k_proc k') [] [p] [] live \<and> s_procs (pr_sched (k_proc k')) = [p \<mapsto> j] \<and> s_current (pr_sched (k_proc k')) = 0
    \<and> kp_pid j = pr_pid_seq (k_proc k) \<and> r_eip (kp_registers j) = im_stage_2 im \<and> r_esp (kp_registers j) = 0xA0001000
    \<and> kp_times_ran j = 0 \<and> kp_directory j = kernel_directory (pr_paging (k_proc k'))
    \<and> elements (pr_functions (k_proc k')) = Inr [\<lambda>_. run_process_scheduler pdiff]
    \<and> kernel_pages (pr_paging (k_proc k')) \<and> pr_registered (k_proc k') = Vector_new
    \<and> pr_pid_seq (k_proc k') = pr_pid_seq (k_proc k) + 1 \<and> room_for 98 98 (k_proc k') live
    \<and> k_handlers k' = (replicate 256 None)[33 := Some Key, 32 := Some Tick] \<and> cpu_interrupts (k_cpu k')
    \<and> k_tty k' = Tty_Initialize vga \<and> kp_input_buffer j = 0 \<and> kp_input_buffer_lock j = kp_input_buffer_lock junk
    \<and> k_key_source k' = Some KeyboardSource \<and> k_key_nodes k' = k_key_nodes k \<and> k_queues k' = k_queues k
    \<and> sent 0x43 (k_io k') = sent 0x43 (k_io k) @ [0x36] \<and> sent 0x40 (k_io k') = sent 0x40 (k_io k) @ [0x0B, 0xE9]"
proof -
  note ok = ok [unfolded boot_ok_def]
  obtain gdt' where gdt: "Gdt_Initialize (im_gdt_at im) (im_gdt_ptr_at im) (k_gdt k) (k_io k)
      = Inr (gdt', k_io k @ [Gdt_Dump (im_gdt_ptr_at im)])"
    using Gdt_Initialize_result ok by metis
  obtain idt' hs where idt: "Idt_Initialize dev (im_isr im) (im_irq im) (im_idt_at im) (im_idt_ptr_at im) (k_idt k)
      (k_io k @ [Gdt_Dump (im_gdt_ptr_at im)]) = Inr (idt', (k_io k @ [Gdt_Dump (im_gdt_ptr_at im)]) @ hs)"
      "sent 0x40 hs = []" "sent 0x43 hs = []"
    using Idt_Initialize_result [of "im_isr im" "im_irq im" "k_idt k" dev] ok by metis
  define k3 where "k3 = k\<lparr>k_tty := Tty_Initialize vga, k_gdt := gdt', k_idt := idt',
      k_io := k_io k @ Gdt_Dump (im_gdt_ptr_at im) # hs\<rparr>"
  have k3: "k_proc k3 = k_proc k" "k_handlers k3 = k_handlers k" by (simp_all add: k3_def)
  obtain mm pag where mem: "boot_memory bin_mem chunks0 k3 =
        Inr (k3\<lparr>k_proc := (set_mm mm (k_proc k3))\<lparr>pr_paging := pag\<rparr>, k_handlers := (k_handlers k3)[14 := Some Page_Fault]\<rparr>)"
      "bin_wf mm" "small_blocks mm = {}" "big_wf mm [0xC0001A90] Map.empty" "hp_allocated_chunks (mapped_heap mm) = 0"
      "boot_pages pag"
    using boot_memory_result [of bin_mem k3 chunks0] ok k3 by auto
  define st4 where "st4 = (set_mm mm (k_proc k))\<lparr>pr_paging := pag\<rparr>"
  have st4: "q_mm (s_mem (pr_sched st4)) = mm" "s_procs (pr_sched st4) = Map.empty" "q_nodes (s_mem (pr_sched st4)) = Map.empty"
      "pr_functions st4 = Vector_new" "pr_registered st4 = Vector_new" "pr_paging st4 = pag" "pr_pid_seq st4 = pr_pid_seq (k_proc k)"
    using ok by (simp_all add: st4_def) (simp add: set_mm_def)
  obtain s mm' where sched: "new_scheduler pdiff st4 = Inr (s, set_mm mm' st4)"
      "proc_inv ((set_mm mm' st4)\<lparr>pr_sched := s\<rparr>) [] [] [] Map.empty"
      "has_room (Suc 98) ((set_mm mm' st4)\<lparr>pr_sched := s\<rparr>) Map.empty" "s_procs s = Map.empty" "s_current s = 0"
      "room_for 99 99 ((set_mm mm' st4)\<lparr>pr_sched := s\<rparr>) Map.empty"
    using new_scheduler_result [of st4 pdiff] mem(2-5) st4 by auto
  obtain p c bytes st j live where proc: "Processing_Initialize pdiff junk (im_stage_2 im) (\<lambda>_. run_process_scheduler pdiff) s stack_top
        (k_cpu k) (k_bytes k) (set_mm mm' st4) = Inr (p, c, bytes, st)"
      "cpu_interrupts c" "proc_inv st [] [p] [] live" "s_procs (pr_sched st) = [p \<mapsto> j]" "s_current (pr_sched st) = 0"
      "kp_pid j = pr_pid_seq (k_proc k)" "r_eip (kp_registers j) = im_stage_2 im" "r_esp (kp_registers j) = 0xA0001000"
      "kp_times_ran j = 0" "kp_directory j = kernel_directory (pr_paging st)"
      "elements (pr_functions st) = Inr [\<lambda>_. run_process_scheduler pdiff]" "kernel_pages (pr_paging st)"
      "pr_registered st = Vector_new" "pr_pid_seq st = pr_pid_seq (k_proc k) + 1"
      "kp_input_buffer j = 0" "kp_input_buffer_lock j = kp_input_buffer_lock junk"
      "\<forall>m n. room_for (Suc m) (Suc n) ((set_mm mm' st4)\<lparr>pr_sched := s\<rparr>) Map.empty \<longrightarrow> room_for m n st live"
    using Processing_Initialize_result [OF sched(2-5), of pdiff junk "im_stage_2 im" "\<lambda>_. run_process_scheduler pdiff"
        stack_top "k_cpu k" "k_bytes k"] st4 mem(6) by simp blast
  have room: "room_for 98 98 st live" using proc(17) sched(6) by simp
  define k' where "k' = k3\<lparr>k_handlers := (replicate 256 None)[33 := Some Key, 32 := Some Tick], k_proc := st, k_cpu := c, k_bytes := bytes,
      k_io := (k_io k3 @ [Inb 0x60]) @ [Outb 0x43 0x36, Outb 0x40 0x0B, Outb 0x40 0xE9], k_key_source := Some KeyboardSource\<rparr>"
  define k5 where "k5 = k3\<lparr>k_proc := st4, k_handlers := (k_handlers k3)[14 := Some Page_Fault]\<rparr>"
  have k5: "k_proc k5 = st4" "k_cpu k5 = k_cpu k" "k_bytes k5 = k_bytes k" "k_io k5 = k_io k3"
      "Interrupts_Initialize (k_handlers k5) = replicate 256 None"
    using ok by (simp_all add: k5_def k3_def Interrupts_Initialize_eq)
  define k6 where "k6 = k5\<lparr>k_cpu := c, k_bytes := bytes, k_proc := st, k_handlers := replicate 256 None\<rparr>"
  have finish: "and_then (InitializeKeyboard dev KeyboardSource k6) (Timer_start K_INTERNAL_CLOCK_TICK_RATE) = Inr k'"
    by (simp add: InitializeKeyboard_def inb_def Let_def set_handler_def)
      (simp add: k6_def k5_def k'_def Timer_start_def set_handler_def TIMER_PORT_def fresh_timer)
  have "boot_memory bin_mem chunks0 k3 = Inr k5" using mem(1) by (simp add: k5_def st4_def k3(1))
  then have "kernel_main pdiff junk im dev vga bin_mem chunks0 stack_top k = Inr k'"
    using gdt idt(1) sched(1) proc(1) finish
    by (simp add: kernel_main_def Let_def k3_def [symmetric] k5 k6_def [symmetric])
  then show ?thesis
    using proc(1-16) room idt(2,3) by (intro exI [of _ p] exI [of _ j] exI [of _ k'] exI [of _ live]) (simp add: k'_def k3_def)
qed

end
