(* ===== verification/Address_Spaces.thy ===== *)
theory Address_Spaces
  imports Kernel_Boot
begin

text \<open>
  The address spaces of processes: what making one leaves of the others, how many can be made, and
  that no two share a frame outside of the kernel's first table.
\<close>

section \<open>Tables that a mapping does not touch\<close>

text \<open>A table in use: not null, below the top of the heap.\<close>

definition old_table :: "paging_state \<Rightarrow> u32 \<Rightarrow> bool" where
  "old_table st t \<longleftrightarrow> t \<noteq> 0 \<and> unat t + 4096 \<le> unat (primitive_heap st)"

lemma map_page_other_table:
  assumes m: "map_page va dir StandartAllocator st = Inr st'" and d: "directories st dir = Some d"
    and len: "length (pd_tables d) = 1024" and heap: "unat (primitive_heap st) + 0x2000 < 2 ^ 32"
    and t: "old_table st t" "pd_tables d ! (page_no va div 1024) \<noteq> t"
  shows "page_tables st' t = page_tables st t \<and> unat (primitive_heap st) \<le> unat (primitive_heap st')
    \<and> unat (primitive_heap st') \<le> unat (primitive_heap st) + 0x2000
    \<and> (\<exists>d'. directories st' dir = Some d' \<and> length (pd_tables d') = 1024
         \<and> (\<forall>i < 1024. pd_tables d ! i \<noteq> t \<longrightarrow> pd_tables d' ! i \<noteq> t))"
proof (cases "pd_tables d ! (page_no va div 1024) = 0")
  case True
  let ?k = "page_no va div 1024" and ?p = "aligned_top (primitive_heap st)"
  note b = new_table_bounds [OF heap]
  have p: "?p \<noteq> t" using t(1) b(1) by (auto simp: old_table_def)
  have k: "?k < 1024" using page_no_less [of va] by simp
  have g: "get_page va dir True StandartAllocator st = Inr (Some (?p, 0), add_table ?k dir st)"
    by (rule get_page_absent [OF d True])
  have "(pd_tables d)[?k := ?p] ! i \<noteq> t" if "pd_tables d ! i \<noteq> t" for i
    using that p len k by (cases "i = ?k") simp_all
  then show ?thesis
    using m g d b p len by (auto simp: map_page_def and_then_Inr_iff Let_def write_page_def add_table_def split: if_splits)
next
  case False
  have "get_page va dir True StandartAllocator st = Inr (Some (pd_tables d ! (page_no va div 1024), page_no va mod 1024), st)"
    by (rule get_page_present [OF d False])
  then show ?thesis
    using m d t len by (auto simp: map_page_def and_then_Inr_iff Let_def write_page_def split: if_splits)
qed

lemma aligned_gap:
  fixes m n :: nat
  assumes "m < n" and "m mod 4096 = 0" and "n mod 4096 = 0"
  shows "m + 4096 \<le> n"
proof -
  have m: "m = 4096 * (m div 4096)" and n: "n = 4096 * (n div 4096)"
    using assms(2,3) mult_div_mod_eq [of 4096 m] mult_div_mod_eq [of 4096 n] by linarith+
  have "m div 4096 < n div 4096" using assms(1) by (subst (asm) m, subst (asm) n) simp
  then have "4096 * Suc (m div 4096) \<le> 4096 * (n div 4096)" by (intro mult_le_mono2) simp
  then show ?thesis using m n by simp
qed

lemma map_virt_other_table:
  assumes "map_virt_to_phys va e dir StandartAllocator c st = Inr (n, st')" and "directories st dir = Some d"
    and "length (pd_tables d) = 1024" and "unat (primitive_heap st) + (unat e - unat va) * 2 + 0x2000 < 2 ^ 32"
    and "unat e + 4096 \<le> 2 ^ 32" and "unat va mod 4096 = 0" and "unat e mod 4096 = 0" and "old_table st t"
    and "\<forall>i < 1024. page_no va div 1024 \<le> i \<longrightarrow> pd_tables d ! i \<noteq> t"
  shows "page_tables st' t = page_tables st t \<and> unat (primitive_heap st) \<le> unat (primitive_heap st')
    \<and> unat (primitive_heap st') \<le> unat (primitive_heap st) + (unat e - unat va) * 2
    \<and> (\<exists>d'. directories st' dir = Some d' \<and> length (pd_tables d') = 1024
         \<and> (\<forall>i < 1024. pd_tables d ! i \<noteq> t \<longrightarrow> pd_tables d' ! i \<noteq> t))"
proof -
  have "al = StandartAllocator \<Longrightarrow> ?thesis" if "map_virt_to_phys va e dir al c st = Inr (n, st')" for al
    using that assms(2-)
  proof (induction va e dir al c st arbitrary: d rule: map_virt_to_phys.induct)
    case (1 va e dir al c st)
    show ?case
    proof (cases "va < e")
      case False
      then show ?thesis using "1.prems" by (simp add: map_virt_to_phys.simps)
    next
      case True
      then obtain st1 where st1: "map_page va dir al st = Inr st1"
          and rest: "map_virt_to_phys (va + PAGE_SIZE) e dir al (c + 1) st1 = Inr (n, st')"
        using "1.prems"(2) by (subst (asm) map_virt_to_phys.simps) (auto split: sum.splits)
      have lt: "unat va < unat e" using True by (simp add: word_less_nat_alt)
      then have "unat va + 4096 < 2 ^ 32" using "1.prems"(6) by simp
      note next_va = next_page [OF "1.prems"(7) this]
      have "unat va + 4096 \<le> unat e" by (rule aligned_gap [OF lt "1.prems"(7,8)])
      then have room: "(unat e - unat (va + PAGE_SIZE)) * 2 + 0x2000 = (unat e - unat va) * 2" by (simp add: next_va(1))
      have now: "pd_tables d ! (page_no va div 1024) \<noteq> t" using "1.prems"(10) page_no_less [of va] by simp
      have heap: "unat (primitive_heap st) + 0x2000 < 2 ^ 32" using "1.prems"(5) by simp
      obtain d1 where d1: "page_tables st1 t = page_tables st t" "unat (primitive_heap st) \<le> unat (primitive_heap st1)"
          "unat (primitive_heap st1) \<le> unat (primitive_heap st) + 0x2000" "directories st1 dir = Some d1"
          "length (pd_tables d1) = 1024" "\<forall>i < 1024. pd_tables d ! i \<noteq> t \<longrightarrow> pd_tables d1 ! i \<noteq> t"
        using map_page_other_table [OF st1 [unfolded "1.prems"(1)] "1.prems"(3,4) heap "1.prems"(9) now] by blast
      have "unat (primitive_heap st1) + (unat e - unat (va + PAGE_SIZE)) * 2 + 0x2000 < 2 ^ 32"
        using "1.prems"(5) d1(3) room by linarith
      moreover have "old_table st1 t" using "1.prems"(9) d1(2) by (simp add: old_table_def)
      moreover have "\<forall>i < 1024. page_no (va + PAGE_SIZE) div 1024 \<le> i \<longrightarrow> pd_tables d1 ! i \<noteq> t"
        using "1.prems"(10) d1(6) next_va(2) div_le_mono [of "page_no va" "Suc (page_no va)" 1024] by auto
      ultimately have IH: "page_tables st' t = page_tables st1 t \<and> unat (primitive_heap st1) \<le> unat (primitive_heap st')
          \<and> unat (primitive_heap st') \<le> unat (primitive_heap st1) + (unat e - unat (va + PAGE_SIZE)) * 2
          \<and> (\<exists>d'. directories st' dir = Some d' \<and> length (pd_tables d') = 1024
               \<and> (\<forall>i < 1024. pd_tables d1 ! i \<noteq> t \<longrightarrow> pd_tables d' ! i \<noteq> t))"
        by (intro "1.IH" [OF True st1 "1.prems"(1) rest d1(4,5) _ "1.prems"(6) next_va(3) "1.prems"(8)])
      then obtain d' where "directories st' dir = Some d'" "length (pd_tables d') = 1024"
          "\<forall>i < 1024. pd_tables d1 ! i \<noteq> t \<longrightarrow> pd_tables d' ! i \<noteq> t" by blast
      then show ?thesis using IH d1(1-3,6) room by (intro conjI exI [of _ d']) auto
    qed
  qed
  then show ?thesis using assms(1) by blast
qed

text \<open>The same for the regions of a new directory.\<close>

definition region_bytes :: "(u32 \<times> u32) list \<Rightarrow> nat" where
  "region_bytes ms = (\<Sum>r\<leftarrow>ms. unat (snd r) - unat (fst r))"

definition region_inside :: "u32 \<times> u32 \<Rightarrow> bool" where
  "region_inside r \<longleftrightarrow> region_ok r \<and> unat (snd r) + 4096 \<le> 2 ^ 32"

lemma map_regions_other_table:
  assumes "map_regions ms dir st = Inr st'" and "dir \<noteq> 0" and "directories st dir = Some d" and "length (pd_tables d) = 1024"
    and "unat (primitive_heap st) + region_bytes ms * 2 + 0x2000 < 2 ^ 32"
    and "\<forall>r \<in> set ms. region_inside r \<and> (\<forall>i < 1024. page_no (fst r) div 1024 \<le> i \<longrightarrow> pd_tables d ! i \<noteq> t)"
    and "old_table st t"
  shows "page_tables st' t = page_tables st t"
  using assms
proof (induction ms arbitrary: st d)
  case Nil
  then show ?case by simp
next
  case (Cons r ms)
  obtain b e where r: "r = (b, e)" by force
  obtain n st1 where st1: "map_virt_to_phys b e dir StandartAllocator 0 st = Inr (n, st1)" "map_regions ms dir st1 = Inr st'"
    using Cons.prems(1,2) r by (auto simp: map_region_eq and_then_Inr_iff)
  have inside: "region_inside (b, e)" and off: "\<forall>i < 1024. page_no b div 1024 \<le> i \<longrightarrow> pd_tables d ! i \<noteq> t"
    using Cons.prems(6) r by simp_all
  then have aligned: "unat e + 4096 \<le> 2 ^ 32" "unat b mod 4096 = 0" "unat e mod 4096 = 0"
    using region_okD(1) [of b e] by (simp_all add: region_inside_def region_ok_def)
  have bytes: "region_bytes (r # ms) = (unat e - unat b) + region_bytes ms" by (simp add: region_bytes_def r)
  have room: "unat (primitive_heap st) + (unat e - unat b) * 2 + 0x2000 < 2 ^ 32" using Cons.prems(5) bytes by simp
  obtain d1 where d1: "page_tables st1 t = page_tables st t" "unat (primitive_heap st) \<le> unat (primitive_heap st1)"
      "unat (primitive_heap st1) \<le> unat (primitive_heap st) + (unat e - unat b) * 2" "directories st1 dir = Some d1"
      "length (pd_tables d1) = 1024" "\<forall>i < 1024. pd_tables d ! i \<noteq> t \<longrightarrow> pd_tables d1 ! i \<noteq> t"
    using map_virt_other_table [OF st1(1) Cons.prems(3,4) room aligned Cons.prems(7) off] by blast
  have "page_tables st' t = page_tables st1 t"
  proof (rule Cons.IH [OF st1(2) Cons.prems(2) d1(4,5)])
    show "unat (primitive_heap st1) + region_bytes ms * 2 + 0x2000 < 2 ^ 32" using Cons.prems(5) bytes d1(3) by simp
    show "old_table st1 t" using Cons.prems(7) d1(2) by (simp add: old_table_def)
  qed (use Cons.prems(6) d1(6) in auto)
  then show ?case using d1(1) by simp
qed

lemma map_regions_frame:
  assumes "map_regions ms dir st = Inr st'" and "dir \<noteq> 0"
  shows "current_directory st' = current_directory st \<and> kernel_directory st' = kernel_directory st
     \<and> base_kernel_tables_size st' = base_kernel_tables_size st \<and> paging_enabled st' = paging_enabled st
     \<and> (\<forall>d. d \<noteq> dir \<longrightarrow> directories st' d = directories st d)
     \<and> (\<forall>t. length (page_tables st t) = 1024 \<longrightarrow> length (page_tables st' t) = 1024)"
  using assms
proof (induction ms arbitrary: st)
  case (Cons r ms)
  obtain b e n st1 where st1: "map_virt_to_phys b e dir StandartAllocator 0 st = Inr (n, st1)" "map_regions ms dir st1 = Inr st'"
    using Cons.prems by (cases r) (auto simp: map_region_eq and_then_Inr_iff)
  show ?case using map_virt_to_phys_frame [OF st1(1)] Cons.IH [OF st1(2) Cons.prems(2)] by simp
qed simp

text \<open>What making a directory leaves: every table and directory there was.\<close>

lemma create_directory_frame:
  assumes "create_directory ms st = Inr (new, st')"
    and cur: "directories st (current_directory st) = Some cur" "directory_wf st cur"
    and base: "unat (base_kernel_tables_size st) \<le> 1024" and heap: "0 < unat (primitive_heap st)"
      "unat (primitive_heap st) + 0x3000 + region_bytes ms * 2 + 0x2000 < 2 ^ 32"
    and ms: "\<forall>r \<in> set ms. region_inside r \<and> unat (base_kernel_tables_size st) \<le> page_no (fst r) div 1024"
  shows "current_directory st' = current_directory st" and "kernel_directory st' = kernel_directory st"
    and "base_kernel_tables_size st' = base_kernel_tables_size st" and "paging_enabled st' = paging_enabled st"
    and "d \<noteq> new \<Longrightarrow> directories st' d = directories st d"
    and "length (page_tables st t) = 1024 \<Longrightarrow> length (page_tables st' t) = 1024"
    and "old_table st t \<Longrightarrow> page_tables st' t = page_tables st t"
proof -
  let ?n = "unat (base_kernel_tables_size st)" and ?p = "aligned_top (primitive_heap st)"
  let ?d = "share_kernel_tables ?n cur zero_directory"
  let ?st1 = "st\<lparr>primitive_heap := ?p + 8192, directories := (directories st)(?p := Some ?d)\<rparr>"
  have a: "unat (primitive_heap st) \<le> unat ?p" "unat (?p + 8192) = unat ?p + 8192" "unat ?p < unat (primitive_heap st) + 0x1000"
    using Allocate_room [of "primitive_heap st" 8192] heap by simp_all
  have m: "map_regions ms ?p ?st1 = Inr st'" "new = ?p"
    using assms(1) cur(1) by (auto simp: create_directory_def SIZEOF_PAGE_DIRECTORY_def Allocate_aligned Let_def and_then_Inr_iff)
  have p: "?p \<noteq> 0" using a(1) heap(1) by auto
  note frame = map_regions_frame [OF m(1) p]
  show "current_directory st' = current_directory st" and "kernel_directory st' = kernel_directory st"
    and "base_kernel_tables_size st' = base_kernel_tables_size st" and "paging_enabled st' = paging_enabled st"
    and "d \<noteq> new \<Longrightarrow> directories st' d = directories st d"
    and "length (page_tables st t) = 1024 \<Longrightarrow> length (page_tables st' t) = 1024"
    using frame m(2) by simp_all
  assume t: "old_table st t"
  have len: "length (pd_tables cur) = 1024" using cur(2) by (simp add: directory_wf_def)
  then have d: "length (pd_tables ?d) = 1024" using base by (simp add: share_kernel_tables_def zero_directory_def)
  have "pd_tables ?d ! i \<noteq> t" if "i < 1024" "?n \<le> i" for i
    using that len base t by (simp add: share_kernel_tables_def zero_directory_def nth_append old_table_def)
  moreover have "old_table ?st1 t" using t a by (simp add: old_table_def)
  ultimately show "page_tables st' t = page_tables st t"
    using map_regions_other_table [OF m(1) p _ d, of t] ms a heap(2) by fastforce
qed

section \<open>What one space sees of the others\<close>

lemma walk_kept:
  assumes "directories st' e = directories st e" and d: "directories st e = Some d" "directory_wf st d"
    and "\<And>t. old_table st t \<Longrightarrow> page_tables st' t = page_tables st t" and "q < 2 ^ 20"
  shows "mmu_walk st' e q = mmu_walk st e q"
proof -
  let ?t = "pd_tables d ! (q div 1024)" and ?e = "pd_table_addresses d ! (q div 1024)"
  have "q div 1024 < 1024" using assms(5) by simp
  then have slot: "slot_ok st ?t ?e" using d(2) by (simp add: directory_wf_def)
  show ?thesis
  proof (cases "?t = 0")
    case True
    then have "?e = 0" using slot by (simp add: slot_ok_def)
    then show ?thesis using assms(1) d(1) by (simp add: mmu_walk_def)
  next
    case False
    then have "?e AND 0xFFFFF000 = ?t" "old_table st ?t"
      using slot by (auto simp: slot_ok_def pde_base old_table_def)
    then show ?thesis using assms(1,4) d(1) by (simp add: mmu_walk_def Let_def)
  qed
qed

lemma directory_kept:
  assumes "directory_wf st d" and "unat (primitive_heap st) \<le> unat (primitive_heap st')"
    and "\<And>t. length (page_tables st t) = 1024 \<Longrightarrow> length (page_tables st' t) = 1024"
  shows "directory_wf st' d"
proof -
  have "slot_ok st' t e" if "slot_ok st t e" for t e
    using that assms(2,3) by (auto simp: slot_ok_def split: if_splits)
  then show ?thesis using assms(1) by (simp add: directory_wf_def)
qed

text \<open>The address space a process is given: its stack, the heap and the first table of the kernel.\<close>

abbreviation process_regions :: "(u32 \<times> u32) list" where
  "process_regions \<equiv> [(0xA0000000, 0xA0010000), (0xC0000000, 0xC1000000)]"

definition private_page :: "nat \<Rightarrow> bool" where
  "private_page q \<longleftrightarrow> 0xA0000 \<le> q \<and> q < 0xA0010 \<or> 0xC0000 \<le> q \<and> q < 0xC1000"

definition process_space :: "paging_state \<Rightarrow> u32 \<Rightarrow> bool" where
  "process_space pag d \<longleftrightarrow> paging_wf pag d
     \<and> (\<forall>q < 2 ^ 20. mmu_walk pag d q \<noteq> None \<longleftrightarrow> q < 512 \<or> private_page q)
     \<and> (\<forall>q < 512. mmu_walk pag d q = Some q)"

definition private_frames :: "paging_state \<Rightarrow> u32 \<Rightarrow> nat set" where
  "private_frames pag d = {f. \<exists>q. private_page q \<and> mmu_walk pag d q = Some f}"

lemma space_cr3 [simp]:
  "mmu_walk (pag\<lparr>cr3 := v\<rparr>) d = mmu_walk pag d" "paging_wf (pag\<lparr>cr3 := v\<rparr>) d = paging_wf pag d"
  "process_space (pag\<lparr>cr3 := v\<rparr>) d = process_space pag d" "private_frames (pag\<lparr>cr3 := v\<rparr>) d = private_frames pag d"
proof -
  show "mmu_walk (pag\<lparr>cr3 := v\<rparr>) d = mmu_walk pag d" for d by (rule mmu_walk_cong) simp_all
  moreover show "paging_wf (pag\<lparr>cr3 := v\<rparr>) d = paging_wf pag d" for d by (rule paging_wf_cong) simp_all
  ultimately show "process_space (pag\<lparr>cr3 := v\<rparr>) d = process_space pag d"
    "private_frames (pag\<lparr>cr3 := v\<rparr>) d = private_frames pag d"
    by (simp_all add: process_space_def private_frames_def)
qed

text \<open>
  The kernel and the processes' spaces \<open>ds\<close>: each process sees its own, no private frame is shared, and
  the frames of the kernel are nobody's.
\<close>

definition kernel_view :: "paging_state \<Rightarrow> bool" where
  "kernel_view pag \<longleftrightarrow> base_kernel_tables_size pag = 1 \<and> ft_wf (frame_table pag)
     \<and> unat (ft_length (frame_table pag)) = 40960 \<and> 0 < unat (primitive_heap pag) \<and> directories_below pag
     \<and> (\<exists>d. directories pag (current_directory pag) = Some d \<and> directory_wf pag d)
     \<and> (\<forall>q < 1024. mmu_walk pag (current_directory pag) q = kernel_walk q)"

definition spaces :: "paging_state \<Rightarrow> u32 list \<Rightarrow> bool" where
  "spaces pag ds \<longleftrightarrow> kernel_view pag \<and> {..< 8704} \<subseteq> taken (frame_table pag)
     \<and> card (taken (frame_table pag)) = 8704 + 4112 * length ds
     \<and> unat (primitive_heap pag) \<le> 0x32000000 + length ds * 0x3000000
     \<and> distinct ds \<and> (\<forall>d \<in> set ds. process_space pag d \<and> unat d < unat (primitive_heap pag)
         \<and> private_frames pag d \<subseteq> taken (frame_table pag) - {..< 8704})
     \<and> (\<forall>d \<in> set ds. \<forall>e \<in> set ds. d \<noteq> e \<longrightarrow> private_frames pag d \<inter> private_frames pag e = {})"

lemma spaces_cr3 [simp]: "spaces (pag\<lparr>cr3 := v\<rparr>) ds = spaces pag ds"
proof -
  have "directory_wf (pag\<lparr>cr3 := v\<rparr>) d = directory_wf pag d" for d by (simp add: directory_wf_def slot_ok_def)
  then show ?thesis by (simp add: spaces_def kernel_view_def directories_below_def)
qed

lemma spaces_start: "kernel_pages pag \<Longrightarrow> spaces pag []"
  by (auto simp: kernel_pages_def spaces_def kernel_view_def paging_wf_def)

lemma process_regions_facts:
  "\<forall>r \<in> set process_regions. region_ok r" "region_count process_regions = 4112" "region_bytes process_regions = 4112 * 4096"
  "\<forall>r \<in> set process_regions. region_inside r \<and> 1 \<le> page_no (fst r) div 1024"
  "\<Union> (region_pages ` set process_regions) = {q. private_page q}"
  by (simp_all add: region_ok_def word_le_nat_alt region_count_def region_bytes_def region_inside_def page_no_def
      region_pages_def) (auto simp: private_page_def)

lemma private_page_less: "private_page q \<Longrightarrow> q < 2 ^ 20"
  by (auto simp: private_page_def)

lemma low_page: "q < 1024 \<Longrightarrow> kernel_walk q = (if q < 512 then Some q else None)"
  by (simp add: kernel_walk_def boot_walk_def)

text \<open>What holds of the spaces of a state with \<open>n\<close> of them and room for one more.\<close>

lemma spaces_viewD:
  assumes "spaces pag ds"
  shows "base_kernel_tables_size pag = 1" and "ft_wf (frame_table pag)" and "unat (ft_length (frame_table pag)) = 40960"
    and "0 < unat (primitive_heap pag)" and "directories_below pag"
    and "\<forall>q < 1024. mmu_walk pag (current_directory pag) q = kernel_walk q"
    and "\<exists>cur. directories pag (current_directory pag) = Some cur \<and> directory_wf pag cur"
  using assms by (auto simp: spaces_def kernel_view_def)

lemma spaces_room:
  assumes "spaces pag ds" and "length ds < 7"
  shows "unat (primitive_heap pag) \<le> 0x44000000" and "card (taken (frame_table pag)) + 4112 \<le> 40960"
  using assms by (simp_all add: spaces_def)

lemma new_space:
  assumes sp: "spaces pag ds" and few: "length ds < 7"
  shows "\<exists>d pag'. create_directory process_regions pag = Inr (d, pag') \<and> process_space pag' d
    \<and> private_frames pag' d \<subseteq> taken (frame_table pag') - taken (frame_table pag)
    \<and> unat (primitive_heap pag) \<le> unat d \<and> unat d < unat (primitive_heap pag') \<and> taken (frame_table pag) \<subseteq> taken (frame_table pag')
    \<and> card (taken (frame_table pag')) = card (taken (frame_table pag)) + 4112 \<and> ft_wf (frame_table pag')
    \<and> unat (ft_length (frame_table pag')) = 40960 \<and> unat (primitive_heap pag') \<le> unat (primitive_heap pag) + 0x3000000"
proof -
  note view = spaces_viewD [OF sp] and room = spaces_room [OF sp few] and regions = process_regions_facts
  obtain cur where cur: "directories pag (current_directory pag) = Some cur" "directory_wf pag cur"
    using view(7) by blast
  obtain d pag' where d: "create_directory process_regions pag = Inr (d, pag')" "paging_wf pag' d"
      and out: "\<forall>q < 2 ^ 20. q \<notin> \<Union> (region_pages ` set process_regions) \<longrightarrow> mmu_walk pag' d q =
          (if q div 1024 < unat (base_kernel_tables_size pag) then mmu_walk pag (current_directory pag) q else None)"
      and ins: "\<forall>q \<in> \<Union> (region_pages ` set process_regions). q < 2 ^ 20 \<longrightarrow>
          (\<exists>f. mmu_walk pag' d q = Some f \<and> f \<notin> taken (frame_table pag) \<and> f \<in> taken (frame_table pag'))"
      and grow: "unat (primitive_heap pag) \<le> unat d" "unat d + 8192 \<le> unat (primitive_heap pag')"
        "taken (frame_table pag) \<subseteq> taken (frame_table pag')"
        "card (taken (frame_table pag')) = card (taken (frame_table pag)) + 4112"
        "unat (ft_length (frame_table pag')) = 40960"
        "unat (primitive_heap pag') \<le> unat (primitive_heap pag) + 0x3000 + 4112 * 0x2000"
    using create_directory_result [OF cur view(2) _ _ regions(1) view(4)] room view(1,3) unfolding regions(2) by auto
  have walk: "mmu_walk pag' d q = (if q < 1024 then kernel_walk q else None)" if "q < 2 ^ 20" "\<not> private_page q" for q
    using out that view(1,6) unfolding regions(5) by (auto simp: div_eq_0_iff)
  have own: "\<exists>f. mmu_walk pag' d q = Some f \<and> f \<notin> taken (frame_table pag) \<and> f \<in> taken (frame_table pag')" if "private_page q" for q
    using ins that private_page_less unfolding regions(5) by blast
  have "process_space pag' d"
    unfolding process_space_def
  proof (intro conjI allI impI)
    show "mmu_walk pag' d q = Some q" if "q < 512" for q
      using walk [of q] that by (simp add: private_page_def low_page)
    show "(mmu_walk pag' d q \<noteq> None) = (q < 512 \<or> private_page q)" if "q < 2 ^ 20" for q
      using walk [OF that] own [of q] by (cases "private_page q") (auto simp: low_page)
  qed (rule d(2))
  moreover have "private_frames pag' d \<subseteq> taken (frame_table pag') - taken (frame_table pag)"
    using own by (fastforce simp: private_frames_def)
  moreover have "ft_wf (frame_table pag')" using d(2) by (simp add: paging_wf_def)
  ultimately show ?thesis using d(1) grow by (intro exI [of _ d] exI [of _ pag']) simp
qed

text \<open>The spaces there were, and the kernel's own view, see nothing of the new one.\<close>

lemma old_space:
  assumes sp: "spaces pag ds" and few: "length ds < 7"
    and new: "create_directory process_regions pag = Inr (d, pag')" "unat (primitive_heap pag) \<le> unat d"
    and mono: "unat (primitive_heap pag) \<le> unat (primitive_heap pag')"
    and e: "directories pag e = Some de" "directory_wf pag de" "unat e < unat (primitive_heap pag)"
  shows "directories pag' e = Some de" and "directory_wf pag' de" and "q < 2 ^ 20 \<Longrightarrow> mmu_walk pag' e q = mmu_walk pag e q"
proof -
  note view = spaces_viewD [OF sp] and room = spaces_room [OF sp few] and regions = process_regions_facts
  obtain cur where cur: "directories pag (current_directory pag) = Some cur" "directory_wf pag cur"
    using view(7) by blast
  have heap: "unat (primitive_heap pag) + 0x3000 + region_bytes process_regions * 2 + 0x2000 < 2 ^ 32"
    using room(1) unfolding regions(3) by simp
  have inside: "\<forall>r \<in> set process_regions. region_inside r \<and> unat (base_kernel_tables_size pag) \<le> page_no (fst r) div 1024"
    using regions(4) view(1) by simp
  have base: "unat (base_kernel_tables_size pag) \<le> 1024" using view(1) by simp
  note frame = create_directory_frame [OF new(1) cur base view(4) heap inside]
  have "e \<noteq> d" using e(3) new(2) by auto
  then show same: "directories pag' e = Some de" using frame(5) e(1) by simp
  show "directory_wf pag' de" by (rule directory_kept [OF e(2) mono frame(6)])
  show "mmu_walk pag' e q = mmu_walk pag e q" if "q < 2 ^ 20"
    using walk_kept [OF _ e(1,2) frame(7) that] same e(1) by simp
qed

lemma old_spaces:
  assumes sp: "spaces pag ds" and few: "length ds < 7"
    and new: "create_directory process_regions pag = Inr (d, pag')" "unat (primitive_heap pag) \<le> unat d"
    and mono: "unat (primitive_heap pag) \<le> unat (primitive_heap pag')"
    and ft: "ft_wf (frame_table pag')" "unat (ft_length (frame_table pag')) = 40960"
    and e: "e \<in> set ds"
  shows "process_space pag' e" and "private_frames pag' e = private_frames pag e" and "unat e < unat (primitive_heap pag)"
    and "q < 2 ^ 20 \<Longrightarrow> mmu_walk pag' e q = mmu_walk pag e q"
proof -
  have pe: "process_space pag e" and low: "unat e < unat (primitive_heap pag)" using sp e by (simp_all add: spaces_def)
  then obtain de where de: "directories pag e = Some de" "directory_wf pag de"
    by (auto simp: process_space_def paging_wf_def)
  note old = old_space [OF sp few new mono de low]
  show "unat e < unat (primitive_heap pag)" by (rule low)
  show walk: "mmu_walk pag' e q = mmu_walk pag e q" if "q < 2 ^ 20" for q by (rule old(3) [OF that])
  have "paging_wf pag' e" using old(1,2) ft mono spaces_viewD(4) [OF sp] by (simp add: paging_wf_def)
  then show "process_space pag' e" using pe walk by (simp add: process_space_def)
  show "private_frames pag' e = private_frames pag e"
    using walk private_page_less by (auto simp: private_frames_def)
qed

lemma kernel_view_kept:
  assumes sp: "spaces pag ds" and few: "length ds < 7"
    and new: "create_directory process_regions pag = Inr (d, pag')" "unat (primitive_heap pag) \<le> unat d"
    and mono: "unat (primitive_heap pag) \<le> unat (primitive_heap pag')"
    and ft: "ft_wf (frame_table pag')" "unat (ft_length (frame_table pag')) = 40960"
  shows "kernel_view pag'"
proof -
  note view = spaces_viewD [OF sp]
  obtain cur where cur: "directories pag (current_directory pag) = Some cur" "directory_wf pag cur"
    using view(7) by blast
  have heap: "unat (primitive_heap pag) + 0x3000 + region_bytes process_regions * 2 + 0x2000 < 2 ^ 32"
    using spaces_room(1) [OF sp few] unfolding process_regions_facts(3) by simp
  have inside: "\<forall>r \<in> set process_regions. region_inside r \<and> unat (base_kernel_tables_size pag) \<le> page_no (fst r) div 1024"
    using process_regions_facts(4) view(1) by simp
  have base: "unat (base_kernel_tables_size pag) \<le> 1024" using view(1) by simp
  note frame = create_directory_frame [OF new(1) cur base view(4) heap inside]
  have below: "unat (current_directory pag) < unat (primitive_heap pag)" using view(5) by (simp add: directories_below_def)
  note old = old_space [OF sp few new mono cur below]
  have "directories_below pag'" using view(5) frame(1,2) mono by (simp add: directories_below_def)
  moreover have "\<forall>q < 1024. mmu_walk pag' (current_directory pag') q = kernel_walk q"
    using old(3) view(6) frame(1) by simp
  moreover have "\<exists>d. directories pag' (current_directory pag') = Some d \<and> directory_wf pag' d"
    using old(1,2) frame(1) by simp
  ultimately show ?thesis
    using frame(3) view(1,4) ft mono by (simp add: kernel_view_def)
qed

lemma spaces_step:
  assumes sp: "spaces pag ds" and few: "length ds < 7"
  shows "\<exists>d pag'. create_directory process_regions pag = Inr (d, pag') \<and> spaces pag' (d # ds)
    \<and> (\<forall>e \<in> set ds. \<forall>q < 2 ^ 20. mmu_walk pag' e q = mmu_walk pag e q)"
proof -
  obtain d pag' where d: "create_directory process_regions pag = Inr (d, pag')" "process_space pag' d"
      "private_frames pag' d \<subseteq> taken (frame_table pag') - taken (frame_table pag)"
      "unat (primitive_heap pag) \<le> unat d" "unat d < unat (primitive_heap pag')" "taken (frame_table pag) \<subseteq> taken (frame_table pag')"
      "card (taken (frame_table pag')) = card (taken (frame_table pag)) + 4112" "ft_wf (frame_table pag')"
      "unat (ft_length (frame_table pag')) = 40960" "unat (primitive_heap pag') \<le> unat (primitive_heap pag) + 0x3000000"
    using new_space [OF sp few] by blast
  have mono: "unat (primitive_heap pag) \<le> unat (primitive_heap pag')" using d(4,5) by simp
  note old = old_spaces [OF sp few d(1,4) mono d(8,9)]
  have sp0: "{..< 8704} \<subseteq> taken (frame_table pag)" "card (taken (frame_table pag)) = 8704 + 4112 * length ds"
      "unat (primitive_heap pag) \<le> 0x32000000 + length ds * 0x3000000" "distinct ds"
      "\<And>e. e \<in> set ds \<Longrightarrow> private_frames pag e \<subseteq> taken (frame_table pag) - {..< 8704}"
      "\<And>e e'. e \<in> set ds \<Longrightarrow> e' \<in> set ds \<Longrightarrow> e \<noteq> e' \<Longrightarrow> private_frames pag e \<inter> private_frames pag e' = {}"
    using sp by (simp_all add: spaces_def)
  have mine: "private_frames pag' d \<inter> private_frames pag' e = {}" if "e \<in> set ds" for e
    using d(3) old(2) [OF that] sp0(5) [OF that] by blast
  have "d \<notin> set ds" using old(3) d(4) by fastforce
  moreover have "process_space pag' e \<and> unat e < unat (primitive_heap pag') \<and> private_frames pag' e \<subseteq> taken (frame_table pag') - {..< 8704}"
    if "e \<in> set (d # ds)" for e
  proof (cases "e = d")
    case True
    then show ?thesis using d(2,3,5) sp0(1) by auto
  next
    case False
    then have e: "e \<in> set ds" using that by simp
    show ?thesis using old(1-3) [OF e] sp0(5) [OF e] d(6) mono by auto
  qed
  moreover have "private_frames pag' e \<inter> private_frames pag' e' = {}"
    if "e \<in> set (d # ds)" "e' \<in> set (d # ds)" "e \<noteq> e'" for e e'
    using that mine [of e] mine [of e'] old(2) [of e] old(2) [of e'] sp0(6) [of e e'] by (auto simp: Int_commute)
  moreover have "{..< 8704} \<subseteq> taken (frame_table pag')" using sp0(1) d(6) by (rule subset_trans)
  ultimately have "spaces pag' (d # ds)"
    using kernel_view_kept [OF sp few d(1,4) mono d(8,9)] sp0(2-4) d(7,10) unfolding spaces_def by simp
  then show ?thesis using d(1) old(4) by blast
qed

section \<open>When the frames run out\<close>

lemma map_regions_panics:
  assumes "paging_wf st dir" and "dir \<noteq> 0" and "\<forall>r \<in> set ms. region_ok r"
    and "unat (primitive_heap st) + region_count ms * 0x2000 < 2 ^ 32"
    and "unat (ft_length (frame_table st)) < card (taken (frame_table st)) + region_count ms"
  shows "map_regions ms dir st = Inl Kernel_Panic"
  using assms
proof (induction ms arbitrary: st)
  case Nil
  have "ft_wf (frame_table st)" using Nil.prems(1) by (simp add: paging_wf_def)
  then have "card (taken (frame_table st)) \<le> unat (ft_length (frame_table st))"
    using taken_bound card_mono [of "{..< unat (ft_length (frame_table st))}"] by fastforce
  then show ?case using Nil.prems(5) by (simp add: region_count_def)
next
  case (Cons r ms)
  obtain b e where r: "r = (b, e)" by force
  let ?n = "(unat e - unat b) div 4096"
  have count: "region_count (r # ms) = ?n + region_count ms" "region_count [r] = ?n" by (simp_all add: region_count_def r)
  show ?case
  proof (cases "card (taken (frame_table st)) + ?n \<le> unat (ft_length (frame_table st))")
    case True
    obtain st1 where st1: "map_regions [r] dir st = Inr st1" "paging_wf st1 dir"
        "card (taken (frame_table st1)) = card (taken (frame_table st)) + ?n"
        "unat (ft_length (frame_table st1)) = unat (ft_length (frame_table st))"
        "unat (primitive_heap st1) \<le> unat (primitive_heap st) + ?n * 0x2000"
      using map_regions_maps [OF Cons.prems(1,2), of "[r]"] Cons.prems(3,4) True count by auto
    have "map_regions ms dir st1 = Inl Kernel_Panic"
      using Cons.IH [OF st1(2) Cons.prems(2)] Cons.prems(3-5) st1(3-5) count(1) by simp
    then show ?thesis using st1(1) r by (auto simp: and_then_Inr_iff)
  next
    case False
    have ok: "region_ok (b, e)" using Cons.prems(3) r by simp
    then have "unat e = unat b + ?n * 4096" by (rule region_okD(3))
    then have "map_region b e StandartAllocator dir st = Inl Kernel_Panic"
      using region_okD(1,2) [OF ok] Cons.prems(1,2,4) False count(1)
      by (intro map_region_out_of_frames [where n = "?n"]) simp_all
    then show ?thesis by (simp add: r)
  qed
qed

lemma spaces_full:
  assumes sp: "spaces pag ds" and full: "length ds = 7"
  shows "create_directory process_regions pag = Inl Kernel_Panic"
proof -
  note view = spaces_viewD [OF sp]
  obtain cur where cur: "directories pag (current_directory pag) = Some cur" "directory_wf pag cur"
    using view(7) by blast
  have size: "card (taken (frame_table pag)) = 37488" "unat (primitive_heap pag) \<le> 0x32000000 + 7 * 0x3000000"
    using sp full by (simp_all add: spaces_def)
  let ?p = "aligned_top (primitive_heap pag)" and ?d = "share_kernel_tables 1 cur zero_directory"
  let ?st1 = "pag\<lparr>primitive_heap := ?p + 8192, directories := (directories pag)(?p := Some ?d)\<rparr>"
  have a: "unat (primitive_heap pag) \<le> unat ?p" "unat (?p + 8192) = unat ?p + 8192" "unat ?p < unat (primitive_heap pag) + 0x1000"
    using Allocate_room [of "primitive_heap pag" 8192] size(2) by simp_all
  have mono: "unat (primitive_heap pag) \<le> unat (primitive_heap ?st1)" using a by simp
  have "directory_wf pag ?d" using directory_wf_share [OF cur(2), of 1] by simp
  then have "directory_wf ?st1 ?d" using directory_kept [of pag ?d ?st1] mono by simp
  then have "paging_wf ?st1 ?p" using view(2-4) a by (simp add: paging_wf_def)
  moreover have "?p \<noteq> 0" using a(1) view(4) by auto
  moreover have "unat (primitive_heap ?st1) + region_count process_regions * 0x2000 < 2 ^ 32"
    using a size(2) unfolding process_regions_facts(2) by simp
  moreover have "unat (ft_length (frame_table ?st1)) < card (taken (frame_table ?st1)) + region_count process_regions"
    using size(1) view(3) unfolding process_regions_facts(2) by simp
  ultimately have "map_regions process_regions ?p ?st1 = Inl Kernel_Panic"
    by (intro map_regions_panics process_regions_facts(1))
  then show ?thesis
    using cur(1) view(1) by (simp add: create_directory_def SIZEOF_PAGE_DIRECTORY_def Allocate_aligned Let_def)
qed

text \<open>Directories made one after the other.\<close>

fun create_spaces :: "nat \<Rightarrow> paging_state \<Rightarrow> (u32 list \<times> paging_state) outcome" where
  "create_spaces 0 pag = Inr ([], pag)"
| "create_spaces (Suc n) pag =
     and_then (create_spaces n pag) (\<lambda>(ds, pag).
     and_then (create_directory process_regions pag) (\<lambda>(d, pag). Inr (d # ds, pag)))"

lemma create_spaces_seven:
  assumes "kernel_pages pag" and "n \<le> 7"
  shows "\<exists>ds pag'. create_spaces n pag = Inr (ds, pag') \<and> length ds = n \<and> spaces pag' ds"
  using assms(2)
proof (induction n)
  case 0
  then show ?case using spaces_start [OF assms(1)] by simp
next
  case (Suc n)
  then obtain ds pag1 where 1: "create_spaces n pag = Inr (ds, pag1)" "length ds = n" "spaces pag1 ds" by auto
  obtain d pag' where "create_directory process_regions pag1 = Inr (d, pag')" "spaces pag' (d # ds)"
    using spaces_step [OF 1(3)] 1(2) Suc.prems by auto
  then show ?case using 1(1,2) by simp
qed

lemma create_spaces_eighth:
  assumes "kernel_pages pag"
  shows "create_spaces 8 pag = Inl Kernel_Panic"
proof -
  obtain ds pag' where 7: "create_spaces 7 pag = Inr (ds, pag')" "length ds = 7" "spaces pag' ds"
    using create_spaces_seven [OF assms, of 7] by auto
  have "create_spaces (Suc 7) pag = Inl Kernel_Panic"
    by (simp only: create_spaces.simps 7(1) spaces_full [OF 7(3,2)] and_then_simps prod.case)
  then show ?thesis by simp
qed

end
