(* ===== verification/Shell.thy ===== *)
theory Shell
  imports Kernel
begin

text \<open>
  The shell of \<^verbatim>\<open>kernel.cpp\<close>: what each line of input does, that its two commands undo each other,
  and that a round reads its line from the keyboard through the line editor.
\<close>

section \<open>Facts\<close>

lemma literal_ok:
  assumes "s \<noteq> []" and "NUL \<notin> set s" and "length s < 64"
  shows "\<exists>k. literal g s = Inr k \<and> str_ok k \<and> text_of k = s"
proof -
  have "terminated (s @ [NUL])" "cstr (s @ [NUL]) = s" using assms(2) by (simp_all add: terminated_def)
  then show ?thesis
    using String_from_ok [of "s @ [NUL]" g] assms(1,3) by (simp add: literal_def)
qed

lemma literal_name:
  assumes "literal g s = Inr k" and "str_ok k" and "text_of k = s" and "s \<noteq> []" and "length s < 64" and "128 \<le> length beyond"
  shows "good_name beyond k"
proof -
  obtain d where "str_data k = Some d" "terminated d" "text_of k = cstr d" using assms(2) by (metis str_okE)
  then show ?thesis using assms(3-6) by (auto simp: good_name_def)
qed

lemma shell_command_eq:
  assumes "terminated b" and "length b + 200 < 2 ^ 32"
  shows "shell_command pdiff g beyond junk b sh =
    (if cstr b = [] then Inl Null_Pointer
     else if length (cstr b) = 64 \<or> 64 < length (cstr b) \<and> length (cstr b) mod 8 = 3 then Inl Out_Of_Bounds
     else if cstr b = ''START'' then shell_start pdiff g beyond junk sh
     else if cstr b = ''END'' then shell_end sh
     else Inr sh)"
proof -
  obtain k1 where k1: "literal g ''START'' = Inr k1" "str_ok k1" "text_of k1 = ''START''"
    using literal_ok [of "''START''" g] by auto
  obtain k2 where k2: "literal g ''END'' = Inr k2" "str_ok k2" "text_of k2 = ''END''"
    using literal_ok [of "''END''" g] by auto
  obtain d1 where d1: "data_of k1 = Inr d1" using k1(2) by (elim str_okE) (simp add: data_of_def)
  consider (empty) s where "cstr b = []" "String_from g b = Inr s" "str_data s = None"
    | (over) "cstr b \<noteq> []" "length (cstr b) = 64 \<or> 64 < length (cstr b) \<and> length (cstr b) mod 8 = 3"
        "String_from g b = Inl Out_Of_Bounds"
    | (copied) s where "cstr b \<noteq> []" "\<not> (length (cstr b) = 64 \<or> 64 < length (cstr b) \<and> length (cstr b) mod 8 = 3)"
        "String_from g b = Inr s" "str_ok s" "text_of s = cstr b"
    using String_from_cases [OF assms, of g] by (auto split: if_splits)
  then show ?thesis
  proof cases
    case empty
    then show ?thesis by (simp add: shell_command_def k1(1) String_compare_def data_of_def)
  next
    case over
    then show ?thesis by (simp add: shell_command_def)
  next
    case copied
    then show ?thesis
      by (simp add: shell_command_def k1 k2 String_compare_ok)
  qed
qed

lemma print_s_plain:
  assumes "tty_wf t" and "CHR 0x08 \<notin> set s"
  shows "\<exists>t'. print_s s (length s) t = Inr t' \<and> tty_wf t'"
  using Tty_Write_refines [OF assms, of "[]"] by (auto simp: print_s_eq)


text \<open>A shell with the loop program registered, for the witnesses.\<close>

definition example_shell :: shell where
  "example_shell = \<lparr>sh_proc = example_processing\<lparr>pr_registered := \<lparr>v_size = 1, v_capacity = 2, v_Log = 2,
      v_buffer = [\<lparr>rp_name = example_name ''loop2'', rp_func_ptr = 0x5000\<rparr>, no_program]\<rparr>\<rparr>,
     sh_tty = blank_tty, sh_running = 0, sh_last_pid = None\<rparr>"

section \<open>Properties\<close>

text \<open>
  C27: What a line does in the shell, for every line: an empty one dereferences the null pointer of
  an empty \<^verbatim>\<open>String\<close>, one of 64 characters, or of more with a remainder of 3 by 8, is copied past
  its block, \<^verbatim>\<open>START\<close> starts the loop program, \<^verbatim>\<open>END\<close> ends the one started last and reads an
  uninitialised id when none was, and every other line changes nothing.
\<close>

theorem shell_command_outcomes:
  assumes "terminated b" and "length b + 200 < 2 ^ 32"
  shows "shell_command pdiff g beyond junk b sh =
    (if cstr b = [] then Inl Null_Pointer
     else if length (cstr b) = 64 \<or> 64 < length (cstr b) \<and> length (cstr b) mod 8 = 3 then Inl Out_Of_Bounds
     else if cstr b = ''START'' then shell_start pdiff g beyond junk sh
     else if cstr b = ''END'' then (if sh_last_pid sh = None then Inl Uninitialised else shell_end sh)
     else Inr sh)"
  using shell_command_eq [OF assms] by (simp add: shell_end_def)

theorem shell_command_outcomes_witness:
  "shell_command (\<lambda>_ _. 0) (\<lambda>_. NUL) [] (example_process 0) (''END'' @ replicate 97 NUL)
     \<lparr>sh_proc = example_processing, sh_tty = blank_tty, sh_running = 0, sh_last_pid = None\<rparr> = Inl Uninitialised"
proof -
  have "terminated (''END'' @ replicate 97 NUL)" by (simp add: terminated_def)
  moreover have "cstr (''END'' @ replicate 97 NUL) = ''END''" by (simp add: numeral_eq_Suc)
  ultimately show ?thesis
    using shell_command_outcomes [of "''END'' @ replicate 97 NUL"] by simp
qed

text \<open>
  The two commands of the shell undo each other: with the loop program registered,
  \<^verbatim>\<open>START\<close> starts it under the next id, counts it and reports it, and the \<^verbatim>\<open>END\<close> that follows ends exactly
  that process, so that the ready lists, the count of processes and the directory in use are what
  they were before.
\<close>

theorem shell_start_end:
  assumes inv: "proc_inv (sh_proc sh) cs A B live" and room: "has_room 2 (sh_proc sh) live"
    and name: "128 \<le> length beyond" "names_program (sh_proc sh) ''loop2'' i func"
    and dir: "create_directory [(0xA0000000, 0xA0010000), (0xC0000000, 0xC1000000)] (pr_paging (in_kernel (sh_proc sh))) = Inr (d, pag)"
    and new: "pr_pid_seq (sh_proc sh) \<notin> set cs"
      "\<forall>p \<in> set A \<union> set B. pid_of (s_procs (pr_sched (sh_proc sh))) p \<noteq> pr_pid_seq (sh_proc sh)"
    and "length cs < 2 ^ 30" and "pr_cached_pid (sh_proc sh) \<noteq> 0" and "tty_wf (sh_tty sh)"
    and lines: "b1 = ''START'' @ NUL # rest" "b2 = ''END'' @ NUL # tail" "length rest \<le> 100" "length tail \<le> 100"
  shows "\<exists>sh1 sh2 live'. shell_command pdiff g beyond junk b1 sh = Inr sh1
    \<and> sh_running sh1 = sh_running sh + 1 \<and> sh_last_pid sh1 = Some (pr_pid_seq (sh_proc sh))
    \<and> shell_command pdiff g beyond junk b2 sh1 = Inr sh2 \<and> sh_running sh2 = sh_running sh
    \<and> proc_inv (sh_proc sh2) (cs @ [pr_pid_seq (sh_proc sh)]) A B live'
    \<and> cr3 (pr_paging (sh_proc sh2)) = cr3 (pr_paging (sh_proc sh)) \<and> tty_wf (sh_tty sh2)"
proof -
  let ?pid = "pr_pid_seq (sh_proc sh)"
  obtain k where k: "literal g ''loop2'' = Inr k" "str_ok k" "text_of k = ''loop2''"
    using literal_ok [of "''loop2''" g] by auto
  have "good_name beyond k" "names_program (sh_proc sh) (text_of k) i func"
    using literal_name [OF k _ _ name(1)] name(2) k(3) by simp_all
  from start_end_cycle [OF inv room this dir new assms(8,9), of pdiff g junk High] obtain st1 st2 live' where
    p: "Start_Process pdiff g beyond junk k High (sh_proc sh) = Inr (?pid, st1)" "End_Process ?pid st1 = Inr st2"
      "proc_inv st2 (cs @ [?pid]) A B live'" "cr3 (pr_paging st2) = cr3 (pr_paging (sh_proc sh))"
    by blast
  have plain: "plain_text ''Launched procesess pid #''" "plain_text ''Stopped proccess ''" "plain_text [CHR 0x0A]"
    by (simp_all add: plain_text_def)
  obtain t1 where t1: "printf (''Launched procesess pid #%d'' @ [CHR 0x0A, NUL]) [Va_int ?pid] (sh_tty sh) = Inr (1, t1)" "tty_wf t1"
    using printf_number [OF assms(10) plain(1,3), of ?pid] by auto
  obtain t2 where t2: "printf (''Stopped proccess %d'' @ [CHR 0x0A, NUL]) [Va_int ?pid] t1 = Inr (1, t2)" "tty_wf t2"
    using printf_number [OF t1(2) plain(2,3), of ?pid] by auto
  define sh1 where "sh1 = sh\<lparr>sh_proc := st1, sh_tty := t1, sh_running := sh_running sh + 1, sh_last_pid := Some ?pid\<rparr>"
  define sh2 where "sh2 = sh1\<lparr>sh_proc := st2, sh_tty := t2, sh_running := sh_running sh\<rparr>"
  have start: "shell_start pdiff g beyond junk sh = Inr sh1" using k(1) p(1) t1(1) by (simp add: shell_start_def sh1_def)
  have stop: "shell_end sh1 = Inr sh2" using p(2) t2(1) by (simp add: shell_end_def sh1_def sh2_def)
  have "shell_command pdiff g beyond junk b1 sh = Inr sh1"
    using start shell_command_eq [of b1 pdiff g beyond junk sh] lines(1,3) by simp
  moreover have "shell_command pdiff g beyond junk b2 sh1 = Inr sh2"
    using stop shell_command_eq [of b2 pdiff g beyond junk sh1] lines(2,4) by simp
  ultimately show ?thesis
    using p(3,4) t2(2) by (intro exI [of _ sh1] exI [of _ sh2] exI [of _ live']) (simp add: sh1_def sh2_def)
qed

theorem shell_start_end_witness:
  "\<exists>sh1 sh2. shell_command (\<lambda>_ _. 0) (\<lambda>_. NUL) (replicate 128 NUL) (example_process 0) (''START'' @ NUL # []) example_shell = Inr sh1
    \<and> sh_last_pid sh1 = Some 5
    \<and> shell_command (\<lambda>_ _. 0) (\<lambda>_. NUL) (replicate 128 NUL) (example_process 0) (''END'' @ NUL # []) sh1 = Inr sh2
    \<and> sh_running sh2 = 0"
proof -
  have "pr_paging (in_kernel (sh_proc example_shell)) = pr_paging (in_kernel example_processing)"
    by (simp add: example_shell_def in_kernel_def enter_kernel_def)
  then obtain d pag where dir: "create_directory [(0xA0000000, 0xA0010000), (0xC0000000, 0xC1000000)]
     (pr_paging (in_kernel (sh_proc example_shell))) = Inr (d, pag)"
    using example_directory by auto
  have st: "proc_inv (sh_proc example_shell) [] [] [] Map.empty" "has_room 2 (sh_proc example_shell) Map.empty"
    using example_inv example_room by (simp_all add: example_shell_def proc_inv_def has_room_def)
  have prog: "names_program (sh_proc example_shell) ''loop2'' 0 0x5000"
    using example_names [of "''loop2''"] by (simp add: names_program_def example_shell_def elements_def)
  have seq: "pr_pid_seq (sh_proc example_shell) = 5" "sh_running example_shell = 0" "tty_wf (sh_tty example_shell)"
      "pr_cached_pid (sh_proc example_shell) \<noteq> 0"
    by (simp_all add: example_shell_def example_processing_def blank_tty_wf)
  show ?thesis
    using shell_start_end [where beyond = "replicate 128 NUL" and pdiff = "\<lambda>_ _. 0" and g = "\<lambda>_. NUL"
        and junk = "example_process 0" and rest = "[]" and tail = "[]",
        OF st _ prog dir _ _ _ seq(4,3) refl refl] seq(1,2)
    by simp (erule exE conjE | intro exI conjI | assumption)+
qed



end
