(* ===== verification/Boot.thy ===== *)
theory Boot
  imports Address_Spaces Shell
begin

text \<open>
  From the entry of the kernel to its shell: the boot sequence, the first clock tick, the second
  stage and the tick that follows it, composed.
\<close>

section \<open>The second stage\<close>

text \<open>
  The second stage, entered by the first tick: what the scheduler, the registry and the new process
  are when it is done.
\<close>

lemma register_both:
  assumes "pr_registered st = Vector_new"
  shows "\<exists>v. and_then (and_then (literal g ''shell'') (\<lambda>n. RegisterProcess g n (im_shell im) st)) (\<lambda>st.
        and_then (literal g ''loop2'') (\<lambda>n. RegisterProcess g n (im_loop2 im) st)) = Inr (st\<lparr>pr_registered := v\<rparr>)
    \<and> names_program (st\<lparr>pr_registered := v\<rparr>) ''shell'' 0 (im_shell im)
    \<and> names_program (st\<lparr>pr_registered := v\<rparr>) ''loop2'' 1 (im_loop2 im)"
proof -
  obtain n1 where n1: "literal g ''shell'' = Inr n1" "str_ok n1" "text_of n1 = ''shell''"
    using literal_ok [of "''shell''" g] by auto
  obtain n2 where n2: "literal g ''loop2'' = Inr n2" "str_ok n2" "text_of n2 = ''loop2''"
    using literal_ok [of "''loop2''" g] by auto
  have new: "vector_wf (pr_registered st)" "elements (pr_registered st) = Inr []" using assms by simp_all
  obtain v1 p1 where v1: "RegisterProcess g n1 (im_shell im) st = Inr (st\<lparr>pr_registered := v1\<rparr>)" "vector_wf v1"
      "elements v1 = Inr [p1]" "str_ok (rp_name p1)" "text_of (rp_name p1) = ''shell''" "rp_func_ptr p1 = im_shell im"
    using RegisterProcess_appends [OF new, of n1 g "im_shell im"] n1 by auto
  have new2: "vector_wf (pr_registered (st\<lparr>pr_registered := v1\<rparr>))" "elements (pr_registered (st\<lparr>pr_registered := v1\<rparr>)) = Inr [p1]"
    using v1 by simp_all
  obtain v p2 where v: "RegisterProcess g n2 (im_loop2 im) (st\<lparr>pr_registered := v1\<rparr>) = Inr (st\<lparr>pr_registered := v\<rparr>)"
      "elements v = Inr [p1, p2]" "str_ok (rp_name p2)" "text_of (rp_name p2) = ''loop2''" "rp_func_ptr p2 = im_loop2 im"
    using RegisterProcess_appends [OF new2, of n2 g "im_loop2 im"] n2 by auto
  show ?thesis
    using n1(1) n2(1) v1 v by (intro exI [of _ v]) (simp add: names_program_def less_Suc_eq)
qed

lemma kernel_stage_2_result:
  assumes inv: "proc_inv st [] [p] [] live" and room: "room_for 98 98 st live"
    and self: "s_procs (pr_sched st) = [p \<mapsto> j]" "kp_pid j = pr_cached_pid st" "pr_cached_process st = p"
    and pids: "pr_cached_pid st \<noteq> 0" "pr_pid_seq st = pr_cached_pid st + 1"
    and pag: "kernel_pages (pr_paging st)" and reg: "pr_registered st = Vector_new" and beyond: "128 \<le> length beyond"
  shows "\<exists>st' q k live'. kernel_stage_2 pdiff g beyond junk im False c st = Inr (True, c\<lparr>cpu_interrupts := True\<rparr>, st')
    \<and> proc_inv st' [pr_cached_pid st] [] [q] live' \<and> s_procs (pr_sched st') p \<noteq> None \<and> q \<noteq> p
    \<and> s_procs (pr_sched st') q = Some k \<and> kp_pid k = pr_cached_pid st + 1 \<and> r_eip (kp_registers k) = im_shell im
    \<and> r_esp (kp_registers k) = 0xA0001000 \<and> kp_times_ran k = 0 \<and> spaces (pr_paging st') [kp_directory k] \<and> room_for 97 95 st' live'
    \<and> pr_pid_seq st' = pr_cached_pid st + 2 \<and> names_program st' ''loop2'' 1 (im_loop2 im) \<and> keeps_clock st st'
    \<and> (\<exists>b. s_procs (pr_sched st') = [p \<mapsto> j\<lparr>kp_input_buffer := b\<rparr>, q \<mapsto> k])"
proof -
  have r98: "room_for (Suc 97) (Suc 97) st live" "room_for (Suc 97) (Suc 97) st live \<Longrightarrow> has_room (Suc 97) st live"
    using room room_for_has_room [of 97] by simp_all
  have me: "s_procs (pr_sched st) (pr_cached_process st) = Some j" using self by simp
  obtain b mm where init: "SelfProcessInit pdiff st = Inr (set_proc p (j\<lparr>kp_input_buffer := b\<rparr>) (set_mm mm st))"
      "proc_inv (set_proc p (j\<lparr>kp_input_buffer := b\<rparr>) (set_mm mm st)) [] [p] [] live"
      "room_for (Suc 97) 97 (set_proc p (j\<lparr>kp_input_buffer := b\<rparr>) (set_mm mm st)) live"
    using SelfProcessInit_inv [OF inv r98(2) [OF r98(1)] me, of pdiff] r98(1) unfolding self(3) by blast
  define st1 where "st1 = set_proc p (j\<lparr>kp_input_buffer := b\<rparr>) (set_mm mm st)"
  have st1: "pr_registered st1 = Vector_new" "pr_paging st1 = pr_paging st" "pr_cached_pid st1 = pr_cached_pid st"
      "pr_pid_seq st1 = pr_pid_seq st" "keeps_clock st st1" "s_procs (pr_sched st1) = [p \<mapsto> j\<lparr>kp_input_buffer := b\<rparr>]"
    using reg self by (simp_all add: st1_def keeps_clock_def) (simp_all add: set_proc_def set_mm_def)
  obtain v where v: "and_then (and_then (literal g ''shell'') (\<lambda>n. RegisterProcess g n (im_shell im) st1)) (\<lambda>st.
        and_then (literal g ''loop2'') (\<lambda>n. RegisterProcess g n (im_loop2 im) st)) = Inr (st1\<lparr>pr_registered := v\<rparr>)"
      "names_program (st1\<lparr>pr_registered := v\<rparr>) ''shell'' 0 (im_shell im)"
      "names_program (st1\<lparr>pr_registered := v\<rparr>) ''loop2'' 1 (im_loop2 im)"
    using register_both [OF st1(1)] by blast
  define st2 where "st2 = st1\<lparr>pr_registered := v\<rparr>"
  have st2: "pr_paging st2 = pr_paging st" "pr_cached_pid st2 = pr_cached_pid st" "pr_pid_seq st2 = pr_cached_pid st + 1"
      "keeps_clock st st2" "proc_inv st2 [] [p] [] live" "room_for (Suc 97) 97 st2 live"
      "s_procs (pr_sched st2) = [p \<mapsto> j\<lparr>kp_input_buffer := b\<rparr>]"
    using st1 pids init(2,3) by (simp_all add: st2_def keeps_clock_def proc_inv_def room_for_def flip: st1_def)
  obtain n where n: "literal g ''shell'' = Inr n" "good_name beyond n" "text_of n = ''shell''"
    using literal_ok [of "''shell''" g] literal_name [of g "''shell''" _ beyond] beyond by auto
  obtain buf rps rp where find: "copy_name beyond n = Inr buf" "elements (pr_registered st2) = Inr rps"
      "find_registered g buf rps = Inr 0" "load_at (v_buffer (pr_registered st2)) 0 = Inr rp" "rp_func_ptr rp = im_shell im"
    using names_program_find [OF n(2), of st2 0 "im_shell im" g] v(2) n(3) by (auto simp: st2_def)
  have kp: "kernel_pages (pr_paging (in_kernel st2))"
    using pag pids(1) st2(1,2) by (simp add: in_kernel_def enter_kernel_def SetDirectory_def kernel_pages_cr3)
  then obtain d pag' where dir: "create_directory [(0xA0000000, 0xA0010000), (0xC0000000, 0xC1000000)]
      (pr_paging (in_kernel st2)) = Inr (d, pag')" "spaces pag' [d]"
    using spaces_step [OF spaces_start [OF kp]] by auto
  have room2: "has_room 2 st2 live" using room_for_has_room [OF st2(6)] by (simp add: has_room_def)
  obtain q k st3 live' where start: "Start_Process pdiff g beyond junk n High st2 = Inr (pr_pid_seq st2, st3)"
      "proc_inv st3 [] [p] [q] live'" "s_procs (pr_sched st2) q = None" "s_procs (pr_sched st3) = (s_procs (pr_sched st2))(q \<mapsto> k)"
      "kp_pid k = pr_pid_seq st2" "kp_directory k = d" "r_eip (kp_registers k) = rp_func_ptr rp"
      "r_esp (kp_registers k) = 0xA0001000" "pr_paging st3 = pag'\<lparr>cr3 := cr3 (pr_paging st3)\<rparr>" "kp_times_ran k = 0"
      "pr_pid_seq st3 = pr_pid_seq st2 + 1" "\<forall>m n. room_for (Suc m) (n + 2) st2 live \<longrightarrow> room_for m n st3 live'"
    using Start_Process_at [OF st2(5) room2 find(1-4) dir(1), of pdiff junk High] by auto
  have keep3: "keeps_clock st st3" "pr_registered st3 = pr_registered st2" "pr_cached_pid st3 = pr_cached_pid st"
    using Start_Process_keeps [OF start(1)] keeps_clock_trans [OF st2(4)] st2(2) by (auto simp: keeps_clock_def)
  have pidp: "pid_of (s_procs (pr_sched st3)) p = pr_cached_pid st" "q \<noteq> p"
    using start(3,4) st2(7) self(2) by (auto simp: pid_of_def)
  have pidq: "pid_of (s_procs (pr_sched st3)) q = pr_cached_pid st + 1" using start(4,5) st2(3) by (simp add: pid_of_def)
  obtain st4 where fin: "End_Process (pr_cached_pid st) st3 = Inr st4" "s_procs (pr_sched st4) = s_procs (pr_sched st3)"
      "pr_registered st4 = pr_registered st3" "pr_paging st4 = pr_paging st3" "proc_inv st4 [pr_cached_pid st] [] [q] live'"
      "s_mem (pr_sched st4) = s_mem (pr_sched st3)" "pr_pid_seq st4 = pr_pid_seq st3"
    using End_Process_inv [OF start(2), of "pr_cached_pid st"] pidp pidq by auto
  have space: "spaces (pr_paging st4) [d]" using dir(2) start(9) fin(4) spaces_cr3 by metis
  have "room_for 97 95 st3 live'" using start(12) st2(6) by simp
  then have room4: "room_for 97 95 st4 live'" using fin(6) by (simp add: room_for_def)
  have loop2: "names_program st4 ''loop2'' 1 (im_loop2 im)"
    using v(3) fin(3) keep3(2) by (simp add: names_program_def st2_def)
  have "kernel_stage_2 pdiff g beyond junk im False c st = Inr (True, c\<lparr>cpu_interrupts := True\<rparr>, st4)"
    using init(1) v(1) n(1) start(1) fin(1) keep3(3)
    by (auto simp: kernel_stage_2_def Let_def GetPid_def and_then_Inr_iff simp flip: st1_def st2_def)
  then show ?thesis
    using fin start st2(3,7) find(5) pidp(2) space room4 loop2 keeps_clock_trans [OF keep3(1) End_Process_keeps [OF fin(1)]]
    by (intro exI [of _ st4] exI [of _ q] exI [of _ k] exI [of _ live']) (simp, rule exI, rule refl)
qed

section \<open>The clock ticks around it\<close>

lemma tick_frame_inv:
  assumes "proc_inv st cs A B live" and "tick_frame st st'" and "ready (pr_sched st') cs' A' B'"
    and "dom (s_procs (pr_sched st')) = dom (s_procs (pr_sched st))"
  shows "proc_inv st' cs' A' B' live" and "room_for m n st live \<Longrightarrow> room_for m n st' live"
proof -
  have same: "same_big (q_mm (s_mem (pr_sched st))) (q_mm (s_mem (pr_sched st')))"
    using assms(2) by (simp add: tick_frame_def mem_frame_def)
  show "proc_inv st' cs' A' B' live" using assms(1,3,4) same_bigD [OF same] by (auto simp: proc_inv_def)
  show "room_for m n st' live" if "room_for m n st live"
    using room_for_frame [OF that same, of n] assms(2) by (simp add: tick_frame_def)
qed

lemma tick_procs_dom: "dom (tick_procs cur n here c procs) = dom procs"
  by (auto simp: tick_procs_def bump_def save_context_def split: if_splits)

text \<open>A tick on a machine whose one live process \<open>q\<close> has not run: it is entered with its first registers.\<close>

lemma tick_enters:
  assumes inv: "proc_inv st cs A B live" and sel: "A = [q] \<and> B = [] \<or> A = [] \<and> B = [q]" and k: "s_procs (pr_sched st) q = Some k" "kp_times_ran k = 0"
    and fns: "elements (pr_functions st) = Inr [\<lambda>_. run_process_scheduler pdiff]"
    and cur: "s_current (pr_sched st) \<noteq> 0 \<longrightarrow> s_procs (pr_sched st) (s_current (pr_sched st)) \<noteq> None"
      "s_current (pr_sched st) \<noteq> q"
    and here: "here \<noteq> 0x12345"
  shows "\<exists>c' st' k'. tick_handler here reg c st = Inr (c', st') \<and> resumes c' k \<and> proc_inv st' cs A B live
    \<and> dom (s_procs (pr_sched st')) = dom (s_procs (pr_sched st))
    \<and> s_procs (pr_sched st') q = Some k' \<and> kp_pid k' = kp_pid k \<and> kp_directory k' = kp_directory k \<and> s_current (pr_sched st') = q
    \<and> (\<forall>m. counters_low (Suc m) (s_procs (pr_sched st)) \<longrightarrow> counters_low m (s_procs (pr_sched st')))
    \<and> pr_cached_process st' = q \<and> pr_cached_pid st' = kp_pid k \<and> cr3 (pr_paging st') = kp_directory k + 4096
    \<and> tick_frame st st' \<and> clocked pdiff st' cs A B"
proof -
  let ?cur = "s_current (pr_sched st)" and ?procs = "s_procs (pr_sched st)"
  have st: "clocked pdiff st cs A B" "selected A B = q" "after_tick (A, B) = (A, B)"
    using inv sel fns cur(1) by (auto simp: clocked_def proc_inv_def)
  have q: "q \<noteq> 0" using ready_null [OF clockedD(1) [OF st(1)]] k(1) by auto
  have ran: "ucast (kp_times_ran k + 1) \<noteq> (0 :: u32)" by (simp add: k(2))
  obtain c' st' k2 where t: "tick_handler here reg c st = Inr (c', st')"
      "save_context ?cur here c (bump q ?procs) q = Some k2" "resumes c' k2"
      "clocked pdiff st' cs A B" "s_current (pr_sched st') = q" "s_procs (pr_sched st') = tick_procs ?cur q here c ?procs"
      "pr_cached_pid st' = kp_pid k" "cr3 (pr_paging st') = kp_directory k + 4096" "tick_frame st st'" "pr_cached_process st' = q"
    using tick_selected [OF st(1,2) q k(1) here ran, of reg c] st(3) by auto
  have "kp_registers k2 = kp_registers k"
    using t(2) cur(2) k(1) by (auto simp: save_context_def bump_def)
  then have res: "resumes c' k" using t(3) by (simp add: resumes_def)
  obtain k' where k': "tick_procs ?cur q here c ?procs q = Some k'" "kp_pid k' = kp_pid k" "kp_directory k' = kp_directory k"
    using cur(2) k(1) by (auto simp: tick_procs_def save_context_def bump_def)
  show ?thesis
    using t res k' tick_frame_inv(1) [OF inv t(9) clockedD(1) [OF t(4)]] tick_procs_dom counters_low_tick by simp
qed

text \<open>Both ticks, with what the shell then finds.\<close>

lemma boot_to_shell:
  assumes ok: "boot_ok im bin_mem k" and beyond: "128 \<le> length beyond"
    and here: "here \<noteq> 0x12345" "there \<noteq> 0x12345"
  shows "\<exists>k' c1 st1 st2 c3 st3 d q s live. kernel_main pdiff junk im dev vga bin_mem chunks stack_top k = Inr k'
    \<and> tick_handler here reg (k_cpu k') (k_proc k') = Inr (c1, st1)
    \<and> cpu_eip c1 = im_stage_2 im \<and> cpu_esp c1 = 0xA0001000 \<and> GetPid st1 = 1
    \<and> kernel_stage_2 pdiff g beyond junk im False c1 st1 = Inr (True, c1\<lparr>cpu_interrupts := True\<rparr>, st2)
    \<and> tick_handler there reg' c st2 = Inr (c3, st3)
    \<and> cpu_eip c3 = im_shell im \<and> cpu_esp c3 = 0xA0001000 \<and> cpu_interrupts c3 \<and> GetPid st3 = 2
    \<and> cr3 (pr_paging st3) = d + 4096 \<and> spaces (pr_paging st3) [d]
    \<and> proc_inv st3 [1] [] [q] live \<and> clocked pdiff st3 [1] [] [q] \<and> room_for 97 95 st3 live
    \<and> names_program st3 ''loop2'' 1 (im_loop2 im) \<and> pr_pid_seq st3 = 3 \<and> s_procs (pr_sched st3) q = Some s \<and> kp_pid s = 2
    \<and> s_current (pr_sched st3) = q \<and> pr_cached_process st3 = q \<and> kp_directory s = d \<and> counters_low 0x20000000 (s_procs (pr_sched st3))
    \<and> k_tty k' = Tty_Initialize vga"
proof -
  have pid: "pr_pid_seq (k_proc k) = 1" using ok by (simp add: boot_ok_def)
  obtain p j k' live where k': "kernel_main pdiff junk im dev vga bin_mem chunks stack_top k = Inr k'"
      "proc_inv (k_proc k') [] [p] [] live" "s_procs (pr_sched (k_proc k')) = [p \<mapsto> j]" "s_current (pr_sched (k_proc k')) = 0"
      "kp_pid j = 1" "r_eip (kp_registers j) = im_stage_2 im" "r_esp (kp_registers j) = 0xA0001000" "kp_times_ran j = 0"
      "elements (pr_functions (k_proc k')) = Inr [\<lambda>_. run_process_scheduler pdiff]" "kernel_pages (pr_paging (k_proc k'))"
      "pr_registered (k_proc k') = Vector_new" "pr_pid_seq (k_proc k') = 2" "room_for 98 98 (k_proc k') live"
      "k_tty k' = Tty_Initialize vga"
    using kernel_main_result [OF ok, of pdiff junk dev vga chunks stack_top] pid by auto
  have p: "p \<noteq> 0" using ready_null [of "pr_sched (k_proc k')" "[]" "[p]" "[]"] k'(2,3) by (auto simp: proc_inv_def split: if_splits)
  obtain c1 st1 j' where t1: "tick_handler here reg (k_cpu k') (k_proc k') = Inr (c1, st1)" "resumes c1 j"
      "proc_inv st1 [] [p] [] live" "dom (s_procs (pr_sched st1)) = dom (s_procs (pr_sched (k_proc k')))"
      "s_procs (pr_sched st1) p = Some j'" "kp_pid j' = 1" "s_current (pr_sched st1) = p" "pr_cached_process st1 = p"
      "pr_cached_pid st1 = 1" "tick_frame (k_proc k') st1" "clocked pdiff st1 [] [p] []"
      "\<forall>m. counters_low (Suc m) (s_procs (pr_sched (k_proc k'))) \<longrightarrow> counters_low m (s_procs (pr_sched st1))"
    using tick_enters [where c = "k_cpu k'" and reg = reg, OF k'(2) _ _ k'(8,9) _ _ here(1), of p] k'(3,4,5) p by simp metis
  have procs1: "s_procs (pr_sched st1) = [p \<mapsto> j']"
    using t1(4,5) k'(3) by (auto simp: fun_eq_iff dom_def split: if_splits)
  have st1: "room_for 98 98 st1 live" "kernel_pages (pr_paging st1)" "pr_registered st1 = Vector_new" "pr_pid_seq st1 = pr_cached_pid st1 + 1"
    using tick_frame_inv(2) [OF k'(2) t1(10) clockedD(1) [OF t1(11)] t1(4) k'(13)] t1(9,10) k'(10-12) kernel_pages_cr3
    unfolding tick_frame_def by (simp_all, metis)
  obtain st2 q s live2 b where t2: "kernel_stage_2 pdiff g beyond junk im False c1 st1 = Inr (True, c1\<lparr>cpu_interrupts := True\<rparr>, st2)"
      "proc_inv st2 [1] [] [q] live2" "s_procs (pr_sched st2) p \<noteq> None" "q \<noteq> p" "s_procs (pr_sched st2) q = Some s" "kp_pid s = 2"
      "r_eip (kp_registers s) = im_shell im" "r_esp (kp_registers s) = 0xA0001000" "kp_times_ran s = 0"
      "spaces (pr_paging st2) [kp_directory s]" "room_for 97 95 st2 live2" "pr_pid_seq st2 = 3" "names_program st2 ''loop2'' 1 (im_loop2 im)"
      "keeps_clock st1 st2" "s_procs (pr_sched st2) = [p \<mapsto> j'\<lparr>kp_input_buffer := b\<rparr>, q \<mapsto> s]"
    using kernel_stage_2_result [OF t1(3) st1(1) procs1 _ t1(8) _ st1(4,2,3) beyond, of pdiff g junk im c1] t1(6,9) by auto
  have clock2: "elements (pr_functions st2) = Inr [\<lambda>_. run_process_scheduler pdiff]" "s_current (pr_sched st2) = p"
    using t2(14) t1(7,11) by (simp_all add: keeps_clock_def clocked_def)
  obtain c3 st3 s' where t3: "tick_handler there reg' c st2 = Inr (c3, st3)" "resumes c3 s" "pr_cached_pid st3 = 2"
      "cr3 (pr_paging st3) = kp_directory s + 4096" "tick_frame st2 st3" "proc_inv st3 [1] [] [q] live2"
      "dom (s_procs (pr_sched st3)) = dom (s_procs (pr_sched st2))" "clocked pdiff st3 [1] [] [q]"
      "s_procs (pr_sched st3) q = Some s'" "kp_pid s' = 2" "s_current (pr_sched st3) = q" "pr_cached_process st3 = q" "kp_directory s' = kp_directory s"
      "\<forall>m. counters_low (Suc m) (s_procs (pr_sched st2)) \<longrightarrow> counters_low m (s_procs (pr_sched st3))"
    using tick_enters [where c = c and reg = reg', OF t2(2) _ t2(5,9) clock2(1) _ _ here(2)] clock2(2) t2(3,4,6) by auto
  have "counters_low (Suc (Suc 0x20000000)) (s_procs (pr_sched (k_proc k')))" using k'(3,8) by (simp add: counters_low_def)
  then have "counters_low (Suc 0x20000000) (s_procs (pr_sched st1))" using t1(12) by blast
  then have "counters_low (Suc 0x20000000) (s_procs (pr_sched st2))"
    using t1(5) t2(4,9,15) by (auto simp: counters_low_def)
  then have "counters_low 0x20000000 (s_procs (pr_sched st3))" using t3(14) by blast
  moreover have "room_for 97 95 st3 live2" using tick_frame_inv(2) [OF t2(2) t3(5) clockedD(1) [OF t3(8)] t3(7) t2(11)] .
  moreover have "spaces (pr_paging st3) [kp_directory s]" "pr_pid_seq st3 = 3" "names_program st3 ''loop2'' 1 (im_loop2 im)"
    using t2(10,12,13) t3(5) spaces_cr3 unfolding tick_frame_def names_program_def by (metis, simp_all)
  ultimately show ?thesis
    using k'(1,6,7,14) t1(1,2,9) t2(1,7,8) t3(1-13)
    by (intro exI [of _ k'] exI [of _ c1] exI [of _ st1] exI [of _ st2] exI [of _ c3] exI [of _ st3] exI [of _ "kp_directory s"]
        exI [of _ q] exI [of _ s'] exI [of _ live2]) (simp add: resumes_def GetPid_def)
qed

section \<open>A machine to boot, for the witnesses\<close>

definition example_image :: image where
  "example_image = \<lparr>im_isr = replicate 32 0x100000, im_irq = replicate 16 0x100800, im_gdt_at = 0x110000, im_gdt_ptr_at = 0x110100,
     im_idt_at = 0x111000, im_idt_ptr_at = 0x111800, im_stage_2 = 0x102000, im_shell = 0x103000, im_loop2 = 0x104000\<rparr>"

definition example_kernel :: kernel where
  "example_kernel = \<lparr>k_tty = blank_tty,
     k_gdt = \<lparr>gdt_entries = replicate 5 zero_gdt_entry, gdt_ptr = \<lparr>p_size = 0, p_base = 0\<rparr>\<rparr>,
     k_idt = \<lparr>idt_entries = replicate 256 zero_idt_entry, idt_ptr = \<lparr>p_size = 0, p_base = 0\<rparr>\<rparr>,
     k_io = [], k_handlers = replicate 256 None,
     k_proc = example_processing\<lparr>pr_paging := sample_state\<lparr>primitive_heap := 0x200000\<rparr>, pr_registered := Vector_new, pr_pid_seq := 1\<rparr>,
     k_cpu = example_cpu, k_bytes = (\<lambda>_. 0), k_key_source = None, k_key_nodes = Map.empty, k_queues = Map.empty\<rparr>"

lemma example_boot_ok: "boot_ok example_image (replicate 1700 0) example_kernel"
  by (simp add: boot_ok_def example_image_def example_kernel_def example_processing_def ProcessScheduler_new_def boot_qmem_def sample_state_def)

section \<open>Properties\<close>

text \<open>
  C12: On any machine whose tables have their sizes and whose image ends below 240 MB,
  \<^verbatim>\<open>kernel_main\<close> comes to its idle loop: one process exists, number 1, at the second stage and in the kernel's
  directory, and it is the one the clock will select; paging translates the first two megabytes to
  themselves, the heap and the kernel stack to their frames and nothing else; of the handlers only
  those of the clock and the keyboard are set (the page-fault handler registered while memory was
  initialised is lost when the table is cleared afterwards); the timer has its divisor for 20 ticks
  per second, the screen is ready and interrupts are on.
\<close>

theorem kernel_main_boots:
  assumes "boot_ok im bin_mem k" and "length vga = 2000"
  shows "\<exists>k' p j. kernel_main pdiff junk im dev vga bin_mem chunks stack_top k = Inr k'
    \<and> turns pdiff (k_proc k') [] [p] \<and> s_procs (pr_sched (k_proc k')) = [p \<mapsto> j]
    \<and> kp_pid j = 1 \<and> r_eip (kp_registers j) = im_stage_2 im \<and> kp_directory j = kernel_directory (pr_paging (k_proc k'))
    \<and> paging_enabled (pr_paging (k_proc k'))
    \<and> (\<forall>q < 2 ^ 20. mmu_walk (pr_paging (k_proc k')) (kp_directory j) q = kernel_walk q)
    \<and> k_handlers k' = (replicate 256 None)[33 := Some Key, 32 := Some Tick] \<and> cpu_interrupts (k_cpu k') \<and> tty_wf (k_tty k')
    \<and> sent 0x43 (k_io k') = sent 0x43 (k_io k) @ [0x36] \<and> sent 0x40 (k_io k') = sent 0x40 (k_io k) @ [0x0B, 0xE9]"
proof -
  have pid: "pr_pid_seq (k_proc k) = 1" using assms(1) by (simp add: boot_ok_def)
  obtain p j k' live where k': "kernel_main pdiff junk im dev vga bin_mem chunks stack_top k = Inr k'"
      "proc_inv (k_proc k') [] [p] [] live" "s_procs (pr_sched (k_proc k')) = [p \<mapsto> j]" "s_current (pr_sched (k_proc k')) = 0"
      "kp_pid j = 1" "r_eip (kp_registers j) = im_stage_2 im" "kp_directory j = kernel_directory (pr_paging (k_proc k'))"
      "elements (pr_functions (k_proc k')) = Inr [\<lambda>_. run_process_scheduler pdiff]" "kernel_pages (pr_paging (k_proc k'))"
      "k_handlers k' = (replicate 256 None)[33 := Some Key, 32 := Some Tick]" "cpu_interrupts (k_cpu k')"
      "k_tty k' = Tty_Initialize vga" "sent 0x43 (k_io k') = sent 0x43 (k_io k) @ [0x36]"
      "sent 0x40 (k_io k') = sent 0x40 (k_io k) @ [0x0B, 0xE9]"
    using kernel_main_result [OF assms(1), of pdiff junk dev vga chunks stack_top] pid by auto
  have "turns pdiff (k_proc k') [] [p]"
    using k'(2,4,8) by (auto simp: turns_def clocked_def proc_inv_def)
  then show ?thesis
    using k' assms(2) Tty_Initialize_wf
    by (intro exI [of _ k'] exI [of _ p] exI [of _ j]) (simp add: kernel_pages_def)
qed

theorem kernel_main_boots_witness:
  "\<exists>k' p. kernel_main (\<lambda>_ _. 0) (example_process 0) example_image (\<lambda>_ _. 0) (replicate 2000 0) (replicate 1700 0) (\<lambda>_. zero_chunk)
      0x9000 example_kernel = Inr k'
    \<and> turns (\<lambda>_ _. 0) (k_proc k') [] [p] \<and> k_handlers k' ! 32 = Some Tick \<and> k_handlers k' ! 14 = None"
proof -
  have "length (replicate 2000 (0 :: u16)) = 2000" by simp
  from kernel_main_boots [OF example_boot_ok this, where pdiff = "\<lambda>_ _. 0" and junk = "example_process 0" and dev = "\<lambda>_ _. 0"
      and chunks = "\<lambda>_. zero_chunk" and stack_top = "0x9000"]
  obtain k' p where "kernel_main (\<lambda>_ _. 0) (example_process 0) example_image (\<lambda>_ _. 0) (replicate 2000 0) (replicate 1700 0)
      (\<lambda>_. zero_chunk) 0x9000 example_kernel = Inr k'" "turns (\<lambda>_ _. 0) (k_proc k') [] [p]"
      "k_handlers k' = (replicate 256 None)[33 := Some Key, 32 := Some Tick]"
    by (elim exE conjE) (rule that)
  then show ?thesis by (intro exI [of _ k'] exI [of _ p]) simp
qed

text \<open>
  C1: From the entry of the kernel to its shell. After \<^verbatim>\<open>kernel_main\<close> the first tick of the clock
  enters the second stage on the kernel's stack; the second stage registers the shell and the loop
  program, starts the shell, ends its own process and comes back with interrupts on; the tick that
  follows, whatever the processor was doing, enters the shell as process 2, on a stack and in an
  address space of its own, from which exactly the kernel's first two megabytes, the 16 pages of
  that stack and the heap can be reached.
\<close>

theorem boot_reaches_shell:
  assumes ok: "boot_ok im bin_mem k" and beyond: "128 \<le> length beyond"
    and here: "here \<noteq> 0x12345" "there \<noteq> 0x12345"
  shows "\<exists>k' c1 st1 st2 c3 st3 d. kernel_main pdiff junk im dev vga bin_mem chunks stack_top k = Inr k'
    \<and> tick_handler here reg (k_cpu k') (k_proc k') = Inr (c1, st1)
    \<and> cpu_eip c1 = im_stage_2 im \<and> cpu_esp c1 = 0xA0001000 \<and> GetPid st1 = 1
    \<and> kernel_stage_2 pdiff g beyond junk im False c1 st1 = Inr (True, c1\<lparr>cpu_interrupts := True\<rparr>, st2)
    \<and> tick_handler there reg' c st2 = Inr (c3, st3)
    \<and> cpu_eip c3 = im_shell im \<and> cpu_esp c3 = 0xA0001000 \<and> cpu_interrupts c3 \<and> GetPid st3 = 2
    \<and> cr3 (pr_paging st3) = d + 4096 \<and> process_space (pr_paging st3) d"
  using boot_to_shell [OF assms, of pdiff junk dev vga chunks stack_top reg g reg' c]
  by (elim exE conjE) (intro exI conjI, assumption+, simp add: spaces_def)

theorem boot_reaches_shell_witness:
  "\<exists>k' c1 st1 st2 c3 st3. kernel_main (\<lambda>_ _. 0) (example_process 0) example_image (\<lambda>_ _. 0) (replicate 2000 0) (replicate 1700 0)
      (\<lambda>_. zero_chunk) 0x9000 example_kernel = Inr k'
    \<and> tick_handler 0x105000 (kp_registers (example_process 0)) (k_cpu k') (k_proc k') = Inr (c1, st1) \<and> cpu_eip c1 = 0x102000
    \<and> kernel_stage_2 (\<lambda>_ _. 0) (\<lambda>_. NUL) (replicate 128 NUL) (example_process 0) example_image False c1 st1
        = Inr (True, c1\<lparr>cpu_interrupts := True\<rparr>, st2)
    \<and> tick_handler 0x105000 (kp_registers (example_process 0)) example_cpu st2 = Inr (c3, st3) \<and> cpu_eip c3 = 0x103000"
proof -
  have far: "128 \<le> length (replicate 128 NUL)" and here: "(0x105000 :: u32) \<noteq> 0x12345" by simp_all
  have entries: "im_stage_2 example_image = 0x102000" "im_shell example_image = 0x103000" by (simp_all add: example_image_def)
  show ?thesis
    using boot_reaches_shell [where pdiff = "\<lambda>_ _. 0" and junk = "example_process 0" and dev = "\<lambda>_ _. 0" and g = "\<lambda>_. NUL"
      and chunks = "\<lambda>_. zero_chunk" and stack_top = "0x9000" and vga = "replicate 2000 0" and reg = "kp_registers (example_process 0)"
      and reg' = "kp_registers (example_process 0)" and c = example_cpu, OF example_boot_ok far here here]
    unfolding entries by (elim exE conjE) (intro exI conjI, assumption+)
qed

end
