(* ===== verification/Kernel_Irq.thy ===== *)
theory Kernel_Irq
  imports Boot
begin

text \<open>
  The kernel under interrupts: the handlers that \<^verbatim>\<open>kernel_main\<close> leaves in the table, on the whole
  state. The input buffers are \<^verbatim>\<open>Queue\<close> objects at addresses, their nodes come from the same heap as
  those of the scheduler. The reference is a machine of processes that take turns, each with the keys
  that were pressed while it ran.
\<close>

section \<open>Handlers on the whole state\<close>

text \<open>The view the keyboard's code has: the running process's buffer, through the cached pointers.\<close>

definition running_keyboard :: "kernel \<Rightarrow> keyboard outcome" where
  "running_keyboard k =
     and_then (cached_process (k_proc k)) (\<lambda>j.
     let kb = \<lparr>kb_mem = \<lparr>q_mm = q_mm (s_mem (pr_sched (k_proc k))), q_nodes = k_key_nodes k\<rparr>,
               kb_buffer = None, kb_lock = kp_input_buffer_lock j\<rparr>
     in if kp_input_buffer j = 0 then Inr kb
        else (case k_queues k (kp_input_buffer j) of
                None \<Rightarrow> Inl Null_Pointer
              | Some q \<Rightarrow> Inr (kb\<lparr>kb_buffer := Some q\<rparr>)))"

definition put_keyboard :: "keyboard \<Rightarrow> kernel \<Rightarrow> kernel outcome" where
  "put_keyboard kb k =
     and_then (cached_process (k_proc k)) (\<lambda>j.
       let st = set_mm (q_mm (kb_mem kb)) (k_proc k)
       in Inr (k\<lparr>k_proc := set_proc (pr_cached_process st) (j\<lparr>kp_input_buffer_lock := kb_lock kb\<rparr>) st,
                 k_key_nodes := q_nodes (kb_mem kb),
                 k_queues := (case kb_buffer kb of
                    None \<Rightarrow> k_queues k
                  | Some q \<Rightarrow> (k_queues k)(kp_input_buffer j \<mapsto> q))\<rparr>))"

definition key_interrupt ::
    "(u32 \<Rightarrow> u32 \<Rightarrow> u32) \<Rightarrow> device \<Rightarrow> u32 \<Rightarrow> kernel \<Rightarrow> kernel outcome" where
  "key_interrupt pdiff dev kjunk k =
     (case k_key_source k of
        None \<Rightarrow> Inl Null_Pointer
      | Some source \<Rightarrow>
          (let (input, h) = inb dev (ucast PS2_DATA_PORT) (k_io k);
               key = source kjunk input; k = k\<lparr>k_io := h\<rparr>
           in if ik_error key then Inr k
              else and_then (running_keyboard k) (\<lambda>kb.
                   and_then (KeyboardHandler pdiff key kb) (\<lambda>kb. put_keyboard kb k))))"

definition tick_interrupt :: "u32 \<Rightarrow> RegistersStruct_x86_32 \<Rightarrow> kernel \<Rightarrow> kernel outcome" where
  "tick_interrupt here registers k =
     and_then (tick_handler here registers (k_cpu k) (k_proc k)) (\<lambda>(c, st). Inr (k\<lparr>k_cpu := c, k_proc := st\<rparr>))"

definition fault_interrupt :: "u32 \<Rightarrow> RegistersStruct_x86_32 \<Rightarrow> kernel \<Rightarrow> kernel outcome" where
  "fault_interrupt cr2 registers k =
     (let st = k_proc k; n = GetNext (pr_sched st)
      in and_then (if n = 0 \<or> bit (r_err_code registers) 0 then Inr None
                   else and_then (proc_at n (s_procs (pr_sched st))) (\<lambda>j. Inr (Some (kp_directory j)))) (\<lambda>dir.
         and_then (page_fault_handler (r_err_code registers) cr2 dir (pr_paging st)) (\<lambda>pag.
           Inr (k\<lparr>k_proc := st\<lparr>pr_paging := pag\<rparr>\<rparr>))))"

text \<open>
  What the names in the handler table stand for. A handler runs to its end: the \<^verbatim>\<open>sti\<close> of the
  keyboard's comes after its last store. The note is what an interrupt without handler is logged as.
\<close>

definition run_handler ::
    "(u32 \<Rightarrow> u32 \<Rightarrow> u32) \<Rightarrow> device \<Rightarrow> u32 \<Rightarrow> u32 \<Rightarrow> u32 \<Rightarrow> Handler \<Rightarrow> RegistersStruct_x86_32 \<Rightarrow> io list \<times> kernel
     \<Rightarrow> (io list \<times> kernel) outcome" where
  "run_handler pdiff dev kjunk here cr2 f registers st =
     (let k = (snd st)\<lparr>k_io := fst st\<rparr>
      in and_then (case f of
                     Tick \<Rightarrow> tick_interrupt here registers k
                   | Key \<Rightarrow> key_interrupt pdiff dev kjunk k
                   | Page_Fault \<Rightarrow> fault_interrupt cr2 registers k) (\<lambda>k. Inr (k_io k, k)))"

definition kernel_irq ::
    "(u32 \<Rightarrow> u32 \<Rightarrow> u32) \<Rightarrow> device \<Rightarrow> u32 \<Rightarrow> u32 \<Rightarrow> RegistersStruct_x86_32 \<Rightarrow> kernel
     \<Rightarrow> (kernel \<times> (u16 \<times> string) option) outcome" where
  "kernel_irq pdiff dev kjunk here registers k =
     and_then (irq_handler (run_handler pdiff dev kjunk here 0) (k_handlers k) registers (k_io k, k))
       (\<lambda>((h, k), note). Inr (k\<lparr>k_io := h\<rparr>, note))"

definition kernel_isr ::
    "(u32 \<Rightarrow> u32 \<Rightarrow> u32) \<Rightarrow> device \<Rightarrow> u32 \<Rightarrow> u32 \<Rightarrow> u32 \<Rightarrow> RegistersStruct_x86_32 \<Rightarrow> kernel
     \<Rightarrow> (kernel \<times> (u16 \<times> string) option) outcome" where
  "kernel_isr pdiff dev kjunk here cr2 registers k =
     and_then (isr_handler (run_handler pdiff dev kjunk here cr2) (k_handlers k) registers (k_io k, k))
       (\<lambda>((h, k), note). Inr (k\<lparr>k_io := h\<rparr>, note))"

section \<open>Events\<close>

text \<open>
  What happens to the running kernel: a clock tick that finds the processor in some state, a key
  with its scan code, the running process makes its input buffer, or takes a key from it.
\<close>

datatype event = Clock cpu | Press u8 | Make_Buffer | Take_Key

definition make_buffer :: "(u32 \<Rightarrow> u32 \<Rightarrow> u32) \<Rightarrow> kernel \<Rightarrow> kernel outcome" where
  "make_buffer pdiff k =
     and_then (SelfProcessInit pdiff (k_proc k)) (\<lambda>st.
     and_then (cached_process st) (\<lambda>j.
       Inr (k\<lparr>k_proc := st, k_queues := (k_queues k)(kp_input_buffer j \<mapsto> Queue_new)\<rparr>)))"

definition take_key :: "(u32 \<Rightarrow> u32 \<Rightarrow> u32) \<Rightarrow> kernel \<Rightarrow> (char \<times> kernel) outcome" where
  "take_key pdiff k =
     and_then (running_keyboard k) (\<lambda>kb.
       case GetChar pdiff 0 [] kb of
         None \<Rightarrow> Inl No_Return
       | Some r \<Rightarrow> and_then r (\<lambda>(c, _, kb). and_then (put_keyboard kb k) (\<lambda>k. Inr (c, k))))"

fun kernel_event ::
    "(u32 \<Rightarrow> u32 \<Rightarrow> u32) \<Rightarrow> u32 \<Rightarrow> RegistersStruct_x86_32 \<Rightarrow> u32 \<Rightarrow> event \<Rightarrow> kernel \<Rightarrow> (char list \<times> kernel) outcome" where
  "kernel_event pdiff here registers kjunk (Clock c) k =
     and_then (kernel_irq pdiff (\<lambda>_ _. 0) kjunk here (registers\<lparr>r_int_no := 32\<rparr>) (k\<lparr>k_cpu := c\<rparr>)) (\<lambda>(k, note). Inr ([], k))"
| "kernel_event pdiff here registers kjunk (Press code) k =
     and_then (kernel_irq pdiff (\<lambda>_ _. ucast code) kjunk here (registers\<lparr>r_int_no := 33\<rparr>) k) (\<lambda>(k, note). Inr ([], k))"
| "kernel_event pdiff here registers kjunk Make_Buffer k = and_then (make_buffer pdiff k) (\<lambda>k. Inr ([], k))"
| "kernel_event pdiff here registers kjunk Take_Key k = and_then (take_key pdiff k) (\<lambda>(c, k). Inr ([c], k))"

fun kernel_events ::
    "(u32 \<Rightarrow> u32 \<Rightarrow> u32) \<Rightarrow> u32 \<Rightarrow> RegistersStruct_x86_32 \<Rightarrow> u32 \<Rightarrow> event list \<Rightarrow> kernel \<Rightarrow> (char list \<times> kernel) outcome" where
  "kernel_events pdiff here registers kjunk [] k = Inr ([], k)"
| "kernel_events pdiff here registers kjunk (e # es) k =
     and_then (kernel_event pdiff here registers kjunk e k) (\<lambda>(cs, k).
     and_then (kernel_events pdiff here registers kjunk es k) (\<lambda>(ds, k). Inr (cs @ ds, k)))"

section \<open>The reference machine\<close>

record machine =
  turn :: "u32 list"
  running :: u32
  typed :: "u32 \<Rightarrow> InputKeyType list option"

text \<open>The abstract step, with the characters it delivers; \<open>None\<close> where a process would wait or fault.\<close>

fun machine_event :: "event \<Rightarrow> machine \<Rightarrow> (char list \<times> machine) option" where
  "machine_event (Clock c) m = Some ([], m\<lparr>running := hd (turn m), turn := rotate1 (turn m)\<rparr>)"
| "machine_event (Press code) m =
     (let key = KeyboardSource 0 code
      in Some ([], if ik_error key then m
                   else m\<lparr>typed := (typed m)(running m := map_option (\<lambda>ks. ks @ [key]) (typed m (running m)))\<rparr>))"
| "machine_event Make_Buffer m = Some ([], m\<lparr>typed := (typed m)(running m := Some [])\<rparr>)"
| "machine_event Take_Key m =
     (case typed m (running m) of
        Some (key # ks) \<Rightarrow> Some ([key_char key], m\<lparr>typed := (typed m)(running m := Some ks)\<rparr>)
      | _ \<Rightarrow> None)"

fun machine_events :: "event list \<Rightarrow> machine \<Rightarrow> (char list \<times> machine) option" where
  "machine_events [] m = Some ([], m)"
| "machine_events (e # es) m =
     (case machine_event e m of
        None \<Rightarrow> None
      | Some (cs, m) \<Rightarrow> (case machine_events es m of None \<Rightarrow> None | Some (ds, m) \<Rightarrow> Some (cs @ ds, m)))"

section \<open>The correspondence\<close>

abbreviation sched_mem :: "kernel \<Rightarrow> u32 qmem" where "sched_mem k \<equiv> s_mem (pr_sched (k_proc k))"
abbreviation procs_of :: "kernel \<Rightarrow> u32 \<Rightarrow> KernelProcess option" where "procs_of k \<equiv> s_procs (pr_sched (k_proc k))"

definition key_mem :: "kernel \<Rightarrow> InputKeyType qmem" where
  "key_mem k = \<lparr>q_mm = q_mm (sched_mem k), q_nodes = k_key_nodes k\<rparr>"

text \<open>Process \<open>p\<close> has an input buffer that holds \<open>ks\<close>, in the nodes \<open>N\<close>.\<close>

definition has_input :: "kernel \<Rightarrow> u32 \<Rightarrow> u32 set \<Rightarrow> InputKeyType list \<Rightarrow> bool" where
  "has_input k p N ks \<longleftrightarrow> (\<exists>j q. procs_of k p = Some j \<and> kp_input_buffer j \<noteq> 0
     \<and> kp_input_buffer j \<in> foreign (sched_mem k) \<inter> foreign (key_mem k)
     \<and> k_queues k (kp_input_buffer j) = Some q \<and> queue_rep (key_mem k) q N ks)"

definition buffer_of :: "kernel \<Rightarrow> u32 \<Rightarrow> u32" where
  "buffer_of k p = (case procs_of k p of None \<Rightarrow> 0 | Some j \<Rightarrow> kp_input_buffer j)"

definition inputs_at :: "kernel \<Rightarrow> (u32 \<Rightarrow> InputKeyType list option) \<Rightarrow> (u32 \<Rightarrow> u32 set) \<Rightarrow> bool" where
  "inputs_at k ty N \<longleftrightarrow> qmem_wf (key_mem k) \<and> dom (k_key_nodes k) \<subseteq> foreign (sched_mem k)
     \<and> (\<forall>p j. procs_of k p = Some j \<longrightarrow> kp_input_buffer_lock j = 0 \<and> (ty p = None \<longrightarrow> kp_input_buffer j = 0))
     \<and> (\<forall>p ks. ty p = Some ks \<longrightarrow> has_input k p (N p) ks)
     \<and> (\<forall>p p'. p \<noteq> p' \<longrightarrow> ty p \<noteq> None \<longrightarrow> ty p' \<noteq> None \<longrightarrow> buffer_of k p \<noteq> buffer_of k p' \<and> N p \<inter> N p' = {})"

definition kernel_rep :: "(u32 \<Rightarrow> u32 \<Rightarrow> u32) \<Rightarrow> u32 list \<Rightarrow> kernel \<Rightarrow> machine \<Rightarrow> bool" where
  "kernel_rep pdiff cs k m \<longleftrightarrow> turns pdiff (k_proc k) cs (turn m) \<and> running m \<noteq> 0 \<and> procs_of k (running m) \<noteq> None
     \<and> s_current (pr_sched (k_proc k)) = running m \<and> pr_cached_process (k_proc k) = running m
     \<and> (\<exists>N. inputs_at k (typed m) N)
     \<and> length (k_handlers k) = 256 \<and> k_handlers k ! 32 = Some Tick \<and> k_handlers k ! 33 = Some Key
     \<and> k_key_source k = Some KeyboardSource"

section \<open>Facts\<close>

lemma inputs_atD:
  assumes "inputs_at k ty N"
  shows "qmem_wf (key_mem k)" and "dom (k_key_nodes k) \<subseteq> foreign (sched_mem k)"
    and "procs_of k p = Some j \<Longrightarrow> kp_input_buffer_lock j = 0"
    and "procs_of k p = Some j \<Longrightarrow> ty p = None \<Longrightarrow> kp_input_buffer j = 0"
    and "ty p = Some ks \<Longrightarrow> has_input k p (N p) ks"
    and "p \<noteq> p' \<Longrightarrow> ty p \<noteq> None \<Longrightarrow> ty p' \<noteq> None \<Longrightarrow> buffer_of k p \<noteq> buffer_of k p' \<and> N p \<inter> N p' = {}"
  using assms unfolding inputs_at_def by blast+

lemma has_inputE:
  assumes "has_input k p N ks"
  obtains j q where "procs_of k p = Some j" "kp_input_buffer j \<noteq> 0" "buffer_of k p = kp_input_buffer j"
    "kp_input_buffer j \<in> foreign (sched_mem k)" "kp_input_buffer j \<in> foreign (key_mem k)"
    "k_queues k (kp_input_buffer j) = Some q" "queue_rep (key_mem k) q N ks"
  using assms by (auto simp: has_input_def buffer_of_def)

lemma ready_other_heap:
  assumes "ready s cs A B" and "bin_wf mm" and "dom (q_nodes (s_mem s)) \<subseteq> small_blocks mm"
  shows "ready (s\<lparr>s_mem := (s_mem s)\<lparr>q_mm := mm\<rparr>\<rparr>) cs A B"
proof -
  have "queue_rep ((s_mem s)\<lparr>q_mm := mm\<rparr>) q P xs" if "queue_rep (s_mem s) q P xs" for q P xs
    using that assms(2,3) by (auto simp: queue_rep_def qmem_wf_def queue_nodes_def)
  then show ?thesis
    using assms(1) unfolding ready_def sched_rep_def by simp blast
qed

lemma clocked_other_heap:
  assumes "clocked pdiff st cs A B" and "bin_wf mm" and "dom (q_nodes (s_mem (pr_sched st))) \<subseteq> small_blocks mm"
    and "s_procs (pr_sched st) p = Some j" and "kp_pid j' = kp_pid j"
  shows "clocked pdiff (set_proc p j' (set_mm mm st)) cs A B"
proof -
  let ?s = "(pr_sched st)\<lparr>s_mem := (s_mem (pr_sched st))\<lparr>q_mm := mm\<rparr>\<rparr>"
  have "pid_of ((s_procs (pr_sched st))(p \<mapsto> j')) = pid_of (s_procs ?s)"
    using assms(4,5) by (auto simp: pid_of_def fun_eq_iff)
  moreover have "dom ((s_procs (pr_sched st))(p \<mapsto> j')) = dom (s_procs ?s)" using assms(4) by auto
  ultimately have "ready (?s\<lparr>s_procs := (s_procs (pr_sched st))(p \<mapsto> j')\<rparr>) cs A B"
    by (intro ready_same_pids ready_other_heap [OF clockedD(1) [OF assms(1)] assms(2,3)]) simp_all
  then show ?thesis
    using assms(1) by (simp add: clocked_def set_proc_def set_mm_def)
qed

lemma turns_other_heap:
  assumes "turns pdiff st cs L" and "bin_wf mm" and "dom (q_nodes (s_mem (pr_sched st))) \<subseteq> small_blocks mm"
    and "s_procs (pr_sched st) p = Some j" and "kp_pid j' = kp_pid j"
  shows "turns pdiff (set_proc p j' (set_mm mm st)) cs L"
  using assms(1) clocked_other_heap [OF _ assms(2-5)] unfolding turns_def by blast

lemma turns_ready: "turns pdiff st cs L \<Longrightarrow> \<exists>A B. clocked pdiff st cs A B \<and> ready (pr_sched st) cs A B"
  using clockedD(1) unfolding turns_def by blast

lemma ready_qmem: "ready s cs A B \<Longrightarrow> qmem_wf (s_mem s)"
  by (auto simp: ready_def sched_rep_def queue_rep_def)

text \<open>What a change of the heap by its other users needs to keep for the keyboard.\<close>

lemma queue_rep_same_nodes:
  "queue_rep m q N ks \<Longrightarrow> q_nodes m' = q_nodes m \<Longrightarrow> qmem_wf m' \<Longrightarrow> queue_rep m' q N ks"
  by (simp add: queue_rep_def queue_nodes_def)

lemma inputs_frame:
  assumes rep: "inputs_at k ty N" and bin: "bin_wf (q_mm (sched_mem k'))"
    and same: "k_key_nodes k' = k_key_nodes k" "k_queues k' = k_queues k" "foreign (sched_mem k') = foreign (sched_mem k)"
    and procs: "\<And>p. map_option (\<lambda>j. (kp_input_buffer j, kp_input_buffer_lock j)) (procs_of k' p)
      = map_option (\<lambda>j. (kp_input_buffer j, kp_input_buffer_lock j)) (procs_of k p)"
  shows "inputs_at k' ty N"
proof -
  have wf: "qmem_wf (key_mem k')"
    using rep bin same by (auto simp: inputs_at_def qmem_wf_def key_mem_def foreign_def)
  have proc: "\<exists>j'. procs_of k' p = Some j' \<and> kp_input_buffer j' = kp_input_buffer j \<and> kp_input_buffer_lock j' = kp_input_buffer_lock j"
    if "procs_of k p = Some j" for p j
    using procs [of p] that by (cases "procs_of k' p") auto
  have proc': "\<exists>j. procs_of k p = Some j \<and> kp_input_buffer j' = kp_input_buffer j \<and> kp_input_buffer_lock j' = kp_input_buffer_lock j"
    if "procs_of k' p = Some j'" for p j'
    using procs [of p] that by (cases "procs_of k p") auto
  have "buffer_of k' p = buffer_of k p" for p
    using procs [of p] by (auto simp: buffer_of_def split: option.splits)
  moreover have "has_input k' p M ks" if "has_input k p M ks" for p M ks
  proof -
    obtain j q where j: "procs_of k p = Some j" "kp_input_buffer j \<noteq> 0"
        "kp_input_buffer j \<in> foreign (sched_mem k) \<inter> foreign (key_mem k)"
        "k_queues k (kp_input_buffer j) = Some q" "queue_rep (key_mem k) q M ks"
      using \<open>has_input k p M ks\<close> by (auto simp: has_input_def)
    have "kp_input_buffer j \<in> foreign (sched_mem k') \<inter> foreign (key_mem k')"
      using j(3) same by (auto simp: foreign_def key_mem_def)
    moreover have "queue_rep (key_mem k') q M ks"
      using queue_rep_same_nodes [OF j(5) _ wf] same(1) by (simp add: key_mem_def)
    ultimately show ?thesis using proc [OF j(1)] j(2,4) same(2) by (auto simp: has_input_def)
  qed
  moreover have "kp_input_buffer_lock j' = 0 \<and> (ty p = None \<longrightarrow> kp_input_buffer j' = 0)" if "procs_of k' p = Some j'" for p j'
    using proc' [OF that] inputs_atD(3,4) [OF rep] by metis
  moreover have "dom (k_key_nodes k') \<subseteq> foreign (sched_mem k')" using inputs_atD(2) [OF rep] same by simp
  ultimately show ?thesis
    using inputs_atD(5,6) [OF rep] wf unfolding inputs_at_def by simp
qed

lemma ready_known: "ready s cs A B \<Longrightarrow> p \<in> set A \<union> set B \<Longrightarrow> s_procs s p \<noteq> None"
  by (auto simp: ready_def sched_rep_def known_def alive_def)

lemma turns_known: "turns pdiff st cs L \<Longrightarrow> p \<in> set L \<Longrightarrow> s_procs (pr_sched st) p \<noteq> None"
  using ready_known clockedD(1) unfolding turns_def by blast

lemma irq_entry:
  assumes "length hs = 256" and "r_int_no registers = 32 \<and> hs ! 32 = Some f \<or> r_int_no registers = 33 \<and> hs ! 33 = Some f"
  shows "irq_handler run hs registers (h, s) = and_then (run f registers (h @ [Outb 0x20 0x20], s)) (\<lambda>st. Inr (st, None))"
  using assms by (auto simp: irq_handler_def go_to_interrupt_def PIC_IS_SLAVE_def IN_RANGE_C_def IRQ_8_def IRQ_15_def
      PIC_ACK_MASTER_def outb_def)

lemma tick_procs_keeps:
  "map_option (\<lambda>j. (kp_input_buffer j, kp_input_buffer_lock j)) (tick_procs cur n here c procs p)
    = map_option (\<lambda>j. (kp_input_buffer j, kp_input_buffer_lock j)) (procs p)"
  by (cases "procs p") (auto simp: tick_procs_def bump_def save_context_def)

lemma clock_step:
  assumes turns: "turns pdiff (k_proc k) cs (q # L)" and tick: "length (k_handlers k) = 256" "k_handlers k ! 32 = Some Tick"
    and here: "here \<noteq> 0x12345" and low: "counters_low (Suc n) (procs_of k)"
  shows "\<exists>c' st'. kernel_event pdiff here registers kjunk (Clock c) k
        = Inr ([], k\<lparr>k_cpu := c', k_proc := st', k_io := k_io k @ [Outb 0x20 0x20]\<rparr>)
    \<and> q \<noteq> 0 \<and> turns pdiff st' cs (L @ [q]) \<and> s_current (pr_sched st') = q \<and> pr_cached_process st' = q
    \<and> s_procs (pr_sched st') = tick_procs (s_current (pr_sched (k_proc k))) q here c (procs_of k)
    \<and> counters_low n (s_procs (pr_sched st')) \<and> tick_frame (k_proc k) st' \<and> bin_wf (q_mm (s_mem (pr_sched st')))"
proof -
  let ?r = "registers\<lparr>r_int_no := 32\<rparr>"
  obtain c' st' where t: "tick_handler here ?r c (k_proc k) = Inr (c', st')" "q \<noteq> 0" "turns pdiff st' cs (L @ [q])"
      "s_current (pr_sched st') = q" "s_procs (pr_sched st') = tick_procs (s_current (pr_sched (k_proc k))) q here c (procs_of k)"
      "counters_low n (s_procs (pr_sched st'))" "tick_frame (k_proc k) st'" "pr_cached_process st' = q"
    using tick_turn [OF turns here low, of ?r c] by blast
  have "irq_handler run (k_handlers k) ?r (h, s) = and_then (run Tick ?r (h @ [Outb 0x20 0x20], s)) (\<lambda>st. Inr (st, None))"
    for run :: "Handler \<Rightarrow> RegistersStruct_x86_32 \<Rightarrow> io list \<times> kernel \<Rightarrow> (io list \<times> kernel) outcome" and h s
    using tick by (intro irq_entry) simp_all
  then have "kernel_event pdiff here registers kjunk (Clock c) k
      = Inr ([], k\<lparr>k_cpu := c', k_proc := st', k_io := k_io k @ [Outb 0x20 0x20]\<rparr>)"
    using t(1) by (simp add: kernel_irq_def run_handler_def tick_interrupt_def)
  moreover have "bin_wf (q_mm (s_mem (pr_sched st')))" using turns_ready [OF t(3)] ready_bin by blast
  ultimately show ?thesis using t(2-8) by blast
qed

lemma clock_event:
  assumes rep: "kernel_rep pdiff cs k m" and here: "here \<noteq> 0x12345" and low: "counters_low (Suc n) (procs_of k)"
  shows "\<exists>k' m'. machine_event (Clock c) m = Some ([], m') \<and> kernel_event pdiff here registers kjunk (Clock c) k = Inr ([], k')
    \<and> kernel_rep pdiff cs k' m' \<and> bin_room (sched_mem k) \<le> bin_room (sched_mem k') \<and> counters_low n (procs_of k')"
proof -
  have "turn m \<noteq> []" using rep by (simp add: kernel_rep_def turns_def)
  then obtain q L where L: "turn m = q # L" by (cases "turn m") auto
  have turns: "turns pdiff (k_proc k) cs (q # L)" and tick: "length (k_handlers k) = 256" "k_handlers k ! 32 = Some Tick"
    using rep L by (simp_all add: kernel_rep_def)
  obtain c' st' where t: "kernel_event pdiff here registers kjunk (Clock c) k
        = Inr ([], k\<lparr>k_cpu := c', k_proc := st', k_io := k_io k @ [Outb 0x20 0x20]\<rparr>)" "q \<noteq> 0" "turns pdiff st' cs (L @ [q])"
      "s_current (pr_sched st') = q" "pr_cached_process st' = q"
      "s_procs (pr_sched st') = tick_procs (s_current (pr_sched (k_proc k))) q here c (procs_of k)"
      "counters_low n (s_procs (pr_sched st'))" "tick_frame (k_proc k) st'" "bin_wf (q_mm (s_mem (pr_sched st')))"
    using clock_step [OF turns tick here low, of registers kjunk c] by blast
  define k' where "k' = k\<lparr>k_cpu := c', k_proc := st', k_io := k_io k @ [Outb 0x20 0x20]\<rparr>"
  obtain N where N: "inputs_at k (typed m) N" using rep by (auto simp: kernel_rep_def)
  have "inputs_at k' (typed m) N"
  proof (rule inputs_frame [OF N])
    show "foreign (sched_mem k') = foreign (sched_mem k)" using t(8) by (simp add: k'_def tick_frame_def mem_frame_def)
  qed (simp_all add: k'_def t(6,9) tick_procs_keeps)
  then have inputs: "\<exists>N. inputs_at k' (typed m) N" by blast
  have "procs_of k' q \<noteq> None" using turns_known [OF t(3)] by (simp add: k'_def)
  then have "kernel_rep pdiff cs k' (m\<lparr>running := q, turn := L @ [q]\<rparr>)"
    using rep t inputs by (simp add: kernel_rep_def k'_def)
  moreover have "bin_room (sched_mem k) \<le> bin_room (sched_mem k')" using t(8) by (simp add: k'_def tick_frame_def)
  ultimately show ?thesis
    using L t(1,7) by (intro exI [of _ k'] exI [of _ "m\<lparr>running := q, turn := L @ [q]\<rparr>"]) (simp add: k'_def)
qed

lemma kernel_rep_io [simp]: "kernel_rep pdiff cs (k\<lparr>k_io := h\<rparr>) m = kernel_rep pdiff cs k m"
  by (simp add: kernel_rep_def inputs_at_def has_input_def key_mem_def buffer_of_def)

lemma kernel_rep_running:
  assumes "kernel_rep pdiff cs k m"
  shows "\<exists>j. procs_of k (running m) = Some j \<and> cached_process (k_proc k) = Inr j"
  using assms by (auto simp: kernel_rep_def cached_process_def proc_at_def)

text \<open>An operation on the running process's buffer: the rest of the kernel keeps its shape.\<close>

lemma sched_nodes_foreign:
  "qmem_wf (sched_mem k) \<Longrightarrow> dom (k_key_nodes k) \<subseteq> foreign (sched_mem k) \<Longrightarrow> dom (q_nodes (sched_mem k)) \<subseteq> foreign (key_mem k)"
  by (auto simp: foreign_def key_mem_def qmem_wf_def)

lemma key_nodes_foreign:
  assumes "dom (q_nodes (sched_mem k)) \<subseteq> foreign (key_mem k)" and "foreign (key_mem k') = foreign (key_mem k)"
    and "qmem_wf (key_mem k')" and "q_nodes (sched_mem k') = q_nodes (sched_mem k)"
  shows "dom (k_key_nodes k') \<subseteq> foreign (sched_mem k')"
proof
  fix a
  assume a: "a \<in> dom (k_key_nodes k')"
  then have "a \<notin> foreign (key_mem k')" by (simp add: foreign_def key_mem_def)
  then have "a \<notin> dom (q_nodes (sched_mem k'))" using assms(1,2,4) by auto
  moreover have "a \<in> small_blocks (q_mm (sched_mem k'))" using a assms(3) by (auto simp: qmem_wf_def key_mem_def)
  ultimately show "a \<in> foreign (sched_mem k')" by (simp add: foreign_def)
qed

lemma inputs_put:
  assumes rep: "inputs_at k ty N" and j: "procs_of k r = Some j" and buf: "kp_input_buffer j \<noteq> 0"
      "kp_input_buffer j \<in> foreign (sched_mem k) \<inter> foreign (key_mem k)"
    and ks: "ty r = Some ks"
    and new: "queue_rep m' q' P' ks'" "keeps_others queue_rep (key_mem k) (N r) m' P'" "mem_frame (key_mem k) m'"
    and sched: "qmem_wf (sched_mem k)"
    and k': "procs_of k' = procs_of k" "key_mem k' = m'" "q_nodes (sched_mem k') = q_nodes (sched_mem k)"
      "k_queues k' = (k_queues k)(kp_input_buffer j \<mapsto> q')"
  shows "inputs_at k' (ty(r \<mapsto> ks')) (N(r := P'))"
proof -
  have mm: "q_mm (sched_mem k') = q_mm m'" "k_key_nodes k' = q_nodes m'" using k'(2) by (auto simp: key_mem_def)
  have for1: "foreign (key_mem k') = foreign (key_mem k)" using new(3) k'(2) by (simp add: mem_frame_def)
  have wf: "qmem_wf m'" using new(1) by (simp add: queue_rep_def)
  have small: "a \<in> foreign (sched_mem k')" if "a \<in> foreign (key_mem k)" "a \<notin> dom (q_nodes (sched_mem k))" for a
    using that for1 mm(1) k'(2,3) by (auto simp: foreign_def)
  have nodes: "dom (k_key_nodes k') \<subseteq> foreign (sched_mem k')"
    using key_nodes_foreign [OF sched_nodes_foreign [OF sched inputs_atD(2) [OF rep]] for1 _ k'(3)] wf k'(2) by simp
  have inputs: "has_input k' p ((N(r := P')) p) ks2" if "(ty(r \<mapsto> ks')) p = Some ks2" for p ks2
  proof (cases "p = r")
    case True
    then show ?thesis
      using that new(1) j buf k' for1 small by (auto simp: has_input_def foreign_def)
  next
    case False
    then have ty: "ty p = Some ks2" using that by simp
    then obtain i q where i: "procs_of k p = Some i" "kp_input_buffer i \<noteq> 0"
        "kp_input_buffer i \<in> foreign (sched_mem k) \<inter> foreign (key_mem k)"
        "k_queues k (kp_input_buffer i) = Some q" "queue_rep (key_mem k) q (N p) ks2"
      using has_inputE [OF inputs_atD(5) [OF rep ty]] by (metis IntI)
    have "kp_input_buffer i \<noteq> kp_input_buffer j" "N p \<inter> N r = {}"
      using inputs_atD(6) [OF rep False] ty ks i(1) j by (simp_all add: buffer_of_def)
    moreover have "queue_rep m' q (N p) ks2"
      using new(2) i(5) calculation(2) by (simp add: keeps_others_def)
    moreover have "kp_input_buffer i \<in> foreign (sched_mem k')" using i(3) by (intro small) (auto simp: foreign_def)
    ultimately show ?thesis using False i k' for1 by (auto simp: has_input_def)
  qed
  have apart: "N p \<inter> P' = {}" if "p \<noteq> r" "ty p \<noteq> None" for p
  proof -
    obtain ks2 where ks2: "ty p = Some ks2" using \<open>ty p \<noteq> None\<close> by auto
    then have "N p \<inter> N r = {}" using inputs_atD(6) [OF rep \<open>p \<noteq> r\<close>] ks by auto
    moreover have "\<exists>q. queue_rep (key_mem k) q (N p) ks2"
      by (rule has_inputE [OF inputs_atD(5) [OF rep ks2]]) blast
    ultimately show ?thesis using new(2) unfolding keeps_others_def by blast
  qed
  have buffers: "buffer_of k' p = buffer_of k p" for p using k'(1) by (simp add: buffer_of_def)
  have "buffer_of k' p \<noteq> buffer_of k' p' \<and> (N(r := P')) p \<inter> (N(r := P')) p' = {}"
    if "p \<noteq> p'" "(ty(r \<mapsto> ks')) p \<noteq> None" "(ty(r \<mapsto> ks')) p' \<noteq> None" for p p'
    using inputs_atD(6) [OF rep \<open>p \<noteq> p'\<close>] that ks apart [of p] apart [of p'] buffers by (auto split: if_splits)
  moreover have "kp_input_buffer_lock i = 0 \<and> ((ty(r \<mapsto> ks')) p = None \<longrightarrow> kp_input_buffer i = 0)" if "procs_of k' p = Some i" for p i
    using inputs_atD(3,4) [OF rep] that k'(1) by (auto split: if_splits)
  ultimately show ?thesis
    using wf k'(2) nodes inputs unfolding inputs_at_def by (simp only:) blast
qed

text \<open>The running process's buffer, and what an operation on it leaves of the kernel.\<close>

lemma set_proc_same: "s_procs (pr_sched st) p = Some j \<Longrightarrow> set_proc p j st = st"
  by (simp add: set_proc_def fun_upd_idem)

definition writes_back :: "(u32 \<Rightarrow> u32 \<Rightarrow> u32) \<Rightarrow> u32 list \<Rightarrow> kernel \<Rightarrow> machine \<Rightarrow> u32 set \<Rightarrow> bool" where
  "writes_back pdiff cs k m P \<longleftrightarrow> (\<forall>q' m' P' ks'. queue_rep m' q' P' ks' \<longrightarrow> keeps_others queue_rep (key_mem k) P m' P'
     \<longrightarrow> mem_frame (key_mem k) m' \<longrightarrow>
     (\<exists>k'. put_keyboard \<lparr>kb_mem = m', kb_buffer = Some q', kb_lock = 0\<rparr> k = Inr k'
        \<and> kernel_rep pdiff cs k' (m\<lparr>typed := (typed m)(running m \<mapsto> ks')\<rparr>)
        \<and> procs_of k' = procs_of k \<and> q_mm (sched_mem k') = q_mm m'))"

lemma writes_backD:
  assumes "writes_back pdiff cs k m P" and "queue_rep m' q' P' ks'" and "keeps_others queue_rep (key_mem k) P m' P'"
    and "mem_frame (key_mem k) m'"
  shows "\<exists>k'. put_keyboard \<lparr>kb_mem = m', kb_buffer = Some q', kb_lock = 0\<rparr> k = Inr k'
        \<and> kernel_rep pdiff cs k' (m\<lparr>typed := (typed m)(running m \<mapsto> ks')\<rparr>)
        \<and> procs_of k' = procs_of k \<and> q_mm (sched_mem k') = q_mm m'"
  using assms unfolding writes_back_def by blast

lemma write_back:
  assumes rep: "kernel_rep pdiff cs k m" and N: "inputs_at k (typed m) N" and ks: "typed m (running m) = Some ks"
    and j: "procs_of k (running m) = Some j" "kp_input_buffer j \<noteq> 0"
      "kp_input_buffer j \<in> foreign (sched_mem k) \<inter> foreign (key_mem k)"
  shows "writes_back pdiff cs k m (N (running m))"
  unfolding writes_back_def
proof (intro allI impI)
  fix q' m' P' ks'
  assume new: "queue_rep m' q' P' ks'" "keeps_others queue_rep (key_mem k) (N (running m)) m' P'" "mem_frame (key_mem k) m'"
  have cached: "cached_process (k_proc k) = Inr j" "pr_cached_process (k_proc k) = running m"
    using kernel_rep_running [OF rep] j(1) rep by (auto simp: kernel_rep_def)
  have same: "j\<lparr>kp_input_buffer_lock := 0\<rparr> = j" using inputs_atD(3) [OF N j(1)] by simp
  have turns: "turns pdiff (k_proc k) cs (turn m)" using rep by (simp add: kernel_rep_def)
  then have wf: "qmem_wf (sched_mem k)" using turns_ready ready_qmem by blast
  define k' where "k' = k\<lparr>k_proc := set_mm (q_mm m') (k_proc k), k_key_nodes := q_nodes m',
    k_queues := (k_queues k)(kp_input_buffer j \<mapsto> q')\<rparr>"
  have put: "put_keyboard \<lparr>kb_mem = m', kb_buffer = Some q', kb_lock = 0\<rparr> k = Inr k'"
    using cached j(1) by (simp add: put_keyboard_def Let_def same set_proc_same set_mm_def k'_def)
  have k': "procs_of k' = procs_of k" "key_mem k' = m'" "q_mm (sched_mem k') = q_mm m'" "q_nodes (sched_mem k') = q_nodes (sched_mem k)"
      "k_queues k' = (k_queues k)(kp_input_buffer j \<mapsto> q')"
    by (simp_all add: k'_def key_mem_def set_mm_def)
  have inputs: "inputs_at k' ((typed m)(running m \<mapsto> ks')) (N(running m := P'))"
    by (rule inputs_put [OF N j ks new wf k'(1,2,4,5)])
  have "dom (q_nodes (sched_mem k)) \<subseteq> small_blocks (q_mm m')"
    using sched_nodes_foreign [OF wf inputs_atD(2) [OF N]] new(3) by (auto simp: mem_frame_def foreign_def)
  moreover have "bin_wf (q_mm m')" using new(1) by (simp add: queue_rep_def qmem_wf_def)
  ultimately have "turns pdiff (k_proc k') cs (turn m)"
    using turns_other_heap [OF turns _ _ j(1) refl, of "q_mm m'"] j(1) by (simp add: k'_def set_proc_same set_mm_def)
  then have "kernel_rep pdiff cs k' (m\<lparr>typed := (typed m)(running m \<mapsto> ks')\<rparr>)"
    using rep inputs by (auto simp: kernel_rep_def k'_def set_mm_def)
  then show "\<exists>k'. put_keyboard \<lparr>kb_mem = m', kb_buffer = Some q', kb_lock = 0\<rparr> k = Inr k'
      \<and> kernel_rep pdiff cs k' (m\<lparr>typed := (typed m)(running m \<mapsto> ks')\<rparr>)
      \<and> procs_of k' = procs_of k \<and> q_mm (sched_mem k') = q_mm m'"
    using put k' by blast
qed

lemma running_buffer:
  assumes rep: "kernel_rep pdiff cs k m" and ks: "typed m (running m) = Some ks"
  shows "\<exists>q P. running_keyboard k = Inr \<lparr>kb_mem = key_mem k, kb_buffer = Some q, kb_lock = 0\<rparr>
    \<and> queue_rep (key_mem k) q P ks \<and> writes_back pdiff cs k m P"
proof -
  obtain N where N: "inputs_at k (typed m) N" using rep by (auto simp: kernel_rep_def)
  obtain j q where j: "procs_of k (running m) = Some j" "kp_input_buffer j \<noteq> 0"
      "kp_input_buffer j \<in> foreign (sched_mem k)" "kp_input_buffer j \<in> foreign (key_mem k)"
      "k_queues k (kp_input_buffer j) = Some q" "queue_rep (key_mem k) q (N (running m)) ks"
    by (rule has_inputE [OF inputs_atD(5) [OF N ks]])
  have "cached_process (k_proc k) = Inr j" "kp_input_buffer_lock j = 0"
    using kernel_rep_running [OF rep] j(1) inputs_atD(3) [OF N j(1)] by auto
  then have "running_keyboard k = Inr \<lparr>kb_mem = key_mem k, kb_buffer = Some q, kb_lock = 0\<rparr>"
    using j(2,5) by (simp add: running_keyboard_def key_mem_def Let_def)
  moreover have "writes_back pdiff cs k m (N (running m))" using write_back [OF rep N ks j(1,2)] j(3,4) by simp
  ultimately show ?thesis using j(6) by blast
qed

lemma key_room: "bin_room (sched_mem k) = bin_room (key_mem k)"
  by (simp add: bin_room_def key_mem_def)

lemma take_key_event:
  assumes rep: "kernel_rep pdiff cs k m" and m: "machine_event Take_Key m = Some (out, m')"
  shows "\<exists>k'. kernel_event pdiff here registers kjunk Take_Key k = Inr (out, k') \<and> kernel_rep pdiff cs k' m'
    \<and> bin_room (sched_mem k) \<le> bin_room (sched_mem k') \<and> procs_of k' = procs_of k"
proof -
  obtain key ks where ks: "typed m (running m) = Some (key # ks)" "out = [key_char key]"
      "m' = m\<lparr>typed := (typed m)(running m \<mapsto> ks)\<rparr>"
    using m by (auto split: option.splits list.splits)
  obtain q P where q: "running_keyboard k = Inr \<lparr>kb_mem = key_mem k, kb_buffer = Some q, kb_lock = 0\<rparr>"
      "queue_rep (key_mem k) q P (key # ks)"
      "writes_back pdiff cs k m P"
    using running_buffer [OF rep ks(1)] by blast
  obtain q' km P' where d: "dequeue no_key q (key_mem k) = Inr (key, q', km)" "queue_rep km q' P' ks"
      "bin_room km = Suc (bin_room (key_mem k))" "keeps_others queue_rep (key_mem k) P km P'"
    using kq.take_front [OF q(2), of no_key] by blast
  obtain k' where k': "put_keyboard \<lparr>kb_mem = km, kb_buffer = Some q', kb_lock = 0\<rparr> k = Inr k'"
      "kernel_rep pdiff cs k' (m\<lparr>typed := (typed m)(running m \<mapsto> ks)\<rparr>)" "procs_of k' = procs_of k" "q_mm (sched_mem k') = q_mm km"
    using writes_backD [OF q(3) d(2,4) dequeue_frame [OF q(2) d(1)]] by blast
  have "\<not> isempty q" using queue_rep_empty [OF q(2)] by simp
  then have "GetChar pdiff 0 [] \<lparr>kb_mem = key_mem k, kb_buffer = Some q, kb_lock = 0\<rparr>
      = Some (Inr (key_char key, [], \<lparr>kb_mem = km, kb_buffer = Some q', kb_lock = 0\<rparr>))"
    using d(1) wait_key_ready [of "\<lparr>kb_mem = key_mem k, kb_buffer = Some q, kb_lock = 1\<rparr>" q pdiff 0 "[]"]
    by (simp add: GetChar_def LOCK_word_eq key_char_def)
  then have "kernel_event pdiff here registers kjunk Take_Key k = Inr (out, k')"
    using q(1) k'(1) ks(2) by (simp add: take_key_def)
  moreover have "bin_room (sched_mem k) \<le> bin_room (sched_mem k')"
    using d(3) k'(4) by (simp add: key_room bin_room_def key_mem_def)
  ultimately show ?thesis using k'(2,3) ks(3) by blast
qed

lemma KeyboardSource_junk: "\<not> ik_error (KeyboardSource 0 code) \<Longrightarrow> KeyboardSource junk code = KeyboardSource 0 code"
  by (simp add: KeyboardSource_def Let_def split: if_splits)

text \<open>Without a buffer the handler drops the key.\<close>

lemma no_buffer:
  assumes rep: "kernel_rep pdiff cs k m" and none: "typed m (running m) = None"
  shows "\<exists>kb. running_keyboard k = Inr kb \<and> kb_buffer kb = None \<and> put_keyboard kb k = Inr k"
proof -
  obtain N where N: "inputs_at k (typed m) N" using rep by (auto simp: kernel_rep_def)
  obtain j where j: "procs_of k (running m) = Some j" "cached_process (k_proc k) = Inr j"
    using kernel_rep_running [OF rep] by blast
  have buf: "kp_input_buffer j = 0" "kp_input_buffer_lock j = 0"
    using inputs_atD(3,4) [OF N j(1)] none by simp_all
  let ?kb = "\<lparr>kb_mem = key_mem k, kb_buffer = None, kb_lock = 0\<rparr>"
  have cached: "pr_cached_process (k_proc k) = running m" using rep by (simp add: kernel_rep_def)
  have same: "set_mm (q_mm (key_mem k)) (k_proc k) = k_proc k" "j\<lparr>kp_input_buffer_lock := 0\<rparr> = j"
    using buf(2) by (simp_all add: set_mm_def key_mem_def)
  have "running_keyboard k = Inr ?kb" using j(2) buf by (simp add: running_keyboard_def key_mem_def Let_def)
  moreover have "put_keyboard ?kb k = Inr k"
    unfolding put_keyboard_def keyboard.simps same j(2) by (simp add: same cached set_proc_same [OF j(1)] key_mem_def Let_def)
  ultimately show ?thesis by (intro exI [of _ ?kb]) simp
qed

text \<open>The kernel as the keyboard's handler finds it: the interrupt is acknowledged, the code is read.\<close>

definition key_read :: "kernel \<Rightarrow> kernel" where
  "key_read k = k\<lparr>k_io := k_io k @ [Outb 0x20 0x20, Inb 0x60]\<rparr>"

lemma key_read_rep [simp]: "kernel_rep pdiff cs (key_read k) m = kernel_rep pdiff cs k m"
  by (simp add: key_read_def)

lemma key_read_same [simp]: "k_proc (key_read k) = k_proc k" "key_mem (key_read k) = key_mem k"
  by (simp_all add: key_read_def key_mem_def)

lemma ucast_u8_u16 [simp]: "(ucast (ucast (code :: u8) :: u16) :: u8) = code"
  by (rule ucast_up_ucast_id) (simp add: is_up)

lemma press_step:
  assumes rep: "kernel_rep pdiff cs k m"
  shows "kernel_event pdiff here registers kjunk (Press code) k =
    (if ik_error (KeyboardSource kjunk code) then Inr ([], key_read k)
     else and_then (running_keyboard (key_read k)) (\<lambda>kb.
       and_then (KeyboardHandler pdiff (KeyboardSource kjunk code) kb) (\<lambda>kb.
       and_then (put_keyboard kb (key_read k)) (\<lambda>k. Inr ([], k)))))"
proof -
  have "irq_handler run (k_handlers k) (registers\<lparr>r_int_no := 33\<rparr>) (h, s)
      = and_then (run Key (registers\<lparr>r_int_no := 33\<rparr>) (h @ [Outb 0x20 0x20], s)) (\<lambda>st. Inr (st, None))"
    for run :: "Handler \<Rightarrow> RegistersStruct_x86_32 \<Rightarrow> io list \<times> kernel \<Rightarrow> (io list \<times> kernel) outcome" and h s
    using rep by (intro irq_entry) (simp_all add: kernel_rep_def)
  moreover have "k_key_source k = Some KeyboardSource" using rep by (simp add: kernel_rep_def)
  ultimately show ?thesis
    by (simp add: kernel_irq_def run_handler_def key_interrupt_def inb_def PS2_DATA_PORT_def key_read_def Let_def and_then_assoc)
qed

lemma press_buffered:
  assumes rep: "kernel_rep pdiff cs k m" and room: "0 < bin_room (sched_mem k)" and ks: "typed m (running m) = Some ks"
    and key: "\<not> ik_error key"
  shows "\<exists>kb kb' k'. running_keyboard k = Inr kb \<and> KeyboardHandler pdiff key kb = Inr kb' \<and> put_keyboard kb' k = Inr k'
    \<and> kernel_rep pdiff cs k' (m\<lparr>typed := (typed m)(running m \<mapsto> ks @ [key])\<rparr>)
    \<and> bin_room (sched_mem k) \<le> Suc (bin_room (sched_mem k')) \<and> procs_of k' = procs_of k"
proof -
  obtain q P where q: "running_keyboard k = Inr \<lparr>kb_mem = key_mem k, kb_buffer = Some q, kb_lock = 0\<rparr>"
      "queue_rep (key_mem k) q P ks" "writes_back pdiff cs k m P"
    using running_buffer [OF rep ks] by blast
  have "0 < bin_room (key_mem k)" using room key_room [of k] by simp
  then obtain q' km P' where e: "enqueue pdiff SIZEOF_KEY_NODE key q (key_mem k) = Inr (q', km)"
      "queue_rep km q' P' (ks @ [key])" "bin_room (key_mem k) = Suc (bin_room km)" "keeps_others queue_rep (key_mem k) P km P'"
    using kq.put_last [OF q(2)] by blast
  have "mem_frame (key_mem k) km"
    by (rule enqueue_frame [OF q(2) _ _ e(1)]) (simp_all add: SIZEOF_KEY_NODE_def)
  then obtain k' where k': "put_keyboard \<lparr>kb_mem = km, kb_buffer = Some q', kb_lock = 0\<rparr> k = Inr k'"
      "kernel_rep pdiff cs k' (m\<lparr>typed := (typed m)(running m \<mapsto> ks @ [key])\<rparr>)" "procs_of k' = procs_of k"
      "q_mm (sched_mem k') = q_mm km"
    using writes_backD [OF q(3) e(2,4)] by blast
  have "KeyboardHandler pdiff key \<lparr>kb_mem = key_mem k, kb_buffer = Some q, kb_lock = 0\<rparr>
      = Inr \<lparr>kb_mem = km, kb_buffer = Some q', kb_lock = 0\<rparr>"
    using e(1) key by (simp add: KeyboardHandler_def)
  moreover have "bin_room (sched_mem k) \<le> Suc (bin_room (sched_mem k'))"
    using e(3) k'(4) key_room [of k] by (simp add: bin_room_def)
  ultimately show ?thesis using q(1) k'(1-3) by blast
qed

lemma press_event:
  assumes rep: "kernel_rep pdiff cs k m" and room: "0 < bin_room (sched_mem k)"
  shows "\<exists>k' m'. machine_event (Press code) m = Some ([], m') \<and> kernel_event pdiff here registers kjunk (Press code) k = Inr ([], k')
    \<and> kernel_rep pdiff cs k' m' \<and> bin_room (sched_mem k) \<le> Suc (bin_room (sched_mem k')) \<and> procs_of k' = procs_of k"
proof -
  let ?key = "KeyboardSource 0 code" and ?k = "key_read k"
  have rep1: "kernel_rep pdiff cs ?k m" using rep by simp
  note step = press_step [OF rep, of here registers kjunk code]
  show ?thesis
  proof (cases "ik_error ?key")
    case True
    then have "kernel_event pdiff here registers kjunk (Press code) k = Inr ([], ?k)"
      using step by (simp add: KeyboardSource_error)
    then show ?thesis using True rep1 by (intro exI [of _ ?k] exI [of _ m]) simp
  next
    case False
    then have key: "KeyboardSource kjunk code = ?key" by (rule KeyboardSource_junk)
    show ?thesis
    proof (cases "typed m (running m)")
      case None
      then have "kernel_event pdiff here registers kjunk (Press code) k = Inr ([], ?k)"
        using no_buffer [OF rep1] False key step by (auto simp: KeyboardHandler_def)
      then show ?thesis using False None rep1 by (intro exI [of _ ?k] exI [of _ m]) (simp add: fun_upd_idem)
    next
      case (Some ks)
      obtain kb kb' k' where k': "running_keyboard ?k = Inr kb" "KeyboardHandler pdiff ?key kb = Inr kb'" "put_keyboard kb' ?k = Inr k'"
          "kernel_rep pdiff cs k' (m\<lparr>typed := (typed m)(running m \<mapsto> ks @ [?key])\<rparr>)"
          "bin_room (sched_mem k) \<le> Suc (bin_room (sched_mem k'))" "procs_of k' = procs_of k"
        using press_buffered [OF rep1 _ Some False] room by auto
      then have "kernel_event pdiff here registers kjunk (Press code) k = Inr ([], k')"
        using False key step by simp
      then show ?thesis
        using k'(4-6) False Some by (intro exI [of _ k'] exI [of _ "m\<lparr>typed := (typed m)(running m \<mapsto> ks @ [?key])\<rparr>"]) simp
    qed
  qed
qed

text \<open>A new buffer: an object of its own, with no node.\<close>

lemma new_queue_object:
  assumes wf: "bin_wf (q_mm (s_mem (pr_sched st)))" and room: "0 < bin_room (s_mem (pr_sched st))"
  shows "\<exists>b mm. new_object pdiff SIZEOF_QUEUE st = Inr (b, set_mm mm st) \<and> b \<noteq> 0
    \<and> b \<notin> small_blocks (q_mm (s_mem (pr_sched st))) \<and> bin_wf mm
    \<and> small_blocks mm = insert b (small_blocks (q_mm (s_mem (pr_sched st))))"
proof -
  let ?mm = "q_mm (s_mem (pr_sched st))"
  have "card (small_blocks ?mm) < 100" using room by (simp add: bin_room_def)
  then obtain b mm where b: "malloc_fastbin ?mm = Inr (b, mm)" "b \<noteq> 0" "b \<notin> small_blocks ?mm"
      "small_blocks mm = insert b (small_blocks ?mm)" "bin_wf mm"
    using sb.get_fresh [OF wf] by blast
  moreover have "operator_new pdiff SIZEOF_QUEUE ?mm = malloc_fastbin ?mm"
    by (rule operator_new_small) (simp_all add: SIZEOF_QUEUE_def)
  ultimately show ?thesis by (intro exI [of _ b] exI [of _ mm]) (simp add: new_object_def)
qed

lemma inputs_new:
  assumes rep: "inputs_at k ty N" and j: "procs_of k r = Some j" and b: "b \<noteq> 0" "b \<notin> small_blocks (q_mm (sched_mem k))"
    and mm: "small_blocks (q_mm (sched_mem k')) = insert b (small_blocks (q_mm (sched_mem k)))" "bin_wf (q_mm (sched_mem k'))"
    and sched: "qmem_wf (sched_mem k)"
    and k': "procs_of k' = (procs_of k)(r \<mapsto> j\<lparr>kp_input_buffer := b\<rparr>)" "k_key_nodes k' = k_key_nodes k"
      "q_nodes (sched_mem k') = q_nodes (sched_mem k)" "k_queues k' = (k_queues k)(b \<mapsto> Queue_new)"
  shows "inputs_at k' (ty(r \<mapsto> [])) (N(r := {}))"
proof -
  have nodes: "b \<notin> dom (q_nodes (sched_mem k))" "b \<notin> dom (k_key_nodes k)"
    using b(2) sched inputs_atD(1,2) [OF rep] by (auto simp: qmem_wf_def foreign_def)
  then have for1: "foreign (sched_mem k') = insert b (foreign (sched_mem k))" "foreign (key_mem k') = insert b (foreign (key_mem k))"
    using mm(1) k'(2,3) by (auto simp: foreign_def key_mem_def)
  have wf: "qmem_wf (key_mem k')"
    using inputs_atD(1) [OF rep] mm k'(2) by (auto simp: qmem_wf_def key_mem_def)
  have other: "has_input k' p (N p) ks \<and> buffer_of k' p = buffer_of k p \<and> buffer_of k p \<noteq> b"
    if "p \<noteq> r" "ty p = Some ks" for p ks
  proof -
    obtain i q where i: "procs_of k p = Some i" "kp_input_buffer i \<noteq> 0" "buffer_of k p = kp_input_buffer i"
        "kp_input_buffer i \<in> foreign (sched_mem k)" "kp_input_buffer i \<in> foreign (key_mem k)"
        "k_queues k (kp_input_buffer i) = Some q" "queue_rep (key_mem k) q (N p) ks"
      by (rule has_inputE [OF inputs_atD(5) [OF rep \<open>ty p = Some ks\<close>]])
    have "kp_input_buffer i \<noteq> b" using i(4) b(2) by (auto simp: foreign_def)
    moreover have "queue_rep (key_mem k') q (N p) ks"
      using queue_rep_same_nodes [OF i(7) _ wf] k'(2) by (simp add: key_mem_def)
    ultimately show ?thesis using i for1 k'(1,4) \<open>p \<noteq> r\<close> by (simp add: has_input_def buffer_of_def)
  qed
  have self: "has_input k' r {} []" "buffer_of k' r = b"
    using b(1) for1 wf k'(1,4) by (simp_all add: has_input_def buffer_of_def queue_rep_def queue_nodes_def Queue_new_def)
  have "buffer_of k' p \<noteq> buffer_of k' p' \<and> (N(r := {})) p \<inter> (N(r := {})) p' = {}"
    if "p \<noteq> p'" "(ty(r \<mapsto> [])) p \<noteq> None" "(ty(r \<mapsto> [])) p' \<noteq> None" for p p'
    using inputs_atD(6) [OF rep \<open>p \<noteq> p'\<close>] that other [of p] other [of p'] self(2) by (auto split: if_splits)
  moreover have "has_input k' p ((N(r := {})) p) ks" if "(ty(r \<mapsto> [])) p = Some ks" for p ks
    using that self(1) other [of p ks] by (cases "p = r") auto
  moreover have "kp_input_buffer_lock i = 0 \<and> ((ty(r \<mapsto> [])) p = None \<longrightarrow> kp_input_buffer i = 0)" if "procs_of k' p = Some i" for p i
    using inputs_atD(3,4) [OF rep] that j k'(1) by (auto split: if_splits)
  moreover have "dom (k_key_nodes k') \<subseteq> foreign (sched_mem k')" using inputs_atD(2) [OF rep] for1 k'(2) by auto
  ultimately show ?thesis using wf unfolding inputs_at_def by blast
qed

lemma make_buffer_event:
  assumes rep: "kernel_rep pdiff cs k m" and room: "0 < bin_room (sched_mem k)" and low: "counters_low n (procs_of k)"
  shows "\<exists>k'. kernel_event pdiff here registers kjunk Make_Buffer k = Inr ([], k')
    \<and> kernel_rep pdiff cs k' (m\<lparr>typed := (typed m)(running m \<mapsto> [])\<rparr>)
    \<and> bin_room (sched_mem k) \<le> Suc (bin_room (sched_mem k')) \<and> counters_low n (procs_of k')"
proof -
  obtain N where N: "inputs_at k (typed m) N" using rep by (auto simp: kernel_rep_def)
  obtain j where j: "procs_of k (running m) = Some j" "cached_process (k_proc k) = Inr j"
    using kernel_rep_running [OF rep] by blast
  have turns: "turns pdiff (k_proc k) cs (turn m)" and cached: "pr_cached_process (k_proc k) = running m"
    using rep by (simp_all add: kernel_rep_def)
  have sched: "qmem_wf (sched_mem k)" using turns turns_ready ready_qmem by blast
  then have bin: "bin_wf (q_mm (sched_mem k))" by (simp add: qmem_wf_def)
  obtain b mm where b: "new_object pdiff SIZEOF_QUEUE (k_proc k) = Inr (b, set_mm mm (k_proc k))" "b \<noteq> 0"
      "b \<notin> small_blocks (q_mm (sched_mem k))" "bin_wf mm" "small_blocks mm = insert b (small_blocks (q_mm (sched_mem k)))"
    using new_queue_object [OF bin room] by blast
  define k' where "k' = k\<lparr>k_proc := set_proc (running m) (j\<lparr>kp_input_buffer := b\<rparr>) (set_mm mm (k_proc k)),
    k_queues := (k_queues k)(b \<mapsto> Queue_new)\<rparr>"
  have "cached_process (set_mm mm (k_proc k)) = Inr j" using j(2) by (simp add: cached_process_def set_mm_def)
  then have event: "kernel_event pdiff here registers kjunk Make_Buffer k = Inr ([], k')"
    using b(1) cached rep by (simp add: make_buffer_def SelfProcessInit_def cached_process_def proc_at_def set_proc_def set_mm_def k'_def kernel_rep_def)
  have k': "procs_of k' = (procs_of k)(running m \<mapsto> j\<lparr>kp_input_buffer := b\<rparr>)" "q_mm (sched_mem k') = mm"
      "q_nodes (sched_mem k') = q_nodes (sched_mem k)" "k_key_nodes k' = k_key_nodes k" "k_queues k' = (k_queues k)(b \<mapsto> Queue_new)"
    by (simp_all add: k'_def set_proc_def set_mm_def)
  have inputs: "inputs_at k' ((typed m)(running m \<mapsto> [])) (N(running m := {}))"
    by (rule inputs_new [OF N j(1) b(2,3)]) (simp_all add: k' b(4,5) sched)
  have "dom (q_nodes (sched_mem k)) \<subseteq> small_blocks mm" using sched b(5) by (auto simp: qmem_wf_def)
  then have "turns pdiff (k_proc k') cs (turn m)"
    using turns_other_heap [OF turns b(4) _ j(1), of "j\<lparr>kp_input_buffer := b\<rparr>"] by (simp add: k'_def)
  then have "kernel_rep pdiff cs k' (m\<lparr>typed := (typed m)(running m \<mapsto> [])\<rparr>)"
    using rep inputs by (auto simp: kernel_rep_def k'_def set_proc_def set_mm_def)
  moreover have "bin_room (sched_mem k) \<le> Suc (bin_room (sched_mem k'))"
    using b(3,5) small_blocks_card [OF bin] by (simp add: bin_room_def k'(2))
  moreover have "counters_low n (procs_of k')" using low j(1) by (simp add: k'(1) counters_low_def)
  ultimately show ?thesis using event by blast
qed

text \<open>What a run of events needs: small blocks for keys and buffers, counters for ticks.\<close>

fun is_clock :: "event \<Rightarrow> bool" where
  "is_clock (Clock c) = True"
| "is_clock _ = False"

definition ticks_in :: "event list \<Rightarrow> nat" where "ticks_in es = length (filter is_clock es)"

fun takes_block :: "event \<Rightarrow> bool" where
  "takes_block (Press code) = (\<not> ik_error (KeyboardSource 0 code))"
| "takes_block Make_Buffer = True"
| "takes_block _ = False"

definition blocks_in :: "event list \<Rightarrow> nat" where "blocks_in es = length (filter takes_block es)"

lemma event_refines:
  assumes rep: "kernel_rep pdiff cs k m" and here: "here \<noteq> 0x12345" and m: "machine_event e m = Some (out, m')"
    and room: "blocks_in (e # es) \<le> bin_room (sched_mem k)" and low: "counters_low (ticks_in (e # es)) (procs_of k)"
  shows "\<exists>k'. kernel_event pdiff here registers kjunk e k = Inr (out, k') \<and> kernel_rep pdiff cs k' m'
    \<and> blocks_in es \<le> bin_room (sched_mem k') \<and> counters_low (ticks_in es) (procs_of k')"
proof (cases e)
  case (Clock c)
  then have "counters_low (Suc (ticks_in es)) (procs_of k)" using low by (simp add: ticks_in_def)
  from clock_event [OF rep here this, of c registers kjunk] show ?thesis
    using Clock m room by (fastforce simp: blocks_in_def)
next
  case (Press code)
  show ?thesis
  proof (cases "ik_error (KeyboardSource 0 code)")
    case True
    then have "kernel_event pdiff here registers kjunk e k = Inr ([], key_read k)"
      using press_step [OF rep] Press by (simp add: KeyboardSource_error)
    then show ?thesis using Press True m room low rep by (auto simp: blocks_in_def ticks_in_def)
  next
    case False
    then have "0 < bin_room (sched_mem k)" using room Press by (simp add: blocks_in_def)
    from press_event [OF rep this, of code here registers kjunk] show ?thesis
      using Press False m room low by (fastforce simp: blocks_in_def ticks_in_def Let_def)
  qed
next
  case Make_Buffer
  then have "0 < bin_room (sched_mem k)" "counters_low (ticks_in es) (procs_of k)"
    using room low by (simp_all add: blocks_in_def ticks_in_def)
  from make_buffer_event [OF rep this, of here registers kjunk] show ?thesis
    using Make_Buffer m room by (fastforce simp: blocks_in_def)
next
  case Take_Key
  from take_key_event [OF rep m [unfolded Take_Key], of here registers kjunk] show ?thesis
    using Take_Key room low by (fastforce simp: blocks_in_def ticks_in_def)
qed

lemma events_refine:
  assumes "kernel_rep pdiff cs k m" and "here \<noteq> 0x12345" and "machine_events es m = Some (out, m')"
    and "blocks_in es \<le> bin_room (sched_mem k)" and "counters_low (ticks_in es) (procs_of k)"
  shows "\<exists>k'. kernel_events pdiff here registers kjunk es k = Inr (out, k') \<and> kernel_rep pdiff cs k' m'"
  using assms
proof (induction es arbitrary: k m out)
  case Nil
  then show ?case by simp
next
  case (Cons e es)
  obtain out1 m1 out2 where m: "machine_event e m = Some (out1, m1)" "machine_events es m1 = Some (out2, m')" "out = out1 @ out2"
    using Cons.prems(3) by (auto split: option.splits)
  obtain k1 where k1: "kernel_event pdiff here registers kjunk e k = Inr (out1, k1)" "kernel_rep pdiff cs k1 m1"
      "blocks_in es \<le> bin_room (sched_mem k1)" "counters_low (ticks_in es) (procs_of k1)"
    using event_refines [OF Cons.prems(1,2) m(1) Cons.prems(4,5)] by blast
  obtain k' where "kernel_events pdiff here registers kjunk es k1 = Inr (out2, k')" "kernel_rep pdiff cs k' m'"
    using Cons.IH [OF k1(2) Cons.prems(2) m(2) k1(3,4)] by blast
  then show ?case using k1(1) m(3) by auto
qed

section \<open>After the boot\<close>

lemma booted_rep:
  assumes ok: "boot_ok im bin_mem k" and none: "k_key_nodes k = Map.empty" and lock: "kp_input_buffer_lock junk = 0"
    and here: "here \<noteq> 0x12345" and n: "2 * Suc n < 2 ^ 32"
  shows "\<exists>k' k1 p. kernel_main pdiff junk im dev vga bin_mem chunks stack_top k = Inr k'
    \<and> kernel_event pdiff here registers kjunk (Clock c) k' = Inr ([], k1)
    \<and> kernel_rep pdiff [] k1 \<lparr>turn = [p], running = p, typed = (\<lambda>_. None)\<rparr>
    \<and> 98 \<le> bin_room (sched_mem k1) \<and> counters_low n (procs_of k1)"
proof -
  obtain p j k' live where k': "kernel_main pdiff junk im dev vga bin_mem chunks stack_top k = Inr k'"
      "proc_inv (k_proc k') [] [p] [] live" "s_procs (pr_sched (k_proc k')) = [p \<mapsto> j]" "s_current (pr_sched (k_proc k')) = 0"
      "kp_times_ran j = 0" "elements (pr_functions (k_proc k')) = Inr [\<lambda>_. run_process_scheduler pdiff]"
      "room_for 98 98 (k_proc k') live" "k_handlers k' = (replicate 256 None)[33 := Some Key, 32 := Some Tick]"
      "kp_input_buffer j = 0" "kp_input_buffer_lock j = 0" "k_key_source k' = Some KeyboardSource" "k_key_nodes k' = Map.empty"
    using kernel_main_result [OF ok, of pdiff junk dev vga chunks stack_top] none lock by auto
  have turns: "turns pdiff (k_proc k') [] [p]" using k'(2,4,6) by (auto simp: turns_def clocked_def proc_inv_def)
  have tick: "length (k_handlers k') = 256" "k_handlers k' ! 32 = Some Tick" "k_handlers k' ! 33 = Some Key" by (simp_all add: k'(8))
  have low: "counters_low (Suc n) (procs_of k')" using n k'(5) by (simp add: k'(3) counters_low_def)
  obtain c' st' where t: "kernel_event pdiff here registers kjunk (Clock c) k'
        = Inr ([], k'\<lparr>k_cpu := c', k_proc := st', k_io := k_io k' @ [Outb 0x20 0x20]\<rparr>)" "p \<noteq> 0" "turns pdiff st' [] [p]"
      "s_current (pr_sched st') = p" "pr_cached_process st' = p" "s_procs (pr_sched st') = tick_procs 0 p here c (procs_of k')"
      "counters_low n (s_procs (pr_sched st'))" "tick_frame (k_proc k') st'" "bin_wf (q_mm (s_mem (pr_sched st')))"
    using clock_step [OF turns tick(1,2) here low, of registers kjunk c] k'(4) by auto
  define k1 where "k1 = k'\<lparr>k_cpu := c', k_proc := st', k_io := k_io k' @ [Outb 0x20 0x20]\<rparr>"
  have same: "map_option (\<lambda>j. (kp_input_buffer j, kp_input_buffer_lock j)) (procs_of k1 r)
      = map_option (\<lambda>j. (kp_input_buffer j, kp_input_buffer_lock j)) ([p \<mapsto> j] r)" for r
    by (simp add: k1_def t(6) tick_procs_keeps k'(3) del: fun_upd_apply)
  have "kp_input_buffer_lock i = 0 \<and> kp_input_buffer i = 0" if "procs_of k1 r = Some i" for r i
    using same [of r] that k'(9,10) by (auto split: if_splits)
  then have "inputs_at k1 (\<lambda>_. None) (\<lambda>_. {})"
    using t(9) k'(12) by (simp add: inputs_at_def k1_def key_mem_def qmem_wf_def)
  moreover have "procs_of k1 p \<noteq> None" using turns_known [OF t(3)] by (simp add: k1_def)
  ultimately have "kernel_rep pdiff [] k1 \<lparr>turn = [p], running = p, typed = (\<lambda>_. None)\<rparr>"
    using t(2-5) tick k'(11) by (auto simp: kernel_rep_def k1_def)
  moreover have "98 \<le> bin_room (sched_mem k')" using room_for_has_room [of 97] k'(7) by (simp add: has_room_def)
  then have "98 \<le> bin_room (sched_mem k1)" using t(8) by (simp add: k1_def tick_frame_def)
  ultimately show ?thesis using k'(1) t(1,7) by (auto simp: k1_def)
qed

text \<open>What the machine of one process does with ticks and keys, and then with reads.\<close>

definition codes_in :: "event list \<Rightarrow> u8 list" where
  "codes_in es = concat (map (\<lambda>e. case e of Press code \<Rightarrow> [code] | _ \<Rightarrow> []) es)"

definition keys_in :: "event list \<Rightarrow> InputKeyType list" where
  "keys_in es = filter (\<lambda>key. \<not> ik_error key) (map (KeyboardSource 0) (codes_in es))"

lemma keys_in_chars: "map key_char (keys_in es) = decode (codes_in es)"
proof -
  have "map key_char (filter (\<lambda>key. \<not> ik_error key) (map (KeyboardSource 0) codes)) = decode codes" for codes
    by (induction codes) (auto simp: pressed_def Let_def)
  then show ?thesis by (simp add: keys_in_def)
qed

definition from_outside :: "event \<Rightarrow> bool" where
  "from_outside e \<longleftrightarrow> (case e of Clock c \<Rightarrow> True | Press code \<Rightarrow> True | _ \<Rightarrow> False)"

lemma machine_events_append:
  "machine_events es m = Some (out, m1) \<Longrightarrow> machine_events fs m1 = Some (out', m2) \<Longrightarrow>
     machine_events (es @ fs) m = Some (out @ out', m2)"
  by (induction es arbitrary: m out) (auto split: option.splits)

lemma machine_typing:
  assumes "\<forall>e \<in> set es. from_outside e"
  shows "machine_events es \<lparr>turn = [p], running = p, typed = [p \<mapsto> ks]\<rparr>
    = Some ([], \<lparr>turn = [p], running = p, typed = [p \<mapsto> ks @ keys_in es]\<rparr>)"
  using assms
proof (induction es arbitrary: ks)
  case (Cons e es)
  then show ?case
    by (cases e) (simp_all add: from_outside_def keys_in_def codes_in_def Let_def fun_upd_same del: fun_upd_apply)
qed (simp add: keys_in_def codes_in_def)

lemma machine_reading:
  assumes "n \<le> length ks"
  shows "machine_events (replicate n Take_Key) \<lparr>turn = [p], running = p, typed = [p \<mapsto> ks]\<rparr>
    = Some (map key_char (take n ks), \<lparr>turn = [p], running = p, typed = [p \<mapsto> drop n ks]\<rparr>)"
  using assms
proof (induction n arbitrary: ks)
  case (Suc n)
  then show ?case by (cases ks) (simp_all add: fun_upd_same del: fun_upd_apply)
qed simp

lemma counts_append [simp]:
  "blocks_in (es @ fs) = blocks_in es + blocks_in fs" "ticks_in (es @ fs) = ticks_in es + ticks_in fs"
  by (simp_all add: blocks_in_def ticks_in_def)

lemma counts_reads [simp]: "blocks_in (replicate n Take_Key) = 0" "ticks_in (replicate n Take_Key) = 0"
  by (simp_all add: blocks_in_def ticks_in_def)

lemma blocks_typed: "\<forall>e \<in> set es. from_outside e \<Longrightarrow> blocks_in es = length (decode (codes_in es))"
proof (induction es)
  case (Cons e es)
  then show ?case
    by (cases e) (simp_all add: blocks_in_def codes_in_def from_outside_def pressed_def Let_def)
qed (simp add: blocks_in_def codes_in_def)

text \<open>Two keys around a tick, for the witnesses.\<close>

definition example_events :: "event list" where
  "example_events = [Press 0x1E, Clock example_cpu, Press 0x30]"

lemma example_typed: "decode (codes_in example_events) = ''AB''"
proof -
  have "codes_in example_events = [0x1E, 0x30]" by (simp add: example_events_def codes_in_def)
  moreover have "decode [0x1E, 0x30] = ''AB''" by code_simp
  ultimately show ?thesis by simp
qed

lemma example_outside: "\<forall>e \<in> set example_events. from_outside e" and example_ticks: "ticks_in example_events = 1"
  by (simp_all add: example_events_def from_outside_def ticks_in_def)

lemma example_junk: "kp_input_buffer_lock (example_process 0) = 0" and example_nodes: "k_key_nodes example_kernel = Map.empty"
  by (simp_all add: example_process_def example_kernel_def)

section \<open>Properties\<close>

text \<open>
  C13: Interrupts on the whole kernel refine the machine of processes that take turns. From any
  state that corresponds to the machine's, through any sequence of clock ticks, key presses, new
  input buffers and reads that the machine can do, with a free small block for every key and buffer and
  counters below their limit, the kernel returns the same characters and ends in a corresponding
  state: every process still has its own buffer, with exactly the keys pressed while it ran, although
  all buffers, the scheduler's queues and the buffers' objects share one heap.
\<close>

theorem interrupts_refine_machine:
  assumes "kernel_rep pdiff cs k m" and "here \<noteq> 0x12345" and "machine_events es m = Some (out, m')"
    and "blocks_in es \<le> bin_room (sched_mem k)" and "counters_low (ticks_in es) (procs_of k)"
  shows "\<exists>k'. kernel_events pdiff here registers kjunk es k = Inr (out, k') \<and> kernel_rep pdiff cs k' m'"
  using events_refine [OF assms] .

theorem interrupts_refine_machine_witness:
  "\<exists>k' k1 k2. kernel_main (\<lambda>_ _. 0) (example_process 0) example_image (\<lambda>_ _. 0) (replicate 2000 0) (replicate 1700 0)
      (\<lambda>_. zero_chunk) 0x9000 example_kernel = Inr k'
    \<and> kernel_event (\<lambda>_ _. 0) 0x105000 (kp_registers (example_process 0)) 0 (Clock example_cpu) k' = Inr ([], k1)
    \<and> kernel_events (\<lambda>_ _. 0) 0x105000 (kp_registers (example_process 0)) 0 (Make_Buffer # example_events @ replicate 2 Take_Key) k1
        = Inr (''AB'', k2)"
proof -
  let ?es = "Make_Buffer # example_events @ replicate 2 Take_Key"
  have here: "(0x105000 :: u32) \<noteq> 0x12345" and few: "2 * Suc 1 < 2 ^ 32" by simp_all
  obtain k' k1 p where k': "kernel_main (\<lambda>_ _. 0) (example_process 0) example_image (\<lambda>_ _. 0) (replicate 2000 0) (replicate 1700 0)
      (\<lambda>_. zero_chunk) 0x9000 example_kernel = Inr k'"
      "kernel_event (\<lambda>_ _. 0) 0x105000 (kp_registers (example_process 0)) 0 (Clock example_cpu) k' = Inr ([], k1)"
      "kernel_rep (\<lambda>_ _. 0) [] k1 \<lparr>turn = [p], running = p, typed = (\<lambda>_. None)\<rparr>"
      "98 \<le> bin_room (sched_mem k1)" "counters_low 1 (procs_of k1)"
    using booted_rep [OF example_boot_ok example_nodes example_junk here few, where pdiff = "\<lambda>_ _. 0" and dev = "\<lambda>_ _. 0"
      and vga = "replicate 2000 0" and chunks = "\<lambda>_. zero_chunk" and stack_top = "0x9000" and c = example_cpu and kjunk = 0
      and registers = "kp_registers (example_process 0)"] by (elim exE conjE) (rule that)
  have keys: "map key_char (keys_in example_events) = ''AB''" using keys_in_chars [of example_events] by (simp add: example_typed)
  then have "length (keys_in example_events) = 2" by (metis length_map length_Cons list.size(3) numeral_2_eq_2)
  then have m: "machine_events ?es \<lparr>turn = [p], running = p, typed = (\<lambda>_. None)\<rparr>
      = Some (''AB'', \<lparr>turn = [p], running = p, typed = [p \<mapsto> drop 2 (keys_in example_events)]\<rparr>)"
    using machine_events_append [OF machine_typing [OF example_outside, of p "[]"] machine_reading [of 2 "[] @ keys_in example_events" p]] keys
    by simp
  have "blocks_in ?es \<le> bin_room (sched_mem k1)" "counters_low (ticks_in ?es) (procs_of k1)"
    using k'(4,5) blocks_typed [OF example_outside] example_ticks by (simp_all add: example_typed blocks_in_def ticks_in_def)
  from interrupts_refine_machine [OF k'(3) here m this] show ?thesis using k'(1,2) by blast
qed

text \<open>
  C14: On a kernel that has booted, with the clock and the keyboard interrupting in any order, the
  process that has the processor reads, after it made its input buffer, exactly the characters of
  the scan codes that came in, in their order, up to 64 of them. The bin has room for 97 keys at that point; the
  other 33 slots are left to the buffers of the vectors and strings, whose blocks are not taken out of the
  bin here (the vector of the functions to call has one from the boot on).
\<close>

theorem booted_typing:
  assumes ok: "boot_ok im bin_mem k" and none: "k_key_nodes k = Map.empty" and lock: "kp_input_buffer_lock junk = 0"
    and here: "here \<noteq> 0x12345" and es: "\<forall>e \<in> set es. from_outside e" "ticks_in es < 2 ^ 30"
    and room: "length (decode (codes_in es)) \<le> 64" and n: "n \<le> length (decode (codes_in es))"
  shows "\<exists>k' k2. kernel_main pdiff junk im dev vga bin_mem chunks stack_top k = Inr k'
    \<and> kernel_events pdiff here registers kjunk (Clock c # Make_Buffer # es @ replicate n Take_Key) k'
        = Inr (take n (decode (codes_in es)), k2)"
proof -
  have "2 * Suc (ticks_in es) < 2 ^ 32" using es(2) by simp
  then obtain k' k1 p where k': "kernel_main pdiff junk im dev vga bin_mem chunks stack_top k = Inr k'"
      "kernel_event pdiff here registers kjunk (Clock c) k' = Inr ([], k1)"
      "kernel_rep pdiff [] k1 \<lparr>turn = [p], running = p, typed = (\<lambda>_. None)\<rparr>"
      "98 \<le> bin_room (sched_mem k1)" "counters_low (ticks_in es) (procs_of k1)"
    using booted_rep [OF ok none lock here, where n = "ticks_in es"] by metis
  let ?es = "Make_Buffer # es @ replicate n Take_Key"
  have "n \<le> length (keys_in es)" using n keys_in_chars [of es] by (metis length_map)
  then have "machine_events ?es \<lparr>turn = [p], running = p, typed = (\<lambda>_. None)\<rparr>
      = Some (map key_char (take n (keys_in es)), \<lparr>turn = [p], running = p, typed = [p \<mapsto> drop n (keys_in es)]\<rparr>)"
    using machine_events_append [OF machine_typing [OF es(1), of p "[]"] machine_reading [of n "[] @ keys_in es" p]] by simp
  moreover have "blocks_in ?es \<le> bin_room (sched_mem k1)" "counters_low (ticks_in ?es) (procs_of k1)"
    using k'(4,5) room blocks_typed [OF es(1)] by (simp_all add: blocks_in_def ticks_in_def)
  ultimately obtain k2 where "kernel_events pdiff here registers kjunk ?es k1 = Inr (map key_char (take n (keys_in es)), k2)"
    using events_refine [OF k'(3) here] by blast
  moreover have "map key_char (take n (keys_in es)) = take n (decode (codes_in es))"
    by (simp add: keys_in_chars flip: take_map)
  ultimately show ?thesis
    using k'(1,2) by (intro exI [of _ k'] exI [of _ k2]) simp
qed

theorem booted_typing_witness:
  "\<exists>k' k2. kernel_main (\<lambda>_ _. 0) (example_process 0) example_image (\<lambda>_ _. 0) (replicate 2000 0) (replicate 1700 0)
      (\<lambda>_. zero_chunk) 0x9000 example_kernel = Inr k'
    \<and> kernel_events (\<lambda>_ _. 0) 0x105000 (kp_registers (example_process 0)) 0
        (Clock example_cpu # Make_Buffer # example_events @ replicate 2 Take_Key) k' = Inr (take 2 ''AB'', k2)"
proof -
  have here: "(0x105000 :: u32) \<noteq> 0x12345" and low: "ticks_in example_events < 2 ^ 30" by (simp_all add: example_ticks)
  have few: "length (decode (codes_in example_events)) \<le> 64" "2 \<le> length (decode (codes_in example_events))"
    by (simp_all add: example_typed)
  show ?thesis
    using booted_typing [OF example_boot_ok example_nodes example_junk here example_outside low few]
    unfolding example_typed by blast
qed

text \<open>
  C15: Once the kernel has booted no processor exception has a handler: each of the 32, a page
  fault among them, is logged under its name and comes back with the whole kernel as it was, so the demand-paging handler that
  \<^verbatim>\<open>paging::Initialize\<close> installed is never entered and the instruction faults again.
\<close>

theorem booted_faults_unhandled:
  assumes "boot_ok im bin_mem k"
  shows "\<exists>k'. kernel_main pdiff junk im dev vga bin_mem chunks stack_top k = Inr k'
    \<and> (\<forall>cr2 registers. r_int_no registers < 32 \<longrightarrow> kernel_isr pdiff dev' kjunk here cr2 registers k'
        = Inr (k', Some (ucast (r_int_no registers), interrupt_explanation (ucast (r_int_no registers)))))"
proof -
  obtain k' where k': "kernel_main pdiff junk im dev vga bin_mem chunks stack_top k = Inr k'"
      "k_handlers k' = (replicate 256 None)[33 := Some Key, 32 := Some Tick]"
    using kernel_main_result [OF assms, of pdiff junk dev vga chunks stack_top] by (elim exE conjE) (rule that)
  have "kernel_isr pdiff dev' kjunk here cr2 registers k'
      = Inr (k', Some (ucast (r_int_no registers), interrupt_explanation (ucast (r_int_no registers))))" if "r_int_no registers < 32" for cr2 registers
  proof -
    have n: "unat (r_int_no registers) < 32" using \<open>r_int_no registers < 32\<close> by (simp add: word_less_nat_alt)
    then have "unat (ucast (r_int_no registers) :: u16) = unat (r_int_no registers)"
      by (simp add: unsigned_ucast_eq take_bit_eq_mod)
    then have "load_at (k_handlers k') (unat (ucast (r_int_no registers) :: u16)) = Inr None"
      using n by (simp add: k'(2) load_at_def)
    then show ?thesis
      by (simp add: kernel_isr_def isr_handler_def go_to_interrupt_def Let_def)
  qed
  then show ?thesis using k'(1) by blast
qed

theorem booted_faults_unhandled_witness:
  "\<exists>k'. kernel_main (\<lambda>_ _. 0) (example_process 0) example_image (\<lambda>_ _. 0) (replicate 2000 0) (replicate 1700 0)
      (\<lambda>_. zero_chunk) 0x9000 example_kernel = Inr k'
    \<and> kernel_isr (\<lambda>_ _. 0) (\<lambda>_ _. 0) 0 0x105000 0x300000 (kp_registers (example_process 0)\<lparr>r_int_no := 14\<rparr>) k'
        = Inr (k', Some (14, ''Page fault''))"
proof -
  let ?r = "kp_registers (example_process 0)\<lparr>r_int_no := 14\<rparr>"
  have r: "r_int_no ?r < 32" "(ucast (r_int_no ?r) :: u16) = 14" "interrupt_explanation 14 = ''Page fault''"
    by (simp_all add: interrupt_explanation_def interrupt_descriptions_def)
  obtain k' where k': "kernel_main (\<lambda>_ _. 0) (example_process 0) example_image (\<lambda>_ _. 0) (replicate 2000 0) (replicate 1700 0)
      (\<lambda>_. zero_chunk) 0x9000 example_kernel = Inr k'"
      "\<forall>cr2 registers. r_int_no registers < 32 \<longrightarrow> kernel_isr (\<lambda>_ _. 0) (\<lambda>_ _. 0) 0 0x105000 cr2 registers k'
        = Inr (k', Some (ucast (r_int_no registers), interrupt_explanation (ucast (r_int_no registers))))"
    using booted_faults_unhandled [OF example_boot_ok, where pdiff = "\<lambda>_ _. 0" and junk = "example_process 0" and dev = "\<lambda>_ _. 0"
      and vga = "replicate 2000 0" and chunks = "\<lambda>_. zero_chunk" and stack_top = "0x9000" and dev' = "\<lambda>_ _. 0" and kjunk = 0
      and here = "0x105000"] by (elim exE conjE) (rule that)
  have "kernel_isr (\<lambda>_ _. 0) (\<lambda>_ _. 0) 0 0x105000 0x300000 ?r k' = Inr (k', Some (14, ''Page fault''))"
    using k'(2) [rule_format, OF r(1)] unfolding r(2,3) .
  then show ?thesis using k'(1) by blast
qed

end
