(* ===== verification/Sessions.thy ===== *)
theory Sessions
  imports Boot
begin

text \<open>
  The booted system at work: clock ticks, and in between what the running process does, the lines of
  the shell or the rounds of the loop program. The reference is a machine of process numbers that take
  turns. It shows which lines succeed, that the address spaces of the processes stay apart, and where
  the frames run out.
\<close>

section \<open>The system\<close>

text \<open>
  The shell with what all processes share, and the counter each loop program has on its stack.
\<close>

record session =
  se_shell :: shell
  se_counters :: "u32 \<Rightarrow> u32"

text \<open>
  A tick finds the processor in some state. At work the shell runs the line it has read, any other
  process a round of its loop.
\<close>

datatype moment = Tick_At cpu | Work "char list"

definition at_work ::
    "(u32 \<Rightarrow> u32 \<Rightarrow> u32) \<Rightarrow> (nat \<Rightarrow> char) \<Rightarrow> char list \<Rightarrow> KernelProcess \<Rightarrow> char list \<Rightarrow> session \<Rightarrow> session outcome" where
  "at_work pdiff g beyond junk b s =
     (let sh = se_shell s; pid = GetPid (sh_proc sh)
      in if pid = 2 then and_then (shell_command pdiff g beyond junk b sh) (\<lambda>sh. Inr (s\<lparr>se_shell := sh\<rparr>))
         else and_then (loop2_round pid (se_counters s pid) (sh_tty sh)) (\<lambda>(counter, t).
           Inr (s\<lparr>se_shell := sh\<lparr>sh_tty := t\<rparr>, se_counters := (se_counters s)(pid := counter)\<rparr>)))"

definition at_tick :: "u32 \<Rightarrow> RegistersStruct_x86_32 \<Rightarrow> cpu \<Rightarrow> session \<Rightarrow> session outcome" where
  "at_tick here reg c s =
     and_then (tick_handler here reg c (sh_proc (se_shell s))) (\<lambda>(c, st).
       Inr (s\<lparr>se_shell := (se_shell s)\<lparr>sh_proc := st\<rparr>\<rparr>))"

fun session_run ::
    "(u32 \<Rightarrow> u32 \<Rightarrow> u32) \<Rightarrow> (nat \<Rightarrow> char) \<Rightarrow> char list \<Rightarrow> KernelProcess \<Rightarrow> u32 \<Rightarrow> RegistersStruct_x86_32 \<Rightarrow> moment list
     \<Rightarrow> session \<Rightarrow> session outcome" where
  "session_run pdiff g beyond junk here reg [] s = Inr s"
| "session_run pdiff g beyond junk here reg (e # es) s =
     and_then (case e of Tick_At c \<Rightarrow> at_tick here reg c s | Work b \<Rightarrow> at_work pdiff g beyond junk b s)
       (session_run pdiff g beyond junk here reg es)"

section \<open>The reference machine\<close>

text \<open>
  The numbers of the live processes in the order of their turns, the one that runs, how many the
  shell has started, and the two locals of the shell.
\<close>

record system =
  sy_turn :: "u32 list"
  sy_now :: u32
  sy_made :: nat
  sy_shown :: u32
  sy_last :: "u32 option"

definition system_line :: "char list \<Rightarrow> system \<Rightarrow> system outcome" where
  "system_line b m =
     (if cstr b = [] then Inl Null_Pointer
      else if length (cstr b) = 64 \<or> 64 < length (cstr b) \<and> length (cstr b) mod 8 = 3 then Inl Out_Of_Bounds
      else if cstr b = ''START'' then
        (if sy_made m = 6 then Inl Kernel_Panic
         else Inr (m\<lparr>sy_turn := sy_turn m @ [3 + of_nat (sy_made m)], sy_made := sy_made m + 1, sy_shown := sy_shown m + 1,
                sy_last := Some (3 + of_nat (sy_made m))\<rparr>))
      else if cstr b = ''END'' then
        (case sy_last m of
           None \<Rightarrow> Inl Uninitialised
         | Some p \<Rightarrow> Inr (m\<lparr>sy_turn := filter (\<lambda>q. q \<noteq> p) (sy_turn m), sy_shown := sy_shown m - 1\<rparr>))
      else Inr m)"

fun system_run :: "moment list \<Rightarrow> system \<Rightarrow> system outcome" where
  "system_run [] m = Inr m"
| "system_run (Tick_At c # es) m = system_run es (m\<lparr>sy_now := hd (sy_turn m), sy_turn := rotate1 (sy_turn m)\<rparr>)"
| "system_run (Work b # es) m =
     (if sy_now m = 2 then and_then (system_line b m) (system_run es) else system_run es m)"

definition first_system :: system where
  "first_system = \<lparr>sy_turn = [2], sy_now = 2, sy_made = 0, sy_shown = 0, sy_last = None\<rparr>"

section \<open>The correspondence\<close>

definition pid_at :: "processing \<Rightarrow> u32 \<Rightarrow> u32" where
  "pid_at st p = pid_of (s_procs (pr_sched st)) p"

definition dir_at :: "processing \<Rightarrow> u32 \<Rightarrow> u32" where
  "dir_at st p = (case s_procs (pr_sched st) p of None \<Rightarrow> 0 | Some j \<Rightarrow> kp_directory j)"

text \<open>
  The processes at \<open>B\<close> take turns and each has one of the spaces \<open>ds\<close> for itself, one process has
  been started for each of \<open>made\<close> commands, and the next \<open>n\<close> moments overflow no counter.
\<close>

definition procs_rep ::
    "(u32 \<Rightarrow> u32 \<Rightarrow> u32) \<Rightarrow> image \<Rightarrow> nat \<Rightarrow> nat \<Rightarrow> processing \<Rightarrow> u32 list \<Rightarrow> u32 list \<Rightarrow> u32 list \<Rightarrow> (u32 \<rightharpoonup> nat) \<Rightarrow> bool" where
  "procs_rep pdiff im n made st cs B ds live \<longleftrightarrow> proc_inv st cs [] B live \<and> clocked pdiff st cs [] B
     \<and> spaces (pr_paging st) ds \<and> length ds = Suc made \<and> made \<le> 6 \<and> room_for (97 - made) (94 - 2 * made) st live
     \<and> names_program st ''loop2'' 1 (im_loop2 im) \<and> pr_pid_seq st = 3 + of_nat made
     \<and> (\<forall>c \<in> set cs. c < 3 + of_nat made) \<and> length cs + n < 2 ^ 30 \<and> counters_low n (s_procs (pr_sched st))
     \<and> dir_at st ` set B \<subseteq> set ds \<and> distinct (map (dir_at st) B)"

text \<open>The process at \<open>q\<close> runs, in its own space.\<close>

definition runs_at :: "processing \<Rightarrow> u32 \<Rightarrow> u32 list \<Rightarrow> bool" where
  "runs_at st q ds \<longleftrightarrow> s_current (pr_sched st) = q \<and> pr_cached_process st = q \<and> s_procs (pr_sched st) q \<noteq> None
     \<and> pid_at st q = pr_cached_pid st \<and> dir_at st q \<in> set ds \<and> cr3 (pr_paging st) = dir_at st q + 4096"

definition machine_inv :: "system \<Rightarrow> bool" where
  "machine_inv m \<longleftrightarrow> 2 \<in> set (sy_turn m) \<and> (\<forall>p. sy_last m = Some p \<longrightarrow> 3 \<le> p \<and> p < 3 + of_nat (sy_made m)) \<and> sy_now m \<noteq> 0
     \<and> 0 \<notin> set (sy_turn m)"

definition session_rep :: "(u32 \<Rightarrow> u32 \<Rightarrow> u32) \<Rightarrow> image \<Rightarrow> nat \<Rightarrow> session \<Rightarrow> system \<Rightarrow> bool" where
  "session_rep pdiff im n s m \<longleftrightarrow> machine_inv m \<and> se_counters s = (\<lambda>_. 1) \<and> tty_wf (sh_tty (se_shell s))
     \<and> sh_running (se_shell s) = sy_shown m \<and> sh_last_pid (se_shell s) = sy_last m
     \<and> (\<exists>cs B ds live q. procs_rep pdiff im n (sy_made m) (sh_proc (se_shell s)) cs B ds live
          \<and> map (pid_at (sh_proc (se_shell s))) B = sy_turn m
          \<and> runs_at (sh_proc (se_shell s)) q ds \<and> pr_cached_pid (sh_proc (se_shell s)) = sy_now m)"

section \<open>Facts\<close>

lemma procs_repD:
  assumes "procs_rep pdiff im n made st cs B ds live"
  shows "proc_inv st cs [] B live" and "clocked pdiff st cs [] B" and "spaces (pr_paging st) ds" and "length ds = Suc made"
    and "made \<le> 6" and "room_for (97 - made) (94 - 2 * made) st live" and "names_program st ''loop2'' 1 (im_loop2 im)"
    and "pr_pid_seq st = 3 + of_nat made" and "\<forall>c \<in> set cs. c < 3 + of_nat made" and "length cs + n < 2 ^ 30"
    and "counters_low n (s_procs (pr_sched st))" and "dir_at st ` set B \<subseteq> set ds" and "distinct (map (dir_at st) B)"
  using assms by (simp_all add: procs_rep_def)

lemma spaces_in_kernel [simp]: "spaces (pr_paging (in_kernel st)) ds = spaces (pr_paging st) ds"
  by (simp add: in_kernel_def enter_kernel_def SetDirectory_def)

lemma clocked_ready: "clocked pdiff st cs A B \<Longrightarrow> ready (pr_sched st') cs' A' B' \<Longrightarrow> keeps_clock st st'
   \<Longrightarrow> dom (s_procs (pr_sched st)) \<subseteq> dom (s_procs (pr_sched st')) \<Longrightarrow> clocked pdiff st' cs' A' B'"
  by (auto simp: clocked_def keeps_clock_def)

text \<open>A tick with regular processes only.\<close>

lemma tick_regular:
  assumes st: "clocked pdiff st cs [] (p # B)" and low: "counters_low (Suc n) (s_procs (pr_sched st))" and here: "here \<noteq> 0x12345"
  shows "\<exists>c' st' k. tick_handler here reg c st = Inr (c', st') \<and> s_procs (pr_sched st) p = Some k \<and> clocked pdiff st' cs [] (B @ [p])
    \<and> s_current (pr_sched st') = p \<and> pr_cached_process st' = p \<and> pr_cached_pid st' = kp_pid k \<and> cr3 (pr_paging st') = kp_directory k + 4096
    \<and> s_procs (pr_sched st') = tick_procs (s_current (pr_sched st)) p here c (s_procs (pr_sched st))
    \<and> counters_low n (s_procs (pr_sched st')) \<and> tick_frame st st'"
proof -
  obtain k where k: "p \<noteq> 0" "s_procs (pr_sched st) p = Some k"
    using ready_members [OF clockedD(1) [OF st], of p] by auto
  have "unat (kp_times_ran k) + 2 < 2 ^ 32" using low k(2) by (force simp: counters_low_def)
  then have ran: "ucast (kp_times_ran k + 1) \<noteq> (0 :: u32)" by (rule low_counter)
  obtain c' st' where t: "tick_handler here reg c st = Inr (c', st')"
      "clocked pdiff st' cs (fst (after_tick ([], p # B))) (snd (after_tick ([], p # B)))" "s_current (pr_sched st') = p"
      "s_procs (pr_sched st') = tick_procs (s_current (pr_sched st)) p here c (s_procs (pr_sched st))"
      "pr_cached_pid st' = kp_pid k" "cr3 (pr_paging st') = kp_directory k + 4096" "tick_frame st st'" "pr_cached_process st' = p"
    using tick_selected [OF st _ k here ran, of reg c] by auto
  show ?thesis using t k(2) counters_low_tick [OF low] by simp
qed

lemma counters_low_less: "counters_low (Suc n) procs \<Longrightarrow> counters_low n procs"
  by (fastforce simp: counters_low_def)

lemma tick_procs_view:
  "map_option (\<lambda>j. (kp_pid j, kp_directory j)) (tick_procs cur n here c procs p) = map_option (\<lambda>j. (kp_pid j, kp_directory j)) (procs p)"
  by (cases "procs p") (auto simp: tick_procs_def bump_def save_context_def)

lemma view_at:
  assumes "map_option (\<lambda>j. (kp_pid j, kp_directory j)) (s_procs (pr_sched st') p) = map_option (\<lambda>j. (kp_pid j, kp_directory j)) (s_procs (pr_sched st) p)"
  shows "pid_at st' p = pid_at st p" and "dir_at st' p = dir_at st p"
  using assms by (auto simp: pid_at_def dir_at_def pid_of_def split: option.splits)

lemma procs_tick:
  assumes rep: "procs_rep pdiff im (Suc n) made st cs (p # B) ds live" and here: "here \<noteq> 0x12345"
  shows "\<exists>c' st'. tick_handler here reg c st = Inr (c', st') \<and> procs_rep pdiff im n made st' cs (B @ [p]) ds live
    \<and> runs_at st' p ds \<and> pid_at st' = pid_at st \<and> pr_cached_pid st' = pid_at st p"
proof -
  note rep = procs_repD [OF rep]
  obtain c' st' k where t: "tick_handler here reg c st = Inr (c', st')" "s_procs (pr_sched st) p = Some k" "clocked pdiff st' cs [] (B @ [p])"
      "s_current (pr_sched st') = p" "pr_cached_process st' = p" "pr_cached_pid st' = kp_pid k" "cr3 (pr_paging st') = kp_directory k + 4096"
      "s_procs (pr_sched st') = tick_procs (s_current (pr_sched st)) p here c (s_procs (pr_sched st))"
      "counters_low n (s_procs (pr_sched st'))" "tick_frame st st'"
    using tick_regular [OF rep(2,11) here, of reg c] by blast
  have dom: "dom (s_procs (pr_sched st')) = dom (s_procs (pr_sched st))" by (simp add: t(8) tick_procs_dom)
  have view: "pid_at st' = pid_at st" "dir_at st' = dir_at st"
    using view_at [of st' _ st] tick_procs_view t(8) by (simp_all add: fun_eq_iff)
  have inv: "proc_inv st' cs [] (B @ [p]) live" by (rule tick_frame_inv(1) [OF rep(1) t(10) clockedD(1) [OF t(3)] dom])
  have room: "room_for (97 - made) (94 - 2 * made) st' live"
    by (rule tick_frame_inv(2) [OF rep(1) t(10) clockedD(1) [OF t(3)] dom rep(6)])
  have "spaces (pr_paging st') ds" using rep(3) t(10) spaces_cr3 unfolding tick_frame_def by metis
  moreover have "names_program st' ''loop2'' 1 (im_loop2 im)" "pr_pid_seq st' = 3 + of_nat made"
    using rep(7,8) t(10) by (simp_all add: names_program_def tick_frame_def)
  moreover have "dir_at st' ` set (B @ [p]) \<subseteq> set ds" "distinct (map (dir_at st') (B @ [p]))"
    using rep(12,13) unfolding view by auto
  ultimately have "procs_rep pdiff im n made st' cs (B @ [p]) ds live"
    unfolding procs_rep_def using inv room t(3,9) rep(4,5,9,10) by simp
  moreover have "runs_at st' p ds"
    using t(2,4-7) dom rep(12) unfolding runs_at_def view by (auto simp: pid_at_def dir_at_def pid_of_def)
  ultimately show ?thesis using t(1,2,6) view(1) by (auto simp: pid_at_def pid_of_def)
qed

text \<open>Starting the loop program, while there are frames for its space and when there are none.\<close>

lemma procs_room:
  assumes "procs_rep pdiff im n made st cs B ds live"
  shows "has_room 2 st live" and "pr_pid_seq st \<notin> set cs"
proof -
  note rep = procs_repD [OF assms]
  have "97 - made = Suc (96 - made)" using rep(5) by simp
  then have "has_room (94 - 2 * made) st live" using room_for_has_room rep(6) by metis
  then show "has_room 2 st live" using rep(5) unfolding has_room_def by (elim conjE, intro conjI, linarith)
  show "pr_pid_seq st \<notin> set cs" using rep(8,9) by auto
qed

lemma loop2_found:
  assumes "names_program st ''loop2'' 1 (im_loop2 im)" and "128 \<le> length beyond"
  obtains name buf rps rp where "literal g ''loop2'' = Inr name" "copy_name beyond name = Inr buf" "elements (pr_registered st) = Inr rps"
    "find_registered g buf rps = Inr 1" "load_at (v_buffer (pr_registered st)) 1 = Inr rp" "rp_func_ptr rp = im_loop2 im"
proof -
  obtain name where name: "literal g ''loop2'' = Inr name" "str_ok name" "text_of name = ''loop2''"
    using literal_ok [of "''loop2''" g] by auto
  have "good_name beyond name" using literal_name [OF name _ _ assms(2)] by simp
  then show ?thesis using names_program_find [of beyond name st 1 "im_loop2 im" g] assms(1) name(1,3) that by auto
qed

lemma procs_start:
  assumes rep: "procs_rep pdiff im (Suc n) made st cs B ds live" and few: "made < 6" and cached: "pr_cached_pid st \<noteq> 0"
    and beyond: "128 \<le> length beyond"
  shows "\<exists>name st' p d live'. literal g ''loop2'' = Inr name
    \<and> Start_Process pdiff g beyond junk name High st = Inr (3 + of_nat made, st')
    \<and> procs_rep pdiff im n (Suc made) st' cs (B @ [p]) (d # ds) live'
    \<and> map (pid_at st') (B @ [p]) = map (pid_at st) B @ [3 + of_nat made] \<and> pr_cached_pid st' = pr_cached_pid st
    \<and> (\<forall>q. runs_at st q ds \<longrightarrow> runs_at st' q (d # ds))"
proof -
  note room = procs_room [OF rep] note rep = procs_repD [OF rep]
  obtain name buf rps rp where name: "literal g ''loop2'' = Inr name" "copy_name beyond name = Inr buf" "elements (pr_registered st) = Inr rps"
      "find_registered g buf rps = Inr 1" "load_at (v_buffer (pr_registered st)) 1 = Inr rp"
    using loop2_found [OF rep(7) beyond, of g] by metis
  obtain d pag where dir: "create_directory process_regions (pr_paging (in_kernel st)) = Inr (d, pag)" "spaces pag (d # ds)"
    using spaces_step [of "pr_paging (in_kernel st)" ds] rep(3,4) few by auto
  obtain p k st' live' where start: "Start_Process pdiff g beyond junk name High st = Inr (pr_pid_seq st, st')"
      "proc_inv st' cs [] (B @ [p]) live'" "s_procs (pr_sched st) p = None" "s_procs (pr_sched st') = (s_procs (pr_sched st))(p \<mapsto> k)"
      "kp_pid k = pr_pid_seq st" "kp_directory k = d" "pr_pid_seq st' = pr_pid_seq st + 1" "cr3 (pr_paging st') = cr3 (pr_paging st)"
      "pr_paging st' = pag\<lparr>cr3 := cr3 (pr_paging st')\<rparr>" "kp_times_ran k = 0" "\<forall>m n. room_for (Suc m) (n + 2) st live \<longrightarrow> room_for m n st' live'"
    using Start_Process_at [OF rep(1) room(1) name(2-5) dir(1) room(2), of pdiff junk High] cached by auto
  have keep: "keeps_clock st st'" "pr_registered st' = pr_registered st" using Start_Process_keeps [OF start(1)] by simp_all
  have old: "pid_at st' r = pid_at st r" "dir_at st' r = dir_at st r" if "s_procs (pr_sched st) r \<noteq> None" for r
    using that start(3,4) by (auto simp: pid_at_def dir_at_def pid_of_def)
  have new: "pid_at st' p = 3 + of_nat made" "dir_at st' p = d"
    using start(4-6) rep(8) by (simp_all add: pid_at_def dir_at_def pid_of_def)
  have known: "s_procs (pr_sched st) r \<noteq> None" if "r \<in> set B" for r
    using ready_members [OF clockedD(1) [OF rep(2)]] that by simp
  have pids: "map (pid_at st') (B @ [p]) = map (pid_at st) B @ [3 + of_nat made]" using old(1) known new(1) by simp
  have "d \<notin> set ds" using dir(2) by (simp add: spaces_def)
  moreover have same: "map (dir_at st') B = map (dir_at st) B" using old(2) known by simp
  then have "dir_at st' ` set B \<subseteq> set ds" "distinct (map (dir_at st') B)"
    using rep(12) arg_cong [OF same, of set] by simp (simp only: same rep(13))
  ultimately have dirs: "dir_at st' ` set (B @ [p]) \<subseteq> set (d # ds)" "distinct (map (dir_at st') (B @ [p]))"
    using new(2) by auto
  have "clocked pdiff st' cs [] (B @ [p])"
    using clocked_ready [OF rep(2) _ keep(1)] start(2,4) by (auto simp: proc_inv_def)
  moreover have "spaces (pr_paging st') (d # ds)" using dir(2) start(9) spaces_cr3 by metis
  moreover have "room_for (97 - Suc made) (94 - 2 * Suc made) st' live'"
  proof -
    have "97 - made = Suc (97 - Suc made)" "94 - 2 * made = (94 - 2 * Suc made) + 2" using few by simp_all
    then show ?thesis using rep(6) start(11) by metis
  qed
  moreover have "\<forall>c \<in> set cs. c < 3 + of_nat (Suc made)"
  proof
    fix c assume "c \<in> set cs"
    then have "c < 3 + of_nat made" using rep(9) by simp
    moreover have "unat (3 + of_nat made :: u32) = 3 + made" "unat (3 + of_nat (Suc made) :: u32) = 4 + made"
      using few by (simp_all add: unat_word_ariths unat_of_nat)
    ultimately show "c < 3 + of_nat (Suc made)" by (simp add: word_less_nat_alt)
  qed
  moreover have "counters_low n (s_procs (pr_sched st'))"
    using counters_low_less [OF rep(11)] start(4,10) rep(10) by (auto simp: counters_low_def)
  moreover have "names_program st' ''loop2'' 1 (im_loop2 im)" using rep(7) keep(2) by (simp add: names_program_def)
  ultimately have "procs_rep pdiff im n (Suc made) st' cs (B @ [p]) (d # ds) live'"
    unfolding procs_rep_def using start(2,7) rep(4,5,8,10) few dirs by simp
  moreover have "runs_at st' q (d # ds)" if "runs_at st q ds" for q
    using that start(4,8) keep(1) old [of q] by (auto simp: runs_at_def keeps_clock_def)
  ultimately show ?thesis using name(1) start(1) rep(8) pids keep(1) by (auto simp: keeps_clock_def)
qed

lemma Start_Process_fails:
  assumes inv: "proc_inv st cs A B live" and room: "has_room 2 st live"
    and find: "copy_name beyond name = Inr buf" "elements (pr_registered st) = Inr rps"
      "find_registered g buf rps = Inr i" "load_at (v_buffer (pr_registered st)) i = Inr rp"
    and dir: "create_directory process_regions (pr_paging (in_kernel st)) = Inl e"
  shows "Start_Process pdiff g beyond junk name priority st = Inl e"
proof -
  let ?st1 = "in_kernel st"
  have two: "has_room (Suc 1) ?st1 live" using room by (simp add: numeral_2_eq_2)
  have sizes: "0 < SIZEOF_VECTOR" "SIZEOF_VECTOR \<le> 64" by (simp_all add: SIZEOF_VECTOR_def)
  obtain v mm where v: "new_object pdiff SIZEOF_VECTOR ?st1 = Inr (v, set_mm mm ?st1)"
      "proc_inv (set_mm mm ?st1) cs A B live" "has_room 1 (set_mm mm ?st1) live"
    using new_small_object [of ?st1 cs A B live 1 SIZEOF_VECTOR pdiff] inv two sizes by auto
  obtain c mm2 where "new_object pdiff SIZEOF_KERNEL_PROCESS (set_mm mm ?st1) = Inr (c, set_mm mm2 (set_mm mm ?st1))"
    using new_process_object [OF v(2,3), of pdiff] by blast
  then have "NewProcess pdiff junk (rp_func_ptr rp) priority (Some (v, process_regions)) (set_mm mm ?st1) = Inl e"
    using dir by (simp add: NewProcess_def Let_def)
  then show ?thesis
    using find v(1) unfolding Start_Process_def process_mappings_eq in_kernel_def [symmetric] by (simp add: Let_def)
qed

text \<open>Ending a program, and a moment in which the processes stay as they are.\<close>

lemma procs_end:
  assumes rep: "procs_rep pdiff im (Suc n) made st cs B ds live" and pid: "pid < 3 + of_nat made"
  shows "\<exists>st'. End_Process pid st = Inr st' \<and> procs_rep pdiff im n made st' (cs @ [pid]) (filter (\<lambda>p. pid_at st p \<noteq> pid) B) ds live
    \<and> pid_at st' = pid_at st \<and> pr_cached_pid st' = pr_cached_pid st \<and> (\<forall>q. runs_at st q ds \<longrightarrow> runs_at st' q ds)"
proof -
  note rep = procs_repD [OF rep]
  let ?B = "filter (\<lambda>p. pid_at st p \<noteq> pid) B"
  have short: "length cs < 2 ^ 30" using rep(10) by simp
  obtain st' where fin: "End_Process pid st = Inr st'" "s_procs (pr_sched st') = s_procs (pr_sched st)" "pr_registered st' = pr_registered st"
      "pr_paging st' = pr_paging st" "s_mem (pr_sched st') = s_mem (pr_sched st)" "pr_pid_seq st' = pr_pid_seq st"
      "proc_inv st' (cs @ [pid]) [] ?B live"
    using End_Process_inv [OF rep(1) short, of pid] unfolding pid_at_def by auto
  have keep: "keeps_clock st st'" by (rule End_Process_keeps [OF fin(1)])
  have view: "pid_at st' = pid_at st" "dir_at st' = dir_at st" using fin(2) by (auto simp: pid_at_def dir_at_def)
  have "clocked pdiff st' (cs @ [pid]) [] ?B"
    using clocked_ready [OF rep(2) _ keep] fin(2,7) by (simp add: proc_inv_def)
  moreover have "room_for (97 - made) (94 - 2 * made) st' live" using rep(6) fin(5) by (simp add: room_for_def)
  moreover have "distinct (map (dir_at st') ?B)" "dir_at st' ` set ?B \<subseteq> set ds"
    using rep(12,13) distinct_map_filter unfolding view by auto
  moreover have "names_program st' ''loop2'' 1 (im_loop2 im)" using rep(7) fin(3) by (simp add: names_program_def)
  moreover have "counters_low n (s_procs (pr_sched st'))" using counters_low_less [OF rep(11)] fin(2) by simp
  ultimately have "procs_rep pdiff im n made st' (cs @ [pid]) ?B ds live"
    unfolding procs_rep_def using fin(4,6,7) rep(3-5,8-10) pid by simp
  moreover have "runs_at st' q ds" if "runs_at st q ds" for q
    using that keep fin(2,4) view by (simp add: runs_at_def keeps_clock_def)
  ultimately show ?thesis using fin(1) view(1) keep by (auto simp: keeps_clock_def)
qed

lemma procs_idle: "procs_rep pdiff im (Suc n) made st cs B ds live \<Longrightarrow> procs_rep pdiff im n made st cs B ds live"
  using counters_low_less by (auto simp: procs_rep_def)

text \<open>The moments, one by one.\<close>

lemma session_repE:
  assumes "session_rep pdiff im n s m"
  obtains cs B ds live q where "machine_inv m" "se_counters s = (\<lambda>_. 1)" "tty_wf (sh_tty (se_shell s))"
    "sh_running (se_shell s) = sy_shown m" "sh_last_pid (se_shell s) = sy_last m"
    "procs_rep pdiff im n (sy_made m) (sh_proc (se_shell s)) cs B ds live"
    "map (pid_at (sh_proc (se_shell s))) B = sy_turn m"
    "runs_at (sh_proc (se_shell s)) q ds" "pr_cached_pid (sh_proc (se_shell s)) = sy_now m"
  using assms unfolding session_rep_def by blast

lemma session_repI:
  assumes "machine_inv m" and "se_counters s = (\<lambda>_. 1)" and "tty_wf (sh_tty (se_shell s))"
    and "sh_running (se_shell s) = sy_shown m" and "sh_last_pid (se_shell s) = sy_last m"
    and "procs_rep pdiff im n (sy_made m) (sh_proc (se_shell s)) cs B ds live"
    and "map (pid_at (sh_proc (se_shell s))) B = sy_turn m"
    and "runs_at (sh_proc (se_shell s)) q ds" and "pr_cached_pid (sh_proc (se_shell s)) = sy_now m"
  shows "session_rep pdiff im n s m"
  using assms unfolding session_rep_def by blast

lemma tick_step:
  assumes rep: "session_rep pdiff im (Suc n) s m" and here: "here \<noteq> 0x12345"
  shows "\<exists>s'. at_tick here reg c s = Inr s' \<and> session_rep pdiff im n s' (m\<lparr>sy_now := hd (sy_turn m), sy_turn := rotate1 (sy_turn m)\<rparr>)"
proof -
  obtain cs B ds live q where r: "machine_inv m" "se_counters s = (\<lambda>_. 1)" "tty_wf (sh_tty (se_shell s))"
      "sh_running (se_shell s) = sy_shown m" "sh_last_pid (se_shell s) = sy_last m"
      "procs_rep pdiff im (Suc n) (sy_made m) (sh_proc (se_shell s)) cs B ds live"
      "map (pid_at (sh_proc (se_shell s))) B = sy_turn m"
    by (rule session_repE [OF rep])
  have "B \<noteq> []" using r(1,7) by (auto simp: machine_inv_def)
  then obtain p L where B: "B = p # L" by (cases B) auto
  obtain c' st' where t: "tick_handler here reg c (sh_proc (se_shell s)) = Inr (c', st')"
      "procs_rep pdiff im n (sy_made m) st' cs (L @ [p]) ds live" "runs_at st' p ds"
      "pid_at st' = pid_at (sh_proc (se_shell s))" "pr_cached_pid st' = pid_at (sh_proc (se_shell s)) p"
    using procs_tick [OF r(6) [unfolded B] here, of reg c] by blast
  have turn: "sy_turn m = pid_at (sh_proc (se_shell s)) p # map (pid_at (sh_proc (se_shell s))) L" using r(7) B by simp
  have "machine_inv (m\<lparr>sy_now := hd (sy_turn m), sy_turn := rotate1 (sy_turn m)\<rparr>)"
    using r(1) turn by (auto simp: machine_inv_def)
  then have "session_rep pdiff im n (s\<lparr>se_shell := (se_shell s)\<lparr>sh_proc := st'\<rparr>\<rparr>)
      (m\<lparr>sy_now := hd (sy_turn m), sy_turn := rotate1 (sy_turn m)\<rparr>)"
    using r(2-5) t(2-5) turn by (intro session_repI [where B = "L @ [p]"]) simp_all
  then show ?thesis using t(1) by (simp add: at_tick_def)
qed

lemma loop2_silent: "loop2_round pid 1 t = Inr (1, t)"
  by (simp add: loop2_round_def)

lemma idle_step:
  assumes rep: "session_rep pdiff im (Suc n) s m" and "sy_now m \<noteq> 2"
  shows "at_work pdiff g beyond junk b s = Inr s \<and> session_rep pdiff im n s m"
proof -
  have now: "GetPid (sh_proc (se_shell s)) = sy_now m" "se_counters s = (\<lambda>_. 1)"
    using rep by (auto simp: session_rep_def GetPid_def)
  have "at_work pdiff g beyond junk b s = Inr s"
    using now assms(2) by (auto simp: at_work_def Let_def loop2_silent fun_upd_idem)
  moreover have "session_rep pdiff im n s m" using rep procs_idle unfolding session_rep_def by blast
  ultimately show ?thesis by simp
qed

lemma start_step:
  assumes rep: "session_rep pdiff im (Suc n) s m" and now: "sy_now m = 2" and few: "sy_made m \<noteq> 6" and beyond: "128 \<le> length beyond"
  shows "\<exists>sh. shell_start pdiff g beyond junk (se_shell s) = Inr sh
    \<and> session_rep pdiff im n (s\<lparr>se_shell := sh\<rparr>) (m\<lparr>sy_turn := sy_turn m @ [3 + of_nat (sy_made m)], sy_made := sy_made m + 1,
        sy_shown := sy_shown m + 1, sy_last := Some (3 + of_nat (sy_made m))\<rparr>)"
proof -
  let ?pid = "3 + of_nat (sy_made m) :: u32" and ?sh = "se_shell s"
  obtain cs B ds live q where r: "machine_inv m" "se_counters s = (\<lambda>_. 1)" "tty_wf (sh_tty ?sh)"
      "sh_running ?sh = sy_shown m" "sh_last_pid ?sh = sy_last m" "procs_rep pdiff im (Suc n) (sy_made m) (sh_proc ?sh) cs B ds live"
      "map (pid_at (sh_proc ?sh)) B = sy_turn m" "runs_at (sh_proc ?sh) q ds" "pr_cached_pid (sh_proc ?sh) = sy_now m"
    by (rule session_repE [OF rep])
  have made: "sy_made m < 6" "pr_cached_pid (sh_proc ?sh) \<noteq> 0" using procs_repD(5) [OF r(6)] few r(9) now by simp_all
  obtain name st' p d live' where p: "literal g ''loop2'' = Inr name" "Start_Process pdiff g beyond junk name High (sh_proc ?sh) = Inr (?pid, st')"
      "procs_rep pdiff im n (Suc (sy_made m)) st' cs (B @ [p]) (d # ds) live'"
      "map (pid_at st') (B @ [p]) = map (pid_at (sh_proc ?sh)) B @ [?pid]" "pr_cached_pid st' = pr_cached_pid (sh_proc ?sh)"
      "\<forall>q. runs_at (sh_proc ?sh) q ds \<longrightarrow> runs_at st' q (d # ds)"
    using procs_start [OF r(6) made beyond, of g junk] by blast
  have plain: "plain_text ''Launched procesess pid #''" "plain_text [CHR 0x0A]" by (simp_all add: plain_text_def)
  obtain t where t: "printf (''Launched procesess pid #%d'' @ [CHR 0x0A, NUL]) [Va_int ?pid] (sh_tty ?sh) = Inr (1, t)" "tty_wf t"
    using printf_number [OF r(3) plain, of ?pid] by auto
  define sh where "sh = ?sh\<lparr>sh_proc := st', sh_tty := t, sh_running := sh_running ?sh + 1, sh_last_pid := Some ?pid\<rparr>"
  have "unat ?pid = 3 + sy_made m" "unat (3 + of_nat (sy_made m + 1) :: u32) = 4 + sy_made m"
    using made(1) by (simp_all add: unat_word_ariths unat_of_nat)
  then have "3 \<le> ?pid \<and> ?pid < 3 + of_nat (sy_made m + 1) \<and> ?pid \<noteq> 0" by (auto simp: word_le_nat_alt word_less_nat_alt)
  then have "machine_inv (m\<lparr>sy_turn := sy_turn m @ [?pid], sy_made := sy_made m + 1, sy_shown := sy_shown m + 1, sy_last := Some ?pid\<rparr>)"
    using r(1) by (simp add: machine_inv_def)
  moreover have "map (pid_at st') (B @ [p]) = sy_turn m @ [?pid]" using p(4) r(7) by simp
  moreover have "runs_at st' q (d # ds)" "pr_cached_pid st' = sy_now m" using p(5,6) r(8,9) by simp_all
  ultimately have "session_rep pdiff im n (s\<lparr>se_shell := sh\<rparr>) (m\<lparr>sy_turn := sy_turn m @ [?pid], sy_made := sy_made m + 1,
      sy_shown := sy_shown m + 1, sy_last := Some ?pid\<rparr>)"
    using r(2,4) p(3) t(2) by (intro session_repI [where B = "B @ [p]"]) (simp_all add: sh_def)
  moreover have "shell_start pdiff g beyond junk ?sh = Inr sh" using p(1,2) t(1) by (simp add: shell_start_def sh_def)
  ultimately show ?thesis by blast
qed

lemma start_panics:
  assumes rep: "session_rep pdiff im (Suc n) s m" and full: "sy_made m = 6" and beyond: "128 \<le> length beyond"
  shows "shell_start pdiff g beyond junk (se_shell s) = Inl Kernel_Panic"
proof -
  let ?sh = "se_shell s"
  obtain cs B ds live where p: "procs_rep pdiff im (Suc n) (sy_made m) (sh_proc ?sh) cs B ds live"
    by (rule session_repE [OF rep])
  note r = procs_repD [OF p] and room = procs_room [OF p]
  obtain name buf rps rp where name: "literal g ''loop2'' = Inr name" "copy_name beyond name = Inr buf" "elements (pr_registered (sh_proc ?sh)) = Inr rps"
      "find_registered g buf rps = Inr 1" "load_at (v_buffer (pr_registered (sh_proc ?sh))) 1 = Inr rp"
    using loop2_found [OF r(7) beyond, of g] by metis
  have "create_directory process_regions (pr_paging (in_kernel (sh_proc ?sh))) = Inl Kernel_Panic"
    using spaces_full [of "pr_paging (in_kernel (sh_proc ?sh))" ds] r(3,4) full by simp
  then have "Start_Process pdiff g beyond junk name High (sh_proc ?sh) = Inl Kernel_Panic"
    by (rule Start_Process_fails [OF r(1) room(1) name(2-5)])
  then show ?thesis using name(1) by (simp add: shell_start_def)
qed

lemma end_step:
  assumes rep: "session_rep pdiff im (Suc n) s m" and last: "sy_last m = Some pid"
  shows "\<exists>sh. shell_end (se_shell s) = Inr sh
    \<and> session_rep pdiff im n (s\<lparr>se_shell := sh\<rparr>) (m\<lparr>sy_turn := filter (\<lambda>q. q \<noteq> pid) (sy_turn m), sy_shown := sy_shown m - 1\<rparr>)"
proof -
  let ?sh = "se_shell s"
  obtain cs B ds live q where r: "machine_inv m" "se_counters s = (\<lambda>_. 1)" "tty_wf (sh_tty ?sh)"
      "sh_running ?sh = sy_shown m" "sh_last_pid ?sh = sy_last m" "procs_rep pdiff im (Suc n) (sy_made m) (sh_proc ?sh) cs B ds live"
      "map (pid_at (sh_proc ?sh)) B = sy_turn m" "runs_at (sh_proc ?sh) q ds" "pr_cached_pid (sh_proc ?sh) = sy_now m"
    by (rule session_repE [OF rep])
  have pid: "3 \<le> pid" "pid < 3 + of_nat (sy_made m)" using r(1) last by (simp_all add: machine_inv_def)
  obtain st' where p: "End_Process pid (sh_proc ?sh) = Inr st'"
      "procs_rep pdiff im n (sy_made m) st' (cs @ [pid]) (filter (\<lambda>p. pid_at (sh_proc ?sh) p \<noteq> pid) B) ds live"
      "pid_at st' = pid_at (sh_proc ?sh)" "pr_cached_pid st' = pr_cached_pid (sh_proc ?sh)" "\<forall>q. runs_at (sh_proc ?sh) q ds \<longrightarrow> runs_at st' q ds"
    using procs_end [OF r(6) pid(2)] by blast
  have plain: "plain_text ''Stopped proccess ''" "plain_text [CHR 0x0A]" by (simp_all add: plain_text_def)
  obtain t where t: "printf (''Stopped proccess %d'' @ [CHR 0x0A, NUL]) [Va_int pid] (sh_tty ?sh) = Inr (1, t)" "tty_wf t"
    using printf_number [OF r(3) plain, of pid] by auto
  define sh where "sh = ?sh\<lparr>sh_proc := st', sh_tty := t, sh_running := sh_running ?sh - 1\<rparr>"
  have "pid \<noteq> 2" using pid(1) by auto
  then have "machine_inv (m\<lparr>sy_turn := filter (\<lambda>q. q \<noteq> pid) (sy_turn m), sy_shown := sy_shown m - 1\<rparr>)"
    using r(1) by (simp add: machine_inv_def)
  moreover have "map (pid_at st') (filter (\<lambda>p. pid_at (sh_proc ?sh) p \<noteq> pid) B) = filter (\<lambda>q. q \<noteq> pid) (sy_turn m)"
    unfolding p(3) r(7) [symmetric] filter_map by (simp add: comp_def)
  moreover have "runs_at st' q ds" "pr_cached_pid st' = sy_now m" using p(4,5) r(8,9) by simp_all
  ultimately have "session_rep pdiff im n (s\<lparr>se_shell := sh\<rparr>) (m\<lparr>sy_turn := filter (\<lambda>q. q \<noteq> pid) (sy_turn m), sy_shown := sy_shown m - 1\<rparr>)"
    using r(2,4,5) p(2) t(2) by (intro session_repI) (simp_all add: sh_def)
  moreover have "shell_end ?sh = Inr sh" using p(1) t(1) r(5) last by (simp add: shell_end_def sh_def)
  ultimately show ?thesis by blast
qed

lemma line_step:
  assumes rep: "session_rep pdiff im (Suc n) s m" and now: "sy_now m = 2" and beyond: "128 \<le> length beyond"
    and b: "terminated b" "length b + 200 < 2 ^ 32"
  shows "case system_line b m of Inl e \<Rightarrow> at_work pdiff g beyond junk b s = Inl e
    | Inr m' \<Rightarrow> \<exists>s'. at_work pdiff g beyond junk b s = Inr s' \<and> session_rep pdiff im n s' m'"
proof -
  have pid: "GetPid (sh_proc (se_shell s)) = 2" and last: "sh_last_pid (se_shell s) = sy_last m"
    using rep now by (auto simp: session_rep_def GetPid_def)
  have idle: "session_rep pdiff im n s m" using rep procs_idle unfolding session_rep_def by blast
  note work = at_work_def Let_def pid shell_command_eq [OF b]
  consider "cstr b = []" | "length (cstr b) = 64 \<or> 64 < length (cstr b) \<and> length (cstr b) mod 8 = 3"
    | "cstr b = ''START''" | "cstr b = ''END''"
    | "cstr b \<notin> {[], ''START'', ''END''}" "\<not> (length (cstr b) = 64 \<or> 64 < length (cstr b) \<and> length (cstr b) mod 8 = 3)"
    by blast
  then show ?thesis
  proof cases
    case 3
    then show ?thesis
      using start_step [OF rep now _ beyond, of g junk] start_panics [OF rep _ beyond, of g junk]
      by (auto simp: work system_line_def)
  next
    case 4
    then show ?thesis
      using end_step [OF rep] last by (auto simp: work system_line_def shell_end_def split: option.splits)
  qed (use idle in \<open>auto simp: work system_line_def\<close>)
qed

text \<open>What the lines of a session need: a terminating zero within reach.\<close>

fun readable :: "moment \<Rightarrow> bool" where
  "readable (Tick_At c) = True"
| "readable (Work b) = (terminated b \<and> length b + 200 < 2 ^ 32)"

lemma session_runs:
  assumes "session_rep pdiff im n s m" and "length es \<le> n" and "here \<noteq> 0x12345" and "128 \<le> length beyond" and "\<forall>e \<in> set es. readable e"
  shows "case system_run es m of Inl e \<Rightarrow> session_run pdiff g beyond junk here reg es s = Inl e
    | Inr m' \<Rightarrow> \<exists>s'. session_run pdiff g beyond junk here reg es s = Inr s' \<and> session_rep pdiff im (n - length es) s' m'"
  using assms(1,2,5)
proof (induction es arbitrary: n s m)
  case Nil
  then show ?case by simp
next
  case (Cons e es)
  then obtain k where n: "n = Suc k" by (cases n) auto
  note rep = Cons.prems(1) [unfolded n]
  have more: "length es \<le> k" "\<forall>e \<in> set es. readable e" using Cons.prems(2,3) n by simp_all
  show ?case
  proof (cases e)
    case (Tick_At c)
    obtain s' where s': "at_tick here reg c s = Inr s'"
        "session_rep pdiff im k s' (m\<lparr>sy_now := hd (sy_turn m), sy_turn := rotate1 (sy_turn m)\<rparr>)"
      using tick_step [OF rep assms(3), of reg c] by blast
    then show ?thesis using Cons.IH [OF s'(2) more] s'(1) by (simp add: Tick_At n split: sum.splits)
  next
    case (Work b)
    then have b: "terminated b" "length b + 200 < 2 ^ 32" using Cons.prems(3) by simp_all
    show ?thesis
    proof (cases "sy_now m = 2")
      case False
      then show ?thesis using idle_step [OF rep False] Cons.IH [OF _ more, of s m] by (simp add: Work n split: sum.splits)
    next
      case True
      note step = line_step [OF rep True assms(4) b, of g junk]
      show ?thesis
      proof (cases "system_line b m")
        case (Inl e)
        then show ?thesis using step True by (simp add: Work)
      next
        case (Inr m')
        then obtain s' where s': "at_work pdiff g beyond junk b s = Inr s'" "session_rep pdiff im k s' m'" using step by auto
        then show ?thesis using Cons.IH [OF s'(2) more] s'(1) Inr True by (simp add: Work n split: sum.splits)
      qed
    qed
  qed
qed

section \<open>From the boot\<close>

text \<open>
  The kernel is booted, the first tick enters its second stage, the next one the shell, which gets to
  its loop.
\<close>

definition booted_session ::
    "(u32 \<Rightarrow> u32 \<Rightarrow> u32) \<Rightarrow> (nat \<Rightarrow> char) \<Rightarrow> char list \<Rightarrow> KernelProcess \<Rightarrow> u32 \<Rightarrow> RegistersStruct_x86_32 \<Rightarrow> image \<Rightarrow> device
     \<Rightarrow> u16 list \<Rightarrow> u32 list \<Rightarrow> (u32 \<Rightarrow> BigChunk) \<Rightarrow> u32 \<Rightarrow> cpu \<Rightarrow> kernel \<Rightarrow> session outcome" where
  "booted_session pdiff g beyond junk here reg im dev vga bin_mem chunks stack_top c k =
     and_then (kernel_main pdiff junk im dev vga bin_mem chunks stack_top k) (\<lambda>k'.
     and_then (tick_handler here reg (k_cpu k') (k_proc k')) (\<lambda>(c1, st1).
     and_then (kernel_stage_2 pdiff g beyond junk im False c1 st1) (\<lambda>(_, _, st2).
     and_then (tick_handler here reg c st2) (\<lambda>(_, st3).
     and_then (shell_entry pdiff (k_tty k') st3) (\<lambda>sh. Inr \<lparr>se_shell = sh, se_counters = (\<lambda>_. 1)\<rparr>)))))"

lemma booted_session_rep:
  assumes ok: "boot_ok im bin_mem k" and beyond: "128 \<le> length beyond" and here: "here \<noteq> 0x12345" and vga: "length vga = 2000"
  shows "\<exists>s. booted_session pdiff g beyond junk here reg im dev vga bin_mem chunks stack_top c k = Inr s
    \<and> session_rep pdiff im 0x20000000 s first_system"
proof -
  obtain k' c1 st1 st2 c3 st3 d q j live where b: "kernel_main pdiff junk im dev vga bin_mem chunks stack_top k = Inr k'"
      "tick_handler here reg (k_cpu k') (k_proc k') = Inr (c1, st1)"
      "kernel_stage_2 pdiff g beyond junk im False c1 st1 = Inr (True, c1\<lparr>cpu_interrupts := True\<rparr>, st2)"
      "tick_handler here reg c st2 = Inr (c3, st3)" "GetPid st3 = 2" "cr3 (pr_paging st3) = d + 4096" "spaces (pr_paging st3) [d]"
      "proc_inv st3 [1] [] [q] live" "clocked pdiff st3 [1] [] [q]" "room_for 97 95 st3 live"
      "names_program st3 ''loop2'' 1 (im_loop2 im)" "pr_pid_seq st3 = 3" "s_procs (pr_sched st3) q = Some j" "kp_pid j = 2"
      "s_current (pr_sched st3) = q" "pr_cached_process st3 = q" "kp_directory j = d" "counters_low 0x20000000 (s_procs (pr_sched st3))"
      "k_tty k' = Tty_Initialize vga"
    using boot_to_shell [OF ok beyond here here, of pdiff junk dev vga chunks stack_top reg g reg c] by (elim exE conjE) (rule that)
  have room: "has_room (Suc 94) st3 live" using room_for_has_room [of 96 95 st3 live] b(10) by simp
  obtain i mm where init: "SelfProcessInit pdiff st3 = Inr (set_proc q (j\<lparr>kp_input_buffer := i\<rparr>) (set_mm mm st3))"
      "proc_inv (set_proc q (j\<lparr>kp_input_buffer := i\<rparr>) (set_mm mm st3)) [1] [] [q] live"
      "room_for 97 94 (set_proc q (j\<lparr>kp_input_buffer := i\<rparr>) (set_mm mm st3)) live"
    using SelfProcessInit_inv [OF b(8) room, of j pdiff] b(10,13) unfolding b(16) by auto
  define st where "st = set_proc q (j\<lparr>kp_input_buffer := i\<rparr>) (set_mm mm st3)"
  have st: "s_procs (pr_sched st) = (s_procs (pr_sched st3))(q \<mapsto> j\<lparr>kp_input_buffer := i\<rparr>)" "keeps_clock st3 st"
      "pr_paging st = pr_paging st3" "pr_registered st = pr_registered st3" "pr_pid_seq st = pr_pid_seq st3"
    by (simp_all add: st_def) (simp_all add: set_proc_def set_mm_def keeps_clock_def)
  have "clocked pdiff st [1] [] [q]" using clocked_ready [OF b(9) _ st(2)] init(2) st(1) by (auto simp: proc_inv_def st_def [symmetric])
  moreover have "counters_low 0x20000000 (s_procs (pr_sched st))" using b(13,18) by (simp add: st(1) counters_low_def)
  ultimately have rep: "procs_rep pdiff im 0x20000000 0 st [1] [q] [d] live"
    unfolding procs_rep_def using init(2,3) b(7,11,12,17) st(1,3-5)
    by (simp add: st_def [symmetric] names_program_def dir_at_def)
  have runs: "runs_at st q [d]" "pr_cached_pid st = 2" "pid_at st q = 2"
    using st(1-3) b(5,6,14-17) by (simp_all add: runs_at_def keeps_clock_def pid_at_def pid_of_def dir_at_def GetPid_def)
  define s where "s = \<lparr>se_shell = \<lparr>sh_proc = st, sh_tty = Tty_Initialize vga, sh_running = 0, sh_last_pid = None\<rparr>, se_counters = (\<lambda>_. 1 :: u32)\<rparr>"
  have "session_rep pdiff im 0x20000000 s first_system"
    using rep runs s_def Tty_Initialize_wf [OF vga]
    by (intro session_repI [where B = "[q]" and ds = "[d]" and q = q and cs = "[1]" and live = live])
      (simp_all add: first_system_def machine_inv_def)
  moreover have "booted_session pdiff g beyond junk here reg im dev vga bin_mem chunks stack_top c k = Inr s"
    using b(1-4,19) init(1) by (simp add: booted_session_def shell_entry_def s_def st_def)
  ultimately show ?thesis by blast
qed

text \<open>What is read off a session: who runs, who takes turns in which order, and the shell's locals.\<close>

definition seen_as :: "session \<Rightarrow> system \<Rightarrow> bool" where
  "seen_as s m \<longleftrightarrow> GetPid (sh_proc (se_shell s)) = sy_now m
     \<and> (\<exists>cs B. ready (pr_sched (sh_proc (se_shell s))) cs [] B \<and> map (pid_at (sh_proc (se_shell s))) B = sy_turn m)
     \<and> sh_running (se_shell s) = sy_shown m \<and> sh_last_pid (se_shell s) = sy_last m"

lemma session_rep_seen: "session_rep pdiff im n s m \<Longrightarrow> seen_as s m"
  using procs_repD(1) unfolding session_rep_def seen_as_def GetPid_def proc_inv_def by blast

text \<open>
  The processes that take turns, and the one that runs, each in a space of its own: its low pages are
  the kernel's, its other frames are neither the kernel's nor any other process's.
\<close>

definition spaces_apart :: "processing \<Rightarrow> bool" where
  "spaces_apart st \<longleftrightarrow> (\<exists>cs B. ready (pr_sched st) cs [] B \<and> cr3 (pr_paging st) = dir_at st (s_current (pr_sched st)) + 4096
     \<and> (\<forall>p \<in> insert (s_current (pr_sched st)) (set B). process_space (pr_paging st) (dir_at st p)
          \<and> private_frames (pr_paging st) (dir_at st p) \<inter> {..< 8704} = {})
     \<and> (\<forall>p \<in> set B. \<forall>q \<in> set B. p \<noteq> q \<longrightarrow>
          private_frames (pr_paging st) (dir_at st p) \<inter> private_frames (pr_paging st) (dir_at st q) = {}))"

lemma session_rep_apart:
  assumes "session_rep pdiff im n s m"
  shows "spaces_apart (sh_proc (se_shell s))"
proof -
  let ?st = "sh_proc (se_shell s)"
  obtain cs B ds live q where rep: "procs_rep pdiff im n (sy_made m) ?st cs B ds live" and run: "runs_at ?st q ds"
    using assms by (elim session_repE)
  note r = procs_repD [OF rep]
  have own: "process_space (pr_paging ?st) d \<and> private_frames (pr_paging ?st) d \<inter> {..< 8704} = {}" if "d \<in> set ds" for d
    using r(3) that by (auto simp: spaces_def)
  have "private_frames (pr_paging ?st) (dir_at ?st p) \<inter> private_frames (pr_paging ?st) (dir_at ?st p') = {}"
    if "p \<in> set B" "p' \<in> set B" "p \<noteq> p'" for p p'
  proof -
    have "dir_at ?st p \<noteq> dir_at ?st p'" using r(13) that by (auto simp: distinct_map inj_on_def)
    moreover have "dir_at ?st p \<in> set ds" "dir_at ?st p' \<in> set ds" using r(12) that by auto
    ultimately show ?thesis using r(3) by (simp add: spaces_def)
  qed
  moreover have "ready (pr_sched ?st) cs [] B" using r(1) by (simp add: proc_inv_def)
  moreover have "dir_at ?st p \<in> set ds" if "p \<in> insert (s_current (pr_sched ?st)) (set B)" for p
    using that run r(12) by (auto simp: runs_at_def)
  ultimately show ?thesis using own run unfolding spaces_apart_def runs_at_def by blast
qed

lemma booted_run:
  assumes "boot_ok im bin_mem k" and "128 \<le> length beyond" and "here \<noteq> 0x12345" and "length vga = 2000"
    and "length es \<le> 0x20000000" and "\<forall>e \<in> set es. readable e"
  shows "case system_run es first_system of
      Inl e \<Rightarrow> and_then (booted_session pdiff g beyond junk here reg im dev vga bin_mem chunks stack_top c k)
        (session_run pdiff g beyond junk here reg es) = Inl e
    | Inr m \<Rightarrow> \<exists>s. and_then (booted_session pdiff g beyond junk here reg im dev vga bin_mem chunks stack_top c k)
        (session_run pdiff g beyond junk here reg es) = Inr s \<and> session_rep pdiff im (0x20000000 - length es) s m"
proof -
  obtain s where s: "booted_session pdiff g beyond junk here reg im dev vga bin_mem chunks stack_top c k = Inr s"
      "session_rep pdiff im 0x20000000 s first_system"
    using booted_session_rep [OF assms(1-4)] by blast
  show ?thesis using session_runs [OF s(2) assms(5,3,2,6), of g junk reg] s(1) by (simp split: sum.splits)
qed

section \<open>Properties\<close>

text \<open>The two commands, as they lie in the buffer of the shell.\<close>

definition start_text :: "char list" where "start_text = ''START'' @ replicate 95 NUL"
definition end_text :: "char list" where "end_text = ''END'' @ replicate 97 NUL"

lemma command_lines:
  "readable (Work start_text)" "readable (Work end_text)" "cstr start_text = ''START''" "cstr end_text = ''END''"
proof -
  show "readable (Work start_text)" "readable (Work end_text)"
    by (simp_all add: start_text_def end_text_def terminated_def)
  show "cstr start_text = ''START''" "cstr end_text = ''END''"
    by (simp_all add: start_text_def end_text_def numeral_eq_Suc)
qed

abbreviation six_rounds :: "moment list" where
  "six_rounds \<equiv> concat (replicate 6 [Work start_text, Work end_text])"

lemma six_rounds_eq: "six_rounds = [Work start_text, Work end_text, Work start_text, Work end_text, Work start_text, Work end_text,
    Work start_text, Work end_text, Work start_text, Work end_text, Work start_text, Work end_text]"
  by (simp add: numeral_eq_Suc)

lemma six_rounds_run:
  "system_run six_rounds first_system = Inr \<lparr>sy_turn = [2], sy_now = 2, sy_made = 6, sy_shown = 0, sy_last = Some 8\<rparr>"
  unfolding six_rounds_eq by (simp add: first_system_def system_line_def command_lines(3,4))

text \<open>
  C2: From \<^verbatim>\<open>kernel_main\<close> to the shell and on: with clock ticks and lines in any order, up to 2^29 of
  them, the kernel does what a machine of process numbers does. The processes run in the order of
  their turns, the loop program prints nothing, \<^verbatim>\<open>START\<close> puts the next number at the end of the turns,
  \<^verbatim>\<open>END\<close> takes the number started last out, again and again if repeated; the lines that fault are
  exactly the empty one, those whose copy overruns its block, an \<^verbatim>\<open>END\<close> before any \<^verbatim>\<open>START\<close>, and the seventh \<^verbatim>\<open>START\<close>,
  which panics whether or not the programs of the first six have ended.
\<close>

theorem sessions_refine_system:
  assumes "boot_ok im bin_mem k" and "128 \<le> length beyond" and "here \<noteq> 0x12345" and "length vga = 2000"
    and "length es \<le> 0x20000000" and "\<forall>e \<in> set es. readable e"
  shows "case system_run es first_system of
      Inl e \<Rightarrow> and_then (booted_session pdiff g beyond junk here reg im dev vga bin_mem chunks stack_top c k)
        (session_run pdiff g beyond junk here reg es) = Inl e
    | Inr m \<Rightarrow> \<exists>s. and_then (booted_session pdiff g beyond junk here reg im dev vga bin_mem chunks stack_top c k)
        (session_run pdiff g beyond junk here reg es) = Inr s \<and> seen_as s m"
  using booted_run [OF assms, of pdiff g junk reg dev chunks stack_top c] session_rep_seen by (auto split: sum.splits)

theorem sessions_refine_system_witness:
  "\<exists>s. and_then (booted_session (\<lambda>_ _. 0) (\<lambda>_. NUL) (replicate 128 NUL) (example_process 0) 0x105000
        (kp_registers (example_process 0)) example_image (\<lambda>_ _. 0) (replicate 2000 0) (replicate 1700 0) (\<lambda>_. zero_chunk) 0x9000
        example_cpu example_kernel)
      (session_run (\<lambda>_ _. 0) (\<lambda>_. NUL) (replicate 128 NUL) (example_process 0) 0x105000 (kp_registers (example_process 0))
        [Work start_text, Tick_At example_cpu, Tick_At example_cpu]) = Inr s
    \<and> seen_as s \<lparr>sy_turn = [2, 3], sy_now = 3, sy_made = 1, sy_shown = 1, sy_last = Some 3\<rparr>"
proof -
  let ?es = "[Work start_text, Tick_At example_cpu, Tick_At example_cpu]"
  have "system_run ?es first_system = Inr \<lparr>sy_turn = [2, 3], sy_now = 3, sy_made = 1, sy_shown = 1, sy_last = Some 3\<rparr>"
    by (simp add: first_system_def system_line_def command_lines(3))
  then show ?thesis
    using sessions_refine_system [where beyond = "replicate 128 NUL" and here = "0x105000" and vga = "replicate 2000 0" and es = ?es
        and pdiff = "\<lambda>_ _. 0" and g = "\<lambda>_. NUL" and junk = "example_process 0" and reg = "kp_registers (example_process 0)"
        and dev = "\<lambda>_ _. 0" and chunks = "\<lambda>_. zero_chunk" and stack_top = "0x9000" and c = example_cpu, OF example_boot_ok]
      command_lines(1) by simp
qed

text \<open>
  C3: In every session from the boot on, the processes that take turns are kept apart by paging:
  each has a space whose low two megabytes are the kernel's, whose other pages are its stack and its
  heap alone, on frames that belong neither to the kernel nor to any other of them; the processor
  uses the space of the process that runs.
\<close>

theorem sessions_keep_spaces_apart:
  assumes "boot_ok im bin_mem k" and "128 \<le> length beyond" and "here \<noteq> 0x12345" and "length vga = 2000"
    and "length es \<le> 0x20000000" and "\<forall>e \<in> set es. readable e"
    and run: "and_then (booted_session pdiff g beyond junk here reg im dev vga bin_mem chunks stack_top c k)
      (session_run pdiff g beyond junk here reg es) = Inr s"
  shows "spaces_apart (sh_proc (se_shell s))"
  using booted_run [OF assms(1-6), of pdiff g junk reg dev chunks stack_top c] session_rep_apart run by (auto split: sum.splits)

theorem sessions_keep_spaces_apart_witness:
  "\<exists>s. and_then (booted_session (\<lambda>_ _. 0) (\<lambda>_. NUL) (replicate 128 NUL) (example_process 0) 0x105000
        (kp_registers (example_process 0)) example_image (\<lambda>_ _. 0) (replicate 2000 0) (replicate 1700 0) (\<lambda>_. zero_chunk) 0x9000
        example_cpu example_kernel)
      (session_run (\<lambda>_ _. 0) (\<lambda>_. NUL) (replicate 128 NUL) (example_process 0) 0x105000 (kp_registers (example_process 0))
        [Work start_text, Tick_At example_cpu]) = Inr s
    \<and> spaces_apart (sh_proc (se_shell s))"
proof -
  let ?es = "[Work start_text, Tick_At example_cpu]"
  have ok: "128 \<le> length (replicate 128 NUL)" "(0x105000 :: u32) \<noteq> 0x12345" "length (replicate 2000 (0 :: u16)) = 2000"
      "length ?es \<le> 0x20000000" "\<forall>e \<in> set ?es. readable e"
    using command_lines(1) by simp_all
  have "\<exists>m. system_run ?es first_system = Inr m" by (simp add: first_system_def system_line_def command_lines(3))
  then obtain s where s: "and_then (booted_session (\<lambda>_ _. 0) (\<lambda>_. NUL) (replicate 128 NUL) (example_process 0) 0x105000
      (kp_registers (example_process 0)) example_image (\<lambda>_ _. 0) (replicate 2000 0) (replicate 1700 0) (\<lambda>_. zero_chunk) 0x9000
      example_cpu example_kernel)
      (session_run (\<lambda>_ _. 0) (\<lambda>_. NUL) (replicate 128 NUL) (example_process 0) 0x105000 (kp_registers (example_process 0)) ?es) = Inr s"
    using booted_run [where pdiff = "\<lambda>_ _. 0" and g = "\<lambda>_. NUL" and junk = "example_process 0" and stack_top = "0x9000"
        and reg = "kp_registers (example_process 0)" and dev = "\<lambda>_ _. 0" and chunks = "\<lambda>_. zero_chunk" and c = example_cpu,
        OF example_boot_ok ok] by (auto simp del: system_run.simps)
  moreover from this have "spaces_apart (sh_proc (se_shell s))"
    by (rule sessions_keep_spaces_apart [OF example_boot_ok ok])
  ultimately show ?thesis by blast
qed

text \<open>
  C4: The frames of an ended process are never given back: after six programs were started and ended
  only the shell takes turns, and yet the seventh \<^verbatim>\<open>START\<close> runs out of frames and panics
  the kernel.
\<close>

theorem seventh_start_panics:
  assumes boot: "boot_ok im bin_mem k" and beyond: "128 \<le> length beyond" and here: "here \<noteq> 0x12345" and vga: "length vga = 2000"
  shows "\<exists>s cs q. and_then (booted_session pdiff g beyond junk here reg im dev vga bin_mem chunks stack_top c k)
        (session_run pdiff g beyond junk here reg six_rounds) = Inr s
    \<and> ready (pr_sched (sh_proc (se_shell s))) cs [] [q] \<and> pid_at (sh_proc (se_shell s)) q = 2 \<and> sh_running (se_shell s) = 0
    \<and> session_run pdiff g beyond junk here reg [Work start_text] s = Inl Kernel_Panic"
proof -
  let ?m = "\<lparr>sy_turn = [2], sy_now = 2, sy_made = 6, sy_shown = 0, sy_last = Some 8\<rparr>"
  have es: "length six_rounds = 12" "\<forall>e \<in> set six_rounds. readable e"
    using command_lines(1,2) unfolding six_rounds_eq by simp_all
  obtain s where s: "and_then (booted_session pdiff g beyond junk here reg im dev vga bin_mem chunks stack_top c k)
        (session_run pdiff g beyond junk here reg six_rounds) = Inr s" "session_rep pdiff im (0x20000000 - 12) s ?m"
    using booted_run [OF assms _ es(2), of pdiff g junk reg dev chunks stack_top c] unfolding six_rounds_run es(1) by auto
  obtain cs B where B: "ready (pr_sched (sh_proc (se_shell s))) cs [] B" "map (pid_at (sh_proc (se_shell s))) B = [2]"
      "sh_running (se_shell s) = 0"
    using session_rep_seen [OF s(2)] by (auto simp: seen_as_def)
  then obtain q where q: "B = [q]" "pid_at (sh_proc (se_shell s)) q = 2" by (cases B) auto
  have "system_run [Work start_text] ?m = Inl Kernel_Panic" by (simp add: system_line_def command_lines(3))
  then have "session_run pdiff g beyond junk here reg [Work start_text] s = Inl Kernel_Panic"
    using session_runs [OF s(2) _ here beyond, of "[Work start_text]" g junk reg] command_lines(1) by simp
  then show ?thesis using s(1) B q by blast
qed

theorem seventh_start_panics_witness:
  "\<exists>s. and_then (booted_session (\<lambda>_ _. 0) (\<lambda>_. NUL) (replicate 128 NUL) (example_process 0) 0x105000
        (kp_registers (example_process 0)) example_image (\<lambda>_ _. 0) (replicate 2000 0) (replicate 1700 0) (\<lambda>_. zero_chunk) 0x9000
        example_cpu example_kernel)
      (session_run (\<lambda>_ _. 0) (\<lambda>_. NUL) (replicate 128 NUL) (example_process 0) 0x105000 (kp_registers (example_process 0))
        six_rounds) = Inr s
    \<and> session_run (\<lambda>_ _. 0) (\<lambda>_. NUL) (replicate 128 NUL) (example_process 0) 0x105000 (kp_registers (example_process 0))
        [Work start_text] s = Inl Kernel_Panic"
proof -
  have run: "128 \<le> length (replicate 128 NUL)" "(0x105000 :: u32) \<noteq> 0x12345" "length (replicate 2000 (0 :: u16)) = 2000" by simp_all
  show ?thesis
    using seventh_start_panics [where pdiff = "\<lambda>_ _. 0" and g = "\<lambda>_. NUL" and junk = "example_process 0" and stack_top = "0x9000"
        and reg = "kp_registers (example_process 0)" and dev = "\<lambda>_ _. 0" and chunks = "\<lambda>_. zero_chunk" and c = example_cpu,
        OF example_boot_ok run] by blast
qed

end
