(* ===== verification/Kallocators.thy ===== *)
theory Kallocators
  imports Kmm_Props
begin

text \<open>
  The allocators of \<^verbatim>\<open>kallocators.hpp\<close> and the array part of \<^verbatim>\<open>allocator.hpp\<close>, templates over a type of
  objects: \<open>sz\<close> is its size, \<open>dflt\<close> what its default constructor makes. Objects lie in a store by their
  addresses, an object that was destroyed is no longer there. The types are those without a destructor of
  their own: for others \<^verbatim>\<open>new[]\<close> keeps the number of objects in front of them, where the compiler wants.
  Also \<^verbatim>\<open>compare.hpp\<close>.
\<close>

section \<open>Code\<close>

definition Less :: "'a :: ord \<Rightarrow> 'a \<Rightarrow> bool" where "Less x y \<longleftrightarrow> x < y"

text \<open>The primitive allocator: runs of the bump allocator, which starts each at a page.\<close>

definition primitive_allocate :: "u32 \<Rightarrow> u32 \<Rightarrow> u32 \<Rightarrow> u32 \<times> u32" where
  "primitive_allocate sz n heap = Allocate (n * sz) True heap"

text \<open>Both allocators construct by assigning a copy, and destroy by the destructor.\<close>

definition construct :: "u32 \<Rightarrow> 'a \<Rightarrow> (u32 \<Rightarrow> 'a option) \<Rightarrow> (u32 \<Rightarrow> 'a option) outcome" where
  "construct p v objs = (if p = 0 then Inl Null_Pointer else Inr (objs(p \<mapsto> v)))"

definition destroy :: "u32 \<Rightarrow> (u32 \<Rightarrow> 'a option) \<Rightarrow> (u32 \<Rightarrow> 'a option) outcome" where
  "destroy p objs = (if p = 0 then Inl Null_Pointer else Inr (objs(p := None)))"

record 'a arena =
  ar_mm :: mm_state
  ar_at :: "u32 \<Rightarrow> 'a option"

text \<open>
  \<^verbatim>\<open>new Type[n]\<close>: one request for all, which is not asked whether it was served, then the constructors. A
  size of 32 bits or more is refused by the language before the request.
\<close>

fun construct_each :: "u32 \<Rightarrow> u32 \<Rightarrow> 'a \<Rightarrow> nat \<Rightarrow> (u32 \<Rightarrow> 'a option) \<Rightarrow> (u32 \<Rightarrow> 'a option) outcome" where
  "construct_each p sz v 0 objs = Inr objs"
| "construct_each p sz v (Suc k) objs = and_then (construct p v objs) (construct_each (p + sz) sz v k)"

definition advanced_allocate ::
    "(u32 \<Rightarrow> u32 \<Rightarrow> u32) \<Rightarrow> u32 \<Rightarrow> 'a \<Rightarrow> u32 \<Rightarrow> 'a arena \<Rightarrow> (u32 \<times> 'a arena) outcome" where
  "advanced_allocate pdiff sz dflt n m =
     (if 2 ^ 32 \<le> unat n * unat sz then Inl Out_Of_Bounds
      else and_then (operator_new pdiff (n * sz) (ar_mm m)) (\<lambda>(p, mm).
           and_then (construct_each p sz dflt (unat n) (ar_at m)) (\<lambda>objs.
             Inr (p, m\<lparr>ar_mm := mm, ar_at := objs\<rparr>))))"

text \<open>\<^verbatim>\<open>delete p\<close>, whatever number of objects is given: one object is destroyed and its block released.\<close>

definition advanced_deallocate :: "u32 \<Rightarrow> u32 \<Rightarrow> 'a arena \<Rightarrow> 'a arena outcome" where
  "advanced_deallocate p n m =
     (if p = 0 then Inr m
      else and_then (destroy p (ar_at m)) (\<lambda>objs.
           and_then (operator_delete p (ar_mm m)) (\<lambda>mm. Inr (m\<lparr>ar_mm := mm, ar_at := objs\<rparr>))))"

section \<open>Facts\<close>

lemma construct_each_result:
  assumes "p \<noteq> 0" and "unat p + k * unat sz < 2 ^ 32" and "0 < sz"
  shows "\<exists>objs'. construct_each p sz v k objs = Inr objs'
    \<and> (\<forall>i < k. objs' (p + of_nat i * sz) = Some v)
    \<and> (\<forall>a. (\<forall>i < k. a \<noteq> p + of_nat i * sz) \<longrightarrow> objs' a = objs a)"
  using assms(1,2)
proof (induction k arbitrary: p objs)
  case 0
  then show ?case by simp
next
  case (Suc k)
  have step: "unat (p + sz) = unat p + unat sz" using Suc.prems(2) by (intro unat_plus_no_wrap) simp
  then have "unat (p + sz) + k * unat sz < 2 ^ 32" using Suc.prems(2) by simp
  moreover have "p + sz \<noteq> 0" using step Suc.prems(1) by (auto simp: unat_eq_0 [symmetric] simp del: unat_eq_0)
  ultimately obtain objs' where objs': "construct_each (p + sz) sz v k (objs(p \<mapsto> v)) = Inr objs'"
      "\<forall>i < k. objs' (p + sz + of_nat i * sz) = Some v"
      "\<forall>a. (\<forall>i < k. a \<noteq> p + sz + of_nat i * sz) \<longrightarrow> objs' a = (objs(p \<mapsto> v)) a"
    using Suc.IH [of "p + sz" "objs(p \<mapsto> v)"] by blast
  have next_at: "p + of_nat (Suc i) * sz = p + sz + of_nat i * sz" for i by (simp add: algebra_simps)
  have "objs' p = Some v"
  proof (cases "\<exists>i < k. p = p + sz + of_nat i * sz")
    case True
    then show ?thesis using objs'(2) by metis
  next
    case False
    then show ?thesis using objs'(3) by (metis fun_upd_same)
  qed
  then have "objs' (p + of_nat i * sz) = Some v" if "i < Suc k" for i
  proof (cases i)
    case (Suc j)
    then show ?thesis using that objs'(2) unfolding Suc next_at by simp
  qed simp
  moreover have "objs' a = objs a" if "\<forall>i < Suc k. a \<noteq> p + of_nat i * sz" for a
  proof -
    have "a \<noteq> p" using that by (metis add.right_neutral mult_zero_left of_nat_0 zero_less_Suc)
    moreover have "\<forall>i < k. a \<noteq> p + sz + of_nat i * sz" using that next_at by (metis Suc_less_eq)
    ultimately show ?thesis using objs'(3) by simp
  qed
  ultimately show ?case using objs'(1) Suc.prems(1) by (simp add: construct_def)
qed

section \<open>Properties\<close>

text \<open>
  Runs of the primitive allocator are apart, and each starts a page.
\<close>

theorem primitive_runs_apart:
  assumes "primitive_allocate sz n heap = (p, heap1)" and "primitive_allocate tz k heap1 = (q, heap2)"
    and "unat heap + unat (n * sz) + unat (k * tz) + 0x2000 < 2 ^ 32"
  shows "unat p + unat (n * sz) \<le> unat q \<and> IS_ALIGNED p \<and> IS_ALIGNED q"
proof -
  have a: "Allocate (n * sz) True heap = (p, heap1)" "Allocate (k * tz) True heap1 = (q, heap2)"
    using assms(1,2) by (simp_all add: primitive_allocate_def)
  have b: "unat heap1 = unat p + unat (n * sz)" "unat p < unat heap + 0x1000"
    using Allocate_bounds [OF _ a(1)] assms(3) by simp_all
  then have "unat heap1 \<le> unat q" using Allocate_bounds(1) [OF _ a(2)] assms(3) by simp
  then show ?thesis using a b(1) aligned_top_is_aligned by (auto simp: Allocate_aligned)
qed

theorem primitive_runs_apart_witness:
  "primitive_allocate 4 10 0x200010 = (0x201000, 0x201028) \<and> primitive_allocate 8 3 0x201028 = (0x202000, 0x202018)
   \<and> unat (0x201000 :: u32) + unat (10 * 4 :: u32) \<le> unat (0x202000 :: u32)"
proof -
  have "primitive_allocate 4 10 0x200010 = (0x201000, 0x201028)" "primitive_allocate 8 3 0x201028 = (0x202000, 0x202018)"
    by code_simp+
  then show ?thesis using primitive_runs_apart [of 4 10 "0x200010" "0x201000" "0x201028" 8 3 "0x202000" "0x202018"] by simp
qed

text \<open>
  An array of up to 64 bytes is served from the bin with every object constructed. Releasing it gives
  the heap its block back, but destroys the first object only, whatever number is given: the
  others stay.
\<close>

theorem array_new_scalar_delete:
  assumes wf: "bin_wf (ar_mm m)" and room: "card (small_blocks (ar_mm m)) < 100"
    and size: "0 < sz" "0 < n" "unat n * unat sz \<le> 64"
  shows "\<exists>p m' m''. advanced_allocate pdiff sz dflt n m = Inr (p, m') \<and> p \<notin> small_blocks (ar_mm m)
    \<and> (\<forall>i < unat n. ar_at m' (p + of_nat i * sz) = Some dflt)
    \<and> advanced_deallocate p k m' = Inr m'' \<and> ar_mm m'' = ar_mm m \<and> ar_at m'' = (ar_at m')(p := None)"
proof -
  have bytes: "unat (n * sz) = unat n * unat sz" using size(3) by (simp add: unat_word_ariths)
  have pos: "0 < unat n * unat sz" using size(1,2) by (simp add: word_less_nat_alt)
  then have sz: "0 < n * sz" "n * sz \<le> 64" using size(3) bytes by (simp_all add: word_less_nat_alt word_le_nat_alt)
  obtain p mm where p: "malloc_fastbin (ar_mm m) = Inr (p, mm)" "p \<noteq> 0" "p \<notin> small_blocks (ar_mm m)"
      "small_blocks mm = insert p (small_blocks (ar_mm m))" "bin_wf mm"
    using sb.get_fresh [OF wf] room by blast
  have new: "operator_new pdiff (n * sz) (ar_mm m) = Inr (p, mm)" using operator_new_small [OF sz] p(1) by simp
  obtain j where "j < 100" "p = slot_addr mm j" using p(4) used_slots_props(2) [of mm] unfolding small_blocks_def by blast
  then have "unat p + 64 \<le> unat (hp_big_chunks (mapped_heap mm))" using small_block_bounds(2) [OF p(5)] by simp
  then have "unat p + 64 < 2 ^ 32" using unsigned_less [of "hp_big_chunks (mapped_heap mm)", where ?'a = nat] by simp
  then obtain objs where objs: "construct_each p sz dflt (unat n) (ar_at m) = Inr objs" "\<forall>i < unat n. objs (p + of_nat i * sz) = Some dflt"
    using construct_each_result [OF p(2) _ size(1), of "unat n" dflt "ar_at m"] size(3) by auto
  have "advanced_allocate pdiff sz dflt n m = Inr (p, m\<lparr>ar_mm := mm, ar_at := objs\<rparr>)"
    using size(3) new objs(1) by (simp add: advanced_allocate_def)
  moreover have "operator_delete p mm = Inr (ar_mm m)" by (rule free_malloc_small [OF wf sz new p(2)])
  then have "advanced_deallocate p k (m\<lparr>ar_mm := mm, ar_at := objs\<rparr>) = Inr (m\<lparr>ar_at := objs(p := None)\<rparr>)"
    using p(2) by (simp add: advanced_deallocate_def destroy_def)
  ultimately show ?thesis using p(3) objs(2) by simp
qed

theorem array_new_scalar_delete_witness:
  "\<exists>p m' m''. advanced_allocate (\<lambda>_ _. 0) 8 CHR ''x'' 3 \<lparr>ar_mm = boot_heap, ar_at = Map.empty\<rparr> = Inr (p, m')
    \<and> advanced_deallocate p 3 m' = Inr m'' \<and> ar_mm m'' = boot_heap"
  using array_new_scalar_delete [of "\<lparr>ar_mm = boot_heap, ar_at = Map.empty :: u32 \<Rightarrow> char option\<rparr>" 8 3 "\<lambda>_ _. 0" "CHR ''x''" 3]
    boot_heap_wf(1,3) by auto

end
