(* ===== verification/Cxxabi.thy ===== *)
theory Cxxabi
  imports Prelude
begin

text \<open>
  The C++ runtime's table of exit handlers (\<^verbatim>\<open>icxxabi.cpp\<close>). A handler is code the table only points
  to: calling one is the parameter \<open>call\<close>, which may change the table and the rest of the world.
\<close>

section \<open>State\<close>

definition ATEXIT_MAX_FUNCS :: u32 where "ATEXIT_MAX_FUNCS = 128"

record atexit_func_entry_t =
  destructor_func :: u32
  obj_ptr :: u32
  dso_handle :: u32

record 'w runtime =
  atexit_funcs :: "atexit_func_entry_t list"
  atexit_func_count :: u32
  rt_world :: 'w

type_synonym 'w call = "u32 \<Rightarrow> u32 \<Rightarrow> 'w runtime \<Rightarrow> 'w runtime outcome"

section \<open>Code\<close>

definition cxa_atexit :: "u32 \<Rightarrow> u32 \<Rightarrow> u32 \<Rightarrow> 'w runtime \<Rightarrow> (u32 \<times> 'w runtime) outcome" where
  "cxa_atexit f objptr dso rt =
     (if atexit_func_count rt \<ge> ATEXIT_MAX_FUNCS then Inr (- 1, rt)
      else and_then (store_at (atexit_funcs rt) (unat (atexit_func_count rt))
                       \<lparr>destructor_func = f, obj_ptr = objptr, dso_handle = dso\<rparr>) (\<lambda>funcs.
             Inr (0, rt\<lparr>atexit_funcs := funcs, atexit_func_count := atexit_func_count rt + 1\<rparr>)))"

text \<open>The two loops of \<^verbatim>\<open>__cxa_finalize\<close>, \<open>i\<close> entries still to go.\<close>

fun finalize_all :: "'w call \<Rightarrow> nat \<Rightarrow> 'w runtime \<Rightarrow> 'w runtime outcome" where
  "finalize_all call 0 rt = Inr rt"
| "finalize_all call (Suc i) rt =
     and_then (load_at (atexit_funcs rt) i) (\<lambda>e.
     and_then (if destructor_func e \<noteq> 0 then call (destructor_func e) (obj_ptr e) rt else Inr rt) (\<lambda>rt.
       finalize_all call i rt))"

fun finalize_matching :: "'w call \<Rightarrow> u32 \<Rightarrow> nat \<Rightarrow> 'w runtime \<Rightarrow> 'w runtime outcome" where
  "finalize_matching call f 0 rt = Inr rt"
| "finalize_matching call f (Suc i) rt =
     and_then (load_at (atexit_funcs rt) i) (\<lambda>e.
     and_then (if destructor_func e = f
               then and_then (call (destructor_func e) (obj_ptr e) rt) (\<lambda>rt.
                    and_then (load_at (atexit_funcs rt) i) (\<lambda>e.
                    and_then (store_at (atexit_funcs rt) i (e\<lparr>destructor_func := 0\<rparr>)) (\<lambda>funcs.
                      Inr (rt\<lparr>atexit_funcs := funcs\<rparr>))))
               else Inr rt) (\<lambda>rt.
       finalize_matching call f i rt))"

definition cxa_finalize :: "'w call \<Rightarrow> u32 \<Rightarrow> 'w runtime \<Rightarrow> 'w runtime outcome" where
  "cxa_finalize call f rt =
     (if f = 0 then finalize_all call (unat (atexit_func_count rt)) rt
      else finalize_matching call f (unat (atexit_func_count rt)) rt)"

section \<open>Facts\<close>

text \<open>A handler that leaves the table alone and acts on the rest of the world by \<open>act\<close>.\<close>

definition quiet :: "(u32 \<Rightarrow> u32 \<Rightarrow> 'w \<Rightarrow> 'w) \<Rightarrow> 'w call" where
  "quiet act f x rt = Inr (rt\<lparr>rt_world := act f x (rt_world rt)\<rparr>)"

text \<open>The entries in use, and what running some of them, the last one first, does.\<close>

definition entries :: "'w runtime \<Rightarrow> atexit_func_entry_t list" where
  "entries rt = take (unat (atexit_func_count rt)) (atexit_funcs rt)"

definition table_wf :: "'w runtime \<Rightarrow> bool" where
  "table_wf rt \<longleftrightarrow> length (atexit_funcs rt) = 128 \<and> unat (atexit_func_count rt) \<le> 128"

definition run_back :: "(u32 \<Rightarrow> u32 \<Rightarrow> 'w \<Rightarrow> 'w) \<Rightarrow> (u32 \<Rightarrow> bool) \<Rightarrow> atexit_func_entry_t list \<Rightarrow> 'w \<Rightarrow> 'w" where
  "run_back act P es w =
     fold (\<lambda>e. act (destructor_func e) (obj_ptr e)) (rev (filter (\<lambda>e. P (destructor_func e)) es)) w"

definition unset :: "u32 \<Rightarrow> atexit_func_entry_t list \<Rightarrow> atexit_func_entry_t list" where
  "unset f = map (\<lambda>e. if destructor_func e = f then e\<lparr>destructor_func := 0\<rparr> else e)"

lemma run_back_snoc:
  "run_back act P (es @ [e]) w = run_back act P es (if P (destructor_func e) then act (destructor_func e) (obj_ptr e) w else w)"
  by (simp add: run_back_def)

lemma length_unset [simp]: "length (unset f es) = length es"
  by (simp add: unset_def)

lemma run_back_unset: "f \<noteq> 0 \<Longrightarrow> run_back act (\<lambda>g. g = f) (unset f es) w = w"
  and run_back_unset_others: "run_back act (\<lambda>g. g \<noteq> 0) (unset f es) w = run_back act (\<lambda>g. g \<noteq> 0 \<and> g \<noteq> f) es w"
  by (induction es arbitrary: w rule: rev_induct) (auto simp: unset_def run_back_def)

lemma unset_idem: "f \<noteq> 0 \<Longrightarrow> unset f (unset f es) = unset f es"
  by (simp add: unset_def)

lemma finalize_all_quiet:
  assumes "i \<le> length (atexit_funcs rt)"
  shows "finalize_all (quiet act) i rt =
     Inr (rt\<lparr>rt_world := run_back act (\<lambda>g. g \<noteq> 0) (take i (atexit_funcs rt)) (rt_world rt)\<rparr>)"
  using assms
proof (induction i arbitrary: rt)
  case 0
  then show ?case by (simp add: run_back_def)
next
  case (Suc i)
  then show ?case by (simp add: quiet_def take_Suc_conv_app_nth run_back_snoc)
qed

lemma finalize_matching_quiet:
  assumes "i \<le> length (atexit_funcs rt)" and "f \<noteq> 0"
  shows "finalize_matching (quiet act) f i rt =
     Inr (rt\<lparr>atexit_funcs := unset f (take i (atexit_funcs rt)) @ drop i (atexit_funcs rt),
             rt_world := run_back act (\<lambda>g. g = f) (take i (atexit_funcs rt)) (rt_world rt)\<rparr>)"
  using assms
proof (induction i arbitrary: rt)
  case 0
  then show ?case by (simp add: run_back_def unset_def)
next
  case (Suc i)
  let ?e = "atexit_funcs rt ! i"
  have drop: "drop i (atexit_funcs rt) = ?e # drop (Suc i) (atexit_funcs rt)" using Suc.prems(1) by (simp add: Cons_nth_drop_Suc)
  have upd: "drop i ((atexit_funcs rt)[i := x]) = x # drop (Suc i) (atexit_funcs rt)" for x
    using Suc.prems(1) by (simp add: drop_update_swap drop)
  show ?case
    using Suc by (cases "destructor_func ?e = f")
      (simp_all add: quiet_def take_Suc_conv_app_nth run_back_snoc unset_def drop upd)
qed

lemma cxa_finalize_quiet:
  assumes "table_wf rt"
  shows "cxa_finalize (quiet act) 0 rt = Inr (rt\<lparr>rt_world := run_back act (\<lambda>g. g \<noteq> 0) (entries rt) (rt_world rt)\<rparr>)"
    and "f \<noteq> 0 \<Longrightarrow> \<exists>rt'. cxa_finalize (quiet act) f rt = Inr rt' \<and> table_wf rt' \<and> entries rt' = unset f (entries rt)
      \<and> rt_world rt' = run_back act (\<lambda>g. g = f) (entries rt) (rt_world rt)
      \<and> rt' = rt\<lparr>atexit_funcs := atexit_funcs rt', rt_world := rt_world rt'\<rparr>
      \<and> atexit_funcs rt' = unset f (entries rt) @ drop (unat (atexit_func_count rt)) (atexit_funcs rt)"
  using assms finalize_all_quiet [of "unat (atexit_func_count rt)" rt act]
    finalize_matching_quiet [of "unat (atexit_func_count rt)" rt f act]
  by (simp_all add: cxa_finalize_def entries_def table_wf_def)

text \<open>The table is cleared once: a second call for the same function changes nothing at all.\<close>

lemma cxa_finalize_twice:
  assumes "table_wf rt" and "f \<noteq> 0" and "cxa_finalize (quiet act) f rt = Inr rt'"
  shows "cxa_finalize (quiet act) f rt' = Inr rt'"
proof -
  have wf: "table_wf rt'" and es: "entries rt' = unset f (entries rt)"
    using cxa_finalize_quiet(2) [OF assms(1,2), of act] assms(3) by auto
  obtain rt'' where r: "cxa_finalize (quiet act) f rt' = Inr rt''" "entries rt'' = unset f (entries rt')"
      "rt_world rt'' = run_back act (\<lambda>g. g = f) (entries rt') (rt_world rt')"
      "rt'' = rt'\<lparr>atexit_funcs := atexit_funcs rt'', rt_world := rt_world rt''\<rparr>"
      "atexit_funcs rt'' = unset f (entries rt') @ drop (unat (atexit_func_count rt')) (atexit_funcs rt')"
    using cxa_finalize_quiet(2) [OF wf assms(2), of act] by blast
  have "atexit_funcs rt'' = atexit_funcs rt'"
    using r(5) unset_idem [OF assms(2), of "entries rt"] es append_take_drop_id unfolding entries_def by metis
  moreover have "rt_world rt'' = rt_world rt'" using r(3) es by (simp only: run_back_unset [OF assms(2)])
  ultimately have "rt'' = rt'" using r(4) by simp
  then show ?thesis using r(1) by simp
qed

text \<open>Registering a list of handlers.\<close>

fun cxa_atexit_all :: "(u32 \<times> u32 \<times> u32) list \<Rightarrow> 'w runtime \<Rightarrow> 'w runtime outcome" where
  "cxa_atexit_all [] rt = Inr rt"
| "cxa_atexit_all ((f, x, d) # hs) rt = and_then (cxa_atexit f x d rt) (\<lambda>(_, rt). cxa_atexit_all hs rt)"

definition entry_of :: "u32 \<times> u32 \<times> u32 \<Rightarrow> atexit_func_entry_t" where
  "entry_of = (\<lambda>(f, x, d). \<lparr>destructor_func = f, obj_ptr = x, dso_handle = d\<rparr>)"

lemma cxa_atexit_all_entries:
  assumes "table_wf rt" and "length (entries rt) + length hs \<le> 128"
  shows "\<exists>rt'. cxa_atexit_all hs rt = Inr rt' \<and> table_wf rt' \<and> entries rt' = entries rt @ map entry_of hs \<and> rt_world rt' = rt_world rt"
  using assms
proof (induction hs arbitrary: rt)
  case (Cons h hs)
  obtain f x d where h: "h = (f, x, d)" by (cases h)
  let ?n = "unat (atexit_func_count rt)"
  have n: "?n < 128" "length (entries rt) = ?n" using Cons.prems by (simp_all add: entries_def table_wf_def)
  define rt1 where "rt1 = rt\<lparr>atexit_funcs := (atexit_funcs rt)[?n := entry_of h], atexit_func_count := atexit_func_count rt + 1\<rparr>"
  have count: "unat (atexit_func_count rt + 1) = Suc ?n" using n(1) unat_plus_no_wrap [of "atexit_func_count rt" 1] by simp
  have step: "cxa_atexit f x d rt = Inr (0, rt1)"
    using n(1) Cons.prems(1) by (simp add: cxa_atexit_def ATEXIT_MAX_FUNCS_def word_le_nat_alt table_wf_def rt1_def entry_of_def h)
  have wf1: "table_wf rt1" "entries rt1 = entries rt @ [entry_of h]"
    using Cons.prems(1) n(1) count by (simp_all add: table_wf_def rt1_def entries_def take_Suc_conv_app_nth)
  obtain rt' where "cxa_atexit_all hs rt1 = Inr rt'" "table_wf rt'" "entries rt' = entries rt1 @ map entry_of hs" "rt_world rt' = rt_world rt1"
    using Cons.IH [OF wf1(1)] wf1(2) Cons.prems(2) by auto
  then show ?case using step wf1(2) by (intro exI [of _ rt']) (simp add: h rt1_def)
qed simp

lemma run_back_entries:
  "run_back act P (map entry_of hs) w = fold (\<lambda>(f, x, d). act f x) (rev (filter (\<lambda>(f, x, d). P f) hs)) w"
proof -
  have "filter (\<lambda>e. P (destructor_func e)) (map entry_of hs) = map entry_of (filter (\<lambda>(f, x, d). P f) hs)"
    by (induction hs) (auto simp: entry_of_def)
  moreover have "fold (\<lambda>e. act (destructor_func e) (obj_ptr e)) (map entry_of l) w = fold (\<lambda>(f, x, d). act f x) l w" for l w
    by (induction l arbitrary: w) (auto simp: entry_of_def)
  ultimately show ?thesis by (simp add: run_back_def rev_map)
qed

section \<open>Properties\<close>

text \<open>
  C40: Exit handlers run in the reverse of the order they were registered in. With up to 128 of them
  in the table, none of which changes the table, one call of \<^verbatim>\<open>__cxa_finalize(0)\<close> runs all, the last one first, each once
  with its object, but unsets none: a second call runs all of them again.
  \<^verbatim>\<open>__cxa_finalize(f)\<close> runs exactly those of \<open>f\<close>, in that order, and unsets them: calling it again
  does nothing, and \<^verbatim>\<open>__cxa_finalize(0)\<close> after it runs exactly the others. A handler more than 128 is
  refused with -1.
\<close>

theorem exit_handlers_run_backwards:
  assumes "table_wf rt" and "atexit_func_count rt = 0" and "length hs \<le> 128" and "\<forall>h \<in> set hs. fst h \<noteq> 0" and "f \<noteq> 0"
  shows "\<exists>rt1 rt2 rt3. cxa_atexit_all hs rt = Inr rt1
    \<and> cxa_finalize (quiet act) 0 rt1 = Inr (rt1\<lparr>rt_world := fold (\<lambda>(g, x, d). act g x) (rev hs) (rt_world rt)\<rparr>)
    \<and> cxa_finalize (quiet act) 0 (rt1\<lparr>rt_world := fold (\<lambda>(g, x, d). act g x) (rev hs) (rt_world rt)\<rparr>)
        = Inr (rt1\<lparr>rt_world := fold (\<lambda>(g, x, d). act g x) (rev hs) (fold (\<lambda>(g, x, d). act g x) (rev hs) (rt_world rt))\<rparr>)
    \<and> cxa_finalize (quiet act) f rt1 = Inr rt2
    \<and> rt_world rt2 = fold (\<lambda>(g, x, d). act g x) (rev (filter (\<lambda>(g, x, d). g = f) hs)) (rt_world rt)
    \<and> cxa_finalize (quiet act) f rt2 = Inr rt2
    \<and> cxa_finalize (quiet act) 0 rt2 = Inr rt3
    \<and> rt_world rt3 = fold (\<lambda>(g, x, d). act g x) (rev (filter (\<lambda>(g, x, d). g \<noteq> f) hs)) (rt_world rt2)
    \<and> (length hs = 128 \<longrightarrow> cxa_atexit f x d rt1 = Inr (- 1, rt1))"
proof -
  have none: "entries rt = []" using assms(2) by (simp add: entries_def)
  obtain rt1 where rt1: "cxa_atexit_all hs rt = Inr rt1" "table_wf rt1" "entries rt1 = map entry_of hs" "rt_world rt1 = rt_world rt"
    using cxa_atexit_all_entries [OF assms(1), of hs] assms(3) none by auto
  obtain rt2 where rt2: "cxa_finalize (quiet act) f rt1 = Inr rt2" "table_wf rt2" "entries rt2 = unset f (entries rt1)"
      "rt_world rt2 = run_back act (\<lambda>g. g = f) (entries rt1) (rt_world rt1)"
    using cxa_finalize_quiet(2) [OF rt1(2) assms(5), of act] by blast
  have all: "filter (\<lambda>(g, x, d). g \<noteq> 0) hs = hs" "filter (\<lambda>(g, x, d). g \<noteq> 0 \<and> g \<noteq> f) hs = filter (\<lambda>(g, x, d). g \<noteq> f) hs"
    using assms(4) by (auto simp: filter_id_conv intro!: filter_cong)
  have full: "cxa_atexit f x d rt1 = Inr (- 1, rt1)" if "length hs = 128"
  proof -
    have "length (entries rt1) = 128" using rt1(3) that by simp
    then have "128 \<le> unat (atexit_func_count rt1)" by (simp add: entries_def)
    then show ?thesis by (simp add: cxa_atexit_def ATEXIT_MAX_FUNCS_def word_le_nat_alt)
  qed
  define rt3 where "rt3 = rt2\<lparr>rt_world := run_back act (\<lambda>g. g \<noteq> 0) (entries rt2) (rt_world rt2)\<rparr>"
  have "cxa_finalize (quiet act) 0 rt2 = Inr rt3" using cxa_finalize_quiet(1) [OF rt2(2), of act] by (simp add: rt3_def)
  moreover have "cxa_finalize (quiet act) 0 (rt1\<lparr>rt_world := v\<rparr>)
      = Inr (rt1\<lparr>rt_world := fold (\<lambda>(g, x, d). act g x) (rev hs) v\<rparr>)" for v
  proof -
    have "table_wf (rt1\<lparr>rt_world := v\<rparr>)" "entries (rt1\<lparr>rt_world := v\<rparr>) = map entry_of hs"
      using rt1(2,3) by (simp_all add: table_wf_def entries_def)
    then show ?thesis using cxa_finalize_quiet(1) [of "rt1\<lparr>rt_world := v\<rparr>" act] all(1) by (simp add: run_back_entries)
  qed
  ultimately show ?thesis
    using rt1(1,3,4) rt2(1,3,4) cxa_finalize_quiet(1) [OF rt1(2), of act]
      cxa_finalize_twice [OF rt1(2) assms(5) rt2(1)] full all
    by (intro exI [of _ rt1] exI [of _ rt2] exI [of _ rt3]) (simp add: rt3_def run_back_unset_others run_back_entries)
qed

theorem exit_handlers_run_backwards_witness:
  "\<exists>rt1 rt2. cxa_atexit_all [(5, 1, 0), (6, 2, 0), (5, 3, 0)] \<lparr>atexit_funcs = replicate 128 (entry_of (0, 0, 0)), atexit_func_count = 0, rt_world = []\<rparr>
      = Inr rt1
    \<and> cxa_finalize (quiet (\<lambda>f x w. w @ [(f, x)])) 5 rt1 = Inr rt2 \<and> rt_world rt2 = [(5, 3), (5, 1)]"
proof -
  let ?rt = "\<lparr>atexit_funcs = replicate 128 (entry_of (0, 0, 0)), atexit_func_count = 0, rt_world = []\<rparr> :: (u32 \<times> u32) list runtime"
  have "table_wf ?rt" "atexit_func_count ?rt = 0" by (simp_all add: table_wf_def)
  from exit_handlers_run_backwards [where hs = "[(5, 1, 0), (6, 2, 0), (5, 3, 0)]" and f = 5 and act = "\<lambda>f x w. w @ [(f, x)]", OF this]
  show ?thesis by (auto simp del: cxa_atexit_all.simps)
qed

end
