(* ===== verification/Spec2Isabelle.thy ===== *)
theory Spec2Isabelle
  imports Timer Keyboard Interrupts Stdlib Ata Ext2 Kernel_Irq Sessions Kallocators Cxxabi
begin

text \<open>
  Verification library of the juos kernel, a small 32-bit x86 system in C++ (\<^verbatim>\<open>src/kernel\<close>,
  \<^verbatim>\<open>src/libc\<close>, \<^verbatim>\<open>src/libstdcxx\<close>).

  The program. \<^verbatim>\<open>kernel_main\<close> sets up the screen, the segment and interrupt tables with the
  interrupt controller, the memory manager with paging, and the process system, registers the
  keyboard and clock handlers, starts the timer and idles. From then on the kernel is driven by
  interrupts: each clock tick asks the scheduler for a process and switches to it, each key goes
  into the input buffer of the running process. The first process is the kernel's second stage,
  which registers two programs and starts the shell; the shell reads lines and starts and ends
  processes. Everything made with \<^verbatim>\<open>new\<close> comes from the memory manager; page tables come from
  a bump allocator below it. A disk driver and a file system are present and not started.

  How code becomes definitions. A global is a field of the component's state record, an operation is
  a function from state to \<open>outcome\<close>: \<open>Inl\<close> a fault (a null or dangling access, an access out of an
  object, a panic, a wait that cannot end) or \<open>Inr\<close> the result with the new state. Addresses and
  machine integers are words of their width and wrap. Linked objects live in stores from addresses,
  so aliasing is that of the code. Loops are structural recursion, recursion on a measure, or
  \<^verbatim>\<open>partial_function\<close> where they may run for ever; the only fuel is the number of rounds of the
  two endless loops (\<open>loop2\<close>, \<open>shell_rounds\<close>), and properties speak about one round. Port accesses
  and privileged instructions are events of a history; inline assembly is its effect on the
  registers the code uses.

  Theories, in the order of the code, with the files of \<^verbatim>\<open>src\<close> they model.

  Memory. \<open>Kuseful\<close> (\<^verbatim>\<open>kuseful.h\<close>, \<^verbatim>\<open>kbitset.h\<close>); \<open>Kheap\<close> (\<^verbatim>\<open>kheap.cpp\<close>), the bump allocator;
  \<open>Frames\<close> (\<^verbatim>\<open>frame_table.cpp\<close>); \<open>Paging\<close> (\<^verbatim>\<open>paging.cpp\<close>), with \<open>Paging_Facts\<close>, what the
  processor's page walk sees of a mapping, and \<open>Paging_Boot\<close>, the boot maps, process directories and
  page faults; \<open>Kmm\<close> (\<^verbatim>\<open>kmm.cpp\<close>, \<^verbatim>\<open>mem_operators.hpp\<close>), with \<open>Kmm_Small\<close>, the bin of small
  blocks, \<open>Kmm_Big\<close>, the list of chunks against the abstract map of live blocks, and \<open>Kmm_Props\<close>,
  the invariant of every run whose requests meet \<open>can_serve\<close> and the runs that break it; \<open>Kallocators\<close> (\<^verbatim>\<open>kallocators.hpp\<close>), the typed
  allocators over both heaps.

  Libraries. \<open>Libc\<close> (\<^verbatim>\<open>libc/string\<close>); \<open>Tty\<close> (\<^verbatim>\<open>tty.cpp\<close>) against a flat screen; \<open>Printf\<close>
  (\<^verbatim>\<open>printf.cpp\<close>) against the pieces of a format; \<open>Queue\<close>, \<open>Vector\<close>, \<open>KString\<close>
  (\<^verbatim>\<open>data_structures\<close>) against lists and texts; \<open>Stdlib\<close> (\<^verbatim>\<open>libstdcxx\<close>); \<open>Cxxabi\<close>
  (\<^verbatim>\<open>icxxabi.cpp\<close>), exit handlers run in reverse order.

  Processes. \<open>Scheduler\<close> (\<^verbatim>\<open>schedualer.cpp\<close>) against the two lists of processes not cancelled, with
  the round robin over the one in use; \<open>Processing\<close> (\<^verbatim>\<open>process.cpp\<close>), the invariant \<open>proc_inv\<close> that joins scheduler and
  heap, starting and ending, and the stack words of \<^verbatim>\<open>Start::Code\<close> (\<^verbatim>\<open>process.S\<close>); \<open>Timer\<close> (\<^verbatim>\<open>timer.cpp\<close>), the context switch and what a preempted
  process finds; \<open>Lock\<close> (\<^verbatim>\<open>lock.h\<close>), threads in any order.

  Devices. \<open>Dtables\<close> (\<^verbatim>\<open>gdt.cpp\<close>, \<^verbatim>\<open>idt.cpp\<close>, \<^verbatim>\<open>pic.cpp\<close>, \<^verbatim>\<open>pit.cpp\<close>); \<open>Interrupts\<close>
  (\<^verbatim>\<open>interrupts.cpp\<close>); \<open>Keyboard\<close> (\<^verbatim>\<open>ps2_keyboard.cpp\<close>, \<^verbatim>\<open>keyboard.cpp\<close>, \<^verbatim>\<open>kio.cpp\<close>) against a line
  editor; \<open>Ata\<close> (\<^verbatim>\<open>ata.cpp\<close>), on a drive whose state is read off the accesses it has seen
  (\<open>drive_run\<close>) and whose documented answers are a hypothesis (\<open>obeys\<close>); \<open>Ext2\<close> (\<^verbatim>\<open>ext2.cpp\<close>).

  The whole. \<open>Kernel\<close> (\<^verbatim>\<open>kernel.cpp\<close>), the composition; \<open>Kernel_Boot\<close>, the state the boot
  sequence leaves; \<open>Address_Spaces\<close>, the directories of several processes at once: each sees its own
  frames, none sees a page of another, and frames suffice for seven; \<open>Shell\<close>, what a line does; \<open>Boot\<close>,
  from the entry of the kernel through two clock ticks to the shell; \<open>Sessions\<close>, ticks and lines in
  any order after the boot against a machine of process numbers (\<open>session_rep\<close>, a step per moment),
  with the address spaces of all processes; \<open>Kernel_Irq\<close>, the handlers on the whole state, where the
  processes' input buffers, their nodes and the scheduler's share one heap, against a machine of
  processes that take turns with the keys typed while each ran (\<open>kernel_rep\<close>, a step per event).

  Interfaces are locales, each interpreted on the model it describes: \<open>frame_source\<close> (who asks the
  frame table for frames), \<open>small_source\<close> (who asks for small blocks), \<open>fifo\<close> (the scheduler and the
  keyboard on queues), \<open>growable\<close> (who appends to vectors).

  Parameters, for what is not in the sources or not determined by them: \<open>pdiff\<close>, the undefined
  difference of pointers to chunks; \<open>junk\<close>, \<open>g\<close>, \<open>beyond\<close> and like names, what memory holds where
  nothing was stored; \<open>here\<close>, the address \<^verbatim>\<open>get_ip\<close> returns; \<open>dev\<close>, what ports answer; the
  record \<open>image\<close>, what the linker decides; \<open>call\<close> and \<open>run\<close>, code reached through a pointer; \<open>log\<close>
  and \<open>ceil\<close>, declared and not defined.

  Limits. Every object is taken to be accessed in the address space it lives in. The code keeps the
  objects of processes and the scheduler in the heap of the kernel's directory and loads it around
  most of their uses, but the heap window of a process is mapped to frames of its own
  (\<open>private_frames\<close>): through the cached pointers to its input buffer a process sees its own words, and
  the store that holds them is one in the model. Nodes, process objects and input buffers use the blocks the
  memory manager really hands out. Buffers of vectors and strings are objects of their own: a vector's has the size
  asked for, a string's the size of the block the memory manager would give, but neither takes a slot of the bin or a
  chunk of the list, and making one never fails for lack of room. Where the number of slots counts, the hypotheses
  leave slots for them: 64 keys are typed after the boot where the bin of the model has room for 97. The keyboard's theory
  and the scheduler's each carry the state of the memory manager they run on, and \<open>Kernel_Irq\<close> joins
  them (\<open>running_keyboard\<close>, \<open>put_keyboard\<close>). There, and in \<open>Sessions\<close>, an interrupt comes between
  operations of a process, not inside one; the line a session runs is given, where \<open>shell_round\<close> reads
  it from the keyboard. The disk of the file system is its sectors, read and written one per call.
  Bounds in hypotheses are those the code needs to stay in 32 bits or in its arrays: a kernel image
  below 240 MB, at most 2^30 elements in a vector, 100 small blocks, 2^29 ticks and lines in a session. A
  transfer with the disk starts on a drive that is not busy, since the driver names the sector before it waits.

  Not modelled. The contents of stacks: the code that runs between a load of \<^verbatim>\<open>cr3\<close> with the
  kernel's directory and its return to the old one has the kernel's stack pages under its stack
  pointer; only the values are modelled that the code keeps in static variables for that reason, and
  its parameters as if in registers. Assembly files, apart from the effect of those the code calls;
  logging, which is compiled out; \<^verbatim>\<open>move.hpp\<close>, whose only function compiles with no argument; types with
  destructors in the typed allocators; headers that only declare; \<^verbatim>\<open>output.cpp\<close>, a generated
  concatenation of the other files.
\<close>

end
